(* ===== verification/Gyp_Shell.thy ===== *)
theory Gyp_Shell
  imports Py_Prelude
begin

text \<open>
  Quoting of command arguments for POSIX shells (\<open>common.py\<close>, \<open>EncodePOSIXShellArgument\<close> and
  \<open>EncodePOSIXShellList\<close>), against a reference lexer for the literal part of the shell's word
  syntax (IEEE 1003.1 XCU 2.2, the document the source cites).
\<close>

section \<open>The encoder\<close>

text \<open>The character class of \<open>_quote\<close>; the regular expression also matches the empty string.\<close>

definition quote_chars :: "char list" where
  "quote_chars =
     [CHR 0x09, CHR 0x0A, CHR '' '', CHR ''#'', CHR ''$'', CHR ''%'', CHR ''&'', CHR 0x27,
      CHR ''('', CHR '')'', CHR ''*'', CHR '';'', CHR ''<'', CHR ''='', CHR ''>'', CHR ''?'',
      CHR ''['', CHR ''{'', CHR ''|'', CHR ''}'', CHR ''~'']"

definition quote_matches :: "string \<Rightarrow> bool" where
  "quote_matches s \<longleftrightarrow> s = [] \<or> (\<exists>c \<in> set s. c \<in> set quote_chars)"

text \<open>The character class of \<open>_escape\<close>, and \<open>re.sub(_escape, r'\\\1', argument)\<close>.\<close>

definition escape_chars :: "char list" where
  "escape_chars = [CHR 0x22, CHR 0x5C, CHR 0x60]"

definition escape_sub :: "string \<Rightarrow> string" where
  "escape_sub s =
     concat (map (\<lambda>c. if c \<in> set escape_chars then [CHR 0x5C, c] else [c]) s)"

text \<open>The argument is a string: \<open>str(argument)\<close> is applied first where it is a number.\<close>

definition EncodePOSIXShellArgument :: "string \<Rightarrow> string" where
  "EncodePOSIXShellArgument argument =
     (let quote = (if quote_matches argument then [CHR 0x22] else [])
      in quote @ escape_sub argument @ quote)"

definition EncodePOSIXShellList :: "string list \<Rightarrow> string" where
  "EncodePOSIXShellList args = join '' '' (map EncodePOSIXShellArgument args)"

section \<open>A reference lexer\<close>

text \<open>
  \<open>sh_lex quoted word text\<close> splits the text into literal words, as a shell does. \<open>None\<close> is text
  that a shell does not read as literal words: an operator, a comment, an expansion or a pattern
  outside quotes, an expansion inside double quotes, or an unclosed quote. The flag says whether
  the lexer is between double quotes; \<open>word\<close> is the word read so far, if one has begun.
\<close>

definition sh_special :: "char list" where
  "sh_special =
     [CHR 0x0A, CHR ''|'', CHR ''&'', CHR '';'', CHR ''<'', CHR ''>'', CHR ''('', CHR '')'',
      CHR ''$'', CHR 0x60, CHR 0x27, CHR ''*'', CHR ''?'', CHR ''['', CHR ''#'', CHR ''~'',
      CHR ''='', CHR ''%'', CHR ''{'', CHR ''}'']"

definition word_of :: "string option \<Rightarrow> string" where
  "word_of w = (case w of None \<Rightarrow> [] | Some s \<Rightarrow> s)"

fun sh_lex :: "bool \<Rightarrow> string option \<Rightarrow> string \<Rightarrow> string list option" where
  "sh_lex True w [] = None"
| "sh_lex False w [] = Some (case w of None \<Rightarrow> [] | Some s \<Rightarrow> [s])"
| "sh_lex False w (c # cs) =
     (if c = CHR '' '' \<or> c = CHR 0x09
      then (case w of
              None \<Rightarrow> sh_lex False None cs
            | Some s \<Rightarrow> map_option (Cons s) (sh_lex False None cs))
      else if c = CHR 0x22 then sh_lex True (Some (word_of w)) cs
      else if c = CHR 0x5C
      then (case cs of
              [] \<Rightarrow> None
            | d # ds \<Rightarrow> if d = CHR 0x0A then sh_lex False w ds
                       else sh_lex False (Some (word_of w @ [d])) ds)
      else if c \<in> set sh_special then None
      else sh_lex False (Some (word_of w @ [c])) cs)"
| "sh_lex True w (c # cs) =
     (if c = CHR 0x22 then sh_lex False w cs
      else if c = CHR 0x5C
      then (case cs of
              [] \<Rightarrow> None
            | d # ds \<Rightarrow> if d = CHR 0x0A then sh_lex True w ds
                       else if d \<in> {CHR ''$'', CHR 0x60, CHR 0x22, CHR 0x5C}
                       then sh_lex True (Some (word_of w @ [d])) ds
                       else sh_lex True (Some (word_of w @ [c, d])) ds)
      else if c \<in> {CHR ''$'', CHR 0x60} then None
      else sh_lex True (Some (word_of w @ [c])) cs)"

definition sh_words :: "string \<Rightarrow> string list option" where
  "sh_words text = sh_lex False None text"

section \<open>The encoder is inverted by the lexer\<close>

lemma escape_sub_Nil [simp]: "escape_sub [] = []"
  by (simp add: escape_sub_def)

lemma escape_sub_Cons:
  "escape_sub (c # s) =
     (if c \<in> set escape_chars then CHR 0x5C # c # escape_sub s else c # escape_sub s)"
  by (simp add: escape_sub_def)

lemma word_of_Some [simp]: "word_of (Some s) = s"
  by (simp add: word_of_def)

lemma sh_lex_escaped_quoted:
  "CHR ''$'' \<notin> set s \<Longrightarrow>
   sh_lex True (Some w) (escape_sub s @ CHR 0x22 # rest) = sh_lex False (Some (w @ s)) rest"
  by (induction s arbitrary: w) (auto simp: escape_sub_Cons escape_chars_def)

lemma special_quoted: "c \<in> set sh_special \<Longrightarrow> c \<notin> set escape_chars \<Longrightarrow> c \<in> set quote_chars"
  by (auto simp: sh_special_def escape_chars_def quote_chars_def)

lemma sh_lex_escaped_plain:
  "s \<noteq> [] \<or> w \<noteq> None \<Longrightarrow> \<forall>c \<in> set s. c \<notin> set quote_chars \<Longrightarrow>
   sh_lex False w (escape_sub s @ rest) = sh_lex False (Some (word_of w @ s)) rest"
proof (induction s arbitrary: w)
  case Nil
  then show ?case by auto
next
  case (Cons c s)
  then have IH: "sh_lex False (Some (word_of w @ [c])) (escape_sub s @ rest)
      = sh_lex False (Some (word_of w @ c # s)) rest"
    by simp
  from Cons.prems(2) have c: "c \<notin> set quote_chars" by simp
  show ?case
  proof (cases "c \<in> set escape_chars")
    case True
    with IH show ?thesis by (auto simp: escape_sub_Cons escape_chars_def)
  next
    case False
    with c special_quoted have "c \<notin> set sh_special" by blast
    with c False IH show ?thesis
      by (auto simp: escape_sub_Cons escape_chars_def quote_chars_def)
  qed
qed

lemma sh_lex_argument:
  assumes "CHR ''$'' \<notin> set a"
  shows "sh_lex False None (EncodePOSIXShellArgument a @ rest) = sh_lex False (Some a) rest"
proof (cases "quote_matches a")
  case True
  with sh_lex_escaped_quoted [OF assms, of "[]" rest] show ?thesis
    by (simp add: EncodePOSIXShellArgument_def word_of_def)
next
  case False
  with sh_lex_escaped_plain [of a None rest] show ?thesis
    by (simp add: EncodePOSIXShellArgument_def quote_matches_def word_of_def)
qed

text \<open>
  C27: a POSIX shell reads the encoded list back as the arguments it encodes, for arguments with no
  dollar sign (which the encoder leaves unescaped on purpose), the empty argument included.
\<close>

theorem sh_words_encoded:
  "\<forall>a \<in> set args. CHR ''$'' \<notin> set a \<Longrightarrow> sh_words (EncodePOSIXShellList args) = Some args"
proof (induction args)
  case Nil
  then show ?case by (simp add: sh_words_def EncodePOSIXShellList_def)
next
  case (Cons a args)
  then have IH: "sh_lex False None (join '' '' (map EncodePOSIXShellArgument args)) = Some args"
    by (simp add: sh_words_def EncodePOSIXShellList_def)
  from Cons.prems have a: "CHR ''$'' \<notin> set a" by simp
  show ?case
    using IH sh_lex_argument [OF a] sh_lex_argument [OF a, of "[]"]
    by (simp add: sh_words_def EncodePOSIXShellList_def join_Cons)
qed

theorem sh_words_encoded_witness:
  "sh_words (EncodePOSIXShellList [''a b'', [], [CHR 0x22, CHR 0x5C, CHR 0x60]])
   = Some [''a b'', [], [CHR 0x22, CHR 0x5C, CHR 0x60]]"
  by (rule sh_words_encoded) simp

end
