(* ===== verification/Gyp_Sort.thy ===== *)
theory Gyp_Sort
  imports Py_Prelude "HOL-Library.List_Lexorder"
begin

text \<open>
  \<open>common.py\<close>: removing duplicates (\<open>uniquer\<close>), the platform's flavor (\<open>GetFlavor\<close>) and the
  depth-first topological sort (\<open>TopologicallySorted\<close>).
\<close>

section \<open>uniquer\<close>

text \<open>The loop's state is the dictionary \<open>seen\<close> (its keys) and \<open>result\<close>.\<close>

definition uniquer_step :: "('a \<Rightarrow> 'b) \<Rightarrow> 'a \<Rightarrow> 'b list \<times> 'a list \<Rightarrow> 'b list \<times> 'a list" where
  "uniquer_step idfun item = (\<lambda>(seen, result).
     let marker = idfun item
     in if marker \<in> set seen then (seen, result)
        else (seen @ [marker], result @ [item]))"

definition uniquer :: "'a list \<Rightarrow> ('a \<Rightarrow> 'b) \<Rightarrow> 'a list" where
  "uniquer seq idfun = snd (fold (uniquer_step idfun) seq ([], []))"

lemma uniquer_loop:
  "fold (uniquer_step f) seq (seen, result)
   = (seen @ map f (keep_first f (set seen) seq), result @ keep_first f (set seen) seq)"
  by (induction seq arbitrary: seen result) (auto simp: uniquer_step_def)

lemma uniquer_keep_first: "uniquer seq f = keep_first f {} seq"
  by (simp add: uniquer_def uniquer_loop)

section \<open>GetFlavor\<close>

text \<open>\<open>params\<close> is the generator's parameter dictionary, \<open>platform\<close> is \<open>sys.platform\<close>.\<close>

definition GetFlavor :: "(string \<times> string) list \<Rightarrow> string \<Rightarrow> string" where
  "GetFlavor params platform =
     (let flavors = [(''cygwin'', ''win''), (''win32'', ''win''), (''darwin'', ''mac'')]
      in case map_of params ''flavor'' of
           Some f \<Rightarrow> f
         | None \<Rightarrow>
             (case map_of flavors platform of
                Some f \<Rightarrow> f
              | None \<Rightarrow>
                  if prefix ''sunos'' platform then ''solaris''
                  else if prefix ''freebsd'' platform then ''freebsd''
                  else if prefix ''openbsd'' platform then ''openbsd''
                  else if prefix ''aix'' platform then ''aix''
                  else ''linux''))"

section \<open>TopologicallySorted\<close>

text \<open>
  The three variables the nested function \<open>Visit\<close> shares. \<open>get_edges\<close> is the caller's function;
  memoising it changes no result (\<open>memo_call_correct\<close>). The fuel of \<open>Visit\<close> is the recursion
  depth left.
\<close>

record topo_state =
  visited :: "string list"
  visiting :: "string list"
  ordered_nodes :: "string list"

fun Visit :: "nat \<Rightarrow> (string \<Rightarrow> string list result) \<Rightarrow> string \<Rightarrow> topo_state \<Rightarrow> topo_state result" where
  "Visit 0 get_edges node s = Inl RecursionLimit"
| "Visit (Suc n) get_edges node s =
     (if node \<in> set (visiting s) then Inl (CycleError (visiting s))
      else if node \<in> set (visited s) then Inr s
      else rbind (get_edges node) (\<lambda>neighbors.
           rbind (rfold (Visit n get_edges) neighbors
                    (s\<lparr>visited := node # visited s, visiting := node # visiting s\<rparr>)) (\<lambda>s'.
           Inr (s'\<lparr>visiting := removeAll node (visiting s'),
                   ordered_nodes := node # ordered_nodes s'\<rparr>))))"

definition TopologicallySorted ::
  "nat \<Rightarrow> string list \<Rightarrow> (string \<Rightarrow> string list result) \<Rightarrow> string list result" where
  "TopologicallySorted depth graph get_edges =
     rbind (rfold (Visit depth get_edges) (sort graph)
              \<lparr>visited = [], visiting = [], ordered_nodes = []\<rparr>)
       (\<lambda>s. Inr (ordered_nodes s))"

definition topo_edge :: "(string \<Rightarrow> string list result) \<Rightarrow> string \<Rightarrow> string \<Rightarrow> bool" where
  "topo_edge ge x y \<longleftrightarrow> (\<exists>ys. ge x = Inr ys \<and> y \<in> set ys)"

text \<open>Every node stands before all the nodes it has an edge to.\<close>

definition topo_ordered :: "(string \<Rightarrow> string list result) \<Rightarrow> string list \<Rightarrow> bool" where
  "topo_ordered ge xs \<longleftrightarrow>
     (\<forall>as x bs. xs = as @ x # bs \<longrightarrow> (\<forall>y. topo_edge ge x y \<longrightarrow> y \<in> set bs))"

definition topo_inv :: "(string \<Rightarrow> string list result) \<Rightarrow> topo_state \<Rightarrow> bool" where
  "topo_inv ge s \<longleftrightarrow>
     distinct (visiting s) \<and> distinct (ordered_nodes s)
     \<and> set (visiting s) \<inter> set (ordered_nodes s) = {}
     \<and> set (visited s) = set (visiting s) \<union> set (ordered_nodes s)
     \<and> topo_ordered ge (ordered_nodes s)"

lemma topo_ordered_Cons:
  "topo_ordered ge (x # xs) \<longleftrightarrow> (\<forall>y. topo_edge ge x y \<longrightarrow> y \<in> set xs) \<and> topo_ordered ge xs"
proof
  assume o: "topo_ordered ge (x # xs)"
  then have "\<forall>y. topo_edge ge x y \<longrightarrow> y \<in> set xs" unfolding topo_ordered_def by blast
  moreover have "topo_ordered ge xs"
    unfolding topo_ordered_def using o by (metis append_Cons topo_ordered_def)
  ultimately show "(\<forall>y. topo_edge ge x y \<longrightarrow> y \<in> set xs) \<and> topo_ordered ge xs" ..
next
  assume "(\<forall>y. topo_edge ge x y \<longrightarrow> y \<in> set xs) \<and> topo_ordered ge xs"
  then show "topo_ordered ge (x # xs)"
    unfolding topo_ordered_def by (auto simp: Cons_eq_append_conv)
qed

text \<open>What a call does to the shared state.\<close>

definition topo_visited_to :: "string list \<Rightarrow> topo_state \<Rightarrow> topo_state \<Rightarrow> bool" where
  "topo_visited_to nodes s s' \<longleftrightarrow>
     visiting s' = visiting s \<and> set nodes \<subseteq> set (ordered_nodes s')
     \<and> (\<exists>new. ordered_nodes s' = new @ ordered_nodes s)"

lemma Visit_list:
  assumes "\<And>node s s'. Visit n ge node s = Inr s' \<Longrightarrow> topo_inv ge s \<Longrightarrow>
             topo_inv ge s' \<and> topo_visited_to [node] s s'"
    and "rfold (Visit n ge) nodes s = Inr s'" and "topo_inv ge s"
  shows "topo_inv ge s' \<and> topo_visited_to nodes s s'"
  using assms(2,3)
proof (induction nodes arbitrary: s)
  case Nil
  then show ?case by (simp add: topo_visited_to_def)
next
  case (Cons x nodes)
  then obtain s1 where s1: "Visit n ge x s = Inr s1" "rfold (Visit n ge) nodes s1 = Inr s'" by auto
  with assms(1) Cons.prems have "topo_inv ge s1 \<and> topo_visited_to [x] s s1" by blast
  moreover from this s1 Cons.IH have "topo_inv ge s' \<and> topo_visited_to nodes s1 s'" by blast
  ultimately show ?case by (auto simp: topo_visited_to_def)
qed

lemma Visit_sorted:
  "Visit n ge node s = Inr s' \<Longrightarrow> topo_inv ge s \<Longrightarrow> topo_inv ge s' \<and> topo_visited_to [node] s s'"
proof (induction n arbitrary: node s s')
  case (Suc n)
  show ?case
  proof (cases "node \<in> set (visited s)")
    case True
    with Suc.prems show ?thesis
      by (auto simp: topo_visited_to_def topo_inv_def split: if_splits)
  next
    case False
    with Suc.prems have nv: "node \<notin> set (visiting s)" by (auto simp: topo_inv_def)
    define s0 where "s0 = s\<lparr>visited := node # visited s, visiting := node # visiting s\<rparr>"
    from False nv Suc.prems(1) obtain ns s1 where
      s1: "ge node = Inr ns" "rfold (Visit n ge) ns s0 = Inr s1"
        "s' = s1\<lparr>visiting := removeAll node (visiting s1), ordered_nodes := node # ordered_nodes s1\<rparr>"
      by (auto simp: s0_def)
    have "topo_inv ge s0"
      using Suc.prems(2) nv False by (auto simp: s0_def topo_inv_def)
    with Visit_list [OF Suc.IH s1(2)] have
      i: "topo_inv ge s1" and t: "topo_visited_to ns s0 s1" by auto
    have "topo_ordered ge (node # ordered_nodes s1)"
      using i t s1(1) by (auto simp: topo_ordered_Cons topo_inv_def topo_visited_to_def topo_edge_def)
    moreover have "visiting s1 = node # visiting s"
      using t by (simp add: topo_visited_to_def s0_def)
    ultimately show ?thesis
      using i t s1(3) nv
      by (auto simp: topo_inv_def topo_visited_to_def s0_def)
  qed
qed simp

lemma TopologicallySorted_Inr:
  assumes "TopologicallySorted depth graph ge = Inr xs"
  shows "distinct xs \<and> set graph \<subseteq> set xs \<and> topo_ordered ge xs"
proof -
  from assms obtain s where
    s: "rfold (Visit depth ge) (sort graph) \<lparr>visited = [], visiting = [], ordered_nodes = []\<rparr> = Inr s"
      "xs = ordered_nodes s"
    by (auto simp: TopologicallySorted_def)
  have "topo_inv ge \<lparr>visited = [], visiting = [], ordered_nodes = []\<rparr>"
    by (simp add: topo_inv_def topo_ordered_def)
  from Visit_list [OF Visit_sorted s(1) this] s(2) show ?thesis
    by (auto simp: topo_inv_def topo_visited_to_def)
qed

text \<open>
  The errors: a \<open>CycleError\<close> only where there is a cycle, and no \<open>RecursionLimit\<close> where the depth
  allowed exceeds the number of nodes.
\<close>

definition topo_path_inv :: "(string \<Rightarrow> string list result) \<Rightarrow> string \<Rightarrow> topo_state \<Rightarrow> bool" where
  "topo_path_inv ge node s \<longleftrightarrow> (\<forall>v \<in> set (visiting s). (topo_edge ge)\<^sup>+\<^sup>+ v node)"

lemma Visit_error_list:
  assumes "\<And>node s e. node \<in> N \<Longrightarrow> Visit n ge node s = Inl e \<Longrightarrow> P node s \<Longrightarrow> topo_inv ge s \<Longrightarrow> Q e"
    and "\<And>node s s'. visiting s' = visiting s \<Longrightarrow> P node s \<Longrightarrow> P node s'"
    and "rfold (Visit n ge) nodes s = Inl e" and "set nodes \<subseteq> N"
    and "\<forall>node \<in> set nodes. P node s" and "topo_inv ge s"
  shows "Q e"
  using assms(3-6)
proof (induction nodes arbitrary: s)
  case (Cons x nodes)
  show ?case
  proof (cases "Visit n ge x s")
    case (Inl e')
    with Cons.prems assms(1) show ?thesis by auto
  next
    case (Inr s1)
    with Cons.prems(4) Visit_sorted have i: "topo_inv ge s1" "visiting s1 = visiting s"
      by (auto simp: topo_visited_to_def)
    with Cons.prems(3) assms(2) have "\<forall>node \<in> set nodes. P node s1" by (meson list.set_intros(2))
    with Cons Inr i show ?thesis by auto
  qed
qed simp

lemma Visit_error:
  assumes "\<And>x. x \<in> N \<Longrightarrow> \<exists>ys. ge x = Inr ys \<and> set ys \<subseteq> N" and "finite N"
  shows "node \<in> N \<Longrightarrow> Visit n ge node s = Inl e \<Longrightarrow>
    topo_path_inv ge node s \<and> card (N - set (visiting s)) < n \<Longrightarrow> topo_inv ge s \<Longrightarrow>
    (\<exists>vs. e = CycleError vs) \<and> (\<exists>x. (topo_edge ge)\<^sup>+\<^sup>+ x x)"
proof (induction n arbitrary: node s e)
  case (Suc n)
  show ?case
  proof (cases "node \<in> set (visiting s)")
    case True
    with Suc.prems show ?thesis by (auto simp: topo_path_inv_def)
  next
    case False
    define s0 where "s0 = s\<lparr>visited := node # visited s, visiting := node # visiting s\<rparr>"
    obtain ns where ns: "ge node = Inr ns" "set ns \<subseteq> N" using assms(1) Suc.prems(1) by blast
    with False Suc.prems(2) have nv: "node \<notin> set (visited s)"
      and err: "rfold (Visit n ge) ns s0 = Inl e"
      by (auto simp: s0_def rbind_Inl_iff split: if_splits)
    have i: "topo_inv ge s0"
      using Suc.prems(4) False nv by (auto simp: s0_def topo_inv_def)
    have path: "topo_path_inv ge m s0" if "m \<in> set ns" for m
      using that ns(1) Suc.prems(3)
      by (auto simp: s0_def topo_path_inv_def topo_edge_def intro: tranclp.trancl_into_trancl)
    have "card (N - set (visiting s0)) < card (N - set (visiting s))"
      using Suc.prems(1) False assms(2) by (intro psubset_card_mono) (auto simp: s0_def)
    with Suc.prems(3) path
    have "\<forall>m \<in> set ns. topo_path_inv ge m s0 \<and> card (N - set (visiting s0)) < n"
      by auto
    from Visit_error_list [where N = N and n = n and ge = ge and nodes = ns and s = s0 and e = e
          and P = "\<lambda>m s. topo_path_inv ge m s \<and> card (N - set (visiting s)) < n"
          and Q = "\<lambda>e. (\<exists>vs. e = CycleError vs) \<and> (\<exists>x. (topo_edge ge)\<^sup>+\<^sup>+ x x)",
        OF Suc.IH _ err ns(2) this i]
    show ?thesis by (auto simp: topo_path_inv_def)
  qed
qed auto

lemma topo_ordered_closed: "topo_ordered ge xs \<Longrightarrow> x \<in> set xs \<Longrightarrow> topo_edge ge x y \<Longrightarrow> y \<in> set xs"
  by (auto simp: topo_ordered_def dest!: split_list)

lemma topo_ordered_reach:
  "(topo_edge ge)\<^sup>*\<^sup>* x y \<Longrightarrow> topo_ordered ge xs \<Longrightarrow> x \<in> set xs \<Longrightarrow> y \<in> set xs"
  by (induction rule: rtranclp_induct) (auto intro: topo_ordered_closed)

lemma topo_ordered_acyclic:
  "topo_ordered ge xs \<Longrightarrow> distinct xs \<Longrightarrow> x \<in> set xs \<Longrightarrow> \<not> (topo_edge ge)\<^sup>+\<^sup>+ x x"
proof (induction xs)
  case (Cons z xs)
  show ?case
  proof (cases "x \<in> set xs")
    case True
    with Cons show ?thesis by (auto simp: topo_ordered_Cons)
  next
    case False
    with Cons.prems have "x = z" by simp
    show ?thesis
    proof
      assume "(topo_edge ge)\<^sup>+\<^sup>+ x x"
      then obtain y where "topo_edge ge x y" "(topo_edge ge)\<^sup>*\<^sup>* y x" by (meson tranclpD)
      with Cons.prems(1) \<open>x = z\<close> have "x \<in> set xs"
        by (auto simp: topo_ordered_Cons intro: topo_ordered_reach)
      with False show False ..
    qed
  qed
qed simp

lemma TopologicallySorted_Inl:
  assumes "\<And>x. x \<in> N \<Longrightarrow> \<exists>ys. ge x = Inr ys \<and> set ys \<subseteq> N" and "finite N"
    and "set graph \<subseteq> N" and "card N < depth"
    and "TopologicallySorted depth graph ge = Inl e"
  shows "(\<exists>vs. e = CycleError vs) \<and> (\<exists>x. (topo_edge ge)\<^sup>+\<^sup>+ x x)"
proof -
  define s0 where "s0 = \<lparr>visited = [], visiting = [], ordered_nodes = []\<rparr>"
  have err: "rfold (Visit depth ge) (sort graph) s0 = Inl e"
    using assms(5) by (auto simp: TopologicallySorted_def rbind_Inl_iff s0_def)
  have i: "topo_inv ge s0" by (simp add: topo_inv_def topo_ordered_def s0_def)
  from Visit_error_list [where N = N and n = depth and ge = ge and nodes = "sort graph" and s = s0
        and e = e and P = "\<lambda>m s. topo_path_inv ge m s \<and> card (N - set (visiting s)) < depth"
        and Q = "\<lambda>e. (\<exists>vs. e = CycleError vs) \<and> (\<exists>x. (topo_edge ge)\<^sup>+\<^sup>+ x x)",
      OF Visit_error [OF assms(1,2)] _ err]
  show ?thesis
    using assms(3,4) i by (auto simp: topo_path_inv_def s0_def)
qed

text \<open>
  C24: on a finite graph that is closed under \<open>get_edges\<close>, with a recursion depth above its number of
  nodes, \<open>TopologicallySorted\<close> either returns every node once with all edges pointing forward, or
  raises a \<open>CycleError\<close>, and then the graph has a cycle.
\<close>

theorem TopologicallySorted_correct:
  assumes "\<And>x. x \<in> N \<Longrightarrow> \<exists>ys. ge x = Inr ys \<and> set ys \<subseteq> N" and "finite N"
    and "set graph \<subseteq> N" and "card N < depth"
  shows "case TopologicallySorted depth graph ge of
      Inr xs \<Rightarrow> distinct xs \<and> set graph \<subseteq> set xs \<and> topo_ordered ge xs
    | Inl e \<Rightarrow> (\<exists>vs. e = CycleError vs) \<and> (\<exists>x. (topo_edge ge)\<^sup>+\<^sup>+ x x)"
  using TopologicallySorted_Inl [OF assms] TopologicallySorted_Inr [of depth graph ge]
  by (auto split: sum.split)

text \<open>The graph of the source's documentation.\<close>

definition ex_edges :: "string \<Rightarrow> string list result" where
  "ex_edges x = (if x = ''a'' then Inr [''b'', ''c''] else if x = ''c'' then Inr [''b''] else Inr [])"

theorem TopologicallySorted_witness:
  "TopologicallySorted 4 [''a'', ''b'', ''c''] ex_edges = Inr [''a'', ''c'', ''b'']
   \<and> distinct [''a'', ''c'', ''b''] \<and> topo_ordered ex_edges [''a'', ''c'', ''b'']"
proof -
  have run: "TopologicallySorted 4 [''a'', ''b'', ''c''] ex_edges = Inr [''a'', ''c'', ''b'']"
    by code_simp
  have "\<And>x. x \<in> {''a'', ''b'', ''c''} \<Longrightarrow> \<exists>ys. ex_edges x = Inr ys \<and> set ys \<subseteq> {''a'', ''b'', ''c''}"
    by (auto simp: ex_edges_def)
  from TopologicallySorted_correct [where graph = "[''a'', ''b'', ''c'']" and depth = 4 and ge = ex_edges
      and N = "{''a'', ''b'', ''c''}", OF this] run
  show ?thesis by simp
qed

end
