(* ===== verification/Py_Path.thy ===== *)
theory Py_Path
  imports Py_Prelude
begin

text \<open>
  The functions of Python's \<open>os.path\<close> (the POSIX flavour) that the sources call, and the facts
  about path components the components of the model share. \<open>os.path.realpath\<close> reads the file
  system, so the model takes it as a parameter wherever it is used.
\<close>

section \<open>os.path\<close>

definition isabs :: "string \<Rightarrow> bool" where
  "isabs p \<longleftrightarrow> p \<noteq> [] \<and> hd p = CHR ''/''"

definition path_join :: "string \<Rightarrow> string \<Rightarrow> string" where
  "path_join a b =
     (if isabs b then b
      else if a = [] \<or> last a = CHR ''/'' then a @ b
      else a @ ''/'' @ b)"

definition path_split :: "string \<Rightarrow> string \<times> string" where
  "path_split p =
     (case rsplit1 CHR ''/'' p of
        None \<Rightarrow> ([], p)
      | Some (a, tail) \<Rightarrow>
          let head = a @ ''/''
          in (if \<forall>c \<in> set head. c = CHR ''/'' then head else rstrip_char CHR ''/'' head, tail))"

definition dirname :: "string \<Rightarrow> string" where
  "dirname p = fst (path_split p)"

definition basename :: "string \<Rightarrow> string" where
  "basename p = snd (path_split p)"

text \<open>
  \<open>splitext\<close> takes the extension off the last path component; leading dots of that component do
  not start an extension.
\<close>

definition splitext :: "string \<Rightarrow> string \<times> string" where
  "splitext p =
     (let name = (case rsplit1 CHR ''/'' p of None \<Rightarrow> p | Some (_, b) \<Rightarrow> b)
      in case rsplit1 CHR ''.'' name of
           None \<Rightarrow> (p, [])
         | Some (a, ext) \<Rightarrow>
             if \<exists>c \<in> set a. c \<noteq> CHR ''.''
             then (take (length p - length ext - 1) p, CHR ''.'' # ext)
             else (p, []))"

text \<open>One iteration of \<open>normpath\<close>'s loop over the components.\<close>

definition norm_step :: "bool \<Rightarrow> string list \<Rightarrow> string \<Rightarrow> string list" where
  "norm_step rooted new c =
     (if c = [] \<or> c = ''.'' then new
      else if c \<noteq> ''..'' \<or> (\<not> rooted \<and> new = []) \<or> (new \<noteq> [] \<and> last new = ''..'') then new @ [c]
      else if new \<noteq> [] then butlast new
      else new)"

definition initial_slashes :: "string \<Rightarrow> nat" where
  "initial_slashes p =
     (if \<not> prefix ''/'' p then 0
      else if prefix ''//'' p \<and> \<not> prefix ''///'' p then 2
      else 1)"

definition normpath :: "string \<Rightarrow> string" where
  "normpath p =
     (if p = [] then ''.''
      else let n = initial_slashes p;
               q = replicate n CHR ''/''
                     @ join ''/'' (foldl (norm_step (n > 0)) [] (split_on CHR ''/'' p))
           in if q = [] then ''.'' else q)"

section \<open>Path components\<close>

definition path_comps :: "string \<Rightarrow> string list" where
  "path_comps p = filter (\<lambda>c. c \<noteq> []) (split_on CHR ''/'' p)"

definition proper_comp :: "string \<Rightarrow> bool" where
  "proper_comp c \<longleftrightarrow> c \<noteq> [] \<and> c \<noteq> ''.'' \<and> c \<noteq> ''..'' \<and> CHR ''/'' \<notin> set c"

definition abs_path :: "string list \<Rightarrow> string" where
  "abs_path ps = CHR ''/'' # join ''/'' ps"

text \<open>
  The paths \<open>os.path.realpath\<close> returns on POSIX: absolute, one leading slash, no empty, \<open>.\<close> or
  \<open>..\<close> component.
\<close>

definition canonical_path :: "string \<Rightarrow> bool" where
  "canonical_path p \<longleftrightarrow>
     isabs p \<and> (\<forall>c \<in> set (path_comps p). proper_comp c) \<and> p = abs_path (path_comps p)"

lemma foldl_norm_step_nonempty:
  "foldl (norm_step a) acc xs = foldl (norm_step a) acc (filter (\<lambda>c. c \<noteq> []) xs)"
  by (induction xs arbitrary: acc) (auto simp: norm_step_def)

lemma path_comps_Nil [simp]: "path_comps [] = []"
  by (simp add: path_comps_def)

lemma path_comps_slash: "path_comps (s @ CHR ''/'' # t) = path_comps s @ path_comps t"
  by (simp add: path_comps_def split_on_append)

lemma path_comps_slash_Cons [simp]: "path_comps (CHR ''/'' # t) = path_comps t"
  using path_comps_slash [of "[]" t] by simp

lemma path_comps_join: "\<not> isabs b \<Longrightarrow> path_comps (path_join a b) = path_comps a @ path_comps b"
proof -
  assume b: "\<not> isabs b"
  have "a \<noteq> [] \<Longrightarrow> last a = CHR ''/'' \<Longrightarrow> path_comps (a @ b) = path_comps a @ path_comps b"
    by (metis append_butlast_last_id append.assoc append_Cons append_Nil append_Nil2
        path_comps_Nil path_comps_slash)
  with b show ?thesis by (cases "a = []") (auto simp: path_join_def path_comps_slash)
qed

lemma path_comps_abs_path:
  "\<forall>c \<in> set ps. proper_comp c \<Longrightarrow> path_comps (abs_path ps) = ps"
proof (cases "ps = []")
  case True
  then show ?thesis by (simp add: abs_path_def)
next
  case False
  assume *: "\<forall>c \<in> set ps. proper_comp c"
  with False have "split_on CHR ''/'' (join ''/'' ps) = ps"
    by (intro split_on_join) (auto simp: proper_comp_def)
  with * show ?thesis
    by (auto simp: abs_path_def path_comps_def proper_comp_def filter_id_conv)
qed

lemma isabs_abs_path [simp]: "isabs (abs_path ps)"
  by (simp add: abs_path_def isabs_def)

lemma canonical_path_iff:
  "canonical_path p \<longleftrightarrow> (\<exists>ps. (\<forall>c \<in> set ps. proper_comp c) \<and> p = abs_path ps)"
  by (metis canonical_path_def isabs_abs_path path_comps_abs_path)

lemma foldl_norm_step_proper:
  "\<forall>c \<in> set ps. proper_comp c \<Longrightarrow> foldl (norm_step a) acc ps = acc @ ps"
  by (induction ps arbitrary: acc) (auto simp: norm_step_def proper_comp_def)

lemma foldl_norm_step_pardir:
  "\<forall>c \<in> set acc. proper_comp c \<Longrightarrow>
   foldl (norm_step True) acc (replicate n ''..'') = take (length acc - n) acc"
proof (induction n arbitrary: acc)
  case (Suc n)
  show ?case
  proof (cases "acc = []")
    case True
    then show ?thesis using Suc.IH [of "[]"] by (simp add: norm_step_def)
  next
    case False
    with Suc.prems have "last acc \<noteq> ''..''"
      using last_in_set proper_comp_def by blast
    with False have "norm_step True acc ''..'' = butlast acc"
      by (simp add: norm_step_def)
    moreover have "\<forall>c \<in> set (butlast acc). proper_comp c"
      using Suc.prems by (auto dest: in_set_butlastD)
    ultimately show ?thesis
      using Suc.IH [of "butlast acc"] by (simp add: take_butlast butlast_conv_take)
  qed
qed simp

lemma normpath_single_slash:
  assumes "prefix ''/'' p" and "\<not> prefix ''//'' p"
  shows "normpath p = abs_path (foldl (norm_step True) [] (path_comps p))"
proof -
  from assms have "p \<noteq> []" and "initial_slashes p = 1"
    by (auto simp: initial_slashes_def)
  then show ?thesis
    unfolding normpath_def Let_def path_comps_def
    by (simp add: abs_path_def foldl_norm_step_nonempty [symmetric])
qed

lemma canonical_path_head:
  assumes "canonical_path p"
  shows "prefix ''/'' p \<and> \<not> prefix ''//'' p"
proof -
  from assms obtain ps where ps: "\<forall>c \<in> set ps. proper_comp c" "p = abs_path ps"
    by (auto simp: canonical_path_iff)
  have "\<not> prefix ''/'' (join ''/'' ps)"
  proof (cases ps)
    case (Cons c cs)
    with ps(1) obtain x xs where "c = x # xs" "x \<noteq> CHR ''/''"
      by (cases c) (auto simp: proper_comp_def)
    with Cons show ?thesis by (simp add: join_Cons)
  qed simp
  with ps(2) show ?thesis by (simp add: abs_path_def)
qed

lemma normpath_canonical: "canonical_path p \<Longrightarrow> normpath p = p"
  using normpath_single_slash canonical_path_head
  by (metis append_Nil canonical_path_def foldl_norm_step_proper)

lemma canonical_path_split:
  assumes "\<forall>c \<in> set ps. proper_comp c"
  shows "split_on CHR ''/'' (abs_path ps) = [] # (if ps = [] then [[]] else ps)"
proof (cases "ps = []")
  case False
  with assms have "split_on CHR ''/'' (join ''/'' ps) = ps"
    by (intro split_on_join) (auto simp: proper_comp_def)
  with False show ?thesis by (simp add: abs_path_def)
qed (simp add: abs_path_def)

text \<open>A relative path appended to a canonical one, after normalisation.\<close>

lemma normpath_join_rel:
  assumes "\<forall>c \<in> set rs. proper_comp c" and "\<not> isabs x"
  shows "normpath (path_join (abs_path rs) x) = abs_path (foldl (norm_step True) rs (path_comps x))"
proof -
  define J where "J = path_join (abs_path rs) x"
  have "canonical_path (abs_path rs)" using assms(1) canonical_path_iff by blast
  then have "prefix ''/'' J \<and> \<not> prefix ''//'' J"
    using canonical_path_head [of "abs_path rs"] assms(2)
    by (auto simp: J_def path_join_def isabs_def abs_path_def prefix_def Cons_eq_append_conv
        append_eq_Cons_conv split: if_splits)
  moreover have "path_comps J = rs @ path_comps x"
    using assms by (simp add: J_def path_comps_join path_comps_abs_path)
  ultimately show ?thesis
    using assms(1) by (simp add: J_def [symmetric] normpath_single_slash foldl_norm_step_proper)
qed

lemma norm_rel_elements:
  "x \<in> set (foldl (norm_step a) acc cs) \<Longrightarrow> x \<in> set acc \<or> (x \<in> set cs \<and> x \<noteq> [] \<and> x \<noteq> ''.'')"
proof (induction cs arbitrary: acc)
  case (Cons c cs)
  then have "x \<in> set (norm_step a acc c) \<or> (x \<in> set cs \<and> x \<noteq> [] \<and> x \<noteq> ''.'')" by simp
  then show ?case
    by (auto simp: norm_step_def dest: in_set_butlastD split: if_splits)
qed simp

text \<open>Normalising a relative path first does not change where it leads from a rooted one.\<close>

lemma norm_step_rel_first:
  "foldl (norm_step True) acc (foldl (norm_step False) [] cs) = foldl (norm_step True) acc cs"
proof (induction cs rule: rev_induct)
  case (snoc c cs)
  define N where "N = foldl (norm_step False) [] cs"
  have N: "foldl (norm_step True) acc N = foldl (norm_step True) acc cs" using snoc N_def by simp
  have el: "\<forall>x \<in> set N. x \<noteq> [] \<and> x \<noteq> ''.''" using norm_rel_elements N_def by fastforce
  have "foldl (norm_step True) acc (norm_step False N c) = norm_step True (foldl (norm_step True) acc cs) c"
  proof (cases "c = ''..'' \<and> N \<noteq> [] \<and> last N \<noteq> ''..''")
    case True
    then obtain N' n where n: "N = N' @ [n]" "n \<noteq> ''..''" by (metis append_butlast_last_id)
    with el have "n \<noteq> [] \<and> n \<noteq> ''.''" by simp
    with n N have "foldl (norm_step True) acc cs = foldl (norm_step True) acc N' @ [n]"
      by (simp add: norm_step_def)
    with n True show ?thesis by (simp add: norm_step_def)
  next
    case False
    then have "norm_step False N c = (if c = [] \<or> c = ''.'' then N else N @ [c])"
      by (auto simp: norm_step_def)
    with N show ?thesis by (auto simp: norm_step_def)
  qed
  then show ?case by (simp add: N_def)
qed simp

lemma path_chars: "set p \<subseteq> insert CHR ''/'' (\<Union>c \<in> set (path_comps p). set c)"
proof -
  have "set (join ''/'' ps) \<subseteq> insert CHR ''/'' (\<Union>c \<in> set (filter (\<lambda>c. c \<noteq> []) ps). set c)" for ps
    by (induction ps) (auto simp: join_Cons)
  from this [of "split_on CHR ''/'' p"] show ?thesis by (simp add: join_split_on path_comps_def)
qed

lemma path_comps_chars: "c \<in> set (path_comps p) \<Longrightarrow> set c \<subseteq> set p"
proof -
  have "c \<in> set (split_on CHR ''/'' p) \<Longrightarrow> set c \<subseteq> set p"
    by (induction p arbitrary: c) (fastforce split: list.splits if_splits)+
  then show "c \<in> set (path_comps p) \<Longrightarrow> set c \<subseteq> set p" by (simp add: path_comps_def)
qed

lemma normpath_nonempty [simp]: "normpath p \<noteq> []"
  by (simp add: normpath_def Let_def)

lemma normpath_relative:
  assumes "\<not> isabs p"
  shows "\<not> isabs (normpath p)"
    and "foldl (norm_step True) acc (path_comps (normpath p)) = foldl (norm_step True) acc (path_comps p)"
    and "set (normpath p) \<subseteq> {CHR ''/'', CHR ''.''} \<union> set p"
proof -
  define N where "N = foldl (norm_step False) [] (path_comps p)"
  have sub: "\<forall>x \<in> set N. x \<in> set (path_comps p)" using norm_rel_elements N_def by fastforce
  have slash: "\<forall>x \<in> set N. CHR ''/'' \<notin> set x \<and> x \<noteq> []"
    using sub by (auto simp: path_comps_def dest: split_on_parts)
  from assms have "initial_slashes p = 0" by (cases p) (auto simp: initial_slashes_def isabs_def)
  then have norm: "normpath p = (if N = [] then ''.'' else join ''/'' N)"
  proof (cases "p = []")
    case False
    have "N \<noteq> [] \<Longrightarrow> join ''/'' N \<noteq> []" using slash by (cases N) (auto simp: join_Cons)
    with False \<open>initial_slashes p = 0\<close> show ?thesis
      by (simp add: normpath_def N_def path_comps_def foldl_norm_step_nonempty [symmetric])
  qed (simp add: normpath_def N_def)
  have "N \<noteq> [] \<Longrightarrow> hd (join ''/'' N) \<noteq> CHR ''/''"
    using slash by (cases N; cases "hd N") (auto simp: join_Cons)
  then show "\<not> isabs (normpath p)" by (auto simp: norm isabs_def)
  have "N \<noteq> [] \<Longrightarrow> split_on CHR ''/'' (join ''/'' N) = N"
    using slash by (intro split_on_join) auto
  then have comps: "path_comps (normpath p) = (if N = [] then [''.''] else N)"
    using slash by (auto simp: norm path_comps_def filter_id_conv)
  have "foldl (norm_step True) acc (if N = [] then [''.''] else N) = foldl (norm_step True) acc N"
    by (simp add: norm_step_def)
  with comps show "foldl (norm_step True) acc (path_comps (normpath p)) = foldl (norm_step True) acc (path_comps p)"
    using norm_step_rel_first by (simp add: N_def)
  have "(\<Union>c \<in> set (if N = [] then [''.''] else N). set c) \<subseteq> insert CHR ''.'' (set p)"
    using sub path_comps_chars by (auto dest: subsetD)
  then show "set (normpath p) \<subseteq> {CHR ''/'', CHR ''.''} \<union> set p"
    using path_chars [of "normpath p"] unfolding comps by blast
qed

end
