(* ===== verification/Graph_Walk.thy ===== *)
theory Graph_Walk
  imports Py_Prelude
begin

text \<open>
  Several functions of the sources walk a graph by recursion and collect the nodes they meet in a
  list that every call shares: \<open>GetIncludedBuildFiles\<close>, \<open>DeepDependencies\<close> and
  \<open>LinkDependencies\<close>. Their common contract is the locale \<open>shared_walk\<close>: a node already in the
  list, or one to skip, is left alone; any other node is appended and its successors are visited
  in order. The locale proves once what such a walk collects, that the list has no duplicate, and
  how much recursion depth is enough. The first argument of \<open>visit\<close> is the recursion depth
  Python still allows; a call past it raises, which is the value \<open>RecursionLimit\<close>.
\<close>

locale shared_walk =
  fixes check :: "'a \<Rightarrow> unit result"
    and skip :: "'a \<Rightarrow> bool"
    and succs :: "'a \<Rightarrow> 'a list result"
    and visit :: "nat \<Rightarrow> 'a \<Rightarrow> 'a list \<Rightarrow> 'a list result"
  assumes visit_0: "visit 0 x acc = Inr acc' \<Longrightarrow> acc' = acc \<and> (skip x \<or> x \<in> set acc)"
    and visit_seen: "check x = Inr () \<Longrightarrow> skip x \<or> x \<in> set acc \<Longrightarrow> visit (Suc n) x acc = Inr acc"
    and visit_new: "check x = Inr () \<Longrightarrow> \<not> skip x \<Longrightarrow> x \<notin> set acc \<Longrightarrow>
          visit (Suc n) x acc = rbind (succs x) (\<lambda>ys. rfold (visit n) ys (acc @ [x]))"
    and visit_error: "check x = Inl e \<Longrightarrow> visit (Suc n) x acc = Inl e"
begin

definition edge :: "'a \<Rightarrow> 'a \<Rightarrow> bool" where
  "edge x y \<longleftrightarrow> (\<exists>ys. succs x = Inr ys \<and> y \<in> set ys \<and> \<not> skip y)"

definition walked :: "'a list \<Rightarrow> 'a list \<Rightarrow> 'a list \<Rightarrow> bool" where
  "walked xs acc acc' \<longleftrightarrow>
     (\<exists>new. acc' = acc @ new \<and> distinct new \<and> set new \<inter> set acc = {} \<and>
        (\<forall>x \<in> set xs. skip x \<or> x \<in> set acc') \<and>
        (\<forall>y \<in> set new. \<not> skip y \<and> (\<forall>z. edge y z \<longrightarrow> z \<in> set acc')) \<and>
        (\<forall>y \<in> set new. \<exists>x \<in> set xs. \<not> skip x \<and> edge\<^sup>*\<^sup>* x y))"

lemma walked_Nil: "walked [] acc acc"
  by (simp add: walked_def)

lemma walked_seen: "skip x \<or> x \<in> set acc \<Longrightarrow> walked [x] acc acc"
  by (simp add: walked_def)

lemma walked_append:
  assumes "walked xs acc acc1" and "walked ys acc1 acc2"
  shows "walked (xs @ ys) acc acc2"
proof -
  from assms obtain n1 n2 where
    1: "acc1 = acc @ n1" "distinct n1" "set n1 \<inter> set acc = {}"
       "\<forall>x \<in> set xs. skip x \<or> x \<in> set acc1"
       "\<forall>y \<in> set n1. \<not> skip y \<and> (\<forall>z. edge y z \<longrightarrow> z \<in> set acc1)"
       "\<forall>y \<in> set n1. \<exists>x \<in> set xs. \<not> skip x \<and> edge\<^sup>*\<^sup>* x y" and
    2: "acc2 = acc1 @ n2" "distinct n2" "set n2 \<inter> set acc1 = {}"
       "\<forall>x \<in> set ys. skip x \<or> x \<in> set acc2"
       "\<forall>y \<in> set n2. \<not> skip y \<and> (\<forall>z. edge y z \<longrightarrow> z \<in> set acc2)"
       "\<forall>y \<in> set n2. \<exists>x \<in> set ys. \<not> skip x \<and> edge\<^sup>*\<^sup>* x y"
    by (auto simp: walked_def)
  show ?thesis
    unfolding walked_def
  proof (intro exI [of _ "n1 @ n2"] conjI)
    show "\<forall>y \<in> set (n1 @ n2). \<exists>x \<in> set (xs @ ys). \<not> skip x \<and> edge\<^sup>*\<^sup>* x y"
      using 1(6) 2(6) by fastforce
  qed (use 1 2 in auto)
qed

lemma walked_new:
  assumes "walked ys (acc @ [x]) acc'" and "succs x = Inr ys" and "\<not> skip x" and "x \<notin> set acc"
  shows "walked [x] acc acc'"
proof -
  from assms(1) obtain new where new: "acc' = (acc @ [x]) @ new" "distinct new"
    "set new \<inter> set (acc @ [x]) = {}" "\<forall>y \<in> set ys. skip y \<or> y \<in> set acc'"
    "\<forall>y \<in> set new. \<not> skip y \<and> (\<forall>z. edge y z \<longrightarrow> z \<in> set acc')"
    "\<forall>y \<in> set new. \<exists>z \<in> set ys. \<not> skip z \<and> edge\<^sup>*\<^sup>* z y"
    unfolding walked_def by blast
  have reach: "\<forall>y \<in> set new. edge\<^sup>*\<^sup>* x y"
    using new(6) assms(2) by (metis edge_def converse_rtranclp_into_rtranclp)
  have closed: "\<forall>z. edge x z \<longrightarrow> z \<in> set acc'"
    using new(4) assms(2) by (auto simp: edge_def)
  show ?thesis
    unfolding walked_def
  proof (intro exI [of _ "x # new"] conjI)
    show "\<forall>y \<in> set (x # new). \<exists>z \<in> set [x]. \<not> skip z \<and> edge\<^sup>*\<^sup>* z y"
      using reach assms(3) by auto
    show "\<forall>y \<in> set (x # new). \<not> skip y \<and> (\<forall>z. edge y z \<longrightarrow> z \<in> set acc')"
      using new(5) closed assms(3) by auto
  qed (use new assms in auto)
qed

lemma rfold_walked:
  assumes "\<And>x acc acc'. visit n x acc = Inr acc' \<Longrightarrow> walked [x] acc acc'"
    and "rfold (visit n) xs acc = Inr acc'"
  shows "walked xs acc acc'"
  using assms(2)
proof (induction xs arbitrary: acc)
  case Nil
  then show ?case by (simp add: walked_Nil)
next
  case (Cons x xs)
  then obtain acc1 where "visit n x acc = Inr acc1" "rfold (visit n) xs acc1 = Inr acc'" by auto
  with Cons.IH assms(1) have "walked [x] acc acc1" "walked xs acc1 acc'" by auto
  then show ?case using walked_append [of "[x]"] by simp
qed

lemma visit_walked: "visit n x acc = Inr acc' \<Longrightarrow> walked [x] acc acc'"
proof (induction n arbitrary: x acc acc')
  case 0
  then show ?case using visit_0 walked_seen by blast
next
  case (Suc n)
  then have ok: "check x = Inr ()" using visit_error by (cases "check x") auto
  show ?case
  proof (cases "skip x \<or> x \<in> set acc")
    case True
    with ok Suc.prems show ?thesis by (simp add: visit_seen walked_seen)
  next
    case False
    with ok Suc.prems obtain ys where
      "succs x = Inr ys" "rfold (visit n) ys (acc @ [x]) = Inr acc'"
      by (auto simp: visit_new)
    with False Suc.IH show ?thesis by (blast intro: walked_new rfold_walked)
  qed
qed

lemma walk_list: "rfold (visit n) xs acc = Inr acc' \<Longrightarrow> walked xs acc acc'"
  by (blast intro: rfold_walked visit_walked)

lemma walked_extends: "walked xs acc acc' \<Longrightarrow> set acc \<subseteq> set acc'"
  by (auto simp: walked_def)

lemma walk_distinct: "rfold (visit n) xs acc = Inr acc' \<Longrightarrow> distinct acc \<Longrightarrow> distinct acc'"
  using walk_list [of n xs acc acc'] by (auto simp: walked_def)

text \<open>From the empty list a walk collects exactly the nodes reachable from where it starts.\<close>

lemma walk_set:
  assumes "rfold (visit n) xs [] = Inr acc'"
  shows "set acc' = {y. \<exists>x \<in> set xs. \<not> skip x \<and> edge\<^sup>*\<^sup>* x y}"
proof -
  from walk_list [OF assms] have w:
    "\<forall>x \<in> set xs. skip x \<or> x \<in> set acc'" "\<forall>y \<in> set acc'. \<forall>z. edge y z \<longrightarrow> z \<in> set acc'"
    "\<forall>y \<in> set acc'. \<exists>x \<in> set xs. \<not> skip x \<and> edge\<^sup>*\<^sup>* x y"
    by (auto simp: walked_def)
  have "y \<in> set acc'" if "edge\<^sup>*\<^sup>* x y" "x \<in> set acc'" for x y
    using that by (induction) (use w(2) in auto)
  with w show ?thesis by blast
qed

text \<open>The same from a list whose members have no successors.\<close>

lemma walk_set_leaves:
  assumes "rfold (visit n) xs acc = Inr acc'" and "\<And>x y. x \<in> set acc \<Longrightarrow> \<not> edge x y"
  shows "set acc' = set acc \<union> {y. \<exists>x \<in> set xs. \<not> skip x \<and> edge\<^sup>*\<^sup>* x y}"
proof -
  from walk_list [OF assms(1)] assms(2) have w: "set acc \<subseteq> set acc'"
    "\<forall>x \<in> set xs. skip x \<or> x \<in> set acc'" "\<forall>y \<in> set acc'. \<forall>z. edge y z \<longrightarrow> z \<in> set acc'"
    "\<forall>y \<in> set acc'. y \<in> set acc \<or> (\<exists>x \<in> set xs. \<not> skip x \<and> edge\<^sup>*\<^sup>* x y)"
    by (auto simp: walked_def)
  have "y \<in> set acc'" if "edge\<^sup>*\<^sup>* x y" "x \<in> set acc'" for x y
    using that by (induction) (use w(3) in auto)
  with w show ?thesis by blast
qed

text \<open>
  A recursion depth above the number of nodes still to be met is enough, for any finite set of
  nodes that is closed under successors and where no read fails.
\<close>

lemma visit_enough:
  assumes "finite N"
    and "\<And>x. x \<in> N \<Longrightarrow> check x = Inr () \<and> (\<exists>ys. succs x = Inr ys \<and> set ys \<subseteq> N)"
  shows "x \<in> N \<Longrightarrow> card (N - set acc) < n \<Longrightarrow> \<exists>acc'. visit n x acc = Inr acc'"
proof (induction n arbitrary: x acc)
  case (Suc n)
  have list: "set ys \<subseteq> N \<Longrightarrow> card (N - set acc) < n \<Longrightarrow> \<exists>acc'. rfold (visit n) ys acc = Inr acc'"
    for ys acc
  proof (induction ys arbitrary: acc)
    case (Cons y ys)
    then obtain acc1 where 1: "visit n y acc = Inr acc1" using Suc.IH [of y acc] by auto
    then have "set acc \<subseteq> set acc1" using visit_walked walked_extends by blast
    then have "card (N - set acc1) \<le> card (N - set acc)"
      using assms(1) by (intro card_mono) auto
    with 1 Cons show ?case by auto
  qed simp
  show ?case
  proof (cases "skip x \<or> x \<in> set acc")
    case True
    with Suc.prems assms(2) show ?thesis by (metis visit_seen)
  next
    case False
    with Suc.prems(1) have "card (N - set (acc @ [x])) < card (N - set acc)"
      using assms(1) by (intro psubset_card_mono) auto
    with Suc.prems(2) have "card (N - set (acc @ [x])) < n" by simp
    with False Suc.prems(1) assms(2) [of x] list show ?thesis by (auto simp: visit_new)
  qed
qed simp

lemma walk_enough:
  assumes "finite N"
    and "\<And>x. x \<in> N \<Longrightarrow> check x = Inr () \<and> (\<exists>ys. succs x = Inr ys \<and> set ys \<subseteq> N)"
    and "set xs \<subseteq> N" and "card N < n"
  shows "\<exists>acc'. rfold (visit n) xs acc = Inr acc'"
  using assms(3)
proof (induction xs arbitrary: acc)
  case (Cons x xs)
  have "card (N - set acc) < n"
    using assms(1,4) card_mono [of N "N - set acc"] by force
  then obtain acc1 where "visit n x acc = Inr acc1"
    using visit_enough [OF assms(1,2)] Cons.prems by fastforce
  with Cons show ?case by auto
qed simp

end

end
