(* ===== verification/Gyp_Common.thy ===== *)
theory Gyp_Common
  imports Py_Path Graph_Walk
begin

text \<open>
  \<open>tools/gyp/pylib/gyp/common.py\<close>: qualified target names, relative paths, quoting for POSIX
  shells, dependency closures, duplicate removal and topological sorting.

  \<open>os.path.realpath\<close> is the parameter \<open>rp\<close> of every function that reaches it, \<open>os.environ\<close>
  and \<open>sys.platform\<close> are arguments.
\<close>

section \<open>Memoisation and exception messages\<close>

text \<open>
  \<open>memoize.__call__\<close>: the cache is a dictionary from argument tuples to results, threaded
  explicitly. A raising function leaves the cache as it was.
\<close>

definition memo_call :: "('a \<Rightarrow> 'b result) \<Rightarrow> 'a \<Rightarrow> ('a \<times> 'b) list \<Rightarrow> ('b \<times> ('a \<times> 'b) list) result" where
  "memo_call f args cache =
     (case map_of cache args of
        Some r \<Rightarrow> Inr (r, cache)
      | None \<Rightarrow> rbind (f args) (\<lambda>r. Inr (r, AList.update args r cache)))"

definition memo_inv :: "('a \<Rightarrow> 'b result) \<Rightarrow> ('a \<times> 'b) list \<Rightarrow> bool" where
  "memo_inv f cache \<longleftrightarrow> (\<forall>a r. map_of cache a = Some r \<longrightarrow> f a = Inr r)"

lemma memo_call_correct:
  assumes "memo_inv f cache"
  shows "case memo_call f a cache of
           Inl e \<Rightarrow> f a = Inl e
         | Inr (r, cache') \<Rightarrow> f a = Inr r \<and> memo_inv f cache'"
  using assms
  by (auto simp: memo_call_def memo_inv_def map_of_update split: option.splits py_split sum.splits)

text \<open>\<open>ExceptionAppend\<close>: the exception's \<open>args\<close>, already turned into strings.\<close>

definition ExceptionAppend :: "string list \<Rightarrow> string \<Rightarrow> string list" where
  "ExceptionAppend args msg =
     (case args of
        [] \<Rightarrow> [msg]
      | [a] \<Rightarrow> [a @ '' '' @ msg]
      | a # rest \<Rightarrow> (a @ '' '' @ msg) # rest)"

section \<open>Qualified targets\<close>

definition ParseQualifiedTarget :: "string \<Rightarrow> string option \<times> string \<times> string option" where
  "ParseQualifiedTarget target =
     (let (build_file, target) =
            (case rsplit1 CHR '':'' target of
               Some (b, t) \<Rightarrow> (Some b, t)
             | None \<Rightarrow> (None, target));
          (target, toolset) =
            (case rsplit1 CHR ''#'' target of
               Some (t, ts) \<Rightarrow> (t, Some ts)
             | None \<Rightarrow> (target, None))
      in (build_file, target, toolset))"

definition BuildFile :: "string \<Rightarrow> string option" where
  "BuildFile fully_qualified_target = fst (ParseQualifiedTarget fully_qualified_target)"

text \<open>\<open>if toolset:\<close> is false for \<open>None\<close> and for the empty string.\<close>

definition QualifiedTarget :: "string \<Rightarrow> string \<Rightarrow> string option \<Rightarrow> string" where
  "QualifiedTarget build_file target toolset =
     (let fully_qualified = build_file @ '':'' @ target
      in case toolset of
           None \<Rightarrow> fully_qualified
         | Some ts \<Rightarrow> if ts = [] then fully_qualified else fully_qualified @ ''#'' @ ts)"

definition GetEnvironFallback :: "(string \<times> string) list \<Rightarrow> string list \<Rightarrow> string \<Rightarrow> string" where
  "GetEnvironFallback environ var_list fallback =
     (case find (\<lambda>var. has_key var environ) var_list of
        Some var \<Rightarrow> the (map_of environ var)
      | None \<Rightarrow> fallback)"

section \<open>Relative paths\<close>

definition RelativePath :: "(string \<Rightarrow> string) \<Rightarrow> string \<Rightarrow> string \<Rightarrow> string" where
  "RelativePath rp path relative_to =
     (let path_split = split_on CHR ''/'' (rp path);
          relative_to_split = split_on CHR ''/'' (rp relative_to);
          prefix_len = length (longest_common_prefix path_split relative_to_split);
          relative_split = replicate (length relative_to_split - prefix_len) ''..''
                           @ drop prefix_len path_split
      in case relative_split of
           [] \<Rightarrow> []
         | c # cs \<Rightarrow> foldl path_join c cs)"

definition InvertRelativePath :: "(string \<Rightarrow> string) \<Rightarrow> string \<Rightarrow> string option \<Rightarrow> string" where
  "InvertRelativePath rp path toplevel_dir =
     (if path = [] then path
      else let toplevel_dir = (case toplevel_dir of None \<Rightarrow> ''.'' | Some d \<Rightarrow> d)
           in RelativePath rp toplevel_dir (path_join toplevel_dir path))"

definition FixIfRelativePath :: "(string \<Rightarrow> string) \<Rightarrow> string \<Rightarrow> string \<Rightarrow> string" where
  "FixIfRelativePath rp path relative_to =
     (if isabs path then path else RelativePath rp path relative_to)"

definition UnrelativePath :: "string \<Rightarrow> string \<Rightarrow> string" where
  "UnrelativePath path relative_to = normpath (path_join (dirname relative_to) path)"

definition ResolveTarget ::
  "(string \<Rightarrow> string) \<Rightarrow> string option \<Rightarrow> string \<Rightarrow> string option
   \<Rightarrow> string option \<times> string \<times> string option" where
  "ResolveTarget rp build_file target toolset =
     (let (parsed_build_file, target, parsed_toolset) = ParseQualifiedTarget target;
          build_file =
            (case parsed_build_file of
               Some (c # cs) \<Rightarrow>
                 (case build_file of
                    Some (b # bs) \<Rightarrow>
                      (let bf = normpath (path_join (dirname (b # bs)) (c # cs))
                       in Some (if isabs bf then bf else RelativePath rp bf ''.''))
                  | _ \<Rightarrow> Some (c # cs))
             | _ \<Rightarrow> build_file);
          toolset = (case parsed_toolset of Some (c # cs) \<Rightarrow> Some (c # cs) | _ \<Rightarrow> toolset)
      in (build_file, target, toolset))"

subsection \<open>Round trips\<close>

text \<open>
  \<open>ParseQualifiedTarget\<close> takes apart what \<open>QualifiedTarget\<close> puts together, for any build file
  and for names and toolsets without a colon or a hash.
\<close>

theorem ParseQualifiedTarget_Qualified:
  assumes "CHR '':'' \<notin> set target" and "CHR ''#'' \<notin> set target"
    and "\<forall>ts. toolset = Some ts \<longrightarrow> ts \<noteq> [] \<and> CHR '':'' \<notin> set ts \<and> CHR ''#'' \<notin> set ts"
  shows "ParseQualifiedTarget (QualifiedTarget build_file target toolset)
         = (Some build_file, target, toolset)"
proof (cases toolset)
  case None
  have "rsplit1 CHR ''#'' target = None" using assms(2) by (simp add: rsplit1_None_iff)
  with None assms(1) show ?thesis by (simp add: ParseQualifiedTarget_def QualifiedTarget_def)
next
  case (Some ts)
  with assms have "rsplit1 CHR '':'' (build_file @ CHR '':'' # target @ CHR ''#'' # ts)
      = Some (build_file, target @ CHR ''#'' # ts)" by auto
  with Some assms(3) show ?thesis
    by (simp add: ParseQualifiedTarget_def QualifiedTarget_def)
qed

lemma BuildFile_Qualified [simp]:
  assumes "CHR '':'' \<notin> set target" and "\<forall>ts. toolset = Some ts \<longrightarrow> CHR '':'' \<notin> set ts"
  shows "BuildFile (QualifiedTarget build_file target toolset) = Some build_file"
proof -
  define rest where "rest = (case toolset of None \<Rightarrow> target
    | Some ts \<Rightarrow> if ts = [] then target else target @ ''#'' @ ts)"
  have "QualifiedTarget build_file target toolset = build_file @ CHR '':'' # rest"
    by (simp add: QualifiedTarget_def rest_def split: option.split)
  moreover have "CHR '':'' \<notin> set rest" using assms by (auto simp: rest_def split: option.split)
  ultimately show ?thesis
    by (simp add: BuildFile_def ParseQualifiedTarget_def Let_def split: prod.split)
qed

lemma proper_pardir_free: "proper_comp c \<Longrightarrow> c \<noteq> []"
  by (simp add: proper_comp_def)

lemma path_comps_pardir [simp]: "path_comps ''..'' = [''..'']"
  by (simp add: path_comps_def)

lemma path_comps_proper: "CHR ''/'' \<notin> set c \<Longrightarrow> path_comps c = filter (\<lambda>c. c \<noteq> []) [c]"
  by (simp add: path_comps_def split_on_no_sep)

lemma path_comps_foldl_join:
  assumes "\<forall>c \<in> set cs. CHR ''/'' \<notin> set c"
  shows "path_comps (foldl path_join p cs) = path_comps p @ filter (\<lambda>c. c \<noteq> []) cs"
  using assms
proof (induction cs arbitrary: p)
  case (Cons c cs)
  then have "\<not> isabs c" by (cases c) (auto simp: isabs_def)
  with Cons show ?case by (simp add: path_comps_join path_comps_proper)
qed simp

lemma isabs_foldl_join:
  assumes "\<forall>c \<in> set cs. CHR ''/'' \<notin> set c" and "p \<noteq> []"
  shows "isabs (foldl path_join p cs) \<longleftrightarrow> isabs p"
  using assms
proof (induction cs arbitrary: p)
  case (Cons c cs)
  then have "\<not> isabs c" by (cases c) (auto simp: isabs_def)
  with Cons.prems(2) have "isabs (path_join p c) = isabs p" "path_join p c \<noteq> []"
    by (auto simp: path_join_def isabs_def)
  with Cons show ?case by simp
qed simp

text \<open>
  The components of \<open>RelativePath\<close>: enough \<open>..\<close> to leave the second path for the common prefix,
  then the rest of the first path.
\<close>

lemma longest_common_prefix_take:
  "take (length (longest_common_prefix xs ys)) ys = take (length (longest_common_prefix xs ys)) xs"
  by (metis longest_common_prefix_prefix1 longest_common_prefix_prefix2 append_eq_conv_conj prefix_def)

text \<open>The list \<open>relative_split\<close> on two canonical paths, by whether either is the root.\<close>

lemma relative_split_shape:
  assumes "\<forall>c \<in> set ps. proper_comp c" and "\<forall>c \<in> set rs. proper_comp c"
  defines "k \<equiv> length (longest_common_prefix ps rs)"
    and "P \<equiv> split_on CHR ''/'' (abs_path ps)" and "R \<equiv> split_on CHR ''/'' (abs_path rs)"
  defines "n \<equiv> length (longest_common_prefix P R)"
  shows "replicate (length R - n) ''..'' @ drop n P =
    (if ps = [] then (if rs = [] then [] else replicate (length rs) ''..'' @ [[]])
     else if rs = [] then ''..'' # ps
     else replicate (length rs - k) ''..'' @ drop k ps)"
proof -
  have P: "P = [] # (if ps = [] then [[]] else ps)" and R: "R = [] # (if rs = [] then [[]] else rs)"
    using assms by (simp_all add: P_def R_def canonical_path_split)
  have "rs \<noteq> [] \<Longrightarrow> longest_common_prefix [[]] rs = []"
    using assms(2) by (cases rs) (auto simp: proper_comp_def)
  moreover have "ps \<noteq> [] \<Longrightarrow> longest_common_prefix ps [[]] = []"
    using assms(1) by (cases ps) (auto simp: proper_comp_def)
  ultimately show ?thesis by (simp add: n_def k_def P R)
qed

lemma RelativePath_comps:
  assumes "\<forall>c \<in> set ps. proper_comp c" and "\<forall>c \<in> set rs. proper_comp c"
    and "rp path = abs_path ps" and "rp rel = abs_path rs"
  defines "k \<equiv> length (longest_common_prefix ps rs)"
  shows "\<not> isabs (RelativePath rp path rel) \<and>
    (\<exists>m. path_comps (RelativePath rp path rel) = replicate m ''..'' @ drop k ps
         \<and> take (length rs - m) rs = take k ps)"
proof -
  define S where "S =
    (if ps = [] then (if rs = [] then [] else replicate (length rs) ''..'' @ [[]])
     else if rs = [] then ''..'' # ps
     else replicate (length rs - k) ''..'' @ drop k ps)"
  have rel: "RelativePath rp path rel = (case S of [] \<Rightarrow> [] | c # cs \<Rightarrow> foldl path_join c cs)"
    using relative_split_shape [OF assms(1,2)]
    by (simp add: RelativePath_def assms(3,4) S_def k_def Let_def)
  have ps_free: "\<forall>c \<in> set (drop j ps). CHR ''/'' \<notin> set c \<and> c \<noteq> []" for j
    using assms(1) by (auto simp: proper_comp_def dest!: in_set_dropD)
  have S_free: "\<forall>c \<in> set S. CHR ''/'' \<notin> set c"
  proof -
    have "set S \<subseteq> insert [] (insert ''..'' (set ps))" by (auto simp: S_def dest: in_set_dropD)
    with ps_free [of 0] show ?thesis by auto
  qed
  have "drop k ps \<noteq> [] \<Longrightarrow> hd (drop k ps) \<noteq> []"
    using ps_free [of k] hd_in_set by blast
  moreover have "ps \<noteq> [] \<Longrightarrow> hd (replicate j ''..'' @ drop k ps) = (if j = 0 then hd (drop k ps) else ''..'')" for j
    by (cases j) auto
  ultimately have hd_S: "S \<noteq> [] \<Longrightarrow> hd S \<noteq> []"
    by (cases "length rs") (simp_all add: S_def split: if_splits)
  have filter_ps: "filter (\<lambda>c. c \<noteq> []) (drop j ps) = drop j ps" for j
    using ps_free by (simp add: filter_id_conv)
  have "\<not> isabs (RelativePath rp path rel)"
  proof (cases S)
    case (Cons c cs)
    with S_free hd_S have "\<not> isabs c" by (cases c) (auto simp: isabs_def)
    with Cons S_free hd_S show ?thesis by (simp add: rel isabs_foldl_join)
  qed (simp add: rel isabs_def)
  moreover have "path_comps (RelativePath rp path rel) = filter (\<lambda>c. c \<noteq> []) S"
    using S_free by (cases S) (auto simp: rel path_comps_foldl_join path_comps_proper)
  moreover have "\<exists>m. filter (\<lambda>c. c \<noteq> []) S = replicate m ''..'' @ drop k ps
         \<and> take (length rs - m) rs = take k ps"
  proof (cases "ps = []")
    case True
    then show ?thesis by (intro exI [of _ "length rs"]) (simp add: S_def)
  next
    case ps: False
    show ?thesis
    proof (cases "rs = []")
      case True
      with ps have "k = 0" by (simp add: k_def neq_Nil_conv)
      with True ps filter_ps [of 0] show ?thesis by (intro exI [of _ 1]) (simp add: S_def)
    next
      case False
      have "k \<le> length rs"
        by (simp add: k_def prefix_length_le longest_common_prefix_prefix2)
      with False ps filter_ps [of k] show ?thesis
        using longest_common_prefix_take [of ps rs]
        by (intro exI [of _ "length rs - k"]) (simp add: S_def k_def)
    qed
  qed
  ultimately show ?thesis by simp
qed

text \<open>
  Following the relative path from the second path and normalising leads to the first path.
\<close>

theorem RelativePath_leads_back:
  assumes "canonical_path (rp path)" and "canonical_path (rp rel)"
  shows "normpath (path_join (rp rel) (RelativePath rp path rel)) = rp path"
proof -
  obtain ps rs where ps: "\<forall>c \<in> set ps. proper_comp c" "rp path = abs_path ps"
    and rs: "\<forall>c \<in> set rs. proper_comp c" "rp rel = abs_path rs"
    using assms by (auto simp: canonical_path_iff)
  define k where "k = length (longest_common_prefix ps rs)"
  obtain m where rel: "\<not> isabs (RelativePath rp path rel)"
      "path_comps (RelativePath rp path rel) = replicate m ''..'' @ drop k ps"
      "take (length rs - m) rs = take k ps"
    using RelativePath_comps [OF ps(1) rs(1), where rp = rp, OF ps(2) rs(2)] by (auto simp: k_def)
  have "foldl (norm_step True) rs (path_comps (RelativePath rp path rel)) = take k ps @ drop k ps"
  proof -
    have "\<forall>c \<in> set (drop k ps). proper_comp c" using ps(1) by (meson in_set_dropD)
    then show ?thesis
      by (simp only: rel(2,3) foldl_append foldl_norm_step_pardir [OF rs(1)] foldl_norm_step_proper)
  qed
  then show ?thesis
    using rs rel(1) ps(2) by (simp add: normpath_join_rel)
qed

theorem ParseQualifiedTarget_witness:
  "ParseQualifiedTarget (QualifiedTarget ''C:/x.gyp'' ''app'' (Some ''host'')) = (Some ''C:/x.gyp'', ''app'', Some ''host'')"
  by (rule ParseQualifiedTarget_Qualified) simp_all

theorem RelativePath_witness:
  "normpath (path_join ''/a/b/c'' (RelativePath id ''/a/d'' ''/a/b/c'')) = ''/a/d''"
proof -
  have "canonical_path (id ''/a/d'')" "canonical_path (id ''/a/b/c'')" by code_simp+
  from RelativePath_leads_back [where rp = id, OF this] show ?thesis by simp
qed

end
