(* ===== verification/Gyp_Value.thy ===== *)
theory Gyp_Value
  imports Py_Path
begin

text \<open>
  The values of a loaded \<open>.gyp\<close> file and the globals of \<open>tools/gyp/pylib/gyp/input.py\<close>.

  A value is a string, an integer, a list or a dictionary; a value of any other class (\<open>None\<close> or a
  tuple, which \<open>eval\<close> can produce) is \<open>GOther\<close> with its class name and its truth value. Keys are
  strings. Nested containers are trees: the code mutates them in place, the model returns the new
  tree, and the sources copy wherever two places would share one. Python's booleans are \<open>GOther\<close> too, so a
  test \<open>isinstance(v, int)\<close>, which holds of them in Python, fails here; a build file has no name for them, and
  they come from comparisons in it or from a define without a value.
\<close>

section \<open>Values\<close>

datatype gval =
    GStr string
  | GInt int
  | GList "gval list"
  | GDict "(string \<times> gval) list"
  | GOther string bool

type_synonym gdict = "(string \<times> gval) list"

fun class_name :: "gval \<Rightarrow> string" where
  "class_name (GStr s) = ''str''"
| "class_name (GInt i) = ''int''"
| "class_name (GList l) = ''list''"
| "class_name (GDict d) = ''dict''"
| "class_name (GOther c b) = c"

text \<open>\<open>isinstance(v, str) or isinstance(v, int)\<close>\<close>

fun is_scalar :: "gval \<Rightarrow> bool" where
  "is_scalar (GStr s) = True"
| "is_scalar (GInt i) = True"
| "is_scalar v = False"

text \<open>The truth value of \<open>if v:\<close>.\<close>

fun truthy :: "gval \<Rightarrow> bool" where
  "truthy (GStr s) = (s \<noteq> [])"
| "truthy (GInt i) = (i \<noteq> 0)"
| "truthy (GList l) = (l \<noteq> [])"
| "truthy (GDict d) = (d \<noteq> [])"
| "truthy (GOther c b) = b"

definition get_truthy :: "gdict \<Rightarrow> string \<Rightarrow> bool" where
  "get_truthy d k = (case map_of d k of None \<Rightarrow> False | Some v \<Rightarrow> truthy v)"

text \<open>\<open>for x in v\<close>: lists, the characters of a string, the keys of a dictionary.\<close>

fun py_iter :: "gval \<Rightarrow> gval list result" where
  "py_iter (GList l) = Inr l"
| "py_iter (GStr s) = Inr (map (\<lambda>c. GStr [c]) s)"
| "py_iter (GDict d) = Inr (map (\<lambda>(k, v). GStr k) d)"
| "py_iter v = Inl (TypeError (class_name v @ '' object is not iterable''))"

text \<open>\<open>d.get(k, [])\<close> used as the sequence of a \<open>for\<close> loop.\<close>

definition get_iter :: "gdict \<Rightarrow> string \<Rightarrow> gval list result" where
  "get_iter d k = py_iter (dict_get d k (GList []))"

fun as_str :: "gval \<Rightarrow> string result" where
  "as_str (GStr s) = Inr s"
| "as_str v = Inl (TypeError (''expected str, found '' @ class_name v))"

fun as_list :: "gval \<Rightarrow> gval list result" where
  "as_list (GList l) = Inr l"
| "as_list v = Inl (TypeError (''expected list, found '' @ class_name v))"

fun as_dict :: "gval \<Rightarrow> gdict result" where
  "as_dict (GDict d) = Inr d"
| "as_dict v = Inl (AttributeError (class_name v @ '' object is not a dict''))"

lemma as_str_Inr [simp]: "as_str v = Inr s \<longleftrightarrow> v = GStr s"
  by (cases v) auto

lemma as_dict_Inr [simp]: "as_dict v = Inr d \<longleftrightarrow> v = GDict d"
  by (cases v) auto

lemma as_list_Inr [simp]: "as_list v = Inr l \<longleftrightarrow> v = GList l"
  by (cases v) auto

text \<open>\<open>v[k]\<close> where \<open>v\<close> is expected to be a dictionary.\<close>

fun dict_index :: "gval \<Rightarrow> gval \<Rightarrow> gval result" where
  "dict_index (GDict d) (GStr k) = dict_read d k"
| "dict_index (GDict d) (GInt i) = Inl (KeyError ''<int>'')"
| "dict_index (GDict d) v = Inl (TypeError ''unhashable type'')"
| "dict_index v k = Inl (TypeError (class_name v @ '' indices''))"

text \<open>The equality \<open>==\<close>: dictionaries compare as mappings.\<close>

function py_eq :: "gval \<Rightarrow> gval \<Rightarrow> bool" where
  "py_eq v w =
     (case (v, w) of
        (GList l, GList m) \<Rightarrow> list_all2 py_eq l m
      | (GDict d, GDict e) \<Rightarrow>
          length d = length e
          \<and> list_all (\<lambda>(k, x). case map_of e k of None \<Rightarrow> False | Some y \<Rightarrow> py_eq x y) d
      | _ \<Rightarrow> v = w)"
  by pat_completeness auto
termination
  by (relation "measure (\<lambda>(v, w). size v)") (auto simp: less_Suc_eq_le size_list_estimation')

declare py_eq.simps [simp del]

lemma py_eq_simps [simp]:
  "py_eq (GStr s) w \<longleftrightarrow> w = GStr s"
  "py_eq (GInt i) w \<longleftrightarrow> w = GInt i"
  "py_eq (GList l) (GList m) \<longleftrightarrow> list_all2 py_eq l m"
  "py_eq (GDict d) (GDict e) \<longleftrightarrow> length d = length e
     \<and> list_all (\<lambda>(k, x). case map_of e k of None \<Rightarrow> False | Some y \<Rightarrow> py_eq x y) d"
  by (subst py_eq.simps; auto split: gval.split)+

text \<open>Dictionaries at every depth have each key once.\<close>

fun wf_gval :: "gval \<Rightarrow> bool" where
  "wf_gval (GList l) = list_all wf_gval l"
| "wf_gval (GDict d) = (wf_dict d \<and> list_all (\<lambda>(k, v). wf_gval v) d)"
| "wf_gval v = True"

definition wf_gdict :: "gdict \<Rightarrow> bool" where
  "wf_gdict d \<longleftrightarrow> wf_gval (GDict d)"

lemma wf_gdict_iff: "wf_gdict d \<longleftrightarrow> wf_dict d \<and> (\<forall>(k, v) \<in> set d. wf_gval v)"
  by (simp add: wf_gdict_def list_all_iff)

lemma wf_gdict_Nil [simp]: "wf_gdict []"
  by (simp add: wf_gdict_iff)

lemma wf_gdict_lookup: "wf_gdict d \<Longrightarrow> map_of d k = Some v \<Longrightarrow> wf_gval v"
  by (auto simp: wf_gdict_iff dest: map_of_SomeD)

lemma wf_gdict_update [simp]: "wf_gdict d \<Longrightarrow> wf_gval v \<Longrightarrow> wf_gdict (AList.update k v d)"
proof -
  assume d: "wf_gdict d" and v: "wf_gval v"
  have "(\<forall>(k, v) \<in> set d. wf_gval v) \<Longrightarrow> \<forall>(k, v) \<in> set (AList.update k v d). wf_gval v"
    using v by (induction d) auto
  with d show ?thesis by (auto simp: wf_gdict_iff)
qed

lemma wf_gdict_delete [simp]: "wf_gdict d \<Longrightarrow> wf_gdict (AList.delete k d)"
proof -
  assume d: "wf_gdict d"
  have "set (AList.delete k d) \<subseteq> set d" by (auto simp: AList.delete_eq)
  with d show ?thesis by (auto simp: wf_gdict_iff)
qed

section \<open>The globals of input.py\<close>

text \<open>
  \<open>realpath\<close> is \<open>os.path.realpath\<close>; the other fields are the module globals that \<open>Load\<close> sets
  from the generator's \<open>generator_input_info\<close>.
\<close>

record gyp_env =
  realpath :: "string \<Rightarrow> string"
  path_sections :: "string list"
  non_configuration_keys :: "string list"
  absolute_build_file_paths :: bool
  multiple_toolsets :: bool

definition linkable_types :: "string list" where
  "linkable_types = [''executable'', ''shared_library'', ''loadable_module'']"

definition dependency_sections :: "string list" where
  "dependency_sections = [''dependencies'', ''export_dependent_settings'']"

definition base_path_sections :: "string list" where
  "base_path_sections =
     [''destination'', ''files'', ''include_dirs'', ''inputs'', ''libraries'', ''outputs'', ''sources'']"

definition base_non_configuration_keys :: "string list" where
  "base_non_configuration_keys =
     [''actions'', ''configurations'', ''copies'', ''default_configuration'', ''dependencies'',
      ''dependencies_original'', ''link_languages'', ''libraries'', ''postbuilds'', ''product_dir'',
      ''product_extension'', ''product_name'', ''product_prefix'', ''rules'', ''run_as'', ''sources'',
      ''standalone_static_library'', ''suppress_wildcard'', ''target_name'', ''toolset'', ''toolsets'',
      ''type'', ''variants'', ''variables'']"

definition invalid_configuration_keys :: "string list" where
  "invalid_configuration_keys =
     [''actions'', ''all_dependent_settings'', ''configurations'', ''dependencies'',
      ''direct_dependent_settings'', ''libraries'', ''link_settings'', ''sources'',
      ''standalone_static_library'', ''target_name'', ''type'']"

text \<open>The globals as \<open>Load\<close> sets them, from the generator's two lists and two flags.\<close>

definition gyp_globals ::
  "(string \<Rightarrow> string) \<Rightarrow> string list \<Rightarrow> string list \<Rightarrow> bool \<Rightarrow> bool \<Rightarrow> gyp_env" where
  "gyp_globals rp gen_path_sections gen_non_configuration_keys wants_absolute multi =
     \<lparr>realpath = rp,
      path_sections = base_path_sections @ gen_path_sections,
      non_configuration_keys = base_non_configuration_keys @ gen_non_configuration_keys,
      absolute_build_file_paths = wants_absolute,
      multiple_toolsets = multi\<rparr>"

section \<open>IsPathSection\<close>

definition is_path_section_charset :: "char list" where
  "is_path_section_charset = [CHR ''='', CHR ''+'', CHR ''?'', CHR ''!'']"

text \<open>
  \<open>re.compile('_(dir|file|path)s?$').search\<close>; the dollar also matches before a final newline.
\<close>

definition path_section_match :: "string \<Rightarrow> bool" where
  "path_section_match s \<longleftrightarrow>
     (\<exists>w \<in> {''_dir'', ''_dirs'', ''_file'', ''_files'', ''_path'', ''_paths''}.
        suffix w s \<or> suffix (w @ [CHR 0x0A]) s)"

definition strip_section :: "string \<Rightarrow> string" where
  "strip_section section = rev (dropWhile (\<lambda>c. c \<in> set is_path_section_charset) (rev section))"

definition IsPathSection :: "gyp_env \<Rightarrow> string \<Rightarrow> bool" where
  "IsPathSection env section =
     (let section = strip_section section
      in section \<in> set (path_sections env) \<or> path_section_match section)"

end
