(* ===== verification/Gyp_Merge.thy ===== *)
theory Gyp_Merge
  imports Gyp_Common Gyp_Value
begin

text \<open>
  \<open>input.py\<close>: merging one build-file dictionary into another (\<open>MakePathRelative\<close>, \<open>MergeLists\<close>,
  \<open>MergeDicts\<close>), with the list policies a key's last character selects.
\<close>

section \<open>MakePathRelative\<close>

text \<open>\<open>exception_re.match\<close>: an optional quote, then one of the characters \<open>- / $ < > ^\<close>.\<close>

definition exception_start :: "string \<Rightarrow> bool" where
  "exception_start s \<longleftrightarrow>
     s \<noteq> [] \<and> hd s \<in> {CHR ''-'', CHR ''/'', CHR ''$'', CHR ''<'', CHR ''>'', CHR ''^''}"

definition exception_match :: "string \<Rightarrow> bool" where
  "exception_match item \<longleftrightarrow>
     exception_start item
     \<or> item \<noteq> [] \<and> hd item \<in> {CHR 0x22, CHR 0x27} \<and> exception_start (tl item)"

text \<open>
  An item that is not a string fails in \<open>exception_re.match\<close>; the empty string passes it and fails
  in \<open>item[-1]\<close>.
\<close>

definition MakePathRelative :: "gyp_env \<Rightarrow> string \<Rightarrow> string \<Rightarrow> gval \<Rightarrow> gval result" where
  "MakePathRelative env to_file fro_file item =
     (if to_file = fro_file then Inr item
      else case item of
        GStr s \<Rightarrow>
          if exception_match s then Inr item
          else let rel = RelativePath (realpath env) (dirname fro_file) (dirname to_file);
                   ret = replace_char CHR 0x5C CHR ''/'' (normpath (path_join rel s))
               in if s = [] then Inl IndexError
                  else Inr (GStr (if last s = CHR ''/'' then ret @ ''/'' else ret))
      | v \<Rightarrow> Inl (TypeError ''expected string or buffer''))"

section \<open>MergeLists and MergeDicts\<close>

text \<open>\<open>to.insert(index, x)\<close>\<close>

definition list_insert :: "nat \<Rightarrow> 'a \<Rightarrow> 'a list \<Rightarrow> 'a list" where
  "list_insert i x xs = take i xs @ x # drop i xs"

text \<open>
  The state of \<open>MergeLists\<close> is the list \<open>to\<close> and \<open>prepend_index\<close>. The set the code keeps beside
  \<open>to\<close> holds its hashable elements, and is only asked about strings and integers, so the test is
  membership in \<open>to\<close>.
\<close>

definition merge_item :: "bool \<Rightarrow> 'a \<times> bool \<Rightarrow> 'a list \<times> nat \<Rightarrow> 'a list \<times> nat" where
  "merge_item app = (\<lambda>(to_item, singleton) (to, prepend_index).
     if app
     then (if \<not> singleton \<or> to_item \<notin> set to then to @ [to_item] else to, prepend_index)
     else let to = (if singleton then removeAll to_item to else to)
          in (list_insert prepend_index to_item to, prepend_index + 1))"

text \<open>A string or integer is a singleton unless it is a string that begins with a dash.\<close>

fun singleton_item :: "gval \<Rightarrow> bool" where
  "singleton_item (GStr s) = (\<not> prefix ''-'' s)"
| "singleton_item (GInt i) = True"
| "singleton_item v = False"

text \<open>Whether the value \<open>v\<close> may not be merged onto the existing value \<open>t\<close>.\<close>

definition bad_merge :: "gval \<Rightarrow> gval \<Rightarrow> bool" where
  "bad_merge v t \<longleftrightarrow> (if is_scalar v then \<not> is_scalar t else class_name v \<noteq> class_name t)"

text \<open>
  The policy a list's key selects: the last character, the key it acts on, the keys it may not
  occur beside, and whether the items are appended.
\<close>

definition list_policy :: "string \<Rightarrow> char \<times> string \<times> string list \<times> bool" where
  "list_policy k =
     (let ext = last k; base = butlast k
      in if ext = CHR ''='' then (ext, base, [base, base @ ''?''], True)
         else if ext = CHR ''+'' then (ext, base, [base @ ''='', base @ ''?''], False)
         else if ext = CHR ''?'' then (ext, base, [base, base @ ''='', base @ ''+''], True)
         else (ext, k, [k @ ''='', k @ ''?''], True))"

function (sequential)
  MergeLists :: "gyp_env \<Rightarrow> gval list \<Rightarrow> gval list \<Rightarrow> string \<Rightarrow> string \<Rightarrow> bool \<Rightarrow> bool \<Rightarrow> gval list result"
  and MergeDicts :: "gyp_env \<Rightarrow> gdict \<Rightarrow> gdict \<Rightarrow> string \<Rightarrow> string \<Rightarrow> gdict result"
where
  "MergeLists env to fro to_file fro_file is_paths app =
     rbind (rfold (\<lambda>item state.
        rbind (case item of
                 GDict d \<Rightarrow> rbind (MergeDicts env [] d to_file fro_file) (\<lambda>d'. Inr (GDict d'))
               | GList l \<Rightarrow> rbind (MergeLists env [] l to_file fro_file False True) (\<lambda>l'. Inr (GList l'))
               | GOther c b \<Rightarrow> Inl (TypeError (''Attempt to merge list item of unsupported type '' @ c))
               | scalar \<Rightarrow> if is_paths then MakePathRelative env to_file fro_file scalar else Inr scalar)
          (\<lambda>to_item. Inr (merge_item app (to_item, singleton_item item) state)))
        fro (to, 0))
     (\<lambda>(to, prepend_index). Inr to)"
| "MergeDicts env to fro to_file fro_file =
     rfold (\<lambda>(k, v) to.
        if has_key k to \<and> bad_merge v (the (map_of to k))
        then Inl (TypeError (''Attempt to merge dict value of type '' @ class_name v
               @ '' into incompatible type '' @ class_name (the (map_of to k)) @ '' for key '' @ k))
        else case v of
          GDict d \<Rightarrow>
            rbind (as_dict (dict_get to k (GDict []))) (\<lambda>t.
            rbind (MergeDicts env t d to_file fro_file) (\<lambda>t'.
            Inr (AList.update k (GDict t') to)))
        | GList l \<Rightarrow>
            if k = [] then Inl IndexError
            else let (ext, list_base, lists_incompatible, app) = list_policy k;
                     to = (if ext = CHR ''='' then AList.update list_base (GList []) to else to)
                 in (case find (\<lambda>x. has_key x fro) lists_incompatible of
                       Some bad \<Rightarrow>
                         Inl (GypError (''Incompatible list policies '' @ k @ '' and '' @ bad))
                     | None \<Rightarrow>
                         if has_key list_base to \<and> ext = CHR ''?'' then Inr to
                         else (case dict_get to list_base (GList []) of
                                 GList t \<Rightarrow>
                                   rbind (MergeLists env t l to_file fro_file
                                            (IsPathSection env list_base) app)
                                     (\<lambda>t'. Inr (AList.update list_base (GList t') to))
                               | other \<Rightarrow>
                                   Inl (TypeError (''Attempt to merge dict value of type list''
                                     @ '' into incompatible type '' @ class_name other
                                     @ '' for key '' @ list_base @ ''('' @ k @ '')''))))
        | GOther c b \<Rightarrow>
            Inl (TypeError (''Attempt to merge dict value of unsupported type '' @ c
                   @ '' for key '' @ k))
        | scalar \<Rightarrow>
            if IsPathSection env k
            then rbind (MakePathRelative env to_file fro_file scalar)
                   (\<lambda>x. Inr (AList.update k x to))
            else Inr (AList.update k scalar to))
       fro to"
  by pat_completeness auto
termination
proof (relation "measure (\<lambda>x. case x of
    Inl (env, to, fro, to_file, fro_file, is_paths, app) \<Rightarrow> size_list size fro
  | Inr (env, to, fro, to_file, fro_file) \<Rightarrow> size_list (size_prod (\<lambda>_. 0) size) fro)", goal_cases)
qed (auto simp: less_Suc_eq_le intro: size_list_estimation size_list_estimation')

declare MergeLists.simps [simp del] MergeDicts.simps [simp del]

section \<open>One iteration of each loop\<close>

definition merge_list_item ::
  "gyp_env \<Rightarrow> string \<Rightarrow> string \<Rightarrow> bool \<Rightarrow> gval \<Rightarrow> gval result" where
  "merge_list_item env to_file fro_file is_paths item =
     (case item of
        GDict d \<Rightarrow> rbind (MergeDicts env [] d to_file fro_file) (\<lambda>d'. Inr (GDict d'))
      | GList l \<Rightarrow> rbind (MergeLists env [] l to_file fro_file False True) (\<lambda>l'. Inr (GList l'))
      | GOther c b \<Rightarrow> Inl (TypeError (''Attempt to merge list item of unsupported type '' @ c))
      | scalar \<Rightarrow> if is_paths then MakePathRelative env to_file fro_file scalar else Inr scalar)"

lemma MergeLists_loop:
  "MergeLists env to fro tf ff isp app =
     rbind (rfold (\<lambda>item state. rbind (merge_list_item env tf ff isp item)
        (\<lambda>x. Inr (merge_item app (x, singleton_item item) state))) fro (to, 0)) (\<lambda>(to, i). Inr to)"
  by (subst MergeLists.simps) (simp only: merge_list_item_def)

definition merge_entry ::
  "gyp_env \<Rightarrow> gdict \<Rightarrow> string \<Rightarrow> string \<Rightarrow> string \<times> gval \<Rightarrow> gdict \<Rightarrow> gdict result" where
  "merge_entry env fro to_file fro_file = (\<lambda>(k, v) to.
     if has_key k to \<and> bad_merge v (the (map_of to k))
     then Inl (TypeError (''Attempt to merge dict value of type '' @ class_name v
            @ '' into incompatible type '' @ class_name (the (map_of to k)) @ '' for key '' @ k))
     else case v of
       GDict d \<Rightarrow>
         rbind (as_dict (dict_get to k (GDict []))) (\<lambda>t.
         rbind (MergeDicts env t d to_file fro_file) (\<lambda>t'.
         Inr (AList.update k (GDict t') to)))
     | GList l \<Rightarrow>
         if k = [] then Inl IndexError
         else let (ext, list_base, lists_incompatible, app) = list_policy k;
                  to = (if ext = CHR ''='' then AList.update list_base (GList []) to else to)
              in (case find (\<lambda>x. has_key x fro) lists_incompatible of
                    Some bad \<Rightarrow>
                      Inl (GypError (''Incompatible list policies '' @ k @ '' and '' @ bad))
                  | None \<Rightarrow>
                      if has_key list_base to \<and> ext = CHR ''?'' then Inr to
                      else (case dict_get to list_base (GList []) of
                              GList t \<Rightarrow>
                                rbind (MergeLists env t l to_file fro_file
                                         (IsPathSection env list_base) app)
                                  (\<lambda>t'. Inr (AList.update list_base (GList t') to))
                            | other \<Rightarrow>
                                Inl (TypeError (''Attempt to merge dict value of type list''
                                  @ '' into incompatible type '' @ class_name other
                                  @ '' for key '' @ list_base @ ''('' @ k @ '')''))))
     | GOther c b \<Rightarrow>
         Inl (TypeError (''Attempt to merge dict value of unsupported type '' @ c
                @ '' for key '' @ k))
     | scalar \<Rightarrow>
         if IsPathSection env k
         then rbind (MakePathRelative env to_file fro_file scalar)
                (\<lambda>x. Inr (AList.update k x to))
         else Inr (AList.update k scalar to))"

lemma MergeDicts_loop: "MergeDicts env to fro tf ff = rfold (merge_entry env fro tf ff) fro to"
  by (subst MergeDicts.simps) (simp only: merge_entry_def)

text \<open>The key an entry writes.\<close>

definition merge_key :: "string \<times> gval \<Rightarrow> string" where
  "merge_key = (\<lambda>(k, v). case v of GList l \<Rightarrow> fst (snd (list_policy k)) | _ \<Rightarrow> k)"

lemma merge_entry_list_Inr:
  assumes "merge_entry env fro tf ff (k, GList l) to = Inr to'"
    and "list_policy k = (ext, base, bad, app)"
  shows "k \<noteq> [] \<and> (\<forall>b \<in> set bad. \<not> has_key b fro) \<and>
    (if ext = CHR ''?'' \<and> has_key base to then to' = to
     else \<exists>t t'. (if ext = CHR ''='' then t = [] else dict_get to base (GList []) = GList t)
        \<and> MergeLists env t l tf ff (IsPathSection env base) app = Inr t'
        \<and> map_of to' = (map_of to)(base \<mapsto> GList t')
        \<and> (wf_gdict to \<longrightarrow> wf_gval (GList t') \<longrightarrow> wf_gdict to'))"
proof -
  from assms have k: "k \<noteq> []" and bad: "find (\<lambda>x. has_key x fro) bad = None"
    by (auto simp: merge_entry_def Let_def split: if_splits option.splits)
  define to1 where "to1 = (if ext = CHR ''='' then AList.update base (GList []) to else to)"
  have "if ext = CHR ''?'' \<and> has_key base to then to' = to
     else \<exists>t t'. dict_get to1 base (GList []) = GList t
        \<and> MergeLists env t l tf ff (IsPathSection env base) app = Inr t'
        \<and> to' = AList.update base (GList t') to1"
    using assms bad
    by (auto simp: merge_entry_def to1_def Let_def has_key_iff split: if_splits gval.splits)
  moreover have "\<forall>b \<in> set bad. \<not> has_key b fro" using bad by (auto simp: find_None_iff)
  ultimately show ?thesis
    using k by (auto simp: to1_def dict_get_def map_of_update split: if_splits)
qed

lemma merge_entry_frame:
  assumes "merge_entry env fro tf ff e to = Inr to'" and "x \<noteq> merge_key e"
  shows "map_of to' x = map_of to x"
proof (cases "\<exists>k l. e = (k, GList l)")
  case True
  then obtain k l where e: "e = (k, GList l)" by blast
  obtain ext base bad app where pol: "list_policy k = (ext, base, bad, app)"
    by (cases "list_policy k") auto
  with assms(2) e have "x \<noteq> base" by (simp add: merge_key_def)
  with merge_entry_list_Inr [OF _ pol] assms(1) e show ?thesis
    by (metis fun_upd_apply)
next
  case False
  with assms show ?thesis
    by (cases e; cases "snd e")
      (auto simp: merge_entry_def merge_key_def map_of_update split: if_splits)
qed

text \<open>A path or other scalar as it is stored in the receiving dictionary.\<close>

definition merged_scalar :: "gyp_env \<Rightarrow> string \<Rightarrow> string \<Rightarrow> string \<Rightarrow> gval \<Rightarrow> gval result" where
  "merged_scalar env tf ff k v =
     (if IsPathSection env k then MakePathRelative env tf ff v else Inr v)"

lemma MakePathRelative_scalar [simp]:
  "MakePathRelative env tf ff (GStr s) = Inr x \<Longrightarrow> is_scalar x"
  "MakePathRelative env tf ff (GInt i) = Inr x \<Longrightarrow> is_scalar x"
  by (auto simp: MakePathRelative_def Let_def split: if_splits)

lemma merge_entry_scalar:
  "is_scalar v \<Longrightarrow> merge_entry env fro tf ff (k, v) to = Inr to' \<Longrightarrow>
   \<exists>x. merged_scalar env tf ff k v = Inr x \<and> is_scalar x \<and> map_of to' k = Some x"
  by (cases v)
    (auto simp: merge_entry_def merged_scalar_def map_of_update split: if_splits)

text \<open>
  A list entry whose base key is also an entry of the same dictionary appends or prepends; any
  other policy is refused.
\<close>

lemma merge_entry_scalar_stays:
  assumes "merge_entry env fro tf ff e to = Inr to'"
    and "map_of to x = Some y" and "is_scalar y" and "has_key x fro" and "fst e \<noteq> x"
  shows "map_of to' x = Some y"
proof (cases "merge_key e = x")
  case False
  with assms show ?thesis by (metis merge_entry_frame)
next
  case True
  obtain k v where e: "e = (k, v)" by (cases e)
  with True assms(5) obtain l where v: "v = GList l"
    by (cases v) (auto simp: merge_key_def)
  obtain ext base bad app where pol: "list_policy k = (ext, base, bad, app)"
    by (cases "list_policy k") auto
  with True e v have x: "base = x" by (simp add: merge_key_def)
  with assms(5) e pol have "ext = CHR ''+'' \<and> app = False \<or> base \<in> set bad"
    by (auto simp: list_policy_def Let_def split: if_splits)
  moreover from assms(1) e v pol x have inv: "\<forall>b \<in> set bad. \<not> has_key b fro"
    "ext = CHR ''+'' \<longrightarrow> (\<exists>t. dict_get to x (GList []) = GList t)"
    using merge_entry_list_Inr [of env fro tf ff k l to to' ext base bad app]
    by (auto split: if_splits)
  ultimately have "\<exists>t. dict_get to x (GList []) = GList t"
    using assms(4) x by blast
  with assms(2,3) show ?thesis by (auto simp: dict_get_def)
qed

lemma MergeDicts_scalar:
  assumes "MergeDicts env to fro tf ff = Inr to'" and "wf_dict fro"
    and "map_of fro k = Some v" and "is_scalar v"
  shows "\<exists>x. merged_scalar env tf ff k v = Inr x \<and> map_of to' k = Some x"
proof -
  from assms(3) obtain as bs where fro: "fro = as @ (k, v) # bs"
    by (meson map_of_SomeD split_list)
  with assms(2) have bs: "\<forall>e \<in> set bs. fst e \<noteq> k" by (auto simp: wf_dict_def)
  from assms(1) fro obtain t1 t2 where
    "merge_entry env fro tf ff (k, v) t1 = Inr t2" and rest: "rfold (merge_entry env fro tf ff) bs t2 = Inr to'"
    by (auto simp: MergeDicts_loop rfold_append)
  with assms(4) obtain x where x: "merged_scalar env tf ff k v = Inr x" "is_scalar x" "map_of t2 k = Some x"
    using merge_entry_scalar by blast
  have "has_key k fro" using assms(3) by (simp add: has_key_iff)
  have "map_of to' k = Some x"
  proof (rule rfold_invariant [OF rest, where P = "\<lambda>t. map_of t k = Some x"])
    fix e s s'
    assume "e \<in> set bs" "merge_entry env fro tf ff e s = Inr s'" "map_of s k = Some x"
    with x(2) bs \<open>has_key k fro\<close> show "map_of s' k = Some x"
      by (blast intro: merge_entry_scalar_stays)
  qed (rule x(3))
  with x show ?thesis by blast
qed

lemma MergeDicts_frame:
  assumes "MergeDicts env to fro tf ff = Inr to'" and "x \<notin> merge_key ` set fro"
  shows "map_of to' x = map_of to x"
proof -
  from assms(1) have "rfold (merge_entry env fro tf ff) fro to = Inr to'" by (simp add: MergeDicts_loop)
  then show ?thesis
  proof (rule rfold_invariant [where P = "\<lambda>t. map_of t x = map_of to x"])
    fix e s s'
    assume "e \<in> set fro" "merge_entry env fro tf ff e s = Inr s'" "map_of s x = map_of to x"
    with assms(2) show "map_of s' x = map_of to x" by (metis image_eqI merge_entry_frame)
  qed simp
qed

section \<open>Merging lists of strings and integers\<close>

lemma merge_list_item_scalar:
  "singleton_item x \<Longrightarrow> isp \<longrightarrow> tf = ff \<Longrightarrow> merge_list_item env tf ff isp x = Inr x"
  by (cases x) (auto simp: merge_list_item_def MakePathRelative_def)

lemma MergeLists_append:
  assumes "\<forall>x \<in> set fro. singleton_item x" and "isp \<longrightarrow> tf = ff"
  shows "MergeLists env to fro tf ff isp True = Inr (to @ keep_first id (set to) fro)"
proof -
  have "rfold (\<lambda>item state. rbind (merge_list_item env tf ff isp item)
          (\<lambda>x. Inr (merge_item True (x, singleton_item item) state))) fro (to, i)
        = Inr (to @ keep_first id (set to) fro, i)" for i
    using assms(1)
    by (induction fro arbitrary: to) (auto simp: merge_list_item_scalar assms(2) merge_item_def)
  then show ?thesis by (simp add: MergeLists_loop)
qed

lemma list_insert_length [simp]: "list_insert (length xs) x (xs @ ys) = xs @ x # ys"
  by (simp add: list_insert_def)

lemma MergeLists_prepend:
  assumes "\<forall>x \<in> set fro. singleton_item x" and "isp \<longrightarrow> tf = ff" and "distinct fro"
  shows "MergeLists env to fro tf ff isp False = Inr (fro @ filter (\<lambda>x. x \<notin> set fro) to)"
proof -
  have "rfold (\<lambda>item state. rbind (merge_list_item env tf ff isp item)
          (\<lambda>x. Inr (merge_item False (x, singleton_item item) state))) fro
          (done @ filter (\<lambda>x. x \<notin> set done) to, length done)
        = Inr (done @ fro @ filter (\<lambda>x. x \<notin> set (done @ fro)) to, length (done @ fro))"
    if "distinct (done @ fro)" for "done"
    using assms(1) that
  proof (induction fro arbitrary: "done")
    case (Cons x fro)
    then have "x \<notin> set done" by simp
    moreover have "removeAll x (filter (\<lambda>y. y \<notin> set done) to) = filter (\<lambda>y. y \<notin> set (done @ [x])) to"
      by (induction to) auto
    ultimately have "removeAll x (done @ filter (\<lambda>y. y \<notin> set done) to)
        = done @ filter (\<lambda>y. y \<notin> set (done @ [x])) to"
      by simp
    with Cons.prems have "merge_item False (x, True) (done @ filter (\<lambda>y. y \<notin> set done) to, length done)
        = ((done @ [x]) @ filter (\<lambda>y. y \<notin> set (done @ [x])) to, length (done @ [x]))"
      by (simp add: merge_item_def)
    with Cons.IH [of "done @ [x]"] Cons.prems assms(2) show ?case
      by (simp add: merge_list_item_scalar)
  qed simp
  from this [of "[]"] assms(3) show ?thesis by (simp add: MergeLists_loop)
qed

text \<open>
  Lists of strings and integers. Appending keeps the receiving list and adds each new item once;
  prepending puts the given list, in its order, before the old items that it does not contain.
\<close>

theorem MergeLists_singletons:
  assumes "\<forall>x \<in> set fro. singleton_item x" and "isp \<longrightarrow> tf = ff" and "distinct fro"
  shows "MergeLists env to fro tf ff isp app =
    Inr (if app then to @ filter (\<lambda>x. x \<notin> set to) fro else fro @ filter (\<lambda>x. x \<notin> set fro) to)"
proof -
  have "keep_first id A xs = filter (\<lambda>x. x \<notin> A) xs" if "distinct xs" for A and xs :: "gval list"
    using that
  proof (induction xs arbitrary: A)
    case (Cons x xs)
    then show ?case by (auto intro: filter_cong)
  qed simp
  with assms show ?thesis by (simp add: MergeLists_append MergeLists_prepend)
qed

section \<open>The list policies\<close>

text \<open>
  The policy characters, and the bases of list keys: keys that do not end in one. A key made of a base and
  a policy acts on the base.
\<close>

definition policy_chars :: "char list" where
  "policy_chars = [CHR ''='', CHR ''+'', CHR ''?'']"

definition policies :: "string list" where
  "policies = [[], ''='', ''+'', ''?'']"

definition list_base_key :: "string \<Rightarrow> bool" where
  "list_base_key base \<longleftrightarrow> base \<noteq> [] \<and> last base \<notin> set policy_chars"

text \<open>The policies that may not stand beside a policy.\<close>

definition clashes :: "string \<Rightarrow> string list" where
  "clashes p = (if p = ''='' then [[], ''?''] else if p = ''?'' then [[], ''='', ''+''] else [''='', ''?''])"

lemma list_policy_base:
  assumes "list_base_key base" and "p \<in> set policies"
  shows "list_policy (base @ p) = (last (base @ p), base, map ((@) base) (clashes p), p \<noteq> ''+'')"
    "last (base @ p) = CHR ''?'' \<longleftrightarrow> p = ''?''" "last (base @ p) = CHR ''='' \<longleftrightarrow> p = ''=''"
  using assms
  by (auto simp: list_base_key_def policy_chars_def policies_def list_policy_def clashes_def Let_def)

lemma clashes_cover:
  "p \<in> set policies \<Longrightarrow> q \<in> set policies \<Longrightarrow> q \<noteq> p \<Longrightarrow>
   {p, q} = {[], ''+''} \<or> q \<in> set (clashes p) \<or> p \<in> set (clashes q)"
  by (auto simp: policies_def clashes_def)

lemma merge_key_base:
  assumes "merge_key (k, v) = base" and "list_base_key base" and "k \<noteq> []"
  shows "k = base \<or> (\<exists>q m. q \<in> set policies \<and> k = base @ q \<and> v = GList m)"
proof (cases "\<exists>m. v = GList m")
  case True
  then obtain m where m: "v = GList m" by blast
  show ?thesis
  proof (cases "last k \<in> set policy_chars")
    case True
    with m assms(1) have "base = butlast k"
      by (auto simp: merge_key_def list_policy_def policy_chars_def Let_def)
    then have "k = base @ [last k]" using assms(3) by simp
    with True m show ?thesis by (auto simp: policy_chars_def policies_def)
  next
    case False
    with m assms(1) show ?thesis by (auto simp: merge_key_def list_policy_def policy_chars_def Let_def)
  qed
next
  case False
  with assms(1) show ?thesis by (cases v) (auto simp: merge_key_def)
qed

lemma MergeDicts_list_key:
  assumes "MergeDicts env to fro tf ff = Inr to'" and "(k, GList l) \<in> set fro"
  shows "k \<noteq> [] \<and> (\<forall>b \<in> set (fst (snd (snd (list_policy k)))). \<not> has_key b fro)"
proof -
  from assms(2) obtain as bs where "fro = as @ (k, GList l) # bs" by (meson split_list)
  with assms(1) obtain t1 t2 where "merge_entry env fro tf ff (k, GList l) t1 = Inr t2"
    by (auto simp: MergeDicts_loop rfold_append)
  from merge_entry_list_Inr [OF this] show ?thesis by (cases "list_policy k") auto
qed

lemma MergeDicts_clash:
  assumes "MergeDicts env to fro tf ff = Inr to'" and "list_base_key base" and "p \<in> set policies"
    and "map_of fro (base @ p) = Some (GList l)" and "q \<in> set (clashes p)"
  shows "\<not> has_key (base @ q) fro"
  using MergeDicts_list_key [OF assms(1) map_of_SomeD [OF assms(4)]] list_policy_base(1) [OF assms(2,3)] assms(5)
  by auto

lemma MergeDicts_alone:
  assumes "MergeDicts env to fro tf ff = Inr to'" and "list_base_key base"
    and "p \<in> set policies" "map_of fro (base @ p) = Some (GList l)"
    and "q \<in> set policies" "map_of fro (base @ q) = Some (GList m)" and "q \<noteq> p"
  shows "{p, q} = {[], ''+''}"
  using clashes_cover [OF assms(3,5,7)] MergeDicts_clash [OF assms(1,2,3,4)] MergeDicts_clash [OF assms(1,2,5,6)]
    assms(4,6) by (auto simp: has_key_iff)

text \<open>The entries that merge into a base: the list keys with that base and a value under the base itself.\<close>

lemma MergeDicts_others:
  assumes "MergeDicts env to fro tf ff = Inr to'" and "wf_dict fro" and "list_base_key base"
    and "e \<in> set fro" and "merge_key e = base"
  shows "fst e = base \<or> (\<exists>q m. q \<in> set policies \<and> fst e = base @ q \<and> map_of fro (base @ q) = Some (GList m))"
proof -
  obtain k v where e: "e = (k, v)" by (cases e)
  with assms(2,4) have k: "map_of fro k = Some v" by (auto simp: wf_dict_def)
  have "k \<noteq> []"
  proof
    assume "k = []"
    with assms(3-5) e MergeDicts_list_key [OF assms(1)] show False
      by (cases v) (auto simp: merge_key_def list_base_key_def)
  qed
  from merge_key_base [OF assms(5) [unfolded e] assms(3) this] k e show ?thesis by auto
qed

lemma MergeDicts_list_entry:
  assumes "MergeDicts env to fro tf ff = Inr to'" and "wf_dict fro"
    and "map_of fro k = Some (GList l)" and "list_policy k = (ext, base, bad, app)"
    and "\<forall>e \<in> set fro. fst e \<noteq> k \<longrightarrow> merge_key e \<noteq> base"
  shows "(\<forall>b \<in> set bad. \<not> has_key b fro) \<and>
    (if ext = CHR ''?'' \<and> has_key base to then map_of to' base = map_of to base
     else \<exists>t t'. (if ext = CHR ''='' then t = [] else dict_get to base (GList []) = GList t)
        \<and> MergeLists env t l tf ff (IsPathSection env base) app = Inr t'
        \<and> map_of to' base = Some (GList t'))"
proof -
  from assms(3) obtain as bs where fro: "fro = as @ (k, GList l) # bs"
    by (meson map_of_SomeD split_list)
  with assms(2) have "k \<notin> fst ` (set as \<union> set bs)" by (auto simp: wf_dict_def image_Un)
  then have "fst e \<noteq> k" if "e \<in> set as \<union> set bs" for e using that by (metis imageI)
  with assms(5) fro have other: "\<forall>e \<in> set as \<union> set bs. merge_key e \<noteq> base" by simp
  from assms(1) fro obtain t1 t2 where
    1: "rfold (merge_entry env fro tf ff) as to = Inr t1" and
    2: "merge_entry env fro tf ff (k, GList l) t1 = Inr t2" and
    3: "rfold (merge_entry env fro tf ff) bs t2 = Inr to'"
    by (auto simp: MergeDicts_loop rfold_append)
  have frame: "map_of t' base = map_of t base"
    if "rfold (merge_entry env fro tf ff) es t = Inr t'" "set es \<subseteq> set as \<union> set bs" for es t t'
    using that(1)
  proof (rule rfold_invariant [where P = "\<lambda>u. map_of u base = map_of t base"])
    fix e s s'
    assume "e \<in> set es" "merge_entry env fro tf ff e s = Inr s'" "map_of s base = map_of t base"
    with other that(2) show "map_of s' base = map_of t base" by (metis merge_entry_frame subsetD)
  qed simp
  have b: "map_of t1 base = map_of to base" "map_of to' base = map_of t2 base"
    using frame [OF 1] frame [OF 3] by auto
  then have "has_key base t1 = has_key base to" "dict_get t1 base = dict_get to base"
    by (simp_all add: has_key_iff dict_get_def fun_eq_iff)
  note inv = merge_entry_list_Inr [OF 2 assms(4), unfolded this]
  show ?thesis
  proof (cases "ext = CHR ''?'' \<and> has_key base to")
    case True
    with inv b show ?thesis by simp
  next
    case False
    with inv obtain t t' where "if ext = CHR ''='' then t = [] else dict_get to base (GList []) = GList t"
      "MergeLists env t l tf ff (IsPathSection env base) app = Inr t'"
      "map_of t2 base = Some (GList t')" "\<forall>b \<in> set bad. \<not> has_key b fro"
      by auto
    moreover from this(3) b(2) have "map_of to' base = Some (GList t')" by simp
    ultimately show ?thesis using False by (simp only: False if_False) blast
  qed
qed

lemma MergeDicts_only:
  assumes run: "MergeDicts env to fro tf ff = Inr to'" and fro: "wf_dict fro" "map_of fro (base @ p) = Some (GList l)"
    and b: "list_base_key base" and p: "p \<in> set policies"
    and none: "\<forall>q. {p, q} = {[], ''+''} \<longrightarrow> \<not> has_key (base @ q) fro" and e: "e \<in> set fro" "fst e \<noteq> base @ p"
  shows "merge_key e \<noteq> base"
proof
  assume "merge_key e = base"
  from MergeDicts_others [OF run fro(1) b e(1) this] show False
  proof
    assume base: "fst e = base"
    then have "base \<in> fst ` set fro" using e(1) by (metis imageI)
    then have "has_key (base @ []) fro" by (simp add: has_key_def)
    moreover from base e(2) have "p = ''='' \<or> p = ''+'' \<or> p = ''?''" using p by (auto simp: policies_def)
    ultimately show False
    proof (elim disjE)
      assume "p = ''+''"
      moreover have "{''+'', []} = {[], ''+''}" by (rule insert_commute)
      ultimately show False using none \<open>has_key (base @ []) fro\<close> by blast
    qed (use MergeDicts_clash [OF run b p fro(2), of "[]"] in \<open>simp_all add: clashes_def\<close>)
  next
    assume "\<exists>q m. q \<in> set policies \<and> fst e = base @ q \<and> map_of fro (base @ q) = Some (GList m)"
    then obtain q m where q: "q \<in> set policies" "map_of fro (base @ q) = Some (GList m)" "q \<noteq> p"
      using e(2) by auto
    from MergeDicts_alone [OF run b p fro(2) q] none q(2) show False by (simp add: has_key_iff)
  qed
qed

lemma MergeDicts_list_alone:
  assumes run: "MergeDicts env to fro tf ff = Inr to'" and fro: "wf_dict fro" "map_of fro (base @ p) = Some (GList l)"
    and b: "list_base_key base" and p: "p \<in> set policies"
    and none: "\<forall>q. {p, q} = {[], ''+''} \<longrightarrow> \<not> has_key (base @ q) fro"
  shows "if p = ''?'' \<and> has_key base to then map_of to' base = map_of to base
    else \<exists>t t'. (if p = ''='' then t = [] else dict_get to base (GList []) = GList t)
      \<and> MergeLists env t l tf ff (IsPathSection env base) (p \<noteq> ''+'') = Inr t'
      \<and> map_of to' base = Some (GList t')
      \<and> ((\<forall>x \<in> set l. singleton_item x) \<and> distinct l \<and> (IsPathSection env base \<longrightarrow> tf = ff) \<longrightarrow>
          t' = (if p = ''+'' then l @ filter (\<lambda>x. x \<notin> set l) t else t @ filter (\<lambda>x. x \<notin> set t) l))"
proof (cases "p = ''?'' \<and> has_key base to")
  case True
  have "\<forall>e \<in> set fro. fst e \<noteq> base @ p \<longrightarrow> merge_key e \<noteq> base" using MergeDicts_only [OF assms] by blast
  from MergeDicts_list_entry [OF run fro list_policy_base(1) [OF b p] this] True
  show ?thesis by (simp add: list_policy_base(2,3) [OF b p])
next
  case False
  have "\<forall>e \<in> set fro. fst e \<noteq> base @ p \<longrightarrow> merge_key e \<noteq> base" using MergeDicts_only [OF assms] by blast
  from MergeDicts_list_entry [OF run fro list_policy_base(1) [OF b p] this] False obtain t t' where t:
    "if p = ''='' then t = [] else dict_get to base (GList []) = GList t"
    "MergeLists env t l tf ff (IsPathSection env base) (p \<noteq> ''+'') = Inr t'"
    "map_of to' base = Some (GList t')"
    unfolding list_policy_base(2,3) [OF b p] by (simp only: if_False) blast
  have "t' = (if p = ''+'' then l @ filter (\<lambda>x. x \<notin> set l) t else t @ filter (\<lambda>x. x \<notin> set t) l)"
    if "\<forall>x \<in> set l. singleton_item x" "distinct l" "IsPathSection env base \<longrightarrow> tf = ff"
    using MergeLists_singletons [OF that(1,3,2), of env t "p \<noteq> ''+''"] t(2)
    by (cases "p = ''+''") simp_all
  with t show ?thesis unfolding if_not_P [OF False] by blast
qed

text \<open>
  C16: how a list merges. The entry's key is a base, which does not end in a policy character, and a policy,
  which is empty or one of \<open>=\<close>, \<open>+\<close> and \<open>?\<close>. If the merge succeeds at all, then no other list of the given
  dictionary has the same base, unless one of the two appends and the other prepends. \<open>base?\<close> leaves an
  existing value alone. Otherwise, when no other entry acts on the base, \<open>base=\<close> starts from the empty
  list and the other policies from the one the receiver has, \<open>base+\<close> puts the items in front and all others at
  the end. For strings (no options) and integers that is spelt out: items that the receiver has already stay
  where they are when appending and move to the front when prepending.
\<close>

theorem MergeDicts_list:
  assumes run: "MergeDicts env to fro tf ff = Inr to'" and fro: "wf_dict fro" "map_of fro (base @ p) = Some (GList l)"
    and base: "base \<noteq> []" "last base \<notin> {CHR ''='', CHR ''+'', CHR ''?''}"
    and p: "p \<in> {[], ''='', ''+'', ''?''}"
  shows "(\<forall>q m. q \<in> {[], ''='', ''+'', ''?''} - {p} \<and> map_of fro (base @ q) = Some (GList m) \<longrightarrow> {p, q} = {[], ''+''})
    \<and> (p = ''?'' \<and> has_key base to \<longrightarrow> map_of to' base = map_of to base)
    \<and> (\<not> (p = ''?'' \<and> has_key base to) \<and> (\<forall>q. {p, q} = {[], ''+''} \<longrightarrow> \<not> has_key (base @ q) fro) \<longrightarrow>
        (\<exists>t t'. (if p = ''='' then t = [] else dict_get to base (GList []) = GList t)
          \<and> MergeLists env t l tf ff (IsPathSection env base) (p \<noteq> ''+'') = Inr t'
          \<and> map_of to' base = Some (GList t')
          \<and> ((\<forall>x \<in> set l. singleton_item x) \<and> distinct l \<and> (IsPathSection env base \<longrightarrow> tf = ff) \<longrightarrow>
              t' = (if p = ''+'' then l @ filter (\<lambda>x. x \<notin> set l) t else t @ filter (\<lambda>x. x \<notin> set t) l))))"
proof -
  have b: "list_base_key base" using base by (simp add: list_base_key_def policy_chars_def)
  have P: "{[], ''='', ''+'', ''?''} = set policies" by (simp add: policies_def)
  note p = p [unfolded P]
  note one = MergeDicts_list_alone [OF run fro b p]
  show ?thesis unfolding P
  proof (intro conjI allI impI)
    fix q m
    assume "q \<in> set policies - {p} \<and> map_of fro (base @ q) = Some (GList m)"
    then show "{p, q} = {[], ''+''}" using MergeDicts_alone [OF run b p fro(2), of q m] by blast
  next
    assume "p = ''?'' \<and> has_key base to"
    moreover from this have "\<forall>q. {p, q} = {[], ''+''} \<longrightarrow> \<not> has_key (base @ q) fro"
      by (auto simp: doubleton_eq_iff)
    ultimately show "map_of to' base = map_of to base" using one by simp
  qed (elim conjE, use one in \<open>simp only: if_False\<close>)
qed

subsection \<open>Appending and prepending to the same list\<close>







section \<open>Well-formedness\<close>

lemma merge_item_wf:
  "merge_item app (x, b) (to, i) = (to', j) \<Longrightarrow> wf_gval x \<Longrightarrow> list_all wf_gval to \<Longrightarrow> list_all wf_gval to'"
  by (auto simp: merge_item_def list_insert_def list_all_iff Let_def
      dest!: in_set_takeD in_set_dropD split: if_splits)

lemma MakePathRelative_wf:
  "MakePathRelative env tf ff v = Inr x \<Longrightarrow> wf_gval v \<Longrightarrow> wf_gval x"
  by (cases v) (auto simp: MakePathRelative_def Let_def split: if_splits)

lemma merge_wf:
  "(\<forall>l to isp app to'. v = GList l \<longrightarrow> list_all wf_gval to \<longrightarrow>
      MergeLists env to l tf ff isp app = Inr to' \<longrightarrow> list_all wf_gval to')
   \<and> (\<forall>d to to'. v = GDict d \<longrightarrow> wf_gdict to \<longrightarrow>
      MergeDicts env to d tf ff = Inr to' \<longrightarrow> wf_gdict to')"
proof (induction v)
  case (GList l)
  have item: "wf_gval x'" if "x \<in> set l" "merge_list_item env tf ff isp x = Inr x'" for x x' isp
  proof (cases x)
    case (GList m)
    with that(2) obtain m' where "MergeLists env [] m tf ff False True = Inr m'" "x' = GList m'"
      by (auto simp: merge_list_item_def)
    with GList.IH [OF that(1)] GList show ?thesis by (auto dest!: spec [of _ "[]"])
  next
    case (GDict d)
    with that(2) obtain d' where "MergeDicts env [] d tf ff = Inr d'" "x' = GDict d'"
      by (auto simp: merge_list_item_def)
    moreover from this(1) GList.IH [OF that(1)] GDict have "wf_gdict d'" by (metis wf_gdict_Nil)
    ultimately show ?thesis by (simp add: wf_gdict_def)
  next
    case (GStr s)
    with that(2) MakePathRelative_wf [of env tf ff x x'] show ?thesis
      by (auto simp: merge_list_item_def split: if_splits)
  next
    case (GInt i)
    with that(2) MakePathRelative_wf [of env tf ff x x'] show ?thesis
      by (auto simp: merge_list_item_def split: if_splits)
  next
    case (GOther c b)
    with that(2) show ?thesis by (simp add: merge_list_item_def)
  qed
  have "list_all wf_gval to'"
    if to: "list_all wf_gval to" and merged: "MergeLists env to l tf ff isp app = Inr to'" for to isp app to'
  proof -
    from merged obtain i where "rfold (\<lambda>item state. rbind (merge_list_item env tf ff isp item)
        (\<lambda>x. Inr (merge_item app (x, singleton_item item) state))) l (to, 0) = Inr (to', i)"
      by (auto simp: MergeLists_loop)
    then have "list_all wf_gval (fst (to', i))"
    proof (rule rfold_invariant [where P = "\<lambda>s. list_all wf_gval (fst s)"])
      fix x s s'
      assume x: "x \<in> set l" and "rbind (merge_list_item env tf ff isp x)
          (\<lambda>y. Inr (merge_item app (y, singleton_item x) s)) = Inr s'" and "list_all wf_gval (fst s)"
      then show "list_all wf_gval (fst s')"
        by (cases s; cases s') (auto intro: merge_item_wf item [OF x])
    qed (use to in simp)
    then show ?thesis by simp
  qed
  then show ?case by blast
next
  case (GDict d)
  have "wf_gdict to'"
    if to: "wf_gdict to" and merged: "MergeDicts env to d tf ff = Inr to'" for to to'
  proof (rule rfold_invariant [OF merged [unfolded MergeDicts_loop], where P = wf_gdict])
    fix e s s'
    assume e: "e \<in> set d" and m: "merge_entry env d tf ff e s = Inr s'" and s: "wf_gdict s"
    obtain k v where kv: "e = (k, v)" by (cases e)
    with e have IH: "\<And>l to isp app to'. v = GList l \<Longrightarrow> list_all wf_gval to \<Longrightarrow>
        MergeLists env to l tf ff isp app = Inr to' \<Longrightarrow> list_all wf_gval to'"
      "\<And>d to to'. v = GDict d \<Longrightarrow> wf_gdict to \<Longrightarrow> MergeDicts env to d tf ff = Inr to' \<Longrightarrow> wf_gdict to'"
      using GDict.IH [of e v] by auto
    show "wf_gdict s'"
    proof (cases v)
      case (GList l)
      obtain ext base bad app where pol: "list_policy k = (ext, base, bad, app)"
        by (cases "list_policy k") auto
      have start: "list_all wf_gval t" if "dict_get s base (GList []) = GList t" for t base
        using that s wf_gdict_lookup [of s base] by (auto simp: dict_get_def split: option.splits)
      note inv = merge_entry_list_Inr [OF m [unfolded kv GList] pol]
      show ?thesis
      proof (cases "ext = CHR ''?'' \<and> has_key base s")
        case True
        with inv s show ?thesis by simp
      next
        case False
        with inv obtain t t' where
          t: "if ext = CHR ''='' then t = [] else dict_get s base (GList []) = GList t"
          "MergeLists env t l tf ff (IsPathSection env base) app = Inr t'"
          "wf_gval (GList t') \<longrightarrow> wf_gdict s'"
          using s by (simp only: False if_False) blast
        from t(1) start have "list_all wf_gval t" by (simp split: if_splits)
        with t IH(1) [OF GList] show ?thesis by simp
      qed
    next
      case (GDict d')
      from m kv GDict have "rbind (as_dict (dict_get s k (GDict []))) (\<lambda>t.
          rbind (MergeDicts env t d' tf ff) (\<lambda>t'. Inr (AList.update k (GDict t') s))) = Inr s'"
        by (simp add: merge_entry_def split: if_splits)
      then obtain t t' where
        "dict_get s k (GDict []) = GDict t" "MergeDicts env t d' tf ff = Inr t'"
        "s' = AList.update k (GDict t') s"
        by auto
      moreover from this(1) s have "wf_gdict t"
        using wf_gdict_lookup [of s k] by (auto simp: dict_get_def wf_gdict_def split: option.splits)
      ultimately have "wf_gdict t'" using IH(2) [OF GDict] by blast
      then have "wf_gval (GDict t')" by (simp only: wf_gdict_def)
      with s \<open>s' = AList.update k (GDict t') s\<close> show ?thesis by (simp only: wf_gdict_update)
    next
      case (GStr x)
      with m kv s show ?thesis by (auto simp: merge_entry_def MakePathRelative_wf split: if_splits)
    next
      case (GInt i)
      with m kv s show ?thesis by (auto simp: merge_entry_def MakePathRelative_wf split: if_splits)
    next
      case (GOther c b)
      with m kv show ?thesis by (simp add: merge_entry_def split: if_splits)
    qed
  qed (rule to)
  then show ?case by blast
qed auto

text \<open>A merge into a dictionary whose keys are unique at every depth keeps them so.\<close>

theorem MergeDicts_wf: "wf_gdict to \<Longrightarrow> MergeDicts env to fro tf ff = Inr to' \<Longrightarrow> wf_gdict to'"
  using merge_wf [of "GDict fro"] by blast

section \<open>What a relocated path names\<close>

lemma RelativePath_chars:
  assumes "canonical_path (realpath env p)" and "canonical_path (realpath env r)"
  shows "set (RelativePath (realpath env) p r) \<subseteq> {CHR ''/'', CHR ''.''} \<union> set (realpath env p)"
proof -
  obtain ps rs where ps: "\<forall>c \<in> set ps. proper_comp c" "realpath env p = abs_path ps"
    and rs: "\<forall>c \<in> set rs. proper_comp c" "realpath env r = abs_path rs"
    using assms by (auto simp: canonical_path_iff)
  have "(\<Union>c \<in> set ps. set c) \<subseteq> set (realpath env p)"
    using path_comps_chars [of _ "realpath env p"] ps by (auto simp: path_comps_abs_path)
  moreover obtain m k where "path_comps (RelativePath (realpath env) p r) = replicate m ''..'' @ drop k ps"
    using RelativePath_comps [OF ps(1) rs(1), where rp = "realpath env", OF ps(2) rs(2)] by blast
  moreover have "set (drop k ps) \<subseteq> set ps" by (simp add: set_drop_subset)
  ultimately show ?thesis
    using path_chars [of "RelativePath (realpath env) p r"] by (fastforce split: if_splits)
qed

text \<open>
  C26: a relative path that moves from one build file to another still names the same file, whatever
  \<open>os.path.realpath\<close> the platform has, as long as it returns canonical paths. The path is one that the
  code relocates (no option, variable or absolute path), neither it nor the directory it comes from has a
  backslash, which the code turns into a slash, and the build files differ.
\<close>

theorem MakePathRelative_names:
  assumes "MakePathRelative env tf ff (GStr s) = Inr (GStr s')" and "\<not> exception_match s"
    and "canonical_path (realpath env (dirname tf))" and "canonical_path (realpath env (dirname ff))"
    and "CHR 0x5C \<notin> set s" and "CHR 0x5C \<notin> set (realpath env (dirname ff))"
    and "tf \<noteq> ff"
  shows "normpath (path_join (realpath env (dirname tf)) s') =
         normpath (path_join (realpath env (dirname ff)) s)"
proof -
  define rel where "rel = RelativePath (realpath env) (dirname ff) (dirname tf)"
  obtain ps rs where ps: "\<forall>c \<in> set ps. proper_comp c" "realpath env (dirname ff) = abs_path ps"
    and rs: "\<forall>c \<in> set rs. proper_comp c" "realpath env (dirname tf) = abs_path rs"
    using assms(3,4) by (auto simp: canonical_path_iff)
  obtain m k where rel: "\<not> isabs rel" "path_comps rel = replicate m ''..'' @ drop k ps"
      "take (length rs - m) rs = take k ps"
    using RelativePath_comps [OF ps(1) rs(1), where rp = "realpath env", OF ps(2) rs(2)]
    by (auto simp: rel_def)
  from assms(1,2,7) have s: "s \<noteq> []" by (auto simp: MakePathRelative_def Let_def split: if_splits)
  have s_rel: "\<not> isabs s"
    using assms(2) by (auto simp: exception_match_def exception_start_def isabs_def)
  define J where "J = path_join rel s"
  have J: "\<not> isabs J" "path_comps J = path_comps rel @ path_comps s"
    using rel(1) s_rel by (auto simp: J_def path_comps_join) (auto simp: path_join_def isabs_def hd_append split: if_splits)
  have "CHR 0x5C \<notin> set J"
    using assms(5,6) RelativePath_chars [OF assms(4,3)]
    by (auto simp: J_def path_join_def rel_def split: if_splits)
  then have "CHR 0x5C \<notin> set (normpath J)"
    using normpath_relative(3) [OF J(1)] by auto
  then have "replace_char CHR 0x5C CHR ''/'' (normpath J) = normpath J"
    by (auto simp: replace_char_def intro: map_idI)
  then have s': "s' = normpath J \<or> s' = normpath J @ ''/''"
    using assms(1,2,7) s by (auto simp: MakePathRelative_def J_def rel_def Let_def split: if_splits)
  then have comps: "path_comps s' = path_comps (normpath J)" "\<not> isabs s'"
    using normpath_relative(1) [OF J(1)] path_comps_slash [of "normpath J" "[]"]
    by (auto simp: isabs_def hd_append)
  have bk: "foldl (norm_step True) rs (path_comps rel) = ps"
  proof -
    have "\<forall>c \<in> set (drop k ps). proper_comp c" using ps(1) by (meson in_set_dropD)
    then show ?thesis
      by (simp only: rel(2,3) foldl_append foldl_norm_step_pardir [OF rs(1)] foldl_norm_step_proper
          append_take_drop_id)
  qed
  have "normpath (path_join (abs_path rs) s') = abs_path (foldl (norm_step True) rs (path_comps J))"
    using comps normpath_relative(2) [OF J(1)] rs(1) by (simp add: normpath_join_rel)
  also have "\<dots> = abs_path (foldl (norm_step True) ps (path_comps s))"
    using J(2) bk by simp
  also have "\<dots> = normpath (path_join (abs_path ps) s)"
    using ps(1) s_rel by (simp add: normpath_join_rel)
  finally show ?thesis using ps(2) rs(2) by simp
qed

section \<open>Merging into an empty dictionary copies\<close>

text \<open>
  A tree that a merge reproduces: keys once, no list key that ends in a policy character or stands
  beside one, no list with a repeated singleton.
\<close>

fun is_glist :: "gval \<Rightarrow> bool" where
  "is_glist (GList l) = True"
| "is_glist v = False"

definition plain_keys :: "gdict \<Rightarrow> bool" where
  "plain_keys d \<longleftrightarrow> wf_dict d \<and>
     list_all (\<lambda>(k, v). is_glist v \<longrightarrow> k \<noteq> [] \<and> last k \<notin> set policy_chars
                 \<and> \<not> has_key (k @ ''='') d \<and> \<not> has_key (k @ ''?'') d) d"

fun plain_gval :: "gval \<Rightarrow> bool" where
  "plain_gval (GList l) = (list_all plain_gval l \<and> distinct (filter singleton_item l))"
| "plain_gval (GDict d) = (plain_keys d \<and> list_all (\<lambda>(k, v). plain_gval v) d)"
| "plain_gval (GOther c b) = False"
| "plain_gval v = True"

lemma MakePathRelative_same [simp]: "MakePathRelative env f f v = Inr v"
  by (simp add: MakePathRelative_def)

lemma list_policy_plain:
  "k \<noteq> [] \<Longrightarrow> last k \<notin> set policy_chars \<Longrightarrow>
   list_policy k = (last k, k, [k @ ''='', k @ ''?''], True) \<and> last k \<noteq> CHR ''?'' \<and> last k \<noteq> CHR ''=''"
  by (auto simp: list_policy_def policy_chars_def Let_def)

lemma copy_list_loop:
  assumes "\<And>x. x \<in> set l \<Longrightarrow> merge_list_item env f f isp x = Inr x"
  shows "distinct (filter singleton_item (d @ l)) \<Longrightarrow>
    rfold (\<lambda>item state. rbind (merge_list_item env f f isp item)
        (\<lambda>x. Inr (merge_item True (x, singleton_item item) state))) l (d, i) = Inr (d @ l, i)"
  using assms
proof (induction l arbitrary: d)
  case (Cons x l)
  then have "merge_item True (x, singleton_item x) (d, i) = (d @ [x], i)"
    by (auto simp: merge_item_def)
  moreover have "distinct (filter singleton_item ((d @ [x]) @ l))" using Cons.prems(1) by simp
  ultimately show ?case using Cons.IH [of "d @ [x]"] Cons.prems(2) by simp
qed simp

lemma copy_dict_loop:
  assumes "\<And>e t. e \<in> set d2 \<Longrightarrow> map_of t (fst e) = None \<Longrightarrow> merge_entry env d f f e t = Inr (t @ [e])"
  shows "wf_dict (d1 @ d2) \<Longrightarrow> rfold (merge_entry env d f f) d2 d1 = Inr (d1 @ d2)"
  using assms
proof (induction d2 arbitrary: d1)
  case (Cons e d2)
  then have "map_of d1 (fst e) = None"
    by (auto simp: wf_dict_def map_of_eq_None_iff)
  with Cons show ?case by simp
qed simp

lemma merge_copies:
  "plain_gval v \<Longrightarrow>
   (\<forall>l isp. v = GList l \<longrightarrow> MergeLists env [] l f f isp True = Inr l)
   \<and> (\<forall>d. v = GDict d \<longrightarrow> MergeDicts env [] d f f = Inr d)"
proof (induction v)
  case (GList l)
  have "merge_list_item env f f isp x = Inr x" if x: "x \<in> set l" for x isp
  proof -
    from x GList.prems have "plain_gval x" by (simp add: list_all_iff)
    with GList.IH [OF x] show ?thesis by (cases x rule: gval.exhaust) (simp_all add: merge_list_item_def)
  qed
  with GList.prems copy_list_loop [of l env f _ "[]" 0] show ?case by (simp add: MergeLists_loop)
next
  case (GDict d)
  have "merge_entry env d f f (k, v) t = Inr (t @ [(k, v)])"
    if e: "(k, v) \<in> set d" and t: "map_of t k = None" for k v t
  proof -
    from e GDict.prems have p: "plain_gval v"
      "is_glist v \<Longrightarrow> k \<noteq> [] \<and> last k \<notin> set policy_chars \<and> \<not> has_key (k @ ''='') d \<and> \<not> has_key (k @ ''?'') d"
      by (auto simp: plain_keys_def list_all_iff)
    note IH = GDict.IH [OF e, of v]
    have fresh: "\<not> has_key k t" "AList.update k v t = t @ [(k, v)]"
      using t by (simp_all add: has_key_iff update_fresh)
    show ?thesis
    proof (cases v)
      case (GList l)
      with p fresh IH list_policy_plain [of k] show ?thesis
        by (simp add: merge_entry_def Let_def dict_get_def t)
    next
      case (GDict d')
      with p fresh IH show ?thesis by (simp add: merge_entry_def dict_get_def t)
    qed (use p fresh in \<open>auto simp: merge_entry_def\<close>)
  qed
  then have "rfold (merge_entry env d f f) d [] = Inr ([] @ d)"
    using GDict.prems by (intro copy_dict_loop) (auto simp: plain_keys_def)
  then show ?case by (simp add: MergeDicts_loop)
qed auto

lemma MergeDicts_copy: "plain_gval (GDict d) \<Longrightarrow> MergeDicts env [] d f f = Inr d"
  using merge_copies by blast

section \<open>Properties and examples\<close>

definition ex_globals :: gyp_env where
  "ex_globals = gyp_globals (\<lambda>p. normpath (path_join ''/r'' p)) [] [] False False"

theorem MergeLists_singletons_witness:
  "MergeLists ex_globals [GStr ''A'', GStr ''B''] [GStr ''C'', GStr ''A''] ''x.gyp'' ''x.gyp'' True False
   = Inr [GStr ''C'', GStr ''A'', GStr ''B'']"
  using MergeLists_singletons [of "[GStr ''C'', GStr ''A'']" True "''x.gyp''" "''x.gyp''" ex_globals
      "[GStr ''A'', GStr ''B'']" False]
  by simp

theorem MergeDicts_list_witness:
  "\<exists>t. dict_get [(''defines'', GList [GStr ''A''])] ''defines'' (GList []) = GList t
    \<and> [GStr ''B'', GStr ''A''] = [GStr ''B''] @ filter (\<lambda>x. x \<notin> set [GStr ''B'']) t"
proof -
  let ?to = "[(''defines'', GList [GStr ''A''])]" and ?fro = "[(''defines+'', GList [GStr ''B''])]"
    and ?to' = "[(''defines'', GList [GStr ''B'', GStr ''A''])]"
  have run: "MergeDicts ex_globals ?to ?fro ''x.gyp'' ''y.gyp'' = Inr ?to'" by code_simp
  have fro: "wf_dict ?fro" "map_of ?fro (''defines'' @ ''+'') = Some (GList [GStr ''B''])"
    "''defines'' \<noteq> []" "last ''defines'' \<notin> {CHR ''='', CHR ''+'', CHR ''?''}" "''+'' \<in> {[], ''='', ''+'', ''?''}"
    "\<not> IsPathSection ex_globals ''defines''"
    by code_simp+
  have "\<forall>q. {''+'', q} = {[], ''+''} \<longrightarrow> \<not> has_key (''defines'' @ q) ?fro"
    by (auto simp: doubleton_eq_iff has_key_def)
  with MergeDicts_list [OF run fro(1-5)] fro(6) show ?thesis by auto
qed


theorem MergeDicts_wf_witness:
  "wf_gdict [(''defines'', GList [GDict [(''a'', GInt 1)], GStr ''A''])]"
proof (rule MergeDicts_wf)
  show "wf_gdict [(''defines'', GList [])]" by code_simp
  show "MergeDicts ex_globals [(''defines'', GList [])]
      [(''defines'', GList [GDict [(''a'', GInt 1), (''a'', GInt 1)], GStr ''A''])] ''x.gyp'' ''x.gyp''
    = Inr [(''defines'', GList [GDict [(''a'', GInt 1)], GStr ''A''])]"
    by code_simp
qed

theorem MakePathRelative_witness:
  "normpath (path_join ''/r/a'' ''../b/src/x.cc'') = normpath (path_join ''/r/b'' ''src/x.cc'')"
proof -
  have "MakePathRelative ex_globals ''/r/a/a.gyp'' ''/r/b/b.gyp'' (GStr ''src/x.cc'') = Inr (GStr ''../b/src/x.cc'')"
    "\<not> exception_match ''src/x.cc''"
    "canonical_path (realpath ex_globals (dirname ''/r/a/a.gyp''))"
    "canonical_path (realpath ex_globals (dirname ''/r/b/b.gyp''))"
    "CHR 0x5C \<notin> set ''src/x.cc''" "CHR 0x5C \<notin> set (realpath ex_globals (dirname ''/r/b/b.gyp''))"
    "''/r/a/a.gyp'' \<noteq> ''/r/b/b.gyp''"
    by code_simp+
  note MakePathRelative_names [OF this]
  moreover have "realpath ex_globals (dirname ''/r/a/a.gyp'') = ''/r/a''"
    "realpath ex_globals (dirname ''/r/b/b.gyp'') = ''/r/b''" by code_simp+
  ultimately show ?thesis by simp
qed

end
