(* ===== verification/Gyp_Graph.thy ===== *)
theory Gyp_Graph
  imports Gyp_Merge
begin

text \<open>
  \<open>input.py\<close>: the dependency graph. \<open>DependencyGraphNode\<close> and its traversals, and
  \<open>BuildDependencyList\<close>, which orders the targets or reports a cycle.

  A node object is identified by its \<open>ref\<close>: \<open>Some t\<close> is the node of target \<open>t\<close> and \<open>None\<close> the
  root node. The graph maps each to its two lists. \<open>set.pop()\<close> takes an element the language does
  not choose: it is the parameter \<open>pick\<close>, and the theorems are about every such choice. The first
  argument of a recursive traversal is the recursion depth left.
\<close>

section \<open>Nodes\<close>

record 'a dep_node =
  n_dependencies :: "'a option list"
  n_dependents :: "'a list"

type_synonym 'a dep_nodes = "'a option \<Rightarrow> 'a dep_node"

definition new_node :: "'a dep_node" where
  "new_node = \<lparr>n_dependencies = [], n_dependents = []\<rparr>"

fun somes :: "'a option list \<Rightarrow> 'a list" where
  "somes [] = []"
| "somes (None # xs) = somes xs"
| "somes (Some x # xs) = x # somes xs"

lemma set_somes [simp]: "set (somes xs) = {x. Some x \<in> set xs}"
  by (induction xs rule: somes.induct) auto

lemma somes_map_Some [simp]: "somes (map Some xs) = xs"
  by (induction xs) auto

lemma rfold_somes:
  "(\<And>acc. f None acc = Inr acc) \<Longrightarrow> rfold f ds acc = rfold (\<lambda>x. f (Some x)) (somes ds) acc"
  by (induction ds arbitrary: acc rule: somes.induct) (auto intro: rbind_cong)

section \<open>FlattenToList\<close>

text \<open>The inner loop: dependents whose dependencies have all been listed join the set.\<close>

definition is_in_degree_zero :: "'a dep_nodes \<Rightarrow> 'a list \<Rightarrow> 'a \<Rightarrow> bool" where
  "is_in_degree_zero nodes flat_list d \<longleftrightarrow>
     list_all (\<lambda>dep. case dep of None \<Rightarrow> False | Some r \<Rightarrow> r \<in> set flat_list)
       (n_dependencies (nodes (Some d)))"

definition flatten_dependents :: "'a dep_nodes \<Rightarrow> 'a list \<Rightarrow> 'a list \<Rightarrow> 'a list \<Rightarrow> 'a list" where
  "flatten_dependents nodes flat_list dependents zeros =
     fold (\<lambda>d zeros. if is_in_degree_zero nodes flat_list d then List.insert d zeros else zeros)
       dependents zeros"

text \<open>The \<open>while\<close> loop, which returns \<open>None\<close> where it would not end.\<close>

partial_function (option) flatten_loop ::
  "('a list \<Rightarrow> 'a) \<Rightarrow> 'a dep_nodes \<Rightarrow> 'a list \<Rightarrow> 'a list \<Rightarrow> 'a list option" where
  "flatten_loop pick nodes zeros flat_list =
     (if zeros = [] then Some flat_list
      else let node = pick zeros; flat_list' = flat_list @ [node]
           in flatten_loop pick nodes
                (flatten_dependents nodes flat_list' (n_dependents (nodes (Some node)))
                   (removeAll node zeros))
                flat_list')"

definition FlattenToList :: "('a list \<Rightarrow> 'a) \<Rightarrow> 'a dep_nodes \<Rightarrow> 'a list option" where
  "FlattenToList pick nodes = flatten_loop pick nodes (remdups (n_dependents (nodes None))) []"

declare flatten_loop.simps [code]

section \<open>What FlattenToList computes\<close>

text \<open>
  \<open>dep_graph T deps nodes\<close>: the graph over the nodes \<open>T\<close> where each node \<open>t\<close> depends on
  \<open>deps t\<close>, with the nodes that depend on nothing hanging off the root.
\<close>

definition dep_graph :: "'a list \<Rightarrow> ('a \<Rightarrow> 'a list) \<Rightarrow> 'a dep_nodes \<Rightarrow> bool" where
  "dep_graph T deps nodes \<longleftrightarrow>
     distinct T
     \<and> (\<forall>t \<in> set T. set (deps t) \<subseteq> set T
          \<and> set (n_dependencies (nodes (Some t))) = (if deps t = [] then {None} else Some ` set (deps t)))
     \<and> set (n_dependents (nodes None)) = {t \<in> set T. deps t = []}
     \<and> (\<forall>d \<in> set T. set (n_dependents (nodes (Some d))) = {t \<in> set T. d \<in> set (deps t)})"

definition dep_edge :: "'a list \<Rightarrow> ('a \<Rightarrow> 'a list) \<Rightarrow> 'a \<Rightarrow> 'a \<Rightarrow> bool" where
  "dep_edge T deps t d \<longleftrightarrow> t \<in> set T \<and> d \<in> set (deps t)"

definition dep_acyclic :: "'a list \<Rightarrow> ('a \<Rightarrow> 'a list) \<Rightarrow> bool" where
  "dep_acyclic T deps \<longleftrightarrow> (\<forall>t. \<not> (dep_edge T deps)\<^sup>+\<^sup>+ t t)"

lemma dep_acyclic_rank:
  assumes "\<And>t d. t \<in> set T \<Longrightarrow> d \<in> set (deps t) \<Longrightarrow> (rank d :: nat) < rank t"
  shows "dep_acyclic T deps"
proof -
  have "(dep_edge T deps)\<^sup>+\<^sup>+ t d \<Longrightarrow> rank d < rank t" for t d
    by (induction rule: tranclp_induct) (auto simp: dep_edge_def dest!: assms)
  then show ?thesis by (fastforce simp: dep_acyclic_def)
qed

text \<open>Every node stands after all the nodes it depends on.\<close>

definition deps_first :: "('a \<Rightarrow> 'a list) \<Rightarrow> 'a list \<Rightarrow> bool" where
  "deps_first deps xs \<longleftrightarrow> (\<forall>as t bs. xs = as @ t # bs \<longrightarrow> set (deps t) \<subseteq> set as)"

lemma deps_first_snoc:
  "deps_first deps (xs @ [t]) \<longleftrightarrow> deps_first deps xs \<and> set (deps t) \<subseteq> set xs"
proof
  assume o: "deps_first deps (xs @ [t])"
  then have "set (deps t) \<subseteq> set xs" unfolding deps_first_def by blast
  moreover have "deps_first deps xs"
    unfolding deps_first_def
    by (metis o append.assoc append_Cons deps_first_def)
  ultimately show "deps_first deps xs \<and> set (deps t) \<subseteq> set xs" by blast
next
  assume "deps_first deps xs \<and> set (deps t) \<subseteq> set xs"
  then show "deps_first deps (xs @ [t])"
    unfolding deps_first_def by (metis append_butlast_last_id butlast.simps(2) butlast_append
        last_ConsL last_appendR list.distinct(1) list.sel(1) snoc_eq_iff_butlast)
qed

lemma deps_first_closed: "deps_first deps xs \<Longrightarrow> t \<in> set xs \<Longrightarrow> set (deps t) \<subseteq> set xs"
  unfolding deps_first_def by (metis Un_iff set_append split_list subset_iff)

definition flatten_inv :: "'a list \<Rightarrow> ('a \<Rightarrow> 'a list) \<Rightarrow> 'a list \<Rightarrow> 'a list \<Rightarrow> bool" where
  "flatten_inv T deps zeros flat \<longleftrightarrow>
     distinct (zeros @ flat) \<and> set zeros \<union> set flat \<subseteq> set T
     \<and> deps_first deps flat
     \<and> (\<forall>t \<in> set T. set (deps t) \<subseteq> set flat \<longleftrightarrow> t \<in> set zeros \<union> set flat)"

lemma is_in_degree_zero_iff:
  assumes "dep_graph T deps nodes" and "d \<in> set T"
  shows "is_in_degree_zero nodes flat d \<longleftrightarrow> deps d \<noteq> [] \<and> set (deps d) \<subseteq> set flat"
proof -
  have "set (n_dependencies (nodes (Some d))) = (if deps d = [] then {None} else Some ` set (deps d))"
    using assms by (auto simp: dep_graph_def)
  then show ?thesis
    by (auto simp: is_in_degree_zero_def list_all_iff split: option.splits if_splits)
qed

lemma set_flatten_dependents:
  "set (flatten_dependents nodes flat ds zeros)
   = set zeros \<union> {d \<in> set ds. is_in_degree_zero nodes flat d}"
  unfolding flatten_dependents_def by (induction ds arbitrary: zeros) auto

lemma distinct_flatten_dependents:
  "distinct zeros \<Longrightarrow> distinct (flatten_dependents nodes flat ds zeros)"
  unfolding flatten_dependents_def by (induction ds arbitrary: zeros) auto

lemma flatten_inv_step:
  assumes g: "dep_graph T deps nodes" and i: "flatten_inv T deps zeros flat" and n: "node \<in> set zeros"
  shows "flatten_inv T deps
    (flatten_dependents nodes (flat @ [node]) (n_dependents (nodes (Some node))) (removeAll node zeros))
    (flat @ [node])"
proof -
  define new where "new = {d \<in> set T. node \<in> set (deps d) \<and> set (deps d) \<subseteq> set (flat @ [node])}"
  from i n have node: "node \<in> set T" "set (deps node) \<subseteq> set flat" "node \<notin> set flat"
    by (auto simp: flatten_inv_def)
  with g have "set (n_dependents (nodes (Some node))) = {t \<in> set T. node \<in> set (deps t)}"
    by (auto simp: dep_graph_def)
  then have zeros': "set (flatten_dependents nodes (flat @ [node]) (n_dependents (nodes (Some node)))
      (removeAll node zeros)) = set zeros - {node} \<union> new"
    by (auto simp: set_flatten_dependents new_def is_in_degree_zero_iff [OF g])
  have flat_closed: "set (deps t) \<subseteq> set flat" if "t \<in> set zeros \<union> set flat" for t
    using i that by (auto simp: flatten_inv_def)
  with node have fresh: "new \<inter> (set zeros \<union> set flat) = {}" "node \<notin> new"
    by (auto simp: new_def)
  have iff: "set (deps t) \<subseteq> set (flat @ [node]) \<longleftrightarrow> t \<in> (set zeros - {node} \<union> new) \<union> set (flat @ [node])"
    if "t \<in> set T" for t
  proof (cases "node \<in> set (deps t)")
    case True
    with flat_closed node(3) have "t \<notin> set zeros \<union> set flat" by blast
    with True that n show ?thesis by (auto simp: new_def)
  next
    case False
    then have "set (deps t) \<subseteq> set (flat @ [node]) \<longleftrightarrow> set (deps t) \<subseteq> set flat" "t \<notin> new"
      by (auto simp: new_def)
    with i that n show ?thesis by (auto simp: flatten_inv_def)
  qed
  show ?thesis
    unfolding flatten_inv_def
  proof (intro conjI)
    show "distinct (flatten_dependents nodes (flat @ [node]) (n_dependents (nodes (Some node)))
        (removeAll node zeros) @ flat @ [node])"
      using i fresh node zeros'
      by (auto simp: flatten_inv_def distinct_flatten_dependents distinct_removeAll)
    show "deps_first deps (flat @ [node])" using i node by (simp add: deps_first_snoc flatten_inv_def)
    show "\<forall>t \<in> set T. (set (deps t) \<subseteq> set (flat @ [node])) =
        (t \<in> set (flatten_dependents nodes (flat @ [node]) (n_dependents (nodes (Some node)))
           (removeAll node zeros)) \<union> set (flat @ [node]))"
      using iff zeros' by blast
    show "set (flatten_dependents nodes (flat @ [node]) (n_dependents (nodes (Some node)))
        (removeAll node zeros)) \<union> set (flat @ [node]) \<subseteq> set T"
      using i node zeros' by (auto simp: flatten_inv_def new_def)
  qed
qed

text \<open>Each round lists one more node of \<open>T\<close>, so the loop ends.\<close>

lemma flatten_loop_ends:
  assumes g: "dep_graph T deps nodes" and pick: "\<And>xs. xs \<noteq> [] \<Longrightarrow> pick xs \<in> set xs"
  shows "flatten_inv T deps zeros flat \<Longrightarrow>
    \<exists>flat'. flatten_loop pick nodes zeros flat = Some flat' \<and> flatten_inv T deps [] flat'"
proof (induction "length T - length flat" arbitrary: zeros flat rule: less_induct)
  case less
  show ?case
  proof (cases "zeros = []")
    case True
    with less.prems show ?thesis by (auto simp: flatten_loop.simps)
  next
    case False
    define node where "node = pick zeros"
    have n: "node \<in> set zeros" using pick [OF False] by (simp add: node_def)
    define zeros' where "zeros' = flatten_dependents nodes (flat @ [node])
      (n_dependents (nodes (Some node))) (removeAll node zeros)"
    have i: "flatten_inv T deps zeros' (flat @ [node])"
      using flatten_inv_step [OF g less.prems n] by (simp add: zeros'_def)
    then have "distinct (flat @ [node])" "set (flat @ [node]) \<subseteq> set T"
      by (auto simp: flatten_inv_def)
    then have "length (flat @ [node]) \<le> length T"
      by (metis List.finite_set card_mono card_length distinct_card le_trans)
    then have "length T - length (flat @ [node]) < length T - length flat" by simp
    from less.hyps [OF this i] False show ?thesis
      by (subst flatten_loop.simps) (simp add: node_def [symmetric] zeros'_def Let_def)
  qed
qed

lemma FlattenToList_inv:
  assumes g: "dep_graph T deps nodes" and pick: "\<And>xs. xs \<noteq> [] \<Longrightarrow> pick xs \<in> set xs"
  shows "\<exists>flat. FlattenToList pick nodes = Some flat \<and> flatten_inv T deps [] flat"
proof -
  have "flatten_inv T deps (remdups (n_dependents (nodes None))) []"
    using g by (auto simp: flatten_inv_def deps_first_def dep_graph_def)
  from flatten_loop_ends [OF g pick this] show ?thesis by (simp add: FlattenToList_def)
qed

lemma deps_first_acyclic:
  "deps_first deps xs \<Longrightarrow> distinct xs \<Longrightarrow> (dep_edge xs deps)\<^sup>+\<^sup>+ t u \<Longrightarrow>
   \<exists>as bs. xs = as @ t # bs \<and> u \<in> set as"
proof (induction xs arbitrary: t u rule: rev_induct)
  case Nil
  from Nil.prems(3) show ?case by (induction rule: tranclp_induct) (auto simp: dep_edge_def)
next
  case (snoc x xs)
  have closed: "\<And>t d. t \<in> set xs \<Longrightarrow> d \<in> set (deps t) \<Longrightarrow> d \<in> set xs"
    using snoc.prems(1) deps_first_closed [of deps xs] by (auto simp: deps_first_snoc)
  have stay: "(dep_edge xs deps)\<^sup>+\<^sup>+ s u \<and> u \<in> set xs"
    if "(dep_edge (xs @ [x]) deps)\<^sup>+\<^sup>+ s u" "s \<in> set xs" for s u
    using that
    by (induction rule: tranclp_induct)
      (auto simp: dep_edge_def closed intro: tranclp.trancl_into_trancl)
  show ?case
  proof (cases "t \<in> set xs")
    case True
    with stay snoc show ?thesis
      by (auto simp: deps_first_snoc) (metis append.assoc append_Cons)
  next
    case False
    from snoc.prems(3) have "t \<in> set (xs @ [x])"
      by (induction rule: tranclp_induct) (auto simp: dep_edge_def)
    with False have t: "t = x" by simp
    from snoc.prems(3) obtain s where s: "dep_edge (xs @ [x]) deps t s"
      "(dep_edge (xs @ [x]) deps)\<^sup>*\<^sup>* s u" by (meson tranclpD)
    with t snoc.prems(1) have "s \<in> set xs" by (auto simp: dep_edge_def deps_first_snoc)
    with s(2) stay have "u \<in> set xs" by (metis rtranclpD)
    with t show ?thesis by blast
  qed
qed

text \<open>
  A node left out depends on another node left out, so the nodes left out lie on or lead to a
  cycle.
\<close>

lemma left_out_cycle:
  assumes "finite N" and "N \<noteq> {}" and "\<And>t. t \<in> N \<Longrightarrow> \<exists>d \<in> N. r t d"
  shows "\<exists>t. r\<^sup>+\<^sup>+ t t"
proof (rule ccontr)
  define R where "R = {(d, t). t \<in> N \<and> d \<in> N \<and> r t d}"
  assume no_cycle: "\<nexists>t. r\<^sup>+\<^sup>+ t t"
  have "r\<^sup>+\<^sup>+ t d" if "(d, t) \<in> R\<^sup>+" for d t
    using that
  proof (induction rule: trancl_induct)
    case (base t)
    then show ?case by (simp add: R_def tranclp.r_into_trancl)
  next
    case (step t u)
    then have "r u t" by (simp add: R_def)
    with step.IH show ?case by (rule tranclp_into_tranclp2 [rotated])
  qed
  with no_cycle have "acyclic R" by (auto simp: acyclic_def)
  moreover have "finite R"
    by (rule finite_subset [of _ "N \<times> N"]) (use assms(1) in \<open>auto simp: R_def\<close>)
  ultimately have wf: "wf R" by (simp add: finite_acyclic_wf)
  from assms(2) obtain n where n: "n \<in> N" by blast
  obtain m where "m \<in> N" "\<And>d. (d, m) \<in> R \<Longrightarrow> d \<notin> N"
    by (rule wfE_min [OF wf n]) blast
  with assms(3) show False unfolding R_def by blast
qed

lemma FlattenToList_correct:
  assumes g: "dep_graph T deps nodes" and pick: "\<And>xs. xs \<noteq> [] \<Longrightarrow> pick xs \<in> set xs"
  shows "\<exists>flat. FlattenToList pick nodes = Some flat \<and> distinct flat \<and> set flat \<subseteq> set T
    \<and> deps_first deps flat \<and> (length flat = length T \<longleftrightarrow> dep_acyclic T deps)"
proof -
  from FlattenToList_inv [where T = T and deps = deps, OF g pick] obtain flat where
    flat: "FlattenToList pick nodes = Some flat" "distinct flat" "set flat \<subseteq> set T" "deps_first deps flat"
    and done_: "\<forall>t \<in> set T. set (deps t) \<subseteq> set flat \<longleftrightarrow> t \<in> set flat"
    by (auto simp: flatten_inv_def)
  have T: "distinct T" using g by (simp add: dep_graph_def)
  have len: "length flat = length T \<longleftrightarrow> set flat = set T"
    using flat T by (metis List.finite_set card_subset_eq distinct_card)
  have "set flat = set T \<longleftrightarrow> dep_acyclic T deps"
  proof
    assume eq: "set flat = set T"
    then have "dep_edge T deps = dep_edge flat deps" by (auto simp: dep_edge_def fun_eq_iff)
    with deps_first_acyclic [OF flat(4,2)] flat(2) show "dep_acyclic T deps"
      unfolding dep_acyclic_def by (metis disjoint_insert(1) distinct_append list.simps(15))
  next
    assume acyclic: "dep_acyclic T deps"
    show "set flat = set T"
    proof (rule ccontr)
      assume "set flat \<noteq> set T"
      with flat(3) have ne: "set T - set flat \<noteq> {}" by blast
      have "\<exists>d \<in> set T - set flat. dep_edge T deps t d" if "t \<in> set T - set flat" for t
      proof -
        from that done_ obtain d where "d \<in> set (deps t)" "d \<notin> set flat" by blast
        moreover from this(1) that g have "d \<in> set T" by (auto simp: dep_graph_def)
        ultimately show ?thesis using that by (auto simp: dep_edge_def)
      qed
      from left_out_cycle [where r = "dep_edge T deps", OF _ ne this] acyclic show False by (auto simp: dep_acyclic_def)
    qed
  qed
  with flat len show ?thesis by blast
qed

end
