(* ===== verification/Gyp_Deps.thy ===== *)
theory Gyp_Deps
  imports Gyp_Graph
begin

text \<open>
  \<open>input.py\<close>: building the dependency graph of the targets (\<open>BuildDependencyList\<close>) and of the
  build files (\<open>VerifyNoGYPFileCircularDependencies\<close>), with the cycle reports of both.
\<close>

section \<open>Targets\<close>

text \<open>The dictionary from qualified target names to target dictionaries.\<close>

type_synonym gtargets = "(string \<times> gdict) list"

text \<open>The strings among the values of a list.\<close>

fun strings :: "gval list \<Rightarrow> string list" where
  "strings [] = []"
| "strings (GStr s # vs) = s # strings vs"
| "strings (v # vs) = strings vs"

lemma strings_map_GStr [simp]: "strings (map GStr xs) = xs"
  by (induction xs) auto

lemma set_strings [simp]: "set (strings vs) = {s. GStr s \<in> set vs}"
  by (induction vs rule: strings.induct) auto

text \<open>The string items of a target's list \<open>key\<close>.\<close>

definition target_items :: "gtargets \<Rightarrow> string \<Rightarrow> string \<Rightarrow> string list" where
  "target_items targets key t =
     (case map_of targets t of
        None \<Rightarrow> []
      | Some spec \<Rightarrow> (case get_iter spec key of Inr vs \<Rightarrow> strings vs | Inl e \<Rightarrow> []))"

abbreviation target_deps :: "gtargets \<Rightarrow> string \<Rightarrow> string list" where
  "target_deps targets \<equiv> target_items targets ''dependencies''"

lemma falsy_items:
  assumes "\<not> get_truthy spec key"
  shows "get_iter spec key = Inr [] \<or> (\<exists>e. get_iter spec key = Inl e)"
proof (cases "map_of spec key")
  case None
  then show ?thesis by (simp add: get_iter_def dict_get_def)
next
  case (Some v)
  with assms show ?thesis by (cases v) (auto simp: get_iter_def dict_get_def get_truthy_def)
qed

lemma truthy_items:
  assumes "get_truthy spec key" and "py_iter (the (map_of spec key)) = Inr vs"
  shows "get_iter spec key = Inr vs \<and> vs \<noteq> []"
proof (cases "map_of spec key")
  case None
  with assms show ?thesis by (simp add: get_truthy_def)
next
  case (Some v)
  with assms show ?thesis by (cases v) (auto simp: get_iter_def dict_get_def get_truthy_def)
qed

section \<open>BuildDependencyList\<close>

text \<open>\<open>target_node.dependencies.append(d); d.dependents.append(target_node)\<close>\<close>

definition add_link :: "'a \<Rightarrow> 'a \<Rightarrow> 'a dep_nodes \<Rightarrow> 'a dep_nodes" where
  "add_link t d nodes =
     (let nodes = nodes(Some t := nodes (Some t)
                          \<lparr>n_dependencies := n_dependencies (nodes (Some t)) @ [Some d]\<rparr>)
      in nodes(Some d := nodes (Some d)\<lparr>n_dependents := n_dependents (nodes (Some d)) @ [t]\<rparr>))"

text \<open>\<open>target_node.dependencies = [root_node]; root_node.dependents.append(target_node)\<close>\<close>

definition add_root_link :: "'a \<Rightarrow> 'a dep_nodes \<Rightarrow> 'a dep_nodes" where
  "add_root_link t nodes =
     (let nodes = nodes(Some t := nodes (Some t)\<lparr>n_dependencies := [None]\<rparr>)
      in nodes(None := nodes None\<lparr>n_dependents := n_dependents (nodes None) @ [t]\<rparr>))"

definition quoted :: "string \<Rightarrow> string" where
  "quoted s = [CHR 0x27] @ s @ [CHR 0x27]"

text \<open>A dependency that is not a string is no key of \<open>dependency_nodes\<close> or cannot be hashed.\<close>

fun link_dependency ::
  "gtargets \<Rightarrow> string \<Rightarrow> gval \<Rightarrow> string dep_nodes \<Rightarrow> string dep_nodes result" where
  "link_dependency targets target (GStr d) nodes =
     (if has_key d targets then Inr (add_link target d nodes)
      else Inl (GypError (''Dependency '' @ quoted d @ '' not found while trying to load target '' @ target)))"
| "link_dependency targets target (GList l) nodes = Inl (TypeError ''unhashable type'')"
| "link_dependency targets target (GDict l) nodes = Inl (TypeError ''unhashable type'')"
| "link_dependency targets target v nodes =
     Inl (GypError (''Dependency '' @ class_name v @ '' not found while trying to load target '' @ target))"

definition link_target ::
  "gtargets \<Rightarrow> string \<times> gdict \<Rightarrow> string dep_nodes \<Rightarrow> string dep_nodes result" where
  "link_target targets = (\<lambda>(target, spec) nodes.
     if \<not> get_truthy spec ''dependencies'' then Inr (add_root_link target nodes)
     else rbind (py_iter (the (map_of spec ''dependencies'')))
            (\<lambda>dependencies. rfold (link_dependency targets target) dependencies nodes))"

text \<open>
  \<open>None\<close> stands for a run that does not end. The message lists the symmetric difference of
  \<open>flat_list\<close> and the targets.
\<close>

definition BuildDependencyList ::
  "(string list \<Rightarrow> string) \<Rightarrow> gtargets \<Rightarrow> (string dep_nodes \<times> string list) result option" where
  "BuildDependencyList pick targets =
     (case rfold (link_target targets) targets (\<lambda>_. new_node) of
        Inl e \<Rightarrow> Some (Inl e)
      | Inr nodes \<Rightarrow>
          (case FlattenToList pick nodes of
             None \<Rightarrow> None
           | Some flat_list \<Rightarrow>
               Some (if length flat_list \<noteq> length targets
                     then Inl (CircularException
                            (filter (\<lambda>t. t \<notin> set (map fst targets)) flat_list
                             @ filter (\<lambda>t. t \<notin> set flat_list) (map fst targets)))
                     else Inr (nodes, flat_list))))"

section \<open>The graph that is built\<close>

lemma add_link_simps [simp]:
  "n_dependencies (add_link t d nodes x) =
     n_dependencies (nodes x) @ (if x = Some t then [Some d] else [])"
  "n_dependents (add_link t d nodes x) = n_dependents (nodes x) @ (if x = Some d then [t] else [])"
  by (auto simp: add_link_def Let_def)

lemma add_root_link_simps [simp]:
  "n_dependencies (add_root_link t nodes x) = (if x = Some t then [None] else n_dependencies (nodes x))"
  "n_dependents (add_root_link t nodes x) = n_dependents (nodes x) @ (if x = None then [t] else [])"
  by (auto simp: add_root_link_def Let_def)

lemma link_dependency_Inr:
  "link_dependency targets t v nodes = Inr nodes' \<longleftrightarrow>
     (\<exists>d. v = GStr d \<and> has_key d targets \<and> nodes' = add_link t d nodes)"
  by (cases v) auto

lemma link_dependencies_Inr:
  assumes "rfold (link_dependency targets t) vs nodes = Inr nodes'"
  shows "\<exists>ds. vs = map GStr ds \<and> set ds \<subseteq> set (map fst targets)
    \<and> nodes' = fold (add_link t) ds nodes"
  using assms
proof (induction vs arbitrary: nodes)
  case (Cons v vs)
  then obtain d ds where "v = GStr d" "has_key d targets" "vs = map GStr ds"
    "set ds \<subseteq> set (map fst targets)" "nodes' = fold (add_link t) ds (add_link t d nodes)"
    by (auto simp: link_dependency_Inr) blast
  then have "v # vs = map GStr (d # ds) \<and> set (d # ds) \<subseteq> set (map fst targets)
    \<and> nodes' = fold (add_link t) (d # ds) nodes"
    by (auto simp: has_key_def)
  then show ?case by (rule exI [of _ "d # ds"])
qed simp

lemma fold_add_link:
  "n_dependencies (fold (add_link t) ds nodes x) =
     n_dependencies (nodes x) @ (if x = Some t then map Some ds else [])"
  "set (n_dependents (fold (add_link t) ds nodes x)) =
     set (n_dependents (nodes x)) \<union> (case x of None \<Rightarrow> {} | Some d \<Rightarrow> if d \<in> set ds then {t} else {})"
  by (induction ds arbitrary: nodes) (auto split: option.splits)

text \<open>\<open>linked targets done nodes\<close>: the links of the targets in \<open>done\<close>, and no others.\<close>

definition linked :: "gtargets \<Rightarrow> string set \<Rightarrow> string dep_nodes \<Rightarrow> bool" where
  "linked targets ts nodes \<longleftrightarrow>
     (\<forall>t. n_dependencies (nodes (Some t)) =
        (if t \<notin> ts then []
         else if target_deps targets t = [] then [None]
         else map Some (target_deps targets t)))
     \<and> (\<forall>t \<in> ts. set (target_deps targets t) \<subseteq> set (map fst targets))
     \<and> set (n_dependents (nodes None)) = {t \<in> ts. target_deps targets t = []}
     \<and> (\<forall>d. set (n_dependents (nodes (Some d))) = {t \<in> ts. d \<in> set (target_deps targets t)})"

lemma link_target_linked:
  assumes "link_target targets (t, spec) nodes = Inr nodes'" and "map_of targets t = Some spec"
    and "t \<notin> ts" and "linked targets ts nodes"
  shows "linked targets (insert t ts) nodes'"
proof (cases "get_truthy spec ''dependencies''")
  case False
  from falsy_items [OF this] assms(2) have "target_deps targets t = []"
    by (auto simp: target_items_def split: sum.splits)
  with False assms show ?thesis by (auto simp: linked_def link_target_def)
next
  case True
  with assms(1) obtain vs where vs: "py_iter (the (map_of spec ''dependencies'')) = Inr vs"
    "rfold (link_dependency targets t) vs nodes = Inr nodes'"
    by (auto simp: link_target_def)
  then obtain ds where ds: "vs = map GStr ds" "set ds \<subseteq> set (map fst targets)"
    "nodes' = fold (add_link t) ds nodes"
    using link_dependencies_Inr by blast
  from truthy_items [OF True vs(1)] ds(1) assms(2) have deps: "target_deps targets t = ds" "ds \<noteq> []"
    by (auto simp: target_items_def)
  show ?thesis
    unfolding linked_def
  proof (intro conjI allI ballI)
    fix u
    show "n_dependencies (nodes' (Some u)) =
        (if u \<notin> insert t ts then []
         else if target_deps targets u = [] then [None] else map Some (target_deps targets u))"
      using assms(3,4) deps unfolding linked_def by (auto simp: ds(3) fold_add_link)
    show "set (n_dependents (nodes' (Some u))) = {v \<in> insert t ts. u \<in> set (target_deps targets v)}"
      using assms(3,4) deps unfolding linked_def by (auto simp: ds(3) fold_add_link)
  next
    fix u assume "u \<in> insert t ts"
    with assms(4) deps ds(2) show "set (target_deps targets u) \<subseteq> set (map fst targets)"
      unfolding linked_def by blast
  next
    show "set (n_dependents (nodes' None)) = {u \<in> insert t ts. target_deps targets u = []}"
      using assms(4) deps unfolding linked_def by (auto simp: ds(3) fold_add_link)
  qed
qed

lemma link_targets_linked:
  assumes "rfold (link_target targets) todo nodes = Inr nodes'" and "wf_dict targets"
    and "set todo \<subseteq> set targets" and "wf_dict todo" and "fst ` set todo \<inter> ts = {}"
    and "linked targets ts nodes"
  shows "linked targets (fst ` set todo \<union> ts) nodes'"
  using assms
proof (induction todo arbitrary: nodes ts)
  case (Cons e todo)
  obtain t spec where e: "e = (t, spec)" by (cases e)
  with Cons.prems obtain nodes1 where 1: "link_target targets (t, spec) nodes = Inr nodes1"
    "rfold (link_target targets) todo nodes1 = Inr nodes'" by auto
  from Cons.prems e have "map_of targets t = Some spec" "t \<notin> ts" by (auto simp: wf_dict_def)
  with 1 Cons.prems have "linked targets (insert t ts) nodes1" using link_target_linked by blast
  with Cons.IH [OF 1(2), where ts = "insert t ts"] Cons.prems e show ?case by (auto simp: wf_dict_def)
qed simp

lemma linked_dep_graph:
  assumes "linked targets (set (map fst targets)) nodes" and "wf_dict targets"
  shows "dep_graph (map fst targets) (target_deps targets) nodes"
  using assms by (auto simp: linked_def dep_graph_def wf_dict_def)

lemma BuildDependencyList_links:
  assumes "rfold (link_target targets) targets (\<lambda>_. new_node) = Inr nodes" and "wf_dict targets"
  shows "linked targets (set (map fst targets)) nodes"
proof -
  have "linked targets {} (\<lambda>_. new_node)" by (auto simp: linked_def new_node_def)
  with link_targets_linked [OF assms(1,2), where ts = "{}"] assms(2) show ?thesis by auto
qed

text \<open>
  Every dependency named must be a target, and is a string: otherwise the run stops with an error
  before the sort.
\<close>

definition deps_known :: "gtargets \<Rightarrow> bool" where
  "deps_known targets \<longleftrightarrow>
     (\<forall>(t, spec) \<in> set targets. get_truthy spec ''dependencies'' \<longrightarrow>
        (\<exists>ds. py_iter (the (map_of spec ''dependencies'')) = Inr (map GStr ds)
              \<and> set ds \<subseteq> set (map fst targets)))"

lemma link_dependencies_known:
  "set ds \<subseteq> set (map fst targets) \<Longrightarrow>
   \<exists>nodes'. rfold (link_dependency targets t) (map GStr ds) nodes = Inr nodes'"
  by (induction ds arbitrary: nodes) (auto simp: has_key_def)

lemma link_targets_known_iff:
  "(\<exists>nodes'. rfold (link_target targets) todo nodes = Inr nodes') \<longleftrightarrow>
   (\<forall>(t, spec) \<in> set todo. get_truthy spec ''dependencies'' \<longrightarrow>
      (\<exists>ds. py_iter (the (map_of spec ''dependencies'')) = Inr (map GStr ds)
              \<and> set ds \<subseteq> set (map fst targets)))"
proof (induction todo arbitrary: nodes)
  case (Cons e todo)
  obtain t spec where e: "e = (t, spec)" by (cases e)
  have "(\<exists>n. link_target targets e nodes = Inr n) \<longleftrightarrow> (get_truthy spec ''dependencies'' \<longrightarrow>
      (\<exists>ds. py_iter (the (map_of spec ''dependencies'')) = Inr (map GStr ds)
              \<and> set ds \<subseteq> set (map fst targets)))"
    using link_dependencies_Inr link_dependencies_known by (fastforce simp: e link_target_def)
  moreover have "(\<exists>n. rfold (link_target targets) (e # todo) nodes = Inr n) \<longleftrightarrow>
      (\<exists>n. link_target targets e nodes = Inr n \<and> (\<exists>n'. rfold (link_target targets) todo n = Inr n'))"
    by auto
  ultimately show ?case unfolding Cons.IH using e by auto
qed simp

lemma py_iter_error: "py_iter v = Inl e \<Longrightarrow> \<exists>m. e = TypeError m"
  by (cases v) auto

lemma link_dependency_error:
  "link_dependency targets t v nodes = Inl e \<Longrightarrow> \<exists>m. e = GypError m \<or> e = TypeError m"
  by (cases v) (auto split: if_splits)

lemma link_target_error:
  "link_target targets te nodes = Inl e \<Longrightarrow> \<exists>m. e = GypError m \<or> e = TypeError m"
  by (cases te)
    (fastforce simp: link_target_def rbind_Inl_iff split: if_splits
      dest: py_iter_error link_dependency_error rfold_Inl)

lemma dependency_list_correct:
  assumes "wf_dict targets" and pick: "\<And>xs. xs \<noteq> [] \<Longrightarrow> pick xs \<in> set xs"
  shows "\<exists>r. BuildDependencyList pick targets = Some r
    \<and> ((\<exists>nodes flat. r = Inr (nodes, flat)) \<longleftrightarrow>
         deps_known targets \<and> dep_acyclic (map fst targets) (target_deps targets))
    \<and> (\<forall>nodes flat. r = Inr (nodes, flat) \<longrightarrow>
         linked targets (set (map fst targets)) nodes
         \<and> distinct flat \<and> set flat = set (map fst targets) \<and> deps_first (target_deps targets) flat)
    \<and> (\<forall>ts. r = Inl (CircularException ts) \<longrightarrow>
         ts \<noteq> [] \<and> (\<forall>t \<in> set ts. \<exists>u \<in> set ts. dep_edge (map fst targets) (target_deps targets) t u))"
proof (cases "rfold (link_target targets) targets (\<lambda>_. new_node)")
  case (Inl e)
  then have "\<not> deps_known targets"
    using link_targets_known_iff [of targets targets "\<lambda>_. new_node"] by (auto simp: deps_known_def)
  moreover have "e \<noteq> CircularException ts" for ts
    using rfold_Inl [OF Inl] link_target_error by fastforce
  ultimately show ?thesis by (simp add: BuildDependencyList_def Inl)
next
  case (Inr nodes)
  then have known: "deps_known targets"
    using link_targets_known_iff [of targets targets "\<lambda>_. new_node"] by (auto simp: deps_known_def)
  have linked: "linked targets (set (map fst targets)) nodes"
    using BuildDependencyList_links [OF Inr assms(1)] .
  note g = linked_dep_graph [OF this assms(1)]
  let ?T = "map fst targets" and ?deps = "target_deps targets"
  from FlattenToList_inv [where T = ?T and deps = ?deps, OF g pick] obtain flat where
    flat: "FlattenToList pick nodes = Some flat" and inv: "flatten_inv ?T ?deps [] flat" by blast
  from FlattenToList_correct [where T = ?T and deps = ?deps, OF g pick] flat have
    ok: "distinct flat" "set flat \<subseteq> set ?T" "deps_first ?deps flat"
      "length flat = length targets \<longleftrightarrow> dep_acyclic ?T ?deps" by auto
  have full: "set flat = set ?T \<longleftrightarrow> length flat = length targets"
    using ok(1,2) assms(1) unfolding wf_dict_def
    by (metis List.finite_set card_subset_eq distinct_card length_map)
  have left: "\<exists>u \<in> set ?T - set flat. dep_edge ?T ?deps t u" if "t \<in> set ?T - set flat" for t
  proof -
    from that inv obtain u where "u \<in> set (?deps t)" "u \<notin> set flat"
      by (fastforce simp: flatten_inv_def)
    moreover from this(1) that linked have "u \<in> set ?T" by (auto simp: linked_def)
    ultimately show ?thesis using that by (auto simp: dep_edge_def)
  qed
  have none: "filter (\<lambda>t. t \<notin> set ?T) flat = []" using ok(2) by (auto simp: filter_empty_conv)
  show ?thesis
  proof (cases "length flat = length targets")
    case True
    with Inr flat ok full known linked show ?thesis by (simp add: BuildDependencyList_def)
  next
    case False
    with full ok(2) have "filter (\<lambda>t. t \<notin> set flat) ?T \<noteq> []" by (fastforce simp: filter_empty_conv)
    moreover have "\<forall>t \<in> set (filter (\<lambda>t. t \<notin> set flat) ?T).
        \<exists>u \<in> set (filter (\<lambda>t. t \<notin> set flat) ?T). dep_edge ?T ?deps t u"
      using left unfolding set_filter by blast
    ultimately show ?thesis using False Inr flat(1) ok(4) none by (simp add: BuildDependencyList_def)
  qed
qed

text \<open>
  C1: \<open>BuildDependencyList\<close> always ends. It succeeds exactly when every dependency is a known
  target and the dependency graph has no cycle; the list it returns then has every target once,
  each after all its dependencies. A circularity error names targets that each depend on another
  target it names, so at least one cycle.
\<close>

theorem BuildDependencyList_correct:
  assumes "wf_dict targets" and pick: "\<And>xs. xs \<noteq> [] \<Longrightarrow> pick xs \<in> set xs"
  shows "\<exists>r. BuildDependencyList pick targets = Some r
    \<and> ((\<exists>nodes flat. r = Inr (nodes, flat)) \<longleftrightarrow>
         deps_known targets \<and> dep_acyclic (map fst targets) (target_deps targets))
    \<and> (\<forall>nodes flat. r = Inr (nodes, flat) \<longrightarrow>
         linked targets (set (map fst targets)) nodes
         \<and> distinct flat \<and> set flat = set (map fst targets) \<and> deps_first (target_deps targets) flat)
    \<and> (\<forall>ts. r = Inl (CircularException ts) \<longrightarrow>
         ts \<noteq> [] \<and> (\<forall>t \<in> set ts. \<exists>u \<in> set ts. dep_edge (map fst targets) (target_deps targets) t u))"
  by (rule dependency_list_correct [OF assms])

text \<open>Two targets in two files, the first of which depends on the second.\<close>

definition ex_targets :: gtargets where
  "ex_targets =
     [(''a.gyp:app#target'',
       [(''target_name'', GStr ''app''), (''toolset'', GStr ''target''), (''type'', GStr ''executable''),
        (''dependencies'', GList [GStr ''b.gyp:lib#target''])]),
      (''b.gyp:lib#target'',
       [(''target_name'', GStr ''lib''), (''toolset'', GStr ''target''), (''type'', GStr ''static_library''),
        (''all_dependent_settings'', GDict [(''defines'', GList [GStr ''LIB''])])])]"

lemma ex_targets_deps:
  "wf_dict ex_targets" "map fst ex_targets = [''a.gyp:app#target'', ''b.gyp:lib#target'']"
  "target_deps ex_targets ''a.gyp:app#target'' = [''b.gyp:lib#target'']"
  "target_deps ex_targets ''b.gyp:lib#target'' = []"
  by (simp_all add: ex_targets_def wf_dict_def target_items_def get_iter_def dict_get_def)

lemma ex_targets_known: "deps_known ex_targets"
  by (simp add: ex_targets_def deps_known_def get_truthy_def)
     (rule exI [of _ "[''b.gyp:lib#target'']"], simp)

lemma ex_targets_acyclic: "dep_acyclic (map fst ex_targets) (target_deps ex_targets)"
  by (rule dep_acyclic_rank [where rank = "\<lambda>t. if t = ''a.gyp:app#target'' then 1 else 0"])
     (auto simp: ex_targets_deps)

definition ex_nodes :: "string dep_nodes" where
  "ex_nodes = add_root_link ''b.gyp:lib#target''
     (add_link ''a.gyp:app#target'' ''b.gyp:lib#target'' (\<lambda>_. new_node))"

lemma ex_nodes_linked: "linked ex_targets (set (map fst ex_targets)) ex_nodes"
proof -
  have "rfold (link_target ex_targets) ex_targets (\<lambda>_. new_node) = Inr ex_nodes"
    by (simp add: ex_targets_def ex_nodes_def link_target_def get_truthy_def has_key_def)
  from BuildDependencyList_links [OF this ex_targets_deps(1)] show ?thesis .
qed

lemma ex_nodes_dependencies:
  "n_dependencies (ex_nodes (Some ''a.gyp:app#target'')) = [Some ''b.gyp:lib#target'']"
  "n_dependencies (ex_nodes (Some ''b.gyp:lib#target'')) = [None]"
  by (simp_all add: ex_nodes_def new_node_def)

theorem BuildDependencyList_witness:
  "\<exists>nodes flat. BuildDependencyList hd ex_targets = Some (Inr (nodes, flat))
    \<and> distinct flat \<and> set flat = {''a.gyp:app#target'', ''b.gyp:lib#target''}
    \<and> deps_first (target_deps ex_targets) flat"
  using BuildDependencyList_correct [of ex_targets hd, OF ex_targets_deps(1) hd_in_set]
    ex_targets_acyclic ex_targets_known
  by (auto simp: ex_targets_deps(2))

end
