(* ===== verification/Gyp_File_Deps.thy ===== *)
theory Gyp_File_Deps
  imports Gyp_Deps
begin

text \<open>
  \<open>input.py\<close>: \<open>VerifyNoGYPFileCircularDependencies\<close>, the graph whose nodes are build files. A
  build file is what \<open>BuildFile\<close> returns, so \<open>None\<close> for a name with no colon.
\<close>

section \<open>VerifyNoGYPFileCircularDependencies\<close>

definition build_files :: "gtargets \<Rightarrow> string option list" where
  "build_files targets = remdups (map (\<lambda>(target, spec). BuildFile target) targets)"

definition file_name :: "string option \<Rightarrow> string" where
  "file_name f = (case f of None \<Rightarrow> ''None'' | Some s \<Rightarrow> s)"

fun link_file_dependency ::
  "string option list \<Rightarrow> string option \<Rightarrow> gval \<Rightarrow> string option dep_nodes
   \<Rightarrow> string option dep_nodes result" where
  "link_file_dependency files build_file (GStr dependency) nodes =
     (let dependency_build_file = BuildFile dependency
      in if dependency_build_file = build_file then Inr nodes
         else if dependency_build_file \<notin> set files
         then Inl (GypError (''Dependancy '' @ quoted (file_name dependency_build_file) @ '' not found''))
         else if Some dependency_build_file \<in> set (n_dependencies (nodes (Some build_file))) then Inr nodes
         else Inr (add_link build_file dependency_build_file nodes))"
| "link_file_dependency files build_file v nodes =
     Inl (AttributeError (class_name v @ '' object has no attribute rsplit''))"

definition link_file_target ::
  "string option list \<Rightarrow> string \<times> gdict \<Rightarrow> string option dep_nodes \<Rightarrow> string option dep_nodes result" where
  "link_file_target files = (\<lambda>(target, spec) nodes.
     rbind (get_iter spec ''dependencies'')
       (\<lambda>target_dependencies. rfold (link_file_dependency files (BuildFile target)) target_dependencies nodes))"

definition link_file_root :: "'a list \<Rightarrow> 'a dep_nodes \<Rightarrow> 'a dep_nodes" where
  "link_file_root files =
     fold (\<lambda>f nodes. if n_dependencies (nodes (Some f)) = [] then add_root_link f nodes else nodes) files"

definition VerifyNoGYPFileCircularDependencies ::
  "(string option list \<Rightarrow> string option) \<Rightarrow> gtargets \<Rightarrow> unit result option" where
  "VerifyNoGYPFileCircularDependencies pick targets =
     (let files = build_files targets
      in case rfold (link_file_target files) targets (\<lambda>_. new_node) of
           Inl e \<Rightarrow> Some (Inl e)
         | Inr nodes \<Rightarrow>
             (case FlattenToList pick (link_file_root files nodes) of
                None \<Rightarrow> None
              | Some flat_list \<Rightarrow>
                  Some (if length flat_list \<noteq> length files
                        then Inl (CircularException
                               (map file_name (filter (\<lambda>f. f \<notin> set flat_list) files)))
                        else Inr ())))"

section \<open>The graph that is built\<close>

text \<open>\<open>file_linked E nodes\<close>: the nodes carry the links \<open>E\<close>, and none to the root.\<close>

definition file_linked :: "('a \<times> 'a) set \<Rightarrow> 'a dep_nodes \<Rightarrow> bool" where
  "file_linked E nodes \<longleftrightarrow>
     (\<forall>f. set (n_dependencies (nodes (Some f))) = Some ` {g. (f, g) \<in> E})
     \<and> (\<forall>g. set (n_dependents (nodes (Some g))) = {f. (f, g) \<in> E})
     \<and> n_dependents (nodes None) = []"

lemma file_linked_add:
  assumes "file_linked E nodes"
  shows "file_linked (insert (f, g) E) (add_link f g nodes)"
  using assms unfolding file_linked_def by auto

lemma link_file_dependency_linked:
  assumes "link_file_dependency files f v nodes = Inr nodes'" and "file_linked E nodes"
  shows "\<exists>d. v = GStr d \<and> (BuildFile d \<noteq> f \<longrightarrow> BuildFile d \<in> set files)
    \<and> file_linked (E \<union> (if BuildFile d = f then {} else {(f, BuildFile d)})) nodes'"
proof -
  from assms(1) obtain d where v: "v = GStr d" by (cases v) auto
  consider "BuildFile d = f" "nodes' = nodes"
    | "BuildFile d \<noteq> f" "BuildFile d \<in> set files" "nodes' = nodes"
      "Some (BuildFile d) \<in> set (n_dependencies (nodes (Some f)))"
    | "BuildFile d \<noteq> f" "BuildFile d \<in> set files" "nodes' = add_link f (BuildFile d) nodes"
    using assms(1) v by (auto simp: Let_def split: if_splits)
  then show ?thesis
  proof cases
    case 1
    with v assms(2) show ?thesis by simp
  next
    case 2
    with assms(2) have "(f, BuildFile d) \<in> E" unfolding file_linked_def by (metis (no_types, lifting) imageE mem_Collect_eq option.inject)
    then have "E \<union> {(f, BuildFile d)} = E" by blast
    with 2 v assms(2) show ?thesis by simp
  next
    case 3
    with v file_linked_add [OF assms(2)] show ?thesis by simp
  qed
qed

lemma link_file_dependencies_linked:
  "rfold (link_file_dependency files f) vs nodes = Inr nodes' \<Longrightarrow> file_linked E nodes \<Longrightarrow>
   \<exists>ds. vs = map GStr ds \<and> (\<forall>d \<in> set ds. BuildFile d \<noteq> f \<longrightarrow> BuildFile d \<in> set files)
     \<and> file_linked (E \<union> {(f, BuildFile d) | d. d \<in> set ds \<and> BuildFile d \<noteq> f}) nodes'"
proof (induction vs arbitrary: nodes E)
  case (Cons v vs)
  from Cons.prems obtain nodes1 where 1: "link_file_dependency files f v nodes = Inr nodes1"
    "rfold (link_file_dependency files f) vs nodes1 = Inr nodes'" by auto
  from link_file_dependency_linked [OF 1(1) Cons.prems(2)] obtain d where
    d: "v = GStr d" "BuildFile d \<noteq> f \<longrightarrow> BuildFile d \<in> set files"
    "file_linked (E \<union> (if BuildFile d = f then {} else {(f, BuildFile d)})) nodes1" by blast
  from Cons.IH [OF 1(2) d(3)] obtain ds where
    ds: "vs = map GStr ds" "\<forall>d \<in> set ds. BuildFile d \<noteq> f \<longrightarrow> BuildFile d \<in> set files"
    "file_linked (E \<union> (if BuildFile d = f then {} else {(f, BuildFile d)})
       \<union> {(f, BuildFile d) | d. d \<in> set ds \<and> BuildFile d \<noteq> f}) nodes'" by blast
  have "E \<union> (if BuildFile d = f then {} else {(f, BuildFile d)})
       \<union> {(f, BuildFile d) | d. d \<in> set ds \<and> BuildFile d \<noteq> f}
     = E \<union> {(f, BuildFile e) | e. e \<in> set (d # ds) \<and> BuildFile e \<noteq> f}" by auto
  with d ds have "v # vs = map GStr (d # ds)
     \<and> (\<forall>e \<in> set (d # ds). BuildFile e \<noteq> f \<longrightarrow> BuildFile e \<in> set files)
     \<and> file_linked (E \<union> {(f, BuildFile e) | e. e \<in> set (d # ds) \<and> BuildFile e \<noteq> f}) nodes'" by simp
  then show ?case by (rule exI [of _ "d # ds"])
qed auto

text \<open>The build files a build file refers to, other than itself.\<close>

definition file_deps :: "gtargets \<Rightarrow> string option \<Rightarrow> string option list" where
  "file_deps targets f =
     concat (map (\<lambda>(t, spec). if BuildFile t = f
                              then filter (\<lambda>g. g \<noteq> f) (map BuildFile (target_deps targets t)) else [])
               targets)"

definition file_edges :: "gtargets \<Rightarrow> string set \<Rightarrow> (string option \<times> string option) set" where
  "file_edges targets ts =
     {(BuildFile t, BuildFile d) | t d. t \<in> ts \<and> d \<in> set (target_deps targets t) \<and> BuildFile d \<noteq> BuildFile t}"

lemma set_file_deps:
  "set (file_deps targets f) = {g. (f, g) \<in> file_edges targets (fst ` set targets)}"
  by (force simp: file_deps_def file_edges_def)

lemma link_file_targets_linked:
  assumes "rfold (link_file_target files) todo nodes = Inr nodes'" and "wf_dict targets"
    and "set todo \<subseteq> set targets" and "file_linked (file_edges targets ts) nodes"
    and "snd ` file_edges targets ts \<subseteq> set files"
  shows "file_linked (file_edges targets (fst ` set todo \<union> ts)) nodes'
    \<and> snd ` file_edges targets (fst ` set todo \<union> ts) \<subseteq> set files"
  using assms
proof (induction todo arbitrary: nodes ts)
  case (Cons e todo)
  obtain t spec where e: "e = (t, spec)" by (cases e)
  from Cons.prems e obtain vs nodes1 where 1: "get_iter spec ''dependencies'' = Inr vs"
    "rfold (link_file_dependency files (BuildFile t)) vs nodes = Inr nodes1"
    "rfold (link_file_target files) todo nodes1 = Inr nodes'"
    by (auto simp: link_file_target_def)
  from link_file_dependencies_linked [OF 1(2) Cons.prems(4)] obtain ds where
    ds: "vs = map GStr ds" "\<forall>d \<in> set ds. BuildFile d \<noteq> BuildFile t \<longrightarrow> BuildFile d \<in> set files"
    "file_linked (file_edges targets ts \<union> {(BuildFile t, BuildFile d) | d. d \<in> set ds \<and> BuildFile d \<noteq> BuildFile t}) nodes1"
    by blast
  from Cons.prems(2,3) e have "map_of targets t = Some spec" by (simp add: wf_dict_def)
  with 1(1) ds(1) have "target_deps targets t = ds" by (simp add: target_items_def)
  then have E: "file_edges targets (insert t ts) = file_edges targets ts
      \<union> {(BuildFile t, BuildFile d) | d. d \<in> set ds \<and> BuildFile d \<noteq> BuildFile t}"
    unfolding file_edges_def by blast
  have "snd ` file_edges targets (insert t ts) \<subseteq> set files"
    unfolding E using Cons.prems(5) ds(2) by auto
  with Cons.IH [OF 1(3) Cons.prems(2), where ts = "insert t ts"] ds(3) Cons.prems(3) e E
  show ?case by simp
qed simp

lemma link_file_root_simps:
  assumes "distinct files"
  shows "n_dependencies (link_file_root files nodes (Some f)) =
      (if f \<in> set files \<and> n_dependencies (nodes (Some f)) = [] then [None] else n_dependencies (nodes (Some f)))"
    and "n_dependents (link_file_root files nodes (Some f)) = n_dependents (nodes (Some f))"
    and "set (n_dependents (link_file_root files nodes None)) =
      set (n_dependents (nodes None)) \<union> {f \<in> set files. n_dependencies (nodes (Some f)) = []}"
  using assms unfolding link_file_root_def by (induction files arbitrary: nodes) auto

lemma link_file_graph:
  assumes "rfold (link_file_target (build_files targets)) targets (\<lambda>_. new_node) = Inr nodes"
    and "wf_dict targets"
  shows "dep_graph (build_files targets) (file_deps targets) (link_file_root (build_files targets) nodes)"
proof -
  let ?files = "build_files targets"
  have "file_linked (file_edges targets {}) (\<lambda>_. new_node)"
    by (simp add: file_linked_def file_edges_def new_node_def)
  with link_file_targets_linked [OF assms, where ts = "{}"]
  have l: "file_linked (file_edges targets (fst ` set targets)) nodes"
    "snd ` file_edges targets (fst ` set targets) \<subseteq> set ?files"
    by (auto simp: file_edges_def)
  have d: "distinct ?files" by (simp add: build_files_def)
  have src: "fst ` file_edges targets (fst ` set targets) \<subseteq> set ?files"
    by (force simp: file_edges_def build_files_def)
  have empty: "n_dependencies (nodes (Some f)) = [] \<longleftrightarrow> file_deps targets f = []" for f
  proof -
    have "n_dependencies (nodes (Some f)) = [] \<longleftrightarrow> Some ` {g. (f, g) \<in> file_edges targets (fst ` set targets)} = {}"
      using l(1) by (metis file_linked_def set_empty)
    also have "\<dots> \<longleftrightarrow> file_deps targets f = []"
      by (metis (no_types, lifting) image_is_empty set_empty set_file_deps)
    finally show ?thesis .
  qed
  have deps: "set (n_dependencies (nodes (Some f))) = Some ` set (file_deps targets f)" for f
    using l(1) by (simp add: file_linked_def set_file_deps)
  show ?thesis
    unfolding dep_graph_def
  proof (intro conjI ballI)
    fix f assume f: "f \<in> set ?files"
    show "set (file_deps targets f) \<subseteq> set ?files"
      using l(2) by (force simp: set_file_deps)
    show "set (n_dependencies (link_file_root ?files nodes (Some f))) =
        (if file_deps targets f = [] then {None} else Some ` set (file_deps targets f))"
      using f by (simp add: link_file_root_simps [OF d] empty deps)
    show "set (n_dependents (link_file_root ?files nodes (Some f))) =
        {t \<in> set ?files. f \<in> set (file_deps targets t)}"
      using l(1) src by (force simp: link_file_root_simps [OF d] file_linked_def set_file_deps)
  next
    show "set (n_dependents (link_file_root ?files nodes None)) = {t \<in> set ?files. file_deps targets t = []}"
      using l(1) by (auto simp: link_file_root_simps [OF d] empty file_linked_def)
  qed (rule d)
qed

text \<open>Every dependency names a target of some build file.\<close>

definition file_deps_known :: "gtargets \<Rightarrow> bool" where
  "file_deps_known targets \<longleftrightarrow>
     (\<forall>(t, spec) \<in> set targets. \<exists>ds. get_iter spec ''dependencies'' = Inr (map GStr ds)
        \<and> (\<forall>d \<in> set ds. BuildFile d \<noteq> BuildFile t \<longrightarrow> BuildFile d \<in> set (build_files targets)))"

lemma link_file_dependencies_known:
  "\<forall>d \<in> set ds. BuildFile d \<noteq> f \<longrightarrow> BuildFile d \<in> set files \<Longrightarrow>
   \<exists>nodes'. rfold (link_file_dependency files f) (map GStr ds) nodes = Inr nodes'"
  by (induction ds arbitrary: nodes) (auto simp: Let_def)

lemma link_file_targets_known:
  assumes "\<forall>(t, spec) \<in> set todo. \<exists>ds. get_iter spec ''dependencies'' = Inr (map GStr ds)
        \<and> (\<forall>d \<in> set ds. BuildFile d \<noteq> BuildFile t \<longrightarrow> BuildFile d \<in> set files)"
  shows "\<exists>nodes'. rfold (link_file_target files) todo nodes = Inr nodes'"
  using assms
proof (induction todo arbitrary: nodes)
  case (Cons e todo)
  obtain t spec where e: "e = (t, spec)" by (cases e)
  with Cons.prems obtain ds where "get_iter spec ''dependencies'' = Inr (map GStr ds)"
    "\<forall>d \<in> set ds. BuildFile d \<noteq> BuildFile t \<longrightarrow> BuildFile d \<in> set files" by auto
  with link_file_dependencies_known obtain nodes1 where
    "link_file_target files e nodes = Inr nodes1" by (fastforce simp: link_file_target_def e)
  with Cons show ?case by auto
qed simp

lemma link_file_dependency_error:
  assumes "link_file_dependency files f v nodes = Inl e"
  shows "e \<noteq> CircularException fs"
  using assms by (cases v) (auto simp: Let_def split: if_splits)

lemma link_file_target_error:
  assumes "link_file_target files x nodes = Inl e"
  shows "e \<noteq> CircularException fs"
proof -
  obtain t spec where x: "x = (t, spec)" by (cases x)
  show ?thesis
  proof (cases "get_iter spec ''dependencies''")
    case (Inl e')
    with assms x have "e = e'" by (simp add: link_file_target_def)
    with Inl show ?thesis by (cases "dict_get spec ''dependencies'' (GList [])") (auto simp: get_iter_def)
  next
    case (Inr vs)
    with assms x have "rfold (link_file_dependency files (BuildFile t)) vs nodes = Inl e"
      by (simp add: link_file_target_def)
    from rfold_Inl [OF this] show ?thesis using link_file_dependency_error by blast
  qed
qed

lemma link_file_targets_Inr:
  assumes "rfold (link_file_target (build_files targets)) targets nodes = Inr nodes'"
  shows "file_deps_known targets"
  unfolding file_deps_known_def
proof (rule ballI, clarify)
  fix t spec
  assume "(t, spec) \<in> set targets"
  with assms obtain a b where "link_file_target (build_files targets) (t, spec) a = Inr b"
    by (auto dest!: split_list simp: rfold_append) 
  then obtain vs where vs: "get_iter spec ''dependencies'' = Inr vs"
    "rfold (link_file_dependency (build_files targets) (BuildFile t)) vs a = Inr b"
    by (auto simp: link_file_target_def)
  have "\<exists>ds. vs = map GStr ds \<and> (\<forall>d \<in> set ds. BuildFile d \<noteq> BuildFile t \<longrightarrow> BuildFile d \<in> set (build_files targets))"
    using vs(2)
  proof (induction vs arbitrary: a)
    case (Cons v vs)
    then obtain a' where step: "link_file_dependency (build_files targets) (BuildFile t) v a = Inr a'"
      and "rfold (link_file_dependency (build_files targets) (BuildFile t)) vs a' = Inr b" by auto
    with Cons.IH obtain ds where "vs = map GStr ds"
      "\<forall>d \<in> set ds. BuildFile d \<noteq> BuildFile t \<longrightarrow> BuildFile d \<in> set (build_files targets)" by blast
    moreover from step obtain d where "v = GStr d"
      "BuildFile d \<noteq> BuildFile t \<longrightarrow> BuildFile d \<in> set (build_files targets)"
      by (cases v) (auto simp: Let_def split: if_splits)
    ultimately show ?case by (intro exI [of _ "d # ds"]) simp
  qed simp
  with vs(1) show "\<exists>ds. get_iter spec ''dependencies'' = Inr (map GStr ds)
      \<and> (\<forall>d \<in> set ds. BuildFile d \<noteq> BuildFile t \<longrightarrow> BuildFile d \<in> set (build_files targets))" by simp
qed

text \<open>What is left over when the graph has been built.\<close>

lemma checked_files:
  fixes targets :: gtargets
  defines "files \<equiv> build_files targets" and "deps \<equiv> file_deps targets"
  assumes built: "rfold (link_file_target files) targets (\<lambda>_. new_node) = Inr nodes" and wf: "wf_dict targets"
    and pick: "\<And>xs. xs \<noteq> [] \<Longrightarrow> pick xs \<in> set xs"
  shows "if dep_acyclic files deps then VerifyNoGYPFileCircularDependencies pick targets = Some (Inr ())
    else \<exists>fs. VerifyNoGYPFileCircularDependencies pick targets = Some (Inl (CircularException (map file_name fs)))
      \<and> fs \<noteq> [] \<and> (\<forall>f \<in> set fs. \<exists>g \<in> set fs. dep_edge files deps f g)"
proof -
  note g = link_file_graph [OF built [unfolded files_def] wf, folded files_def deps_def]
  from FlattenToList_inv [where T = files and deps = deps, OF g pick] obtain flat where
    flat: "FlattenToList pick (link_file_root files nodes) = Some flat" and inv: "flatten_inv files deps [] flat"
    by blast
  from FlattenToList_correct [where T = files and deps = deps, OF g pick] flat have
    ok: "length flat = length files \<longleftrightarrow> dep_acyclic files deps" by auto
  have sub: "distinct flat" "set flat \<subseteq> set files" using inv by (simp_all add: flatten_inv_def)
  show ?thesis
  proof (cases "length flat = length files")
    case True
    with built flat ok show ?thesis by (simp add: VerifyNoGYPFileCircularDependencies_def files_def)
  next
    case False
    define fs where "fs = filter (\<lambda>f. f \<notin> set flat) files"
    have "fs \<noteq> []"
    proof
      assume "fs = []"
      with sub(2) have "set flat = set files" by (fastforce simp: fs_def filter_empty_conv)
      with sub(1) False show False by (metis build_files_def files_def distinct_card distinct_remdups)
    qed
    moreover have "\<exists>g \<in> set fs. dep_edge files deps f g" if "f \<in> set fs" for f
    proof -
      from that have f: "f \<in> set files" "f \<notin> set flat" by (auto simp: fs_def)
      with inv obtain h where "h \<in> set (deps f)" "h \<notin> set flat" by (fastforce simp: flatten_inv_def)
      moreover from this(1) g f(1) have "h \<in> set files" by (auto simp: dep_graph_def)
      ultimately show ?thesis using f by (auto simp: fs_def dep_edge_def)
    qed
    moreover have "VerifyNoGYPFileCircularDependencies pick targets = Some (Inl (CircularException (map file_name fs)))"
      using False built flat by (simp add: VerifyNoGYPFileCircularDependencies_def fs_def files_def)
    ultimately show ?thesis using ok False by auto
  qed
qed

text \<open>
  C22: for every choice of \<open>set.pop()\<close>, \<open>VerifyNoGYPFileCircularDependencies\<close> ends, and it accepts
  the targets exactly when every dependency is a string that names a build file of some target
  (\<open>file_deps_known\<close>) and no build file reaches itself through the dependencies of its targets. If the
  dependencies are known but cyclic, a circularity error names files that each depend on another file it
  names. An unknown dependency is another error, whether or not there is a cycle.
\<close>

theorem VerifyNoGYPFileCircularDependencies_iff:
  assumes "wf_dict targets" and pick: "\<And>xs. xs \<noteq> [] \<Longrightarrow> pick xs \<in> set xs"
  shows "\<exists>r. VerifyNoGYPFileCircularDependencies pick targets = Some r
    \<and> (r = Inr () \<longleftrightarrow> file_deps_known targets \<and> dep_acyclic (build_files targets) (file_deps targets))
    \<and> (file_deps_known targets \<and> \<not> dep_acyclic (build_files targets) (file_deps targets) \<longrightarrow>
        (\<exists>fs. r = Inl (CircularException (map file_name fs)) \<and> fs \<noteq> []
          \<and> (\<forall>f \<in> set fs. \<exists>g \<in> set fs. dep_edge (build_files targets) (file_deps targets) f g)))
    \<and> (\<not> file_deps_known targets \<longrightarrow> (\<exists>e. r = Inl e \<and> (\<forall>fs. e \<noteq> CircularException fs)))"
proof (cases "rfold (link_file_target (build_files targets)) targets (\<lambda>_. new_node)")
  case (Inl e)
  have "\<not> file_deps_known targets"
  proof
    assume "file_deps_known targets"
    from link_file_targets_known [OF this [unfolded file_deps_known_def], of "\<lambda>_. new_node"] Inl
    show False by simp
  qed
  moreover have "e \<noteq> CircularException fs" for fs
    using rfold_Inl [OF Inl] link_file_target_error by blast
  ultimately show ?thesis using Inl by (simp add: VerifyNoGYPFileCircularDependencies_def)
next
  case (Inr nodes)
  from checked_files [OF this assms] link_file_targets_Inr [OF Inr] show ?thesis
    by (cases "dep_acyclic (build_files targets) (file_deps targets)") auto
qed

lemma ex_build_file:
  "BuildFile ''a.gyp:app#target'' = Some ''a.gyp''" "BuildFile ''b.gyp:lib#target'' = Some ''b.gyp''"
  by (simp_all add: BuildFile_def ParseQualifiedTarget_def)

theorem VerifyNoGYPFileCircularDependencies_witness:
  "VerifyNoGYPFileCircularDependencies hd ex_targets = Some (Inr ())"
proof -
  have files: "build_files ex_targets = [Some ''a.gyp'', Some ''b.gyp'']"
    by (simp add: build_files_def ex_targets_def ex_build_file)
  have deps: "file_deps ex_targets (Some ''a.gyp'') = [Some ''b.gyp'']"
    "file_deps ex_targets (Some ''b.gyp'') = []"
    using ex_targets_deps(3,4) by (simp_all add: file_deps_def ex_targets_def ex_build_file)
  have "file_deps_known ex_targets"
    unfolding file_deps_known_def files
    by (simp add: ex_targets_def get_iter_def dict_get_def ex_build_file)
       (rule exI [of _ "[''b.gyp:lib#target'']"], simp add: ex_build_file)
  moreover have "dep_acyclic (build_files ex_targets) (file_deps ex_targets)"
    by (rule dep_acyclic_rank [where rank = "\<lambda>f. if f = Some ''a.gyp'' then 1 else 0"])
       (auto simp: files deps)
  ultimately show ?thesis
    using VerifyNoGYPFileCircularDependencies_iff [OF ex_targets_deps(1) hd_in_set] by blast
qed

end
