(* ===== verification/Gyp_Link.thy ===== *)
theory Gyp_Link
  imports Gyp_Deps
begin

text \<open>
  \<open>input.py\<close>: the traversals of \<open>DependencyGraphNode\<close> (direct, imported, deep and link
  dependencies), and \<open>common.py\<close>'s closure of a set of roots (\<open>DeepDependencyTargets\<close>,
  \<open>AllTargets\<close>). The first argument of a recursive traversal is the recursion depth left.
\<close>

section \<open>DirectDependencies\<close>

definition add_ref :: "'a option \<Rightarrow> 'a list \<Rightarrow> 'a list" where
  "add_ref ref dependencies =
     (case ref of
        None \<Rightarrow> dependencies
      | Some r \<Rightarrow> if r \<in> set dependencies then dependencies else dependencies @ [r])"

definition DirectDependencies :: "'a dep_nodes \<Rightarrow> 'a option \<Rightarrow> 'a list \<Rightarrow> 'a list" where
  "DirectDependencies nodes self dependencies = fold add_ref (n_dependencies (nodes self)) dependencies"

lemma fold_add_ref: "fold add_ref refs acc = acc @ keep_first id (set acc) (somes refs)"
proof (induction refs arbitrary: acc)
  case (Cons ref refs)
  then show ?case by (cases ref) (auto simp: add_ref_def insert_absorb)
qed simp

lemma DirectDependencies_eq:
  "DirectDependencies nodes self [] = keep_first id {} (somes (n_dependencies (nodes self)))"
  by (simp add: DirectDependencies_def fold_add_ref)

lemma DirectDependencies_props:
  "distinct (DirectDependencies nodes self [])"
  "set (DirectDependencies nodes self []) = {r. Some r \<in> set (n_dependencies (nodes self))}"
  using keep_first_distinct [of id "{}" "somes (n_dependencies (nodes self))"]
    keep_first_image [of id "{}" "somes (n_dependencies (nodes self))"]
  by (auto simp: DirectDependencies_eq)

section \<open>DirectAndImportedDependencies\<close>

text \<open>The inner loop: \<open>pos\<close> is \<open>index + add_index\<close>.\<close>

fun insert_imports :: "nat \<Rightarrow> 'a list \<Rightarrow> 'a list \<Rightarrow> 'a list" where
  "insert_imports pos [] dependencies = dependencies"
| "insert_imports pos (x # xs) dependencies =
     (if x \<in> set dependencies then insert_imports pos xs dependencies
      else insert_imports (pos + 1) xs (list_insert pos x dependencies))"

lemma set_list_insert [simp]: "set (list_insert i x xs) = insert x (set xs)"
  unfolding list_insert_def by (metis append_take_drop_id list.simps(15) set_append Un_insert_right)

lemma distinct_list_insert [simp]: "distinct (list_insert i x xs) \<longleftrightarrow> distinct xs \<and> x \<notin> set xs"
proof -
  have "distinct (as @ x # bs) \<longleftrightarrow> distinct (as @ bs) \<and> x \<notin> set (as @ bs)" for as bs by auto
  from this [of "take i xs" "drop i xs"] show ?thesis
    unfolding list_insert_def append_take_drop_id .
qed

lemma set_insert_imports [simp]: "set (insert_imports pos xs ds) = set xs \<union> set ds"
  by (induction xs arbitrary: pos ds) (auto simp: insert_absorb)

lemma distinct_insert_imports: "distinct ds \<Longrightarrow> distinct (insert_imports pos xs ds)"
  by (induction xs arbitrary: pos ds) auto

lemma insert_imports_present: "set xs \<subseteq> set ds \<Longrightarrow> insert_imports pos xs ds = ds"
  by (induction xs) auto

lemma insert_imports_take:
  "j \<le> pos \<Longrightarrow> pos \<le> length ds \<Longrightarrow> take j (insert_imports pos xs ds) = take j ds"
proof (induction xs arbitrary: pos ds)
  case (Cons x xs)
  from Cons.prems have "take j (list_insert pos x ds) = take j ds" by (simp add: list_insert_def)
  with Cons show ?case by (simp add: list_insert_def)
qed simp

text \<open>
  The items of \<open>export_dependent_settings\<close> are strings once \<open>QualifyDependencies\<close> has run; any
  other item raises at the latest when the loop reaches it.
\<close>

definition exports_of :: "gtargets \<Rightarrow> string \<Rightarrow> string list result" where
  "exports_of targets dependency =
     rbind (dict_read targets dependency) (\<lambda>d.
     rbind (get_iter d ''export_dependent_settings'') (rmap as_str))"

definition all_exports :: "gtargets \<Rightarrow> string set" where
  "all_exports targets = {x. \<exists>t xs. exports_of targets t = Inr xs \<and> x \<in> set xs}"

lemma finite_all_exports [simp]: "finite (all_exports targets)"
proof -
  have "all_exports targets \<subseteq> (\<Union>t \<in> fst ` set targets. set (case exports_of targets t of Inl e \<Rightarrow> [] | Inr xs \<Rightarrow> xs))"
  proof
    fix x assume "x \<in> all_exports targets"
    then obtain t xs where x: "exports_of targets t = Inr xs" "x \<in> set xs" by (auto simp: all_exports_def)
    then obtain d where "map_of targets t = Some d" by (auto simp: exports_of_def)
    then have "t \<in> fst ` set targets" by (metis domI dom_map_of_conv_image_fst)
    with x show "x \<in> (\<Union>t \<in> fst ` set targets. set (case exports_of targets t of Inl e \<Rightarrow> [] | Inr xs \<Rightarrow> xs))"
      by (intro UN_I [of t]) simp_all
  qed
  then show ?thesis by (rule finite_subset) (intro finite_UN_I finite_imageI List.finite_set)
qed

text \<open>
  The loop over \<open>index\<close>. A round inserts a target that was not in the list, of which there are
  finitely many, or moves the index towards the end of the list.
\<close>

function AddImportedDependencies :: "gtargets \<Rightarrow> nat \<Rightarrow> string list \<Rightarrow> string list result" where
  "AddImportedDependencies targets index dependencies =
     (if index < length dependencies
      then rbind (exports_of targets (dependencies ! index)) (\<lambda>imported.
           AddImportedDependencies targets (index + 1)
             (insert_imports (index + 1) imported dependencies))
      else Inr dependencies)"
  by pat_completeness auto
termination
proof (relation "measures [\<lambda>(targets, index, ds). card (all_exports targets - set ds),
    \<lambda>(targets, index, ds). length ds - index]", goal_cases)
  case (2 targets index ds imported)
  then have sub: "set imported \<subseteq> all_exports targets" by (auto simp: all_exports_def)
  show ?case
  proof (cases "set imported \<subseteq> set ds")
    case True
    with 2 show ?thesis by (auto simp: insert_imports_present Un_absorb1)
  next
    case False
    with sub have "all_exports targets - (set imported \<union> set ds) \<subset> all_exports targets - set ds" by blast
    then have "card (all_exports targets - (set imported \<union> set ds)) < card (all_exports targets - set ds)"
      by (intro psubset_card_mono) simp_all
    then show ?thesis by simp
  qed
qed simp

declare AddImportedDependencies.simps [simp del]

definition DirectAndImportedDependencies ::
  "string dep_nodes \<Rightarrow> gtargets \<Rightarrow> string option \<Rightarrow> string list result" where
  "DirectAndImportedDependencies nodes targets self =
     AddImportedDependencies targets 0 (DirectDependencies nodes self [])"

definition export_edge :: "gtargets \<Rightarrow> string \<Rightarrow> string \<Rightarrow> bool" where
  "export_edge targets t x \<longleftrightarrow> (\<exists>xs. exports_of targets t = Inr xs \<and> x \<in> set xs)"

lemma AddImported_closure:
  assumes "AddImportedDependencies targets index ds = Inr ds'" and "distinct ds" and "index \<le> length ds"
    and "\<forall>t \<in> set (take index ds). \<forall>x. export_edge targets t x \<longrightarrow> x \<in> set ds"
  shows "distinct ds' \<and> set ds \<subseteq> set ds'
    \<and> set ds' \<subseteq> {x. \<exists>t \<in> set ds. (export_edge targets)\<^sup>*\<^sup>* t x}
    \<and> (\<forall>t \<in> set ds'. \<forall>x. export_edge targets t x \<longrightarrow> x \<in> set ds')
    \<and> take index ds' = take index ds"
  using assms
proof (induction targets index ds rule: AddImportedDependencies.induct)
  case (1 targets index ds)
  show ?case
  proof (cases "index < length ds")
    case False
    with "1.prems" show ?thesis by (auto simp: AddImportedDependencies.simps)
  next
    case True
    with "1.prems"(1) obtain imported where imported: "exports_of targets (ds ! index) = Inr imported"
      and rest: "AddImportedDependencies targets (index + 1) (insert_imports (index + 1) imported ds) = Inr ds'"
      by (auto simp: AddImportedDependencies.simps)
    let ?ds = "insert_imports (index + 1) imported ds"
    have take: "take (index + 1) ?ds = take (index + 1) ds" using True by (simp add: insert_imports_take)
    then have take': "take index ?ds = take index ds"
      by (metis Suc_eq_plus1 lessI min.absorb1 less_imp_le take_take)
    have len: "index + 1 \<le> length ?ds"
      using True take by (metis Suc_eq_plus1 Suc_leI length_take min.absorb2 min.cobounded1)
    have closed: "\<forall>t \<in> set (take (index + 1) ?ds). \<forall>x. export_edge targets t x \<longrightarrow> x \<in> set ?ds"
      using "1.prems"(4) imported True unfolding take
      by (auto simp: take_Suc_conv_app_nth export_edge_def)
    have step: "export_edge targets (ds ! index) x" if "x \<in> set imported" for x
      using that imported by (auto simp: export_edge_def)
    from "1.IH" [OF True imported rest distinct_insert_imports [OF "1.prems"(2)] len closed]
    have ih: "distinct ds'" "set ?ds \<subseteq> set ds'"
      "set ds' \<subseteq> {x. \<exists>t \<in> set ?ds. (export_edge targets)\<^sup>*\<^sup>* t x}"
      "\<forall>t \<in> set ds'. \<forall>x. export_edge targets t x \<longrightarrow> x \<in> set ds'"
      "take (index + 1) ds' = take (index + 1) ?ds" by blast+
    have "\<exists>t \<in> set ds. (export_edge targets)\<^sup>*\<^sup>* t x" if "x \<in> set ds'" for x
    proof -
      from ih(3) that obtain t where t: "t \<in> set imported \<union> set ds" "(export_edge targets)\<^sup>*\<^sup>* t x" by auto
      then show ?thesis
        using step True by (metis Un_iff converse_rtranclp_into_rtranclp nth_mem)
    qed
    moreover have "take index ds' = take index ds"
      using ih(5) take by (metis Suc_eq_plus1 lessI min.absorb1 less_imp_le take_take)
    ultimately show ?thesis using ih by auto
  qed
qed

lemma AddImported_Inl:
  "AddImportedDependencies targets index ds = Inl e \<Longrightarrow>
   \<exists>t \<in> set ds. \<exists>x. (export_edge targets)\<^sup>*\<^sup>* t x \<and> exports_of targets x = Inl e"
proof (induction targets index ds rule: AddImportedDependencies.induct)
  case (1 targets index ds)
  from "1.prems" have i: "index < length ds" by (auto simp: AddImportedDependencies.simps split: if_splits)
  show ?case
  proof (cases "exports_of targets (ds ! index)")
    case (Inl e')
    with "1.prems" i have "e' = e" by (simp add: AddImportedDependencies.simps)
    with Inl i show ?thesis by (metis nth_mem rtranclp.rtrancl_refl)
  next
    case (Inr imported)
    with "1.prems" i have "AddImportedDependencies targets (index + 1) (insert_imports (index + 1) imported ds) = Inl e"
      by (simp add: AddImportedDependencies.simps)
    from "1.IH" [OF i Inr this] obtain t x where
      t: "t \<in> set imported \<union> set ds" "(export_edge targets)\<^sup>*\<^sup>* t x" "exports_of targets x = Inl e" by auto
    have "export_edge targets (ds ! index) t" if "t \<in> set imported" using that Inr by (auto simp: export_edge_def)
    with t i show ?thesis by (metis Un_iff converse_rtranclp_into_rtranclp nth_mem)
  qed
qed

lemma AddImported_Inr:
  "AddImportedDependencies targets index ds = Inr ds' \<Longrightarrow> index \<le> length ds \<Longrightarrow>
   take index ds' = take index ds \<and> (\<forall>t \<in> set (drop index ds'). \<exists>xs. exports_of targets t = Inr xs)"
proof (induction targets index ds arbitrary: ds' rule: AddImportedDependencies.induct)
  case (1 targets index ds)
  show ?case
  proof (cases "index < length ds")
    case False
    with "1.prems" show ?thesis by (auto simp: AddImportedDependencies.simps)
  next
    case True
    with "1.prems"(1) obtain imported where imported: "exports_of targets (ds ! index) = Inr imported"
      and rest: "AddImportedDependencies targets (index + 1) (insert_imports (index + 1) imported ds) = Inr ds'"
      by (auto simp: AddImportedDependencies.simps)
    let ?ds = "insert_imports (index + 1) imported ds"
    have take: "take (index + 1) ?ds = take (index + 1) ds" using True by (simp add: insert_imports_take)
    then have len: "index + 1 \<le> length ?ds"
      using True by (metis Suc_eq_plus1 Suc_leI length_take min.absorb2 min.cobounded1)
    from "1.IH" [OF True imported rest len] have ih: "take (index + 1) ds' = take (index + 1) ds"
      "\<forall>t \<in> set (drop (index + 1) ds'). \<exists>xs. exports_of targets t = Inr xs" unfolding take by blast+
    from ih(1) True have i: "index < length ds'" "ds' ! index = ds ! index"
      by (metis Suc_eq_plus1 Suc_leI length_take less_eq_Suc_le min.absorb2 min.bounded_iff order_refl,
          metis Suc_eq_plus1 lessI nth_take)
    have "drop index ds' = ds' ! index # drop (index + 1) ds'" using i(1) by (simp add: Cons_nth_drop_Suc)
    moreover have "take index ds' = take index ds"
      using ih(1) by (metis Suc_eq_plus1 lessI min.absorb1 less_imp_le take_take)
    ultimately show ?thesis using ih(2) i(2) imported by simp
  qed
qed

text \<open>The direct dependencies of a node and what they export, directly or not.\<close>

definition exported_dependencies :: "string dep_nodes \<Rightarrow> gtargets \<Rightarrow> string option \<Rightarrow> string set" where
  "exported_dependencies nodes targets self =
     {x. \<exists>t. Some t \<in> set (n_dependencies (nodes self)) \<and> (export_edge targets)\<^sup>*\<^sup>* t x}"

text \<open>
  C39: \<open>DirectAndImportedDependencies\<close> returns, without duplicates, the direct dependencies closed under
  \<open>export_dependent_settings\<close>, although the list grows while the loop indexes it; and it returns
  exactly if each of these targets is known and its exported dependencies are strings.
\<close>

theorem DirectAndImportedDependencies_closure:
  "(\<forall>ds. DirectAndImportedDependencies nodes targets self = Inr ds
      \<longrightarrow> distinct ds \<and> set ds = exported_dependencies nodes targets self)
    \<and> ((\<exists>ds. DirectAndImportedDependencies nodes targets self = Inr ds)
        \<longleftrightarrow> (\<forall>x \<in> exported_dependencies nodes targets self. \<exists>xs. exports_of targets x = Inr xs))"
proof -
  let ?reached = "exported_dependencies nodes targets self"
  define direct where "direct = DirectDependencies nodes self []"
  have direct: "set direct = {t. Some t \<in> set (n_dependencies (nodes self))}"
    by (auto simp: direct_def DirectDependencies_props)
  have closure: "distinct ds \<and> set ds = ?reached \<and> (\<forall>x \<in> set ds. \<exists>xs. exports_of targets x = Inr xs)"
    if run: "AddImportedDependencies targets 0 direct = Inr ds" for ds
  proof -
    from AddImported_closure [OF run]
    have *: "distinct ds" "set direct \<subseteq> set ds" "set ds \<subseteq> {x. \<exists>t \<in> set direct. (export_edge targets)\<^sup>*\<^sup>* t x}"
      and closed: "\<forall>t \<in> set ds. \<forall>x. export_edge targets t x \<longrightarrow> x \<in> set ds"
      by (simp_all add: DirectDependencies_props direct_def)
    have "x \<in> set ds" if "(export_edge targets)\<^sup>*\<^sup>* t x" "t \<in> set ds" for t x
      using that by (induction) (use closed in blast)+
    with * have "set ds = {x. \<exists>t \<in> set direct. (export_edge targets)\<^sup>*\<^sup>* t x}" by blast
    with *(1) direct AddImported_Inr [OF run] show ?thesis by (simp add: exported_dependencies_def)
  qed
  show ?thesis
  proof (cases "AddImportedDependencies targets 0 direct")
    case (Inl e)
    with AddImported_Inl [OF Inl] direct show ?thesis
      by (auto simp: DirectAndImportedDependencies_def direct_def [symmetric] exported_dependencies_def)
  next
    case (Inr ds)
    with closure [OF Inr] show ?thesis
      by (simp add: DirectAndImportedDependencies_def direct_def [symmetric])
  qed
qed

section \<open>DeepDependencies\<close>

fun DeepDependencies :: "nat \<Rightarrow> 'a dep_nodes \<Rightarrow> 'a option \<Rightarrow> 'a list \<Rightarrow> 'a list result" where
  "DeepDependencies 0 nodes self dependencies = Inl RecursionLimit"
| "DeepDependencies (Suc n) nodes self dependencies =
     rfold (\<lambda>ref dependencies.
        case ref of
          None \<Rightarrow> Inr dependencies
        | Some r \<Rightarrow>
            if r \<in> set dependencies then Inr dependencies
            else DeepDependencies n nodes (Some r) (dependencies @ [r]))
      (n_dependencies (nodes self)) dependencies"

definition deep_visit :: "'a dep_nodes \<Rightarrow> nat \<Rightarrow> 'a \<Rightarrow> 'a list \<Rightarrow> 'a list result" where
  "deep_visit nodes n r dependencies =
     (if r \<in> set dependencies then Inr dependencies
      else DeepDependencies n nodes (Some r) (dependencies @ [r]))"

definition node_deps :: "'a dep_nodes \<Rightarrow> 'a option \<Rightarrow> 'a list" where
  "node_deps nodes self = somes (n_dependencies (nodes self))"

lemma DeepDependencies_walk:
  "DeepDependencies (Suc n) nodes self acc = rfold (deep_visit nodes n) (node_deps nodes self) acc"
  by (simp add: node_deps_def deep_visit_def [abs_def] rfold_somes)

declare DeepDependencies.simps(2) [simp del]

interpretation deep: shared_walk
  "\<lambda>_. Inr ()" "\<lambda>_. False" "\<lambda>r. Inr (node_deps nodes (Some r))" "deep_visit nodes" for nodes
proof (unfold_locales, goal_cases)
  case (1 x acc acc')
  then show ?case by (simp add: deep_visit_def split: if_splits)
qed (auto simp: deep_visit_def DeepDependencies_walk)

definition node_edge :: "'a dep_nodes \<Rightarrow> 'a \<Rightarrow> 'a \<Rightarrow> bool" where
  "node_edge nodes x y \<longleftrightarrow> y \<in> set (node_deps nodes (Some x))"

lemma deep_edge: "deep.edge nodes = node_edge nodes"
  by (simp add: fun_eq_iff deep.edge_def node_edge_def)

lemma DeepDependencies_set:
  assumes "DeepDependencies n nodes (Some t) [] = Inr ds"
  shows "distinct ds \<and> set ds = {d. (node_edge nodes)\<^sup>+\<^sup>+ t d}"
proof -
  from assms obtain m where m: "rfold (deep_visit nodes m) (node_deps nodes (Some t)) [] = Inr ds"
    by (cases n) (auto simp: DeepDependencies_walk)
  have "(node_edge nodes)\<^sup>+\<^sup>+ t d \<longleftrightarrow> (\<exists>x \<in> set (node_deps nodes (Some t)). (node_edge nodes)\<^sup>*\<^sup>* x d)" for d
    by (metis node_edge_def rtranclp_into_tranclp2 tranclpD)
  with deep.walk_set [OF m] deep.walk_distinct [OF m] show ?thesis
    by (simp add: deep_edge)
qed

lemma linked_node_edge:
  assumes "linked targets (set (map fst targets)) nodes"
  shows "node_edge nodes = dep_edge (map fst targets) (target_deps targets)"
  using assms by (auto simp: fun_eq_iff node_edge_def dep_edge_def node_deps_def linked_def)

text \<open>
  On the graph \<open>BuildDependencyList\<close> builds, with a recursion depth above the number of targets,
  \<open>DeepDependencies\<close> returns exactly the targets that the given one depends on, directly or not,
  each once.
\<close>

theorem DeepDependencies_correct:
  assumes "linked targets (set (map fst targets)) nodes" and "t \<in> fst ` set targets"
    and "length targets + 1 < n"
  shows "\<exists>ds. DeepDependencies n nodes (Some t) [] = Inr ds \<and> distinct ds
    \<and> set ds = {d. (dep_edge (map fst targets) (target_deps targets))\<^sup>+\<^sup>+ t d}"
proof -
  let ?N = "set (map fst targets)"
  have closed: "set (node_deps nodes (Some x)) \<subseteq> ?N" if "x \<in> ?N" for x
    using assms(1) that by (auto simp: node_deps_def linked_def)
  obtain m where n: "n = Suc m" "length targets < m" using assms(3) by (cases n) auto
  have "card ?N < m" using card_length [of "map fst targets"] n(2) by simp
  then have "\<exists>ds. rfold (deep_visit nodes m) (node_deps nodes (Some t)) [] = Inr ds"
    by (intro deep.walk_enough [where N = ?N]) (use closed assms(2) in auto)
  then show ?thesis
    using DeepDependencies_set [of n nodes t] n(1) linked_node_edge [OF assms(1)]
    by (auto simp: DeepDependencies_walk)
qed

section \<open>LinkDependencies\<close>

text \<open>\<open>%s\<close> of a value, up to the text of numbers and containers.\<close>

fun text_of :: "gval \<Rightarrow> string" where
  "text_of (GStr s) = s"
| "text_of v = class_name v"

definition type_in :: "gdict \<Rightarrow> string list \<Rightarrow> bool" where
  "type_in d types \<longleftrightarrow> (\<exists>s \<in> set types. map_of d ''type'' = Some (GStr s))"

definition no_traverse :: "gdict \<Rightarrow> bool" where
  "no_traverse d \<longleftrightarrow> type_in d [''none''] \<and> \<not> truthy (dict_get d ''dependencies_traverse'' (GInt 1))"

fun LinkDependencies ::
  "nat \<Rightarrow> string dep_nodes \<Rightarrow> gtargets \<Rightarrow> string option \<Rightarrow> string list \<Rightarrow> bool \<Rightarrow> string list result" where
  "LinkDependencies n nodes targets None dependencies initial = Inr dependencies"
| "LinkDependencies 0 nodes targets (Some ref) dependencies initial = Inl RecursionLimit"
| "LinkDependencies (Suc n) nodes targets (Some ref) dependencies initial =
     rbind (dict_read targets ref) (\<lambda>d.
       if \<not> has_key ''target_name'' d then Inl (GypError (''Missing '' @ quoted ''target_name'' @ '' field in target.''))
       else if \<not> has_key ''type'' d
       then Inl (GypError (''Missing '' @ quoted ''type'' @ '' field in target '' @ text_of (the (map_of d ''target_name''))))
       else let is_linkable = type_in d linkable_types
            in if initial \<and> \<not> is_linkable then Inr dependencies
               else if no_traverse d
               then Inr (if ref \<in> set dependencies then dependencies else dependencies @ [ref])
               else if \<not> initial \<and> type_in d [''executable'', ''loadable_module''] then Inr dependencies
               else if ref \<in> set dependencies then Inr dependencies
               else if initial \<or> \<not> is_linkable
               then rfold (\<lambda>dependency dependencies. LinkDependencies n nodes targets dependency dependencies False)
                      (n_dependencies (nodes (Some ref))) (dependencies @ [ref])
               else Inr (dependencies @ [ref]))"

declare LinkDependencies.simps(3) [simp del]

definition link_visit :: "string dep_nodes \<Rightarrow> gtargets \<Rightarrow> nat \<Rightarrow> string \<Rightarrow> string list \<Rightarrow> string list result" where
  "link_visit nodes targets n r dependencies = LinkDependencies n nodes targets (Some r) dependencies False"

definition link_check :: "gtargets \<Rightarrow> string \<Rightarrow> unit result" where
  "link_check targets r =
     rbind (dict_read targets r) (\<lambda>d.
       if \<not> has_key ''target_name'' d then Inl (GypError (''Missing '' @ quoted ''target_name'' @ '' field in target.''))
       else if \<not> has_key ''type'' d
       then Inl (GypError (''Missing '' @ quoted ''type'' @ '' field in target '' @ text_of (the (map_of d ''target_name''))))
       else Inr ())"

lemma link_check_Inr:
  "link_check targets r = Inr () \<longleftrightarrow>
     (\<exists>d. map_of targets r = Some d \<and> has_key ''target_name'' d \<and> has_key ''type'' d)"
  by (auto simp: link_check_def)

text \<open>Executables and loadable modules are never linked in.\<close>

definition link_skip :: "gtargets \<Rightarrow> string \<Rightarrow> bool" where
  "link_skip targets r \<longleftrightarrow>
     (\<exists>d. map_of targets r = Some d \<and> type_in d [''executable'', ''loadable_module''])"

text \<open>A linkable target, and a \<open>none\<close> target that says so, ends the traversal.\<close>

definition link_succs :: "string dep_nodes \<Rightarrow> gtargets \<Rightarrow> string \<Rightarrow> string list" where
  "link_succs nodes targets r =
     (case map_of targets r of
        None \<Rightarrow> []
      | Some d \<Rightarrow> if no_traverse d \<or> type_in d linkable_types then [] else node_deps nodes (Some r))"

definition link_edge :: "string dep_nodes \<Rightarrow> gtargets \<Rightarrow> string \<Rightarrow> string \<Rightarrow> bool" where
  "link_edge nodes targets x y \<longleftrightarrow> y \<in> set (link_succs nodes targets x) \<and> \<not> link_skip targets y"

lemma none_not_linkable: "no_traverse d \<Longrightarrow> \<not> type_in d linkable_types"
  "no_traverse d \<Longrightarrow> \<not> type_in d [''executable'', ''loadable_module'']"
  by (auto simp: no_traverse_def type_in_def linkable_types_def)

lemma LinkDependencies_walk:
  "rfold (\<lambda>dependency dependencies. LinkDependencies n nodes targets dependency dependencies False)
     (n_dependencies (nodes (Some r))) acc
   = rfold (link_visit nodes targets n) (node_deps nodes (Some r)) acc"
  by (simp add: node_deps_def rfold_somes link_visit_def [abs_def])

interpretation link: shared_walk
  "link_check targets" "link_skip targets" "\<lambda>r. Inr (link_succs nodes targets r)"
  "link_visit nodes targets" for nodes targets
proof (unfold_locales, goal_cases)
  case (1 x acc acc')
  then show ?case by (simp add: link_visit_def)
next
  case (2 x acc n)
  from 2(1) obtain d where "dict_read targets x = Inr d" "has_key ''target_name'' d" "has_key ''type'' d"
    by (auto simp: link_check_Inr)
  with 2(2) none_not_linkable(2) [of d] show ?case
    by (auto simp: link_visit_def link_skip_def LinkDependencies.simps Let_def)
next
  case (3 x acc n)
  from 3(1) obtain d where "map_of targets x = Some d" "has_key ''target_name'' d" "has_key ''type'' d"
    by (auto simp: link_check_Inr)
  with 3(2,3) none_not_linkable(2) [of d] show ?case
    by (auto simp: link_visit_def link_skip_def link_succs_def LinkDependencies.simps LinkDependencies_walk
        dict_read_def Let_def)
next
  case (4 x e n acc)
  then show ?case
    by (auto simp: link_visit_def link_check_def LinkDependencies.simps rbind_Inl_iff split: if_splits)
qed

lemma link_edge_eq: "link.edge targets nodes = link_edge nodes targets"
  by (auto simp: fun_eq_iff link.edge_def link_edge_def)

text \<open>
  What is linked into a linkable target: the target itself, and what its dependencies reach
  through targets that are not linkable themselves, short of executables and loadable modules.
\<close>

lemma LinkDependencies_set:
  assumes "LinkDependencies n nodes targets (Some t) [] True = Inr ds"
    and "map_of targets t = Some d" and "type_in d linkable_types"
  shows "distinct ds \<and> ds \<noteq> [] \<and> hd ds = t
    \<and> set ds = insert t {y. \<exists>x. Some x \<in> set (n_dependencies (nodes (Some t))) \<and> \<not> link_skip targets x
                              \<and> (link_edge nodes targets)\<^sup>*\<^sup>* x y}"
proof -
  from assms none_not_linkable(1) [of d] obtain m where
    m: "rfold (link_visit nodes targets m) (node_deps nodes (Some t)) [t] = Inr ds"
    by (cases n) (auto simp: LinkDependencies.simps Let_def LinkDependencies_walk dict_read_def split: if_splits)
  have "\<not> link_edge nodes targets t y" for y
    using assms(2,3) by (simp add: link_edge_def link_succs_def)
  then have "set ds = insert t {y. \<exists>x. Some x \<in> set (n_dependencies (nodes (Some t))) \<and> \<not> link_skip targets x
      \<and> (link_edge nodes targets)\<^sup>*\<^sup>* x y}"
    using link.walk_set_leaves [OF m] by (simp add: link_edge_eq node_deps_def)
  moreover have "ds \<noteq> [] \<and> hd ds = t" using link.walk_list [OF m] by (auto simp: link.walked_def)
  ultimately show ?thesis using link.walk_distinct [OF m] by simp
qed

lemma LinkDependencies_unlinkable:
  assumes "map_of targets t = Some d" and "has_key ''target_name'' d" and "has_key ''type'' d"
    and "\<not> type_in d linkable_types"
  shows "LinkDependencies (Suc n) nodes targets (Some t) ds True = Inr ds"
  using assms by (simp add: LinkDependencies.simps dict_read_def)

text \<open>The traversal succeeds when every target has its name and its type.\<close>

lemma LinkDependencies_enough:
  assumes "linked targets (set (map fst targets)) nodes" and "map_of targets t = Some d"
    and "\<forall>(t, d) \<in> set targets. has_key ''target_name'' d \<and> has_key ''type'' d"
    and "length targets + 1 < n"
  shows "\<exists>ds. LinkDependencies n nodes targets (Some t) [] True = Inr ds"
proof -
  let ?N = "set (map fst targets)"
  have keys: "has_key ''target_name'' d \<and> has_key ''type'' d" if "map_of targets x = Some d" for x d
    using assms(3) map_of_SomeD [OF that] by blast
  have ok: "link_check targets x = Inr () \<and> set (link_succs nodes targets x) \<subseteq> ?N" if "x \<in> ?N" for x
  proof -
    from that obtain d where "map_of targets x = Some d" by (metis map_of_eq_None_iff not_None_eq set_map)
    with keys assms(1) that show ?thesis
      by (auto simp: link_check_Inr link_succs_def node_deps_def linked_def)
  qed
  obtain m where n: "n = Suc m" "length targets < m" using assms(4) by (cases n) auto
  have t: "t \<in> ?N" using assms(2) by (force dest: map_of_SomeD)
  have N: "finite ?N" "card ?N < m" using card_length [of "map fst targets"] n(2) by simp_all
  have deps: "set (node_deps nodes (Some t)) \<subseteq> ?N"
    using assms(1) t by (auto simp: node_deps_def linked_def)
  have "\<exists>ds. rfold (link_visit nodes targets m) (node_deps nodes (Some t)) acc = Inr ds" for acc
    by (rule link.walk_enough [where N = ?N, OF N(1) _ deps N(2)]) (use ok in blast)
  with keys [OF assms(2)] assms(2) n(1) show ?thesis
    by (auto simp: LinkDependencies.simps LinkDependencies_walk dict_read_def Let_def)
qed

text \<open>
  C19: for a linkable target, where all targets have a name and a type, \<open>LinkDependencies\<close> returns without reaching the recursion limit; its
  list starts with the target itself, has no duplicate, and otherwise holds what the direct
  dependencies reach through targets that are not linkable themselves, short of executables and
  loadable modules.
\<close>

theorem LinkDependencies_correct:
  assumes "linked targets (set (map fst targets)) nodes"
    and "map_of targets t = Some d" and "type_in d linkable_types"
    and "\<forall>(t, d) \<in> set targets. has_key ''target_name'' d \<and> has_key ''type'' d"
    and "length targets + 1 < n"
  shows "\<exists>ds. LinkDependencies n nodes targets (Some t) [] True = Inr ds
    \<and> distinct ds \<and> ds \<noteq> [] \<and> hd ds = t
    \<and> set ds = insert t {y. \<exists>x. Some x \<in> set (n_dependencies (nodes (Some t))) \<and> \<not> link_skip targets x
                              \<and> (link_edge nodes targets)\<^sup>*\<^sup>* x y}"
  using LinkDependencies_enough [OF assms(1,2,4,5)] LinkDependencies_set [OF _ assms(2,3)] by blast

theorem LinkDependencies_witness:
  "\<exists>ds. LinkDependencies 4 ex_nodes ex_targets (Some ''a.gyp:app#target'') [] True = Inr ds
    \<and> distinct ds \<and> hd ds = ''a.gyp:app#target'' \<and> ''b.gyp:lib#target'' \<in> set ds"
proof -
  let ?app = "''a.gyp:app#target''" and ?lib = "''b.gyp:lib#target''"
  obtain d where d: "map_of ex_targets ?app = Some d" "type_in d linkable_types"
    by (simp add: ex_targets_def type_in_def linkable_types_def)
  have "\<forall>(t, d) \<in> set ex_targets. has_key ''target_name'' d \<and> has_key ''type'' d" "length ex_targets + 1 < 4"
    by (simp_all add: ex_targets_def has_key_def)
  from LinkDependencies_correct [OF ex_nodes_linked d this] obtain ds where
    ds: "LinkDependencies 4 ex_nodes ex_targets (Some ?app) [] True = Inr ds" "distinct ds" "hd ds = ?app"
      "set ds = insert ?app {y. \<exists>x. Some x \<in> set (n_dependencies (ex_nodes (Some ?app)))
         \<and> \<not> link_skip ex_targets x \<and> (link_edge ex_nodes ex_targets)\<^sup>*\<^sup>* x y}"
    by blast
  have "\<not> link_skip ex_targets ?lib" by (simp add: link_skip_def ex_targets_def type_in_def)
  with ds(4) have "?lib \<in> set ds" by (auto simp: ex_nodes_dependencies)
  with ds show ?thesis by blast
qed

theorem DeepDependencies_witness:
  "\<exists>ds. DeepDependencies 4 ex_nodes (Some ''a.gyp:app#target'') [] = Inr ds \<and> distinct ds
    \<and> ''b.gyp:lib#target'' \<in> set ds"
proof -
  let ?app = "''a.gyp:app#target''" and ?lib = "''b.gyp:lib#target''"
  have "?app \<in> fst ` set ex_targets" "length ex_targets + 1 < 4" by (simp_all add: ex_targets_def)
  from DeepDependencies_correct [OF ex_nodes_linked this] obtain ds where
    ds: "DeepDependencies 4 ex_nodes (Some ?app) [] = Inr ds" "distinct ds"
      "set ds = {d. (dep_edge (map fst ex_targets) (target_deps ex_targets))\<^sup>+\<^sup>+ ?app d}" by blast
  have "dep_edge (map fst ex_targets) (target_deps ex_targets) ?app ?lib"
    by (simp add: dep_edge_def ex_targets_deps)
  with ds show ?thesis by blast
qed

theorem DirectAndImportedDependencies_witness:
  "\<exists>ds. DirectAndImportedDependencies ex_nodes ex_targets (Some ''a.gyp:app#target'') = Inr ds
    \<and> distinct ds \<and> ''b.gyp:lib#target'' \<in> set ds"
proof -
  let ?app = "''a.gyp:app#target''" and ?lib = "''b.gyp:lib#target''"
  have direct: "DirectDependencies ex_nodes (Some ?app) [] = [?lib]"
    by (simp add: DirectDependencies_def ex_nodes_dependencies add_ref_def)
  have "exports_of ex_targets ?lib = Inr []"
    by (simp add: exports_of_def ex_targets_def get_iter_def dict_get_def)
  then have run: "DirectAndImportedDependencies ex_nodes ex_targets (Some ?app) = Inr [?lib]"
    by (simp add: DirectAndImportedDependencies_def direct AddImportedDependencies.simps)
  have distinct: "distinct [?lib]"
    using DirectAndImportedDependencies_closure [of ex_nodes ex_targets "Some ?app"] run by blast
  show ?thesis
    by (rule exI [of _ "[?lib]"], intro conjI, rule run, rule distinct, simp)
qed

end
