(* ===== verification/Gyp_Settings.thy ===== *)
theory Gyp_Settings
  imports Gyp_Link Gyp_File_Deps
begin

text \<open>
  \<open>input.py\<close>: \<open>DoDependentSettings\<close>, which merges the settings that dependencies declare into
  their dependents, and \<open>AdjustStaticLibraryDependencies\<close>, which rewrites the dependency lists for
  the linker. Both loop over the targets in the order of \<open>BuildDependencyList\<close> and update the
  dictionary of the target at hand only.
\<close>

section \<open>DoDependentSettings\<close>

text \<open>The keys of \<open>targets\<close> are qualified names, so \<open>BuildFile\<close> finds their file.\<close>

definition file_of :: "string \<Rightarrow> string result" where
  "file_of target =
     (case BuildFile target of
        None \<Rightarrow> Inl (AttributeError ''NoneType object has no attribute rfind'')
      | Some f \<Rightarrow> Inr f)"

definition settings_dependencies ::
  "nat \<Rightarrow> string \<Rightarrow> string dep_nodes \<Rightarrow> gtargets \<Rightarrow> string \<Rightarrow> string list result" where
  "settings_dependencies n key nodes targets target =
     (if key = ''all_dependent_settings'' then DeepDependencies n nodes (Some target) []
      else if key = ''direct_dependent_settings''
      then DirectAndImportedDependencies nodes targets (Some target)
      else if key = ''link_settings'' then LinkDependencies n nodes targets (Some target) [] True
      else Inl (GypError (''DoDependentSettings does not know how to determine dependencies for '' @ key)))"

text \<open>The settings \<open>key\<close> of \<open>dependency_dict\<close>, merged into the target's dictionary \<open>d\<close>.\<close>

definition merge_setting ::
  "gyp_env \<Rightarrow> string \<Rightarrow> string \<Rightarrow> string \<Rightarrow> gdict \<Rightarrow> gdict \<Rightarrow> gdict result" where
  "merge_setting env key build_file dependency dependency_dict d =
     (case map_of dependency_dict key of
        None \<Rightarrow> Inr d
      | Some v \<Rightarrow>
          rbind (file_of dependency) (\<lambda>dependency_build_file.
          rbind (as_dict v) (\<lambda>fro. MergeDicts env d fro build_file dependency_build_file)))"

definition merge_from ::
  "gyp_env \<Rightarrow> string \<Rightarrow> string \<Rightarrow> string \<Rightarrow> string \<Rightarrow> gtargets \<Rightarrow> gtargets result" where
  "merge_from env key build_file target dependency targets =
     rbind (dict_read targets dependency) (\<lambda>dependency_dict.
     rbind (dict_read targets target) (\<lambda>d.
     rbind (merge_setting env key build_file dependency dependency_dict d) (\<lambda>d'.
     Inr (AList.update target d' targets))))"

definition settings_target ::
  "gyp_env \<Rightarrow> nat \<Rightarrow> string \<Rightarrow> string dep_nodes \<Rightarrow> string \<Rightarrow> gtargets \<Rightarrow> gtargets result" where
  "settings_target env n key nodes target targets =
     rbind (dict_read targets target) (\<lambda>_.
     rbind (file_of target) (\<lambda>build_file.
     rbind (settings_dependencies n key nodes targets target) (\<lambda>dependencies.
     rfold (merge_from env key build_file target) dependencies targets)))"

definition DoDependentSettings ::
  "gyp_env \<Rightarrow> nat \<Rightarrow> string \<Rightarrow> string list \<Rightarrow> gtargets \<Rightarrow> string dep_nodes \<Rightarrow> gtargets result" where
  "DoDependentSettings env n key flat_list targets nodes =
     rfold (settings_target env n key nodes) flat_list targets"

section \<open>Loops that update one target at a time\<close>

text \<open>\<open>only_updates t targets targets'\<close>: the same targets, and all but \<open>t\<close> unchanged.\<close>

definition only_updates :: "string set \<Rightarrow> gtargets \<Rightarrow> gtargets \<Rightarrow> bool" where
  "only_updates ts targets targets' \<longleftrightarrow>
     map fst targets' = map fst targets \<and> (\<forall>x. x \<notin> ts \<longrightarrow> map_of targets' x = map_of targets x)"

lemma only_updates_refl [simp]: "only_updates ts targets targets"
  by (simp add: only_updates_def)

lemma only_updates_trans:
  "only_updates ts a b \<Longrightarrow> only_updates us b c \<Longrightarrow> only_updates (ts \<union> us) a c"
  by (simp add: only_updates_def)

lemma only_updates_update: "map_of targets t = Some d \<Longrightarrow> only_updates {t} targets (AList.update t d' targets)"
  by (auto simp: only_updates_def update_keys map_of_update dest: map_of_key)

lemma only_updates_mono: "only_updates ts a b \<Longrightarrow> ts \<subseteq> us \<Longrightarrow> only_updates us a b"
  by (auto simp: only_updates_def)

lemma rfold_only_updates:
  assumes "\<And>x a b. x \<in> set xs \<Longrightarrow> step x a = Inr b \<Longrightarrow> only_updates {x} a b"
  shows "rfold step xs a = Inr b \<Longrightarrow> only_updates (set xs) a b"
  using assms
proof (induction xs arbitrary: a)
  case (Cons x xs)
  from Cons.prems obtain c where c: "step x a = Inr c" "rfold step xs c = Inr b" by auto
  from Cons.IH [OF c(2)] Cons.prems(2) have "only_updates (set xs) c b" by auto
  with only_updates_trans [OF Cons.prems(2) [OF _ c(1)]] show ?case by auto
qed simp

text \<open>
  The state in which a target has its turn: everything not yet reached is as before the loop, and
  everything already done is as after it.
\<close>

lemma rfold_turn:
  assumes run: "rfold step xs a = Inr b" and "distinct xs" and t: "t \<in> set xs"
    and step: "\<And>x a b. x \<in> set xs \<Longrightarrow> step x a = Inr b \<Longrightarrow> only_updates {x} a b"
  shows "\<exists>as bs a1 a2. xs = as @ t # bs \<and> step t a1 = Inr a2
    \<and> (\<forall>x. x \<notin> set as \<longrightarrow> map_of a1 x = map_of a x)
    \<and> (\<forall>x. x \<notin> set (t # bs) \<longrightarrow> map_of a1 x = map_of b x)
    \<and> map_of a2 t = map_of b t \<and> rfold step as a = Inr a1"
proof -
  from t obtain as bs where xs: "xs = as @ t # bs" by (meson split_list)
  with run obtain a1 a2 where 1: "rfold step as a = Inr a1" "step t a1 = Inr a2" "rfold step bs a2 = Inr b"
    by (auto simp: rfold_append)
  have u: "only_updates (set as) a a1" "only_updates {t} a1 a2" "only_updates (set bs) a2 b"
    using rfold_only_updates [OF _ 1(1)] rfold_only_updates [OF _ 1(3)] step 1(2) xs by auto
  moreover have "t \<notin> set bs" using assms(2) xs by simp
  ultimately have "map_of a2 t = map_of b t" "\<forall>x. x \<notin> set (t # bs) \<longrightarrow> map_of a1 x = map_of b x"
    "\<forall>x. x \<notin> set as \<longrightarrow> map_of a1 x = map_of a x"
    by (auto simp: only_updates_def)
  with xs 1 u show ?thesis by blast
qed

lemma merge_from_Inr:
  "merge_from env key bf t x targets = Inr targets' \<longleftrightarrow>
     (\<exists>xd d d'. map_of targets x = Some xd \<and> map_of targets t = Some d
        \<and> merge_setting env key bf x xd d = Inr d' \<and> targets' = AList.update t d' targets)"
  by (auto simp: merge_from_def)

lemma merge_from_only: "merge_from env key bf t x targets = Inr targets' \<Longrightarrow> only_updates {t} targets targets'"
  by (auto simp: merge_from_Inr only_updates_update)

lemma merge_all_only:
  "rfold (merge_from env key bf t) xs targets = Inr targets' \<Longrightarrow> only_updates {t} targets targets'"
proof (induction xs arbitrary: targets)
  case (Cons x xs)
  then obtain c where "merge_from env key bf t x targets = Inr c"
    "rfold (merge_from env key bf t) xs c = Inr targets'" by auto
  with Cons.IH merge_from_only only_updates_trans [of "{t}" targets c "{t}"] show ?case by auto
qed simp

lemma settings_target_only: "settings_target env n key nodes t a = Inr b \<Longrightarrow> only_updates {t} a b"
  by (auto simp: settings_target_def dest: merge_all_only)

lemma DoDependentSettings_only:
  "DoDependentSettings env n key flat targets nodes = Inr targets' \<Longrightarrow> only_updates (set flat) targets targets'"
  unfolding DoDependentSettings_def by (rule rfold_only_updates [OF settings_target_only])

text \<open>What a target receives from dependencies other than itself.\<close>

lemma merge_all_value:
  assumes "rfold (merge_from env key bf t) xs targets = Inr targets'" and "t \<notin> set xs"
    and "map_of targets t = Some d"
  shows "\<exists>d'. rfold (\<lambda>x. merge_setting env key bf x (the (map_of targets x))) xs d = Inr d'
    \<and> map_of targets' t = Some d'"
  using assms
proof (induction xs arbitrary: targets d)
  case (Cons x xs)
  from Cons.prems obtain d1 where 1: "merge_setting env key bf x (the (map_of targets x)) d = Inr d1"
    "rfold (merge_from env key bf t) xs (AList.update t d1 targets) = Inr targets'"
    by (auto simp: merge_from_Inr)
  let ?t1 = "AList.update t d1 targets"
  have "rfold (\<lambda>x. merge_setting env key bf x (the (map_of ?t1 x))) xs d1
      = rfold (\<lambda>x. merge_setting env key bf x (the (map_of targets x))) xs d1"
    using Cons.prems(2) by (intro rfold_cong) (auto simp: map_of_update)
  with Cons.IH [OF 1(2)] Cons.prems(2) 1(1) show ?case by (auto simp: map_of_update)
qed simp

text \<open>What a target depends on has had its turn before the target.\<close>

lemma deep_dependencies_earlier:
  assumes g: "linked targets (set (map fst targets)) nodes"
    and flat: "distinct flat" "deps_first (target_deps targets) flat" "set flat = set (map fst targets)"
    and ds: "DeepDependencies n nodes (Some t) [] = Inr ds" and xs: "flat = as @ t # bs"
  shows "set ds \<subseteq> set as"
proof
  fix x assume "x \<in> set ds"
  with DeepDependencies_set [OF ds] linked_node_edge [OF g]
  have "(dep_edge (map fst targets) (target_deps targets))\<^sup>+\<^sup>+ t x" by simp
  moreover have "dep_edge (map fst targets) (target_deps targets) = dep_edge flat (target_deps targets)"
    using flat(3) by (auto simp: dep_edge_def fun_eq_iff)
  ultimately obtain cs es where cs: "flat = cs @ t # es" "x \<in> set cs"
    using deps_first_acyclic [OF flat(2,1)] by metis
  have "t \<notin> set as" "t \<notin> set bs" using flat(1) xs by simp_all
  then have "as = cs" using append_Cons_eq_iff [of t as bs cs es] xs cs(1) by simp
  with cs show "x \<in> set as" by simp
qed

text \<open>
  C20: in an order that lists dependencies first, a target receives the \<open>all_dependent_settings\<close> of
  every target it depends on, and each as it is once that target has received its own.
\<close>

theorem DoDependentSettings_all:
  assumes run: "DoDependentSettings env n ''all_dependent_settings'' flat targets nodes = Inr targets'"
    and g: "linked targets (set (map fst targets)) nodes"
    and flat: "distinct flat" "deps_first (target_deps targets) flat" "set flat = set (map fst targets)"
    and t: "map_of targets t = Some d"
  shows "\<exists>bf ds d'. BuildFile t = Some bf \<and> DeepDependencies n nodes (Some t) [] = Inr ds
    \<and> map_of targets' t = Some d'
    \<and> rfold (\<lambda>x. merge_setting env ''all_dependent_settings'' bf x (the (map_of targets' x))) ds d = Inr d'"
proof -
  let ?key = "''all_dependent_settings''"
  have "t \<in> set flat" using t flat(3) by (auto dest: map_of_key)
  moreover have "\<And>x a b. settings_target env n ?key nodes x a = Inr b \<Longrightarrow> only_updates {x} a b"
    by (rule settings_target_only)
  ultimately obtain as bs a1 a2
    where xs: "flat = as @ t # bs" and turn: "settings_target env n ?key nodes t a1 = Inr a2"
      and before: "\<forall>x. x \<notin> set as \<longrightarrow> map_of a1 x = map_of targets x"
      and after: "\<forall>x. x \<notin> set (t # bs) \<longrightarrow> map_of a1 x = map_of targets' x"
        "map_of a2 t = map_of targets' t"
    using rfold_turn [OF run [unfolded DoDependentSettings_def] flat(1)] by blast
  from turn obtain bf ds where ds: "BuildFile t = Some bf" "DeepDependencies n nodes (Some t) [] = Inr ds"
    "rfold (merge_from env ?key bf t) ds a1 = Inr a2"
    by (auto simp: settings_target_def settings_dependencies_def file_of_def split: option.splits)
  have early: "set ds \<subseteq> set as" by (rule deep_dependencies_earlier [OF g flat ds(2) xs])
  have "t \<notin> set as" using flat(1) xs by auto
  with before t have "map_of a1 t = Some d" by auto
  moreover have "t \<notin> set ds" using early \<open>t \<notin> set as\<close> by blast
  ultimately obtain d' where
    d': "rfold (\<lambda>x. merge_setting env ?key bf x (the (map_of a1 x))) ds d = Inr d'" "map_of a2 t = Some d'"
    using merge_all_value [OF ds(3)] by blast
  have "rfold (\<lambda>x. merge_setting env ?key bf x (the (map_of a1 x))) ds d
      = rfold (\<lambda>x. merge_setting env ?key bf x (the (map_of targets' x))) ds d"
  proof (intro rfold_cong refl)
    fix x s assume "x \<in> set ds"
    with early flat(1) xs have "x \<notin> set (t # bs)" by auto
    with after(1) show "merge_setting env ?key bf x (the (map_of a1 x)) s
        = merge_setting env ?key bf x (the (map_of targets' x)) s" by simp
  qed
  with d' after(2) ds show ?thesis by auto
qed

section \<open>AdjustStaticLibraryDependencies\<close>

text \<open>Whether the loop keeps a dependency of a static library: the negated condition of the removal.\<close>

definition keep_dependency :: "gtargets \<Rightarrow> gval list \<Rightarrow> string \<Rightarrow> bool result" where
  "keep_dependency targets listed dependency =
     rbind (dict_read targets dependency) (\<lambda>dependency_dict.
     rbind (dict_read dependency_dict ''type'') (\<lambda>ty.
     Inr (\<not> (ty = GStr ''static_library''
                \<and> \<not> truthy (dict_get dependency_dict ''hard_dependency'' (GInt 0))
             \<or> ty \<noteq> GStr ''static_library'' \<and> GStr dependency \<notin> set listed))))"

definition adjust_static :: "string dep_nodes \<Rightarrow> string \<Rightarrow> gdict \<Rightarrow> gtargets \<Rightarrow> gtargets result" where
  "adjust_static nodes target target_dict targets =
     (case map_of target_dict ''dependencies'' of
        None \<Rightarrow> Inr targets
      | Some v \<Rightarrow>
          rbind (as_list v) (\<lambda>listed.
          let target_dict = AList.update ''dependencies_original'' (GList listed) target_dict;
              targets = AList.update target target_dict targets
          in rbind (DirectAndImportedDependencies nodes targets (Some target)) (\<lambda>dependencies.
             rbind (rfilter (keep_dependency targets listed) dependencies) (\<lambda>dependencies.
             Inr (AList.update target
                    (if dependencies \<noteq> []
                     then AList.update ''dependencies'' (GList (map GStr dependencies)) target_dict
                     else AList.delete ''dependencies'' target_dict) targets)))))"

definition add_link_dependency :: "string \<Rightarrow> string \<Rightarrow> gdict \<Rightarrow> gdict result" where
  "add_link_dependency target dependency target_dict =
     (if dependency = target then Inr target_dict
      else rbind (as_list (dict_get target_dict ''dependencies'' (GList []))) (\<lambda>l.
           Inr (AList.update ''dependencies''
                  (GList (if GStr dependency \<in> set l then l else l @ [GStr dependency])) target_dict)))"

definition sort_link_dependencies :: "bool \<Rightarrow> string list \<Rightarrow> gdict \<Rightarrow> gdict result" where
  "sort_link_dependencies sort_dependencies flat_list target_dict =
     (case map_of target_dict ''dependencies'' of
        None \<Rightarrow> Inr target_dict
      | Some v \<Rightarrow>
          if \<not> sort_dependencies then Inr target_dict
          else rbind (as_list v) (\<lambda>l.
               Inr (AList.update ''dependencies''
                      (GList (map GStr (filter (\<lambda>dep. GStr dep \<in> set l) (rev flat_list)))) target_dict)))"

definition adjust_target ::
  "nat \<Rightarrow> string dep_nodes \<Rightarrow> bool \<Rightarrow> string list \<Rightarrow> string \<Rightarrow> gtargets \<Rightarrow> gtargets result" where
  "adjust_target n nodes sort_dependencies flat_list target targets =
     rbind (dict_read targets target) (\<lambda>target_dict.
     rbind (dict_read target_dict ''type'') (\<lambda>target_type.
     if target_type = GStr ''static_library'' then adjust_static nodes target target_dict targets
     else if target_type \<in> GStr ` set linkable_types
     then rbind (LinkDependencies n nodes targets (Some target) [] True) (\<lambda>link_dependencies.
          rbind (rfold (add_link_dependency target) link_dependencies target_dict) (\<lambda>target_dict.
          rbind (sort_link_dependencies sort_dependencies flat_list target_dict) (\<lambda>target_dict.
          Inr (AList.update target target_dict targets))))
     else Inr targets))"

definition AdjustStaticLibraryDependencies ::
  "nat \<Rightarrow> string list \<Rightarrow> gtargets \<Rightarrow> string dep_nodes \<Rightarrow> bool \<Rightarrow> gtargets result" where
  "AdjustStaticLibraryDependencies n flat_list targets nodes sort_dependencies =
     rfold (adjust_target n nodes sort_dependencies flat_list) flat_list targets"

section \<open>What the link order depends on\<close>

text \<open>\<open>LinkDependencies\<close> reads three keys of a target, which the adjustment leaves alone.\<close>

definition link_view :: "gdict \<Rightarrow> gval option \<times> gval option \<times> gval option" where
  "link_view d = (map_of d ''target_name'', map_of d ''type'', map_of d ''dependencies_traverse'')"

definition same_link_view :: "gtargets \<Rightarrow> gtargets \<Rightarrow> bool" where
  "same_link_view a b \<longleftrightarrow> (\<forall>x. map_option link_view (map_of a x) = map_option link_view (map_of b x))"

lemma same_link_view_refl [simp]: "same_link_view a a"
  by (simp add: same_link_view_def)

lemma same_link_view_trans: "same_link_view a b \<Longrightarrow> same_link_view b c \<Longrightarrow> same_link_view a c"
  by (simp add: same_link_view_def)

lemma LinkDependencies_view:
  assumes "same_link_view a b"
  shows "LinkDependencies n nodes a s acc initial = LinkDependencies n nodes b s acc initial"
proof (induction n arbitrary: s acc initial)
  case 0
  show ?case by (cases s) simp_all
next
  case (Suc n)
  show ?case
  proof (cases s)
    case (Some r)
    show ?thesis
    proof (cases "map_of a r")
      case None
      with assms have "map_of b r = None" unfolding same_link_view_def by (metis option.map_disc_iff)
      with None Some show ?thesis by (simp add: LinkDependencies.simps dict_read_def)
    next
      case a: (Some d)
      with assms obtain d' where b: "map_of b r = Some d'" "link_view d = link_view d'"
        unfolding same_link_view_def by (metis map_option_eq_Some option.simps(9))
      then have "type_in d = type_in d'" "no_traverse d = no_traverse d'"
        "has_key ''target_name'' d = has_key ''target_name'' d'" "has_key ''type'' d = has_key ''type'' d'"
        "map_of d ''target_name'' = map_of d' ''target_name''"
        by (auto simp: link_view_def type_in_def no_traverse_def has_key_iff dict_get_def fun_eq_iff)
      with a b(1) Some Suc.IH show ?thesis
        by (simp add: LinkDependencies.simps dict_read_def Let_def)
    qed
  qed simp
qed

lemma link_view_update [simp]:
  "k \<in> {''dependencies'', ''dependencies_original''} \<Longrightarrow> link_view (AList.update k v d) = link_view d"
  "link_view (AList.delete ''dependencies'' d) = link_view d"
  by (auto simp: link_view_def map_of_update map_of_delete)

lemma same_link_view_update:
  "map_of a t = Some d \<Longrightarrow> link_view d' = link_view d \<Longrightarrow> same_link_view a (AList.update t d' a)"
  by (simp add: same_link_view_def map_of_update)

lemma add_link_dependencies_value:
  assumes "rfold (add_link_dependency t) ds d = Inr d'"
  shows "link_view d' = link_view d \<and> (\<forall>k. k \<noteq> ''dependencies'' \<longrightarrow> map_of d' k = map_of d k)
    \<and> (set ds \<subseteq> {t} \<and> d' = d
       \<or> (\<exists>l. dict_get d ''dependencies'' (GList []) = GList l \<and> map_of d' ''dependencies''
             = Some (GList (l @ keep_first id (set l) (map GStr (filter (\<lambda>x. x \<noteq> t) ds))))))"
  using assms
proof (induction ds arbitrary: d)
  case (Cons x ds)
  then obtain d1 where 1: "add_link_dependency t x d = Inr d1" "rfold (add_link_dependency t) ds d1 = Inr d'"
    by auto
  show ?case
  proof (cases "x = t")
    case True
    with 1(1) have d1: "d1 = d" by (simp add: add_link_dependency_def)
    from True have eq: "filter (\<lambda>x. x \<noteq> t) (x # ds) = filter (\<lambda>x. x \<noteq> t) ds"
      "set (x # ds) \<subseteq> {t} \<longleftrightarrow> set ds \<subseteq> {t}" by auto
    show ?thesis using Cons.IH [OF 1(2)] unfolding eq d1 .
  next
    case False
    with 1(1) obtain l where l: "dict_get d ''dependencies'' (GList []) = GList l"
      "d1 = AList.update ''dependencies'' (GList (if GStr x \<in> set l then l else l @ [GStr x])) d"
      by (auto simp: add_link_dependency_def)
    define l1 where "l1 = (if GStr x \<in> set l then l else l @ [GStr x])"
    let ?rest = "map GStr (filter (\<lambda>x. x \<noteq> t) ds)"
    have l1: "map_of d1 ''dependencies'' = Some (GList l1)"
      "l1 @ keep_first id (set l1) ?rest = l @ keep_first id (set l) (GStr x # ?rest)"
      using l(2) by (auto simp: l1_def map_of_update insert_absorb id_def)
    have "keep_first id (set l1) ?rest = []" if "set ds \<subseteq> {t}"
      using that by (induction ds) auto
    with Cons.IH [OF 1(2)] l1(1) have "map_of d' ''dependencies'' = Some (GList (l1 @ keep_first id (set l1) ?rest))"
      by (auto simp: dict_get_def id_def)
    moreover have "link_view d' = link_view d \<and> (\<forall>k. k \<noteq> ''dependencies'' \<longrightarrow> map_of d' k = map_of d k)"
      using Cons.IH [OF 1(2)] l(2) by (simp add: map_of_update)
    ultimately show ?thesis using l(1) l1(2) False by (simp add: id_def)
  qed
qed simp

lemma keep_first_GStr:
  "keep_first id (GStr ` A) (map GStr xs) = map GStr (keep_first id A xs)"
  by (induction xs arbitrary: A) (auto simp: image_insert [symmetric] simp del: image_insert)

lemma sort_link_dependencies_value:
  "sort_link_dependencies srt flat d = Inr d' \<Longrightarrow> link_view d' = link_view d"
  by (auto simp: sort_link_dependencies_def split: option.splits if_splits)

lemma adjust_static_only:
  assumes "adjust_static nodes t d a = Inr b" and "map_of a t = Some d"
  shows "only_updates {t} a b \<and> same_link_view a b"
proof (cases "map_of d ''dependencies''")
  case None
  with assms show ?thesis by (simp add: adjust_static_def)
next
  case (Some v)
  with assms(1) obtain d1 d2 where "b = AList.update t d2 (AList.update t d1 a)"
    "link_view d1 = link_view d" "link_view d2 = link_view d1"
    by (auto simp: adjust_static_def Let_def split: if_splits)
  with assms(2) show ?thesis
    by (auto simp: only_updates_def update_keys map_of_update same_link_view_def dest: map_of_key)
qed

lemma adjust_target_only:
  assumes "adjust_target n nodes srt flat t a = Inr b"
  shows "only_updates {t} a b \<and> same_link_view a b"
proof -
  from assms obtain d ty where d: "map_of a t = Some d" "map_of d ''type'' = Some ty"
    by (auto simp: adjust_target_def)
  consider "adjust_static nodes t d a = Inr b"
    | ds d1 d2 where "rfold (add_link_dependency t) ds d = Inr d1"
      "sort_link_dependencies srt flat d1 = Inr d2" "b = AList.update t d2 a"
    | "b = a"
  proof (cases "ty = GStr ''static_library''")
    case True
    with assms d that(1) show ?thesis by (simp add: adjust_target_def dict_read_def)
  next
    case False
    show ?thesis
    proof (cases "ty \<in> GStr ` set linkable_types")
      case True
      with False assms d that(2) show ?thesis by (auto simp: adjust_target_def dict_read_def)
    next
      case False
      with \<open>ty \<noteq> _\<close> assms d that(3) show ?thesis by (simp add: adjust_target_def dict_read_def)
    qed
  qed
  then show ?thesis
  proof cases
    case 1
    with d(1) show ?thesis by (simp add: adjust_static_only)
  next
    case 2
    with add_link_dependencies_value sort_link_dependencies_value have "link_view d2 = link_view d" by metis
    with 2(3) d(1) show ?thesis by (simp add: only_updates_update same_link_view_update)
  qed simp
qed

lemma AdjustStaticLibraryDependencies_only:
  "AdjustStaticLibraryDependencies n flat targets nodes srt = Inr targets' \<Longrightarrow>
   only_updates (set flat) targets targets'"
  unfolding AdjustStaticLibraryDependencies_def
  by (rule rfold_only_updates [OF conjunct1 [OF adjust_target_only]])

lemma adjust_targets_view:
  "rfold (adjust_target n nodes srt flat) xs a = Inr b \<Longrightarrow> same_link_view a b"
  by (rule rfold_invariant [where P = "same_link_view a"])
    (auto dest: adjust_target_only intro: same_link_view_trans)

text \<open>
  The dependencies of a target after those to link have been added to the ones it lists: with the
  generator's sort flag in build order from the last to the first, without it in the order they came.
\<close>

definition linked_dependencies :: "bool \<Rightarrow> string list \<Rightarrow> string \<Rightarrow> string list \<Rightarrow> string list \<Rightarrow> string list" where
  "linked_dependencies srt flat t old link =
     (if srt then filter (\<lambda>x. x \<in> set old \<or> x \<in> set link - {t}) (rev flat)
      else old @ keep_first id (set old) (filter (\<lambda>x. x \<noteq> t) link))"

lemma sorted_link_dependencies:
  assumes d1: "rfold (add_link_dependency t) link d = Inr d1"
    and d2: "sort_link_dependencies srt flat d1 = Inr d2"
    and listed: "dict_get d ''dependencies'' (GList []) = GList (map GStr old)"
  shows "d2 = d \<and> set link \<subseteq> {t} \<and> old = []
    \<or> map_of d2 ''dependencies'' = Some (GList (map GStr (linked_dependencies srt flat t old link)))"
proof -
  let ?new = "old @ keep_first id (set old) (filter (\<lambda>x. x \<noteq> t) link)"
  have new: "set ?new = set old \<union> (set link - {t})"
    using keep_first_image [of id "set old" "filter (\<lambda>x. x \<noteq> t) link"] by auto
  have none: "keep_first id (set old) (filter (\<lambda>x. x \<noteq> t) link) = []" if "set link \<subseteq> {t}"
    using that by (induction link) auto
  have sorted: "map_of d2 ''dependencies'' = Some (GList (map GStr (linked_dependencies srt flat t old link)))"
    if "map_of d1 ''dependencies'' = Some (GList (map GStr ?new))"
  proof (cases srt)
    case True
    have "filter (\<lambda>x. GStr x \<in> set (map GStr ?new)) (rev flat)
        = filter (\<lambda>x. x \<in> set old \<or> x \<in> set link - {t}) (rev flat)"
      using new by (intro filter_cong) auto
    with d2 that True show ?thesis
      by (auto simp: sort_link_dependencies_def linked_dependencies_def map_of_update simp del: map_append)
  next
    case False
    with d2 that show ?thesis by (auto simp: sort_link_dependencies_def linked_dependencies_def)
  qed
  consider "set link \<subseteq> {t}" "d1 = d"
    | "map_of d1 ''dependencies'' = Some (GList (map GStr ?new))"
    using add_link_dependencies_value [OF d1] listed keep_first_GStr [of "set old"] by auto
  then show ?thesis
  proof cases
    case 1
    show ?thesis
    proof (cases "map_of d ''dependencies''")
      case None
      with d2 1(2) listed have "d2 = d" "old = []" by (auto simp: sort_link_dependencies_def dict_get_def)
      with 1 show ?thesis by auto
    next
      case (Some v)
      with listed 1(2) none [OF 1(1)] have "map_of d1 ''dependencies'' = Some (GList (map GStr ?new))"
        by (simp add: dict_get_def)
      then show ?thesis using sorted by auto
    qed
  qed (use sorted in auto)
qed

text \<open>
  C15: a linkable target ends up with the dependencies it had and, besides, everything that is linked
  into it but itself. If the generator asks for sorted dependencies they stand in reverse build order,
  the dependents before their dependencies; otherwise, which is the default, those it had keep their
  order and the missing ones follow in the order of the link walk, each once.
\<close>

theorem AdjustStaticLibraryDependencies_linkable:
  assumes run: "AdjustStaticLibraryDependencies n flat targets nodes srt = Inr targets'"
    and flat: "distinct flat" "t \<in> set flat"
    and t: "map_of targets t = Some d" "type_in d linkable_types"
    and listed: "dict_get d ''dependencies'' (GList []) = GList (map GStr old)"
  shows "\<exists>link d'. LinkDependencies n nodes targets (Some t) [] True = Inr link
    \<and> map_of targets' t = Some d'
    \<and> (d' = d \<and> set link \<subseteq> {t} \<and> old = []
       \<or> map_of d' ''dependencies'' = Some (GList (map GStr
           (if srt then filter (\<lambda>x. x \<in> set old \<or> x \<in> set link - {t}) (rev flat)
            else old @ keep_first id (set old) (filter (\<lambda>x. x \<noteq> t) link)))))"
proof -
  let ?step = "adjust_target n nodes srt flat"
  have step: "\<And>x a b. ?step x a = Inr b \<Longrightarrow> only_updates {x} a b" using adjust_target_only by blast
  from rfold_turn [OF run [unfolded AdjustStaticLibraryDependencies_def] flat] step obtain as bs a1 a2 where
    xs: "flat = as @ t # bs" and turn: "?step t a1 = Inr a2"
      and before: "\<forall>x. x \<notin> set as \<longrightarrow> map_of a1 x = map_of targets x"
      and after: "map_of a2 t = map_of targets' t" and early: "rfold ?step as targets = Inr a1" by blast
  have d: "map_of a1 t = Some d" using before t(1) flat(1) xs by auto
  have ty: "map_of d ''type'' \<noteq> Some (GStr ''static_library'')"
    "\<exists>ty. map_of d ''type'' = Some ty \<and> ty \<in> GStr ` set linkable_types"
    using t(2) by (auto simp: type_in_def linkable_types_def)
  have view: "LinkDependencies n nodes a1 (Some t) [] True = LinkDependencies n nodes targets (Some t) [] True"
    using LinkDependencies_view adjust_targets_view [OF early] by metis
  from turn d ty view obtain link d1 d2 where
    link: "LinkDependencies n nodes targets (Some t) [] True = Inr link"
    and d1: "rfold (add_link_dependency t) link d = Inr d1"
    and d2: "sort_link_dependencies srt flat d1 = Inr d2" and a2: "a2 = AList.update t d2 a1"
    by (auto simp: adjust_target_def split: if_splits)
  have final: "map_of targets' t = Some d2" using after a2 by (simp add: map_of_update)
  from sorted_link_dependencies [OF d1 d2 listed] link final show ?thesis
    unfolding linked_dependencies_def by auto
qed

text \<open>
  A static library ends up with the hard static libraries and the direct other dependencies among
  the direct and imported ones, and remembers its list under \<open>dependencies_original\<close>.
\<close>

theorem adjust_static_value:
  assumes "adjust_static nodes t d a = Inr b" and "map_of d ''dependencies'' = Some (GList listed)"
  shows "\<exists>a1 ds d'. DirectAndImportedDependencies nodes a1 (Some t) = Inr ds
    \<and> a1 = AList.update t (AList.update ''dependencies_original'' (GList listed) d) a
    \<and> map_of b t = Some d' \<and> map_of d' ''dependencies_original'' = Some (GList listed)
    \<and> dict_get d' ''dependencies'' (GList [])
      = GList (map GStr (filter (\<lambda>x. keep_dependency a1 listed x = Inr True) ds))"
proof -
  let ?d1 = "AList.update ''dependencies_original'' (GList listed) d"
  let ?a1 = "AList.update t ?d1 a"
  from assms obtain ds keep where
    ds: "DirectAndImportedDependencies nodes ?a1 (Some t) = Inr ds"
    and keep: "rfilter (keep_dependency ?a1 listed) ds = Inr keep"
    and b: "b = AList.update t (if keep \<noteq> [] then AList.update ''dependencies'' (GList (map GStr keep)) ?d1
        else AList.delete ''dependencies'' ?d1) ?a1"
    by (auto simp: adjust_static_def Let_def)
  from rfilter_Inr [OF keep] ds b show ?thesis
    by (auto simp: map_of_update map_of_delete dict_get_def)
qed

section \<open>The passes on a small program\<close>

definition ex_order :: "string list" where
  "ex_order = [''b.gyp:lib#target'', ''a.gyp:app#target'']"

lemma ex_order_props:
  "distinct ex_order" "deps_first (target_deps ex_targets) ex_order" "set ex_order = set (map fst ex_targets)"
proof -
  have "deps_first (target_deps ex_targets) (([] @ [''b.gyp:lib#target'']) @ [''a.gyp:app#target''])"
    unfolding deps_first_snoc by (simp add: ex_targets_deps deps_first_def)
  then show "deps_first (target_deps ex_targets) ex_order" by (simp add: ex_order_def)
qed (auto simp: ex_order_def ex_targets_deps)

definition ex_app :: gdict where
  "ex_app = [(''target_name'', GStr ''app''), (''toolset'', GStr ''target''), (''type'', GStr ''executable''),
     (''dependencies'', GList [GStr ''b.gyp:lib#target''])]"

lemma ex_app: "map_of ex_targets ''a.gyp:app#target'' = Some ex_app"
  by (simp add: ex_targets_def ex_app_def)

theorem DoDependentSettings_witness:
  "\<exists>ds d'. DeepDependencies 4 ex_nodes (Some ''a.gyp:app#target'') [] = Inr ds
    \<and> rfold (\<lambda>x. merge_setting ex_globals ''all_dependent_settings'' ''a.gyp'' x (the (map_of
              (AList.update ''a.gyp:app#target'' (ex_app @ [(''defines'', GList [GStr ''LIB''])]) ex_targets) x)))
        ds ex_app = Inr d'
    \<and> map_of d' ''defines'' = Some (GList [GStr ''LIB''])"
proof -
  let ?targets' = "AList.update ''a.gyp:app#target'' (ex_app @ [(''defines'', GList [GStr ''LIB''])]) ex_targets"
  have run: "DoDependentSettings ex_globals 4 ''all_dependent_settings'' ex_order ex_targets ex_nodes = Inr ?targets'"
    by code_simp
  from DoDependentSettings_all [OF run ex_nodes_linked ex_order_props ex_app]
  show ?thesis
    by (auto simp: map_of_update ex_build_file) (auto simp: ex_app_def)
qed

text \<open>An application whose shared library links a static library that it does not list itself.\<close>

definition ex_links :: gtargets where
  "ex_links =
     [(''x:app#t'', [(''target_name'', GStr ''app''), (''type'', GStr ''executable''), (''dependencies'', GList [GStr ''x:mid#t''])]),
      (''x:mid#t'', [(''target_name'', GStr ''mid''), (''type'', GStr ''static_library'')]),
      (''x:low#t'', [(''target_name'', GStr ''low''), (''type'', GStr ''static_library'')])]"

definition ex_links_nodes :: "string dep_nodes" where
  "ex_links_nodes = add_link ''x:mid#t'' ''x:low#t'' (add_link ''x:app#t'' ''x:mid#t'' (\<lambda>_. new_node))"

definition ex_links_order :: "string list" where
  "ex_links_order = [''x:low#t'', ''x:mid#t'', ''x:app#t'']"

lemma ex_links_app:
  "map_of ex_links ''x:app#t'' = Some [(''target_name'', GStr ''app''), (''type'', GStr ''executable''),
     (''dependencies'', GList [GStr ''x:mid#t''])]"
  by (simp add: ex_links_def)

theorem AdjustStaticLibraryDependencies_witness:
  "\<exists>link. LinkDependencies 4 ex_links_nodes ex_links (Some ''x:app#t'') [] True = Inr link
    \<and> [''x:mid#t'', ''x:low#t'']
      = [''x:mid#t''] @ keep_first id {''x:mid#t''} (filter (\<lambda>x. x \<noteq> ''x:app#t'') link)
    \<and> [''x:mid#t'', ''x:low#t'']
      = filter (\<lambda>x. x \<in> {''x:mid#t''} \<or> x \<in> set link - {''x:app#t''}) (rev ex_links_order)"
proof -
  let ?d = "[(''target_name'', GStr ''app''), (''type'', GStr ''executable''), (''dependencies'', GList [GStr ''x:mid#t''])]"
  let ?d' = "[(''target_name'', GStr ''app''), (''type'', GStr ''executable''),
    (''dependencies'', GList [GStr ''x:mid#t'', GStr ''x:low#t''])]"
  have run: "AdjustStaticLibraryDependencies 4 ex_links_order ex_links ex_links_nodes srt
      = Inr (AList.update ''x:app#t'' ?d' ex_links)" for srt
    by (cases srt) (simp, code_simp)+
  have "type_in ?d linkable_types" "''x:app#t'' \<in> set ex_links_order" "distinct ex_links_order"
    "dict_get ?d ''dependencies'' (GList []) = GList (map GStr [''x:mid#t''])"
    by code_simp+
  note found = AdjustStaticLibraryDependencies_linkable [OF run this(3,2) ex_links_app this(1,4)]
  from found [of True] found [of False] show ?thesis
    by (auto simp: map_of_update)
qed

definition ex_archive :: gdict where
  "ex_archive = [(''type'', GStr ''static_library''), (''dependencies'', GList [GStr ''x:gen#t'', GStr ''x:lib#t''])]"

definition ex_archives :: gtargets where
  "ex_archives = [(''x:ar#t'', ex_archive), (''x:gen#t'', [(''type'', GStr ''none'')]),
     (''x:lib#t'', [(''type'', GStr ''static_library'')])]"

definition ex_archive_nodes :: "string dep_nodes" where
  "ex_archive_nodes = add_link ''x:ar#t'' ''x:lib#t'' (add_link ''x:ar#t'' ''x:gen#t'' (\<lambda>_. new_node))"

theorem adjust_static_witness:
  "\<exists>a1 ds. DirectAndImportedDependencies ex_archive_nodes a1 (Some ''x:ar#t'') = Inr ds
    \<and> [''x:gen#t''] = filter (\<lambda>x. keep_dependency a1 [GStr ''x:gen#t'', GStr ''x:lib#t''] x = Inr True) ds"
proof -
  let ?b = "AList.update ''x:ar#t'' [(''type'', GStr ''static_library''), (''dependencies'', GList [GStr ''x:gen#t'']),
     (''dependencies_original'', GList [GStr ''x:gen#t'', GStr ''x:lib#t''])] ex_archives"
  have run: "adjust_static ex_archive_nodes ''x:ar#t'' ex_archive ex_archives = Inr ?b"
    by code_simp
  have "map_of ex_archive ''dependencies'' = Some (GList [GStr ''x:gen#t'', GStr ''x:lib#t''])"
    by (simp add: ex_archive_def)
  from adjust_static_value [OF run this] obtain a1 ds d' where
    ds: "DirectAndImportedDependencies ex_archive_nodes a1 (Some ''x:ar#t'') = Inr ds"
    and d': "map_of ?b ''x:ar#t'' = Some d'" "dict_get d' ''dependencies'' (GList [])
      = GList (map GStr (filter (\<lambda>x. keep_dependency a1 [GStr ''x:gen#t'', GStr ''x:lib#t''] x = Inr True) ds))"
    by blast
  from d' have "map GStr [''x:gen#t'']
      = map GStr (filter (\<lambda>x. keep_dependency a1 [GStr ''x:gen#t'', GStr ''x:lib#t''] x = Inr True) ds)"
    by (auto simp: map_of_update dict_get_def)
  then have "[''x:gen#t''] = filter (\<lambda>x. keep_dependency a1 [GStr ''x:gen#t'', GStr ''x:lib#t''] x = Inr True) ds"
    by (rule map_injective) (simp add: inj_def)
  with ds show ?thesis by blast
qed

end
