(* ===== verification/Gyp_Closure.thy ===== *)
theory Gyp_Closure
  imports Gyp_Deps
begin

text \<open>
  \<open>common.py\<close>: \<open>DeepDependencyTargets\<close>, \<open>BuildFileTargets\<close> and \<open>AllTargets\<close>. The element that
  \<open>set.pop()\<close> takes is the parameter \<open>pick\<close>, and sets are lists with no duplicate.
\<close>

definition closure_children :: "gtargets \<Rightarrow> string \<Rightarrow> string list result" where
  "closure_children target_dicts r =
     rbind (dict_read target_dicts r) (\<lambda>spec.
     rbind (get_iter spec ''dependencies'') (\<lambda>a.
     rbind (get_iter spec ''dependencies_original'') (\<lambda>b.
     rmap as_str (a @ b))))"

text \<open>The \<open>while\<close> loop; \<open>None\<close> stands for a run that does not end.\<close>

partial_function (option) closure_loop ::
  "(string list \<Rightarrow> string) \<Rightarrow> gtargets \<Rightarrow> string list \<Rightarrow> string list \<Rightarrow> string list result option" where
  "closure_loop pick target_dicts dependencies pending =
     (if pending = [] then Some (Inr dependencies)
      else let r = pick pending; pending = removeAll r pending
           in if r \<in> set dependencies then closure_loop pick target_dicts dependencies pending
              else case closure_children target_dicts r of
                     Inl e \<Rightarrow> Some (Inl e)
                   | Inr xs \<Rightarrow>
                       closure_loop pick target_dicts (dependencies @ [r]) (fold List.insert xs pending))"

definition DeepDependencyTargets ::
  "(string list \<Rightarrow> string) \<Rightarrow> gtargets \<Rightarrow> string list \<Rightarrow> string list result option" where
  "DeepDependencyTargets pick target_dicts roots =
     map_option (\<lambda>r. rbind r (\<lambda>dependencies. Inr (filter (\<lambda>t. t \<notin> set roots) dependencies)))
       (closure_loop pick target_dicts [] (remdups roots))"

definition BuildFileTargets :: "string list \<Rightarrow> string option \<Rightarrow> string list" where
  "BuildFileTargets target_list build_file = filter (\<lambda>p. BuildFile p = build_file) target_list"

definition AllTargets ::
  "(string list \<Rightarrow> string) \<Rightarrow> string list \<Rightarrow> gtargets \<Rightarrow> string option \<Rightarrow> string list result option" where
  "AllTargets pick target_list target_dicts build_file =
     (let bftargets = BuildFileTargets target_list build_file
      in map_option (\<lambda>r. rbind r (\<lambda>deptargets. Inr (bftargets @ deptargets)))
           (DeepDependencyTargets pick target_dicts bftargets))"

section \<open>The closure\<close>

definition child :: "gtargets \<Rightarrow> string \<Rightarrow> string \<Rightarrow> bool" where
  "child target_dicts r x \<longleftrightarrow> (\<exists>xs. closure_children target_dicts r = Inr xs \<and> x \<in> set xs)"

definition closure_inv :: "gtargets \<Rightarrow> string list \<Rightarrow> string list \<Rightarrow> string list \<Rightarrow> bool" where
  "closure_inv targets roots deps pending \<longleftrightarrow>
     distinct deps \<and> set deps \<subseteq> fst ` set targets
     \<and> set roots \<subseteq> set deps \<union> set pending
     \<and> set deps \<union> set pending \<subseteq> {x. \<exists>r \<in> set roots. (child targets)\<^sup>*\<^sup>* r x}
     \<and> (\<forall>r \<in> set deps. \<forall>x. child targets r x \<longrightarrow> x \<in> set deps \<union> set pending)"

lemma closure_inv_seen:
  "closure_inv targets roots deps pending \<Longrightarrow> r \<in> set deps \<Longrightarrow>
   closure_inv targets roots deps (removeAll r pending)"
  unfolding closure_inv_def by auto

lemma closure_inv_new:
  assumes "closure_inv targets roots deps pending" and "r \<in> set pending" and "r \<notin> set deps"
    and "closure_children targets r = Inr xs"
  shows "closure_inv targets roots (deps @ [r]) (fold List.insert xs (removeAll r pending))"
proof -
  have r: "r \<in> fst ` set targets"
    using assms(4) by (auto simp: closure_children_def dom_map_of_conv_image_fst [symmetric])
  have ch: "child targets r x \<longleftrightarrow> x \<in> set xs" for x using assms(4) by (simp add: child_def)
  obtain s where s: "s \<in> set roots" "(child targets)\<^sup>*\<^sup>* s r"
    using assms(1,2) unfolding closure_inv_def by blast
  then have "x \<in> set xs \<Longrightarrow> \<exists>r \<in> set roots. (child targets)\<^sup>*\<^sup>* r x" for x
    using ch by (meson rtranclp.rtrancl_into_rtrancl)
  with assms(1-3) r ch show ?thesis unfolding closure_inv_def by (auto simp: set_fold_insert)
qed

lemma closure_loop_ends:
  assumes pick: "\<And>xs. xs \<noteq> [] \<Longrightarrow> pick xs \<in> set xs"
  shows "closure_inv targets roots deps pending \<Longrightarrow>
    \<exists>r. closure_loop pick targets deps pending = Some r
      \<and> (\<forall>ds. r = Inr ds \<longrightarrow> closure_inv targets roots ds [])
      \<and> (\<forall>e. r = Inl e \<longrightarrow> (\<exists>x. (\<exists>s \<in> set roots. (child targets)\<^sup>*\<^sup>* s x) \<and> closure_children targets x = Inl e))"
proof (induction "(length targets - length deps, length pending)" arbitrary: deps pending
    rule: wf_induct [OF wf_lex_prod [OF wf_less_than wf_less_than]])
  case (1 deps pending)
  show ?case
  proof (cases "pending = []")
    case True
    with "1.prems" show ?thesis by (auto simp: closure_loop.simps)
  next
    case False
    define r where "r = pick pending"
    have r: "r \<in> set pending" using pick [OF False] by (simp add: r_def)
    show ?thesis
    proof (cases "r \<in> set deps")
      case True
      have "length (removeAll r pending) < length pending" using r by (simp add: length_removeAll_less)
      with "1.hyps" closure_inv_seen [OF "1.prems" True] False True show ?thesis
        by (subst closure_loop.simps) (simp add: r_def [symmetric])
    next
      case new: False
      show ?thesis
      proof (cases "closure_children targets r")
        case (Inl e)
        moreover have "\<exists>s \<in> set roots. (child targets)\<^sup>*\<^sup>* s r"
          using "1.prems" r unfolding closure_inv_def by blast
        ultimately show ?thesis using False new
          by (subst closure_loop.simps) (auto simp: r_def [symmetric])
      next
        case (Inr xs)
        let ?deps = "deps @ [r]"
        have inv: "closure_inv targets roots ?deps (fold List.insert xs (removeAll r pending))"
          using closure_inv_new [OF "1.prems" r new Inr] .
        then have "distinct ?deps" "set ?deps \<subseteq> fst ` set targets" by (simp_all add: closure_inv_def)
        then have "length ?deps \<le> card (fst ` set targets)" by (metis List.finite_set card_mono distinct_card finite_imageI)
        also have "\<dots> \<le> length targets" by (metis List.finite_set card_image_le card_length le_trans)
        finally have "length targets - length ?deps < length targets - length deps" by simp
        with "1.hyps" inv False new Inr show ?thesis
          by (subst closure_loop.simps) (simp add: r_def [symmetric])
      qed
    qed
  qed
qed

text \<open>
  C23: the call ends for every choice of \<open>pop\<close>, and returns the targets that the roots reach, without
  the roots, each once; the order is all the choice decides.
\<close>

theorem DeepDependencyTargets_closure:
  assumes pick: "\<And>xs. xs \<noteq> [] \<Longrightarrow> pick xs \<in> set xs"
  shows "\<exists>r. DeepDependencyTargets pick targets roots = Some r
    \<and> (\<forall>ds. r = Inr ds \<longrightarrow> distinct ds
         \<and> set ds = {x. \<exists>s \<in> set roots. (child targets)\<^sup>*\<^sup>* s x} - set roots)
    \<and> (\<forall>e. r = Inl e \<longrightarrow>
         (\<exists>x. (\<exists>s \<in> set roots. (child targets)\<^sup>*\<^sup>* s x) \<and> closure_children targets x = Inl e))"
proof -
  have "closure_inv targets roots [] (remdups roots)" by (auto simp: closure_inv_def)
  from closure_loop_ends [OF pick this] obtain r where
    r: "closure_loop pick targets [] (remdups roots) = Some r"
      "\<forall>ds. r = Inr ds \<longrightarrow> closure_inv targets roots ds []"
      "\<forall>e. r = Inl e \<longrightarrow> (\<exists>x. (\<exists>s \<in> set roots. (child targets)\<^sup>*\<^sup>* s x) \<and> closure_children targets x = Inl e)"
    by blast
  show ?thesis
  proof (cases r)
    case (Inl e)
    with r show ?thesis by (simp add: DeepDependencyTargets_def)
  next
    case (Inr ds)
    with r(2) have inv: "closure_inv targets roots ds []" by simp
    have "x \<in> set ds" if "(child targets)\<^sup>*\<^sup>* s x" "s \<in> set ds" for s x
      using that by (induction) (use inv in \<open>auto simp: closure_inv_def\<close>)
    with inv have "set ds = {x. \<exists>s \<in> set roots. (child targets)\<^sup>*\<^sup>* s x}"
      unfolding closure_inv_def by auto
    with Inr r(1) inv show ?thesis
      by (auto simp: DeepDependencyTargets_def closure_inv_def)
  qed
qed

theorem DeepDependencyTargets_witness:
  "\<exists>ds. DeepDependencyTargets hd ex_targets [''a.gyp:app#target''] = Some (Inr ds)
    \<and> distinct ds \<and> set ds = {''b.gyp:lib#target''}"
proof -
  let ?app = "''a.gyp:app#target''" and ?lib = "''b.gyp:lib#target''"
  have children: "closure_children ex_targets ?app = Inr [?lib]" "closure_children ex_targets ?lib = Inr []"
    by (simp_all add: closure_children_def ex_targets_def get_iter_def dict_get_def)
  have reach: "(child ex_targets)\<^sup>*\<^sup>* ?app x \<longleftrightarrow> x \<in> {?app, ?lib}" for x
  proof
    show "(child ex_targets)\<^sup>*\<^sup>* ?app x \<Longrightarrow> x \<in> {?app, ?lib}"
      by (induction rule: rtranclp_induct) (auto simp: child_def children)
    have "child ex_targets ?app ?lib" by (simp add: child_def children)
    then show "x \<in> {?app, ?lib} \<Longrightarrow> (child ex_targets)\<^sup>*\<^sup>* ?app x" by auto
  qed
  obtain r where r: "DeepDependencyTargets hd ex_targets [?app] = Some r"
    "\<forall>ds. r = Inr ds \<longrightarrow> distinct ds \<and> set ds = {x. \<exists>s \<in> set [?app]. (child ex_targets)\<^sup>*\<^sup>* s x} - set [?app]"
    "\<forall>e. r = Inl e \<longrightarrow> (\<exists>x. (\<exists>s \<in> set [?app]. (child ex_targets)\<^sup>*\<^sup>* s x) \<and> closure_children ex_targets x = Inl e)"
    using DeepDependencyTargets_closure [of hd ex_targets "[?app]", OF hd_in_set] by blast
  then show ?thesis
  proof (cases r)
    case (Inl e)
    with r(3) show ?thesis by (auto simp: reach children)
  next
    case (Inr ds)
    with r(1,2) have "distinct ds" "set ds = {x. x \<in> {?app, ?lib}} - {?app}" by (simp_all add: reach)
    moreover have "{x. x \<in> {?app, ?lib}} - {?app} = {?lib}" by auto
    ultimately show ?thesis using r(1) Inr by auto
  qed
qed

end
