(* ===== verification/Gyp_Config.thy ===== *)
theory Gyp_Config
  imports Gyp_Merge "HOL-Library.List_Lexorder"
begin

text \<open>
  \<open>input.py\<close>: \<open>MergeConfigWithInheritance\<close> and \<open>SetUpConfigurations\<close>, which copy a target's
  settings into each of its configurations. \<open>copy.deepcopy\<close> of a tree is the tree.
\<close>

section \<open>MergeConfigWithInheritance\<close>

definition read_configs :: "gdict \<Rightarrow> gdict result" where
  "read_configs target_dict = rbind (dict_read target_dict ''configurations'') as_dict"

definition read_config :: "gdict \<Rightarrow> string \<Rightarrow> gdict result" where
  "read_config target_dict configuration =
     rbind (read_configs target_dict) (\<lambda>cs. rbind (dict_read cs configuration) as_dict)"

definition config_names :: "gdict \<Rightarrow> string list" where
  "config_names target_dict = (case read_configs target_dict of Inl e \<Rightarrow> [] | Inr cs \<Rightarrow> map fst cs)"

lemma read_config_name: "read_config d c = Inr cd \<Longrightarrow> c \<in> set (config_names d)"
  by (auto simp: read_config_def config_names_def dest: map_of_key)

text \<open>
  A configuration that is already on the path is skipped, so a cycle of \<open>inherit_from\<close> ends: the
  path never names a configuration twice.
\<close>

function MergeConfigWithInheritance ::
  "gyp_env \<Rightarrow> gdict \<Rightarrow> string \<Rightarrow> gdict \<Rightarrow> string \<Rightarrow> string list \<Rightarrow> gdict result" where
  "MergeConfigWithInheritance env new_configuration_dict build_file target_dict configuration visited =
     (if configuration \<in> set visited then Inr new_configuration_dict
      else rbind (read_config target_dict configuration) (\<lambda>configuration_dict.
           rbind (get_iter configuration_dict ''inherit_from'') (\<lambda>parents.
           rbind (rfold (\<lambda>parent new_configuration_dict.
                    rbind (as_str parent) (\<lambda>parent.
                    MergeConfigWithInheritance env new_configuration_dict build_file target_dict
                      parent (visited @ [configuration])))
                  parents new_configuration_dict) (\<lambda>new_configuration_dict.
           rbind (MergeDicts env new_configuration_dict configuration_dict build_file build_file)
             (\<lambda>new_configuration_dict. Inr (AList.delete ''abstract'' new_configuration_dict))))))"
  by pat_completeness auto
termination
proof (relation "measure (\<lambda>(env, new, bf, td, c, visited). card (set (config_names td) - set visited))",
    goal_cases)
  case (2 env new bf td c visited cd parents parent new' p)
  then have "set (config_names td) - set (visited @ [c]) \<subset> set (config_names td) - set visited"
    using read_config_name [of td c cd] by auto
  then show ?case by (simp add: psubset_card_mono)
qed simp

declare MergeConfigWithInheritance.simps [simp del]

text \<open>The order in which configurations are merged: parents first, and the configuration last.\<close>

function inherit_order :: "gdict \<Rightarrow> string \<Rightarrow> string list \<Rightarrow> string list" where
  "inherit_order target_dict c visited =
     (if c \<in> set visited then []
      else case read_config target_dict c of
             Inl e \<Rightarrow> [c]
           | Inr cd \<Rightarrow>
               (case get_iter cd ''inherit_from'' of
                  Inl e \<Rightarrow> [c]
                | Inr parents \<Rightarrow>
                    concat (map (\<lambda>p. case p of GStr s \<Rightarrow> inherit_order target_dict s (visited @ [c]) | _ \<Rightarrow> [])
                      parents) @ [c]))"
  by pat_completeness auto
termination
proof (relation "measure (\<lambda>(td, c, visited). card (set (config_names td) - set visited))", goal_cases)
  case (2 td c visited cd parents p s)
  then have "set (config_names td) - set (visited @ [c]) \<subset> set (config_names td) - set visited"
    using read_config_name [of td c cd] by auto
  then show ?case by (simp add: psubset_card_mono)
qed simp

declare inherit_order.simps [simp del]

definition merge_config :: "gyp_env \<Rightarrow> string \<Rightarrow> gdict \<Rightarrow> string \<Rightarrow> gdict \<Rightarrow> gdict result" where
  "merge_config env build_file target_dict c new =
     rbind (read_config target_dict c) (\<lambda>cd.
     rbind (MergeDicts env new cd build_file build_file) (\<lambda>new. Inr (AList.delete ''abstract'' new)))"

text \<open>
  \<open>MergeConfigWithInheritance\<close> merges the configurations along \<open>inherit_from\<close>, every parent before
  the configuration that names it, and drops the \<open>abstract\<close> mark; a configuration met again on its own
  path is skipped, so a cycle of inheritance ends.
\<close>

theorem MergeConfigWithInheritance_order:
  assumes "MergeConfigWithInheritance env new bf td c visited = Inr new'"
  shows "rfold (merge_config env bf td) (inherit_order td c visited) new = Inr new'"
  using assms
proof (induction env new bf td c visited arbitrary: new' rule: MergeConfigWithInheritance.induct)
  case (1 env new bf td c visited)
  show ?case
  proof (cases "c \<in> set visited")
    case True
    with "1.prems" show ?thesis by (simp add: MergeConfigWithInheritance.simps inherit_order.simps)
  next
    case False
    let ?step = "\<lambda>parent new. rbind (as_str parent) (\<lambda>parent.
        MergeConfigWithInheritance env new bf td parent (visited @ [c]))"
    let ?order = "\<lambda>p. case p of GStr s \<Rightarrow> inherit_order td s (visited @ [c]) | _ \<Rightarrow> []"
    from False "1.prems" obtain cd parents new1 new2 where
      cd: "read_config td c = Inr cd" "get_iter cd ''inherit_from'' = Inr parents"
      and loop: "rfold ?step parents new = Inr new1"
      and last: "MergeDicts env new1 cd bf bf = Inr new2" "new' = AList.delete ''abstract'' new2"
      by (auto simp: MergeConfigWithInheritance.simps [of env new])
    have "rfold ?step ps d = Inr d' \<Longrightarrow> set ps \<subseteq> set parents \<Longrightarrow>
        rfold (merge_config env bf td) (concat (map ?order ps)) d = Inr d'" for ps d d'
    proof (induction ps arbitrary: d)
      case (Cons p ps)
      then obtain s d1 where p: "p = GStr s" "MergeConfigWithInheritance env d bf td s (visited @ [c]) = Inr d1"
        "rfold ?step ps d1 = Inr d'" by auto
      have "p \<in> set parents" using Cons.prems(2) by simp
      with "1.IH" [OF False cd this _ p(2)] p(1)
      have "rfold (merge_config env bf td) (inherit_order td s (visited @ [c])) d = Inr d1" by simp
      with Cons.IH [OF p(3)] Cons.prems(2) p(1) show ?case by (simp add: rfold_append)
    qed simp
    moreover have "merge_config env bf td c new1 = Inr new'"
      using cd last by (simp add: merge_config_def)
    ultimately show ?thesis
      using loop cd False by (simp add: inherit_order.simps [of td c] rfold_append)
  qed
qed

text \<open>The configuration is the last of the order, so its own scalar settings win.\<close>

lemma MergeDicts_same_file_scalar:
  assumes "MergeDicts env to fro f f = Inr to'" and "wf_dict fro" and "map_of fro k = Some v" and "is_scalar v"
  shows "map_of to' k = Some v"
  using MergeDicts_scalar [OF assms] by (auto simp: merged_scalar_def split: if_splits)

lemma MergeConfigWithInheritance_last:
  assumes "MergeConfigWithInheritance env new bf td c visited = Inr new'" and "c \<notin> set visited"
  shows "\<exists>new1 new2 cd. read_config td c = Inr cd \<and> MergeDicts env new1 cd bf bf = Inr new2
    \<and> new' = AList.delete ''abstract'' new2"
  using assms by (auto simp: MergeConfigWithInheritance.simps [of env new])

lemma MergeConfigWithInheritance_own:
  assumes "MergeConfigWithInheritance env new bf td c [] = Inr new'"
    and "read_config td c = Inr cd" and "wf_dict cd"
    and "map_of cd k = Some v" and "is_scalar v" and "k \<noteq> ''abstract''"
  shows "map_of new' k = Some v"
proof -
  from MergeConfigWithInheritance_last [OF assms(1)] assms(2) obtain new1 new2 where
    "MergeDicts env new1 cd bf bf = Inr new2" "new' = AList.delete ''abstract'' new2" by auto
  with MergeDicts_same_file_scalar [OF this(1) assms(3-5)] assms(6) show ?thesis
    by (simp add: map_of_delete)
qed

section \<open>SetUpConfigurations\<close>

definition key_suffixes :: "char list" where
  "key_suffixes = [CHR ''='', CHR ''+'', CHR ''?'', CHR ''!'', CHR ''/'']"

definition key_base :: "string \<Rightarrow> string" where
  "key_base key = (if key \<noteq> [] \<and> last key \<in> set key_suffixes then butlast key else key)"

definition is_configuration_key :: "gyp_env \<Rightarrow> string \<Rightarrow> bool" where
  "is_configuration_key env key \<longleftrightarrow> key_base key \<notin> set (non_configuration_keys env)"

text \<open>\<open>not configuration_dict.get('abstract')\<close>\<close>

definition is_concrete :: "string \<times> gval \<Rightarrow> bool result" where
  "is_concrete = (\<lambda>(c, v). rbind (as_dict v) (\<lambda>cd. Inr (\<not> get_truthy cd ''abstract'')))"

text \<open>The default configuration is the first concrete one by name.\<close>

definition concrete_names :: "gdict \<Rightarrow> string list result" where
  "concrete_names configurations =
     rbind (rfilter is_concrete configurations) (\<lambda>cs. Inr (map fst cs))"

definition default_configurations :: "gdict \<Rightarrow> gdict result" where
  "default_configurations target_dict =
     (let target_dict =
            (if has_key ''configurations'' target_dict then target_dict
             else AList.update ''configurations'' (GDict [(''Default'', GDict [])]) target_dict)
      in if has_key ''default_configuration'' target_dict then Inr target_dict
         else rbind (read_configs target_dict) (\<lambda>cs.
              rbind (concrete_names cs) (\<lambda>concrete.
              case sort concrete of
                [] \<Rightarrow> Inl IndexError
              | c # _ \<Rightarrow> Inr (AList.update ''default_configuration'' (GStr c) target_dict))))"

definition set_up_configuration :: "gyp_env \<Rightarrow> string \<Rightarrow> string \<Rightarrow> gdict \<Rightarrow> gdict result" where
  "set_up_configuration env build_file configuration target_dict =
     rbind (read_config target_dict configuration) (\<lambda>old_configuration_dict.
     if get_truthy old_configuration_dict ''abstract'' then Inr target_dict
     else rbind (MergeConfigWithInheritance env
                   (filter (\<lambda>(key, v). is_configuration_key env key) target_dict)
                   build_file target_dict configuration []) (\<lambda>new_configuration_dict.
          rbind (read_configs target_dict) (\<lambda>cs.
          Inr (AList.update ''configurations''
                 (GDict (AList.update configuration (GDict new_configuration_dict) cs)) target_dict))))"

definition check_configuration :: "string \<Rightarrow> string \<times> gval \<Rightarrow> unit \<Rightarrow> unit result" where
  "check_configuration target = (\<lambda>(configuration, v) _.
     rbind (as_dict v) (\<lambda>configuration_dict.
     case find (\<lambda>key. key \<in> set invalid_configuration_keys) (map fst configuration_dict) of
       None \<Rightarrow> Inr ()
     | Some key \<Rightarrow>
         Inl (GypError (key @ '' not allowed in the '' @ configuration @ '' configuration, found in target ''
                @ target))))"

definition SetUpConfigurations :: "gyp_env \<Rightarrow> string \<Rightarrow> gdict \<Rightarrow> gdict result" where
  "SetUpConfigurations env target target_dict =
     (let build_file = (case BuildFile target of None \<Rightarrow> [] | Some f \<Rightarrow> f)
      in rbind (default_configurations target_dict) (\<lambda>target_dict.
         rbind (read_configs target_dict) (\<lambda>cs.
         rbind (rfold (set_up_configuration env build_file) (map fst cs) target_dict) (\<lambda>target_dict.
         rbind (read_configs target_dict) (\<lambda>cs.
         rbind (rfilter is_concrete cs) (\<lambda>cs.
         let target_dict = AList.update ''configurations'' (GDict cs) target_dict;
             target_dict = filter (\<lambda>(key, v). \<not> is_configuration_key env key) target_dict
         in rbind (rfold (check_configuration target) cs ()) (\<lambda>_. Inr target_dict)))))))"

section \<open>What SetUpConfigurations leaves\<close>

lemma key_base_plain [simp]:
  "key_base ''configurations'' = ''configurations''" "key_base ''default_configuration'' = ''default_configuration''"
  by (simp_all add: key_base_def key_suffixes_def)

lemma map_of_filter_keys: "map_of (filter (\<lambda>(k, v). P k) d) k = (if P k then map_of d k else None)"
  by (induction d) auto

lemma rfilter_is_concrete:
  "rfilter is_concrete cs = Inr cs' \<Longrightarrow> set cs' =
     {(c, v) \<in> set cs. \<exists>cd. v = GDict cd \<and> \<not> get_truthy cd ''abstract''}"
  by (drule rfilter_Inr) (auto simp: is_concrete_def)

lemma check_configurations_Inr:
  "rfold (check_configuration target) cs () = Inr u \<Longrightarrow> (c, GDict cd) \<in> set cs \<Longrightarrow>
   k \<in> fst ` set cd \<Longrightarrow> k \<notin> set invalid_configuration_keys"
proof (induction cs)
  case (Cons e cs)
  show ?case
  proof (cases "e = (c, GDict cd)")
    case True
    with Cons.prems(1) have "find (\<lambda>key. key \<in> set invalid_configuration_keys) (map fst cd) = None"
      by (auto simp: check_configuration_def split: option.splits)
    with Cons.prems(3) show ?thesis by (auto simp: find_None_iff)
  next
    case False
    with Cons show ?thesis by auto
  qed
qed simp

text \<open>
  The stages of a successful run: defaults, one copy per concrete configuration, the abstract ones
  dropped, the target's other keys dropped.
\<close>

lemma SetUpConfigurations_stages:
  assumes "SetUpConfigurations env target td = Inr td'"
  obtains td1 cs1 td2 cs2 cs3 bf where
    "default_configurations td = Inr td1" "read_configs td1 = Inr cs1"
    "rfold (set_up_configuration env bf) (map fst cs1) td1 = Inr td2"
    "read_configs td2 = Inr cs2" "rfilter is_concrete cs2 = Inr cs3"
    "td' = filter (\<lambda>(key, v). \<not> is_configuration_key env key) (AList.update ''configurations'' (GDict cs3) td2)"
    "rfold (check_configuration target) cs3 () = Inr ()"
  using assms by (auto simp: SetUpConfigurations_def Let_def)

text \<open>
  What \<open>SetUpConfigurations\<close> leaves: no key of the target that belongs to configurations, and no
  abstract configuration, nor one with a key that configurations may not have.
\<close>

theorem SetUpConfigurations_shape:
  assumes "SetUpConfigurations env target td = Inr td'" and "''configurations'' \<in> set (non_configuration_keys env)"
  shows "(\<forall>k \<in> fst ` set td'. \<not> is_configuration_key env k)
    \<and> (\<exists>cs. map_of td' ''configurations'' = Some (GDict cs)
        \<and> (\<forall>(c, v) \<in> set cs. \<exists>cd. v = GDict cd \<and> \<not> get_truthy cd ''abstract''
              \<and> (\<forall>k \<in> fst ` set cd. k \<notin> set invalid_configuration_keys)))"
proof -
  from assms(1) obtain td2 cs2 cs3 where s: "rfilter is_concrete cs2 = Inr cs3"
    "td' = filter (\<lambda>(key, v). \<not> is_configuration_key env key) (AList.update ''configurations'' (GDict cs3) td2)"
    "rfold (check_configuration target) cs3 () = Inr ()"
    by (rule SetUpConfigurations_stages)
  have "\<forall>(c, v) \<in> set cs3. \<exists>cd. v = GDict cd \<and> \<not> get_truthy cd ''abstract''
      \<and> (\<forall>k \<in> fst ` set cd. k \<notin> set invalid_configuration_keys)"
    using rfilter_is_concrete [OF s(1)] check_configurations_Inr [OF s(3)] by fastforce
  moreover have "map_of td' ''configurations'' = Some (GDict cs3)"
    using assms(2) s(2) by (simp add: map_of_filter_keys map_of_update is_configuration_key_def)
  ultimately show ?thesis using s(2) by auto
qed

text \<open>One round replaces one configuration and leaves the others alone.\<close>

lemma read_config_update:
  "read_config (AList.update ''configurations'' (GDict (AList.update c (GDict new) cs)) td) c'
   = (if c' = c then Inr new else rbind (dict_read cs c') as_dict)"
  by (simp add: read_config_def read_configs_def dict_read_def map_of_update)

lemma set_up_configuration_step:
  assumes "set_up_configuration env bf c td = Inr td'"
  shows "config_names td' = config_names td \<and> (\<forall>c'. c' \<noteq> c \<longrightarrow> read_config td' c' = read_config td c')
    \<and> (\<exists>cd. read_config td c = Inr cd
          \<and> (if get_truthy cd ''abstract'' then td' = td
             else \<exists>start new. MergeConfigWithInheritance env start bf td c [] = Inr new \<and> read_config td' c = Inr new))"
proof -
  from assms obtain cd where cd: "read_config td c = Inr cd" by (auto simp: set_up_configuration_def)
  then have c: "c \<in> set (config_names td)" by (rule read_config_name)
  show ?thesis
  proof (cases "get_truthy cd ''abstract''")
    case True
    with assms cd show ?thesis by (simp add: set_up_configuration_def)
  next
    case False
    with assms cd obtain start new cs where
      new: "MergeConfigWithInheritance env start bf td c [] = Inr new" and cs: "read_configs td = Inr cs"
      and td': "td' = AList.update ''configurations'' (GDict (AList.update c (GDict new) cs)) td"
      by (auto simp: set_up_configuration_def)
    have "config_names td' = config_names td"
      using c cs by (simp add: td' config_names_def read_configs_def dict_read_def map_of_update update_keys)
    moreover have "read_config td' c' = (if c' = c then Inr new else read_config td c')" for c'
      using cs by (simp add: td' read_config_update) (simp add: read_config_def)
    ultimately show ?thesis using cd False new by auto
  qed
qed

text \<open>What a concrete configuration of the target has become.\<close>

definition configured :: "gdict \<Rightarrow> gdict \<Rightarrow> bool" where
  "configured cd new \<longleftrightarrow> \<not> has_key ''abstract'' new
     \<and> (\<forall>k v. wf_dict cd \<longrightarrow> map_of cd k = Some v \<longrightarrow> is_scalar v \<longrightarrow> k \<noteq> ''abstract'' \<longrightarrow> map_of new k = Some v)"

lemma MergeConfig_configured:
  assumes "MergeConfigWithInheritance env start bf td c [] = Inr new" and "read_config td c = Inr cd"
  shows "configured cd new"
proof -
  from MergeConfigWithInheritance_last [OF assms(1)] have "\<not> has_key ''abstract'' new"
    by (auto simp: has_key_iff map_of_delete)
  then show ?thesis
    using MergeConfigWithInheritance_own [OF assms] by (simp add: configured_def)
qed

lemma set_up_configurations:
  assumes "rfold (set_up_configuration env bf) todo td = Inr td'" and "distinct todo"
  shows "config_names td' = config_names td \<and> (\<forall>c \<in> set todo. \<exists>cd. read_config td c = Inr cd)
    \<and> (\<forall>c cd. read_config td c = Inr cd \<longrightarrow>
         (if c \<in> set todo \<and> \<not> get_truthy cd ''abstract''
          then \<exists>new. read_config td' c = Inr new \<and> configured cd new
          else read_config td' c = Inr cd))"
  using assms
proof (induction todo arbitrary: td)
  case (Cons c todo)
  then obtain td1 where td1: "set_up_configuration env bf c td = Inr td1"
    "rfold (set_up_configuration env bf) todo td1 = Inr td'" by auto
  note step = set_up_configuration_step [OF td1(1)]
  have ih: "config_names td' = config_names td1" "\<forall>c \<in> set todo. \<exists>cd. read_config td1 c = Inr cd"
    "\<And>c cd. read_config td1 c = Inr cd \<Longrightarrow>
         (if c \<in> set todo \<and> \<not> get_truthy cd ''abstract''
          then \<exists>new. read_config td' c = Inr new \<and> configured cd new else read_config td' c = Inr cd)"
    using Cons.IH [OF td1(2)] Cons.prems(2) by simp_all
  have rest: "if c' \<in> set (c # todo) \<and> \<not> get_truthy cd ''abstract''
          then \<exists>new. read_config td' c' = Inr new \<and> configured cd new
          else read_config td' c' = Inr cd" if c': "read_config td c' = Inr cd" for c' cd
  proof (cases "c' = c")
    case False
    with step c' ih(3) [of c' cd] show ?thesis by simp
  next
    case True
    have nin: "c \<notin> set todo" using Cons.prems(2) by simp
    show ?thesis
    proof (cases "get_truthy cd ''abstract''")
      case abs: True
      with step c' True have "td1 = td" by auto
      with ih(3) [of c cd] c' True nin abs show ?thesis by simp
    next
      case conc: False
      with step c' True obtain start new where
        new: "MergeConfigWithInheritance env start bf td c [] = Inr new" "read_config td1 c = Inr new" by auto
      with ih(3) [of c new] nin have "read_config td' c = Inr new" by simp
      with MergeConfig_configured [OF new(1)] c' True conc show ?thesis by auto
    qed
  qed
  have "\<exists>cd. read_config td c' = Inr cd" if "c' \<in> set (c # todo)" for c'
    using that step ih(2) by (cases "c' = c") auto
  moreover have "config_names td' = config_names td" using step ih(1) by simp
  ultimately show ?case using rest by blast
qed simp

lemma filter_by_key:
  assumes "wf_dict d"
  shows "map fst (filter P d) = filter (\<lambda>k. P (k, the (map_of d k))) (map fst d)"
proof -
  have "filter P d = filter (\<lambda>e. P (fst e, the (map_of d (fst e)))) d"
    using assms by (intro filter_cong) (auto simp: wf_dict_def)
  then show ?thesis by (simp add: filter_map comp_def)
qed

lemma default_configurations_keep:
  assumes "default_configurations td = Inr td1" and "map_of td ''configurations'' = Some v"
  shows "map_of td1 ''configurations'' = Some v"
  using assms
  by (auto simp: default_configurations_def Let_def has_key_iff split: if_splits)
    (auto simp: map_of_update split: list.splits)

text \<open>The concrete configurations are those of before, as they have become.\<close>

lemma concrete_configurations:
  assumes "wf_dict cs" "wf_dict cs2" and names: "map fst cs2 = map fst cs"
    and dicts: "\<And>c. c \<in> fst ` set cs \<Longrightarrow> \<exists>cd. map_of cs c = Some (GDict cd)"
    and become: "\<And>c cd. map_of cs c = Some (GDict cd) \<Longrightarrow>
      (if \<not> get_truthy cd ''abstract''
       then \<exists>new. map_of cs2 c = Some (GDict new) \<and> configured cd new else map_of cs2 c = Some (GDict cd))"
  defines "cs3 \<equiv> filter (\<lambda>e. is_concrete e = Inr True) cs2"
  shows "map fst cs3 = map fst (filter (\<lambda>(c, v). \<exists>cd. v = GDict cd \<and> \<not> get_truthy cd ''abstract'') cs)
    \<and> (\<forall>c cd. map_of cs c = Some (GDict cd) \<and> \<not> get_truthy cd ''abstract'' \<longrightarrow>
          (\<exists>new. map_of cs3 c = Some (GDict new) \<and> configured cd new))"
proof -
  have conc: "is_concrete (c, the (map_of cs2 c)) = Inr True
      \<longleftrightarrow> (\<exists>cd. the (map_of cs c) = GDict cd \<and> \<not> get_truthy cd ''abstract'')"
    if c: "c \<in> fst ` set cs" for c
  proof -
    from dicts [OF c] obtain cd where cd: "map_of cs c = Some (GDict cd)" by blast
    have "configured cd new \<Longrightarrow> \<not> get_truthy new ''abstract''" for new
      by (simp add: configured_def has_key_iff get_truthy_def)
    with become [OF cd] cd show ?thesis by (auto simp: is_concrete_def split: if_splits)
  qed
  have "map fst cs3 = map fst (filter (\<lambda>(c, v). \<exists>cd. v = GDict cd \<and> \<not> get_truthy cd ''abstract'') cs)"
    unfolding cs3_def filter_by_key [OF assms(2)] filter_by_key [OF assms(1)] names
    using conc by (intro filter_cong) auto
  moreover have "\<exists>new. map_of cs3 c = Some (GDict new) \<and> configured cd new"
    if "map_of cs c = Some (GDict cd)" "\<not> get_truthy cd ''abstract''" for c cd
  proof -
    from become [OF that(1)] that(2) obtain new where
      new: "map_of cs2 c = Some (GDict new)" "configured cd new" by auto
    then have "(c, GDict new) \<in> set cs3"
      using map_of_SomeD [OF new(1)]
      by (auto simp: cs3_def is_concrete_def configured_def has_key_iff get_truthy_def)
    moreover have "distinct (map fst cs3)" using assms(2) by (simp add: cs3_def wf_dict_def distinct_map_filter)
    ultimately show ?thesis using new(2) by auto
  qed
  ultimately show ?thesis by blast
qed

text \<open>
  C18: a target keeps exactly its concrete configurations, in order, and each keeps its own scalar
  settings over anything it inherits from the target or from other configurations.
\<close>

theorem SetUpConfigurations_configs:
  assumes run: "SetUpConfigurations env target td = Inr td'"
    and keep: "''configurations'' \<in> set (non_configuration_keys env)"
    and cs: "map_of td ''configurations'' = Some (GDict cs)" and "wf_dict cs"
  shows "\<exists>cs'. map_of td' ''configurations'' = Some (GDict cs')
    \<and> map fst cs' = map fst (filter (\<lambda>(c, v). \<exists>cd. v = GDict cd \<and> \<not> get_truthy cd ''abstract'') cs)
    \<and> (\<forall>c cd. map_of cs c = Some (GDict cd) \<and> \<not> get_truthy cd ''abstract'' \<longrightarrow>
          (\<exists>new. map_of cs' c = Some (GDict new) \<and> configured cd new))"
proof -
  from run obtain td1 cs1 td2 cs2 cs3 bf where s:
    "default_configurations td = Inr td1" "read_configs td1 = Inr cs1"
    "rfold (set_up_configuration env bf) (map fst cs1) td1 = Inr td2"
    "read_configs td2 = Inr cs2" "rfilter is_concrete cs2 = Inr cs3"
    "td' = filter (\<lambda>(key, v). \<not> is_configuration_key env key) (AList.update ''configurations'' (GDict cs3) td2)"
    by (rule SetUpConfigurations_stages)
  have td1: "map_of td1 ''configurations'' = Some (GDict cs)"
    using default_configurations_keep [OF s(1) cs] .
  with s(2) have cs1: "cs1 = cs" by (simp add: read_configs_def)
  have read1: "read_config td1 c = rbind (dict_read cs c) as_dict" for c
    using s(2) by (simp add: read_config_def cs1)
  have read2: "read_config td2 c = rbind (dict_read cs2 c) as_dict" for c
    using s(4) by (simp add: read_config_def)
  have "distinct (map fst cs1)" using \<open>wf_dict cs\<close> by (simp add: cs1 wf_dict_def)
  note loop = set_up_configurations [OF s(3) this]
  then have names: "map fst cs2 = map fst cs" using s(2,4) by (simp add: config_names_def cs1)
  then have wf2: "wf_dict cs2" using \<open>wf_dict cs\<close> by (simp add: wf_dict_def)
  have cs3: "cs3 = filter (\<lambda>e. is_concrete e = Inr True) cs2" by (rule rfilter_Inr [OF s(5)])
  have become: "(if \<not> get_truthy cd ''abstract''
      then \<exists>new. map_of cs2 c = Some (GDict new) \<and> configured cd new else map_of cs2 c = Some (GDict cd))"
    if "map_of cs c = Some (GDict cd)" for c cd
  proof -
    from that have "read_config td1 c = Inr cd" "c \<in> set (map fst cs1)"
      by (auto simp: read1 cs1 dest: map_of_key)
    with loop have "if \<not> get_truthy cd ''abstract''
        then \<exists>new. read_config td2 c = Inr new \<and> configured cd new else read_config td2 c = Inr cd"
      by metis
    then show ?thesis by (cases "get_truthy cd ''abstract''") (simp_all add: read2)
  qed
  have dicts: "\<exists>cd. map_of cs c = Some (GDict cd)" if "c \<in> fst ` set cs" for c
    using loop that by (auto simp: read1 cs1)
  have td': "map_of td' ''configurations'' = Some (GDict cs3)"
    using keep s(6) by (simp add: map_of_filter_keys map_of_update is_configuration_key_def)
  with concrete_configurations [OF \<open>wf_dict cs\<close> wf2 names dicts become] show ?thesis
    by (simp add: cs3)
qed

section \<open>A target with an abstract and a concrete configuration\<close>

definition ex_target :: gdict where
  "ex_target =
     [(''target_name'', GStr ''app''), (''defines'', GList [GStr ''ALL'']),
      (''configurations'', GDict
         [(''Base'', GDict [(''abstract'', GInt 1), (''opt'', GStr ''0''), (''defines'', GList [GStr ''B''])]),
          (''Release'', GDict [(''inherit_from'', GList [GStr ''Base'']), (''opt'', GStr ''2'')])])]"

definition ex_done :: gdict where
  "ex_done =
     [(''target_name'', GStr ''app''),
      (''configurations'', GDict
         [(''Release'', GDict [(''defines'', GList [GStr ''ALL'', GStr ''B'']), (''opt'', GStr ''2''),
             (''inherit_from'', GList [GStr ''Base''])])]),
      (''default_configuration'', GStr ''Release'')]"

lemma ex_target_run: "SetUpConfigurations ex_globals ''x.gyp:app#target'' ex_target = Inr ex_done"
  by code_simp

lemma ex_configurations: "''configurations'' \<in> set (non_configuration_keys ex_globals)"
  by code_simp

theorem MergeConfigWithInheritance_witness:
  "rfold (merge_config ex_globals ''x.gyp'' ex_target) (inherit_order ex_target ''Release'' []) []
   = Inr [(''opt'', GStr ''2''), (''defines'', GList [GStr ''B'']), (''inherit_from'', GList [GStr ''Base''])]"
  by (rule MergeConfigWithInheritance_order) code_simp

theorem SetUpConfigurations_shape_witness:
  "\<exists>cs. map_of ex_done ''configurations'' = Some (GDict cs) \<and> map fst cs = [''Release'']
    \<and> (\<exists>cd. snd (hd cs) = GDict cd \<and> \<not> get_truthy cd ''abstract'')"
proof -
  from SetUpConfigurations_shape [OF ex_target_run ex_configurations] obtain cs where
    cs: "map_of ex_done ''configurations'' = Some (GDict cs)"
      "\<forall>(c, v) \<in> set cs. \<exists>cd. v = GDict cd \<and> \<not> get_truthy cd ''abstract''" by fast
  moreover from this(1) have names: "map fst cs = [''Release'']" by (auto simp: ex_done_def)
  moreover from this obtain v where "cs = [(''Release'', v)]" by (cases cs) auto
  with cs(2) have "\<exists>cd. snd (hd cs) = GDict cd \<and> \<not> get_truthy cd ''abstract''" by simp
  ultimately show ?thesis by - (rule exI [of _ cs], intro conjI)
qed

theorem SetUpConfigurations_configs_witness:
  "\<exists>cs' new. map_of ex_done ''configurations'' = Some (GDict cs') \<and> map fst cs' = [''Release'']
    \<and> map_of cs' ''Release'' = Some (GDict new) \<and> map_of new ''opt'' = Some (GStr ''2'')"
proof -
  let ?release = "[(''inherit_from'', GList [GStr ''Base'']), (''opt'', GStr ''2'')]"
  let ?cs = "[(''Base'', GDict [(''abstract'', GInt 1), (''opt'', GStr ''0''), (''defines'', GList [GStr ''B''])]),
     (''Release'', GDict ?release)]"
  have cs: "map_of ex_target ''configurations'' = Some (GDict ?cs)" "wf_dict ?cs"
    by (simp_all add: ex_target_def wf_dict_def)
  from SetUpConfigurations_configs [OF ex_target_run ex_configurations this] obtain cs' where
    cs': "map_of ex_done ''configurations'' = Some (GDict cs')"
      "map fst cs' = map fst (filter (\<lambda>(c, v). \<exists>cd. v = GDict cd \<and> \<not> get_truthy cd ''abstract'') ?cs)"
      "\<forall>c cd. map_of ?cs c = Some (GDict cd) \<and> \<not> get_truthy cd ''abstract'' \<longrightarrow>
          (\<exists>new. map_of cs' c = Some (GDict new) \<and> configured cd new)" by blast
  have "map_of ?cs ''Release'' = Some (GDict ?release)" "\<not> get_truthy ?release ''abstract''" "wf_dict ?release"
    by (simp_all add: get_truthy_def wf_dict_def)
  with cs'(3) obtain new where "map_of cs' ''Release'' = Some (GDict new)" "configured ?release new" by blast
  moreover from this(2) \<open>wf_dict ?release\<close> have "map_of new ''opt'' = Some (GStr ''2'')"
    unfolding configured_def by simp
  moreover from cs'(2) have "map fst cs' = [''Release'']" by (simp add: get_truthy_def)
  ultimately show ?thesis using cs'(1) by (intro exI [of _ cs'] exI [of _ new] conjI)
qed

end
