(* ===== verification/Gyp_Filter.thy ===== *)
theory Gyp_Filter
  imports Gyp_Value
begin

text \<open>
  \<open>input.py\<close>: \<open>ProcessListFiltersInDict\<close> and \<open>ProcessListFiltersInList\<close>, the exclusion lists
  (\<open>sources!\<close>) and regular-expression filters (\<open>sources/\<close>). \<open>re.compile(pattern).search\<close> is the
  parameter \<open>compile\<close>: the language of patterns is the regular-expression engine's.
\<close>

type_synonym re_compile = "string \<Rightarrow> (string \<Rightarrow> bool) result"

section \<open>Collecting the filtered lists\<close>

definition collect_filter ::
  "string \<Rightarrow> gdict \<Rightarrow> string \<times> gval \<Rightarrow> string list \<times> string list \<Rightarrow> (string list \<times> string list) result" where
  "collect_filter name the_dict = (\<lambda>(key, value) (lists, del_lists).
     if key = [] then Inl IndexError
     else let operation = last key; list_key = butlast key
          in if operation \<noteq> CHR ''!'' \<and> operation \<noteq> CHR ''/'' then Inr (lists, del_lists)
             else case value of
               GList _ \<Rightarrow>
                 (case map_of the_dict list_key of
                    None \<Rightarrow> Inr (lists, del_lists @ [key])
                  | Some (GList _) \<Rightarrow>
                      Inr (if list_key \<in> set lists then lists else lists @ [list_key], del_lists)
                  | Some _ \<Rightarrow>
                      Inl (ValueError (name @ '' key '' @ list_key @ '' must be list, not ''
                        @ class_name value @ '' when applying ''
                        @ (if operation = CHR ''!'' then ''exclusion'' else ''regex''))))
             | _ \<Rightarrow> Inl (ValueError (name @ '' key '' @ key @ '' must be list, not '' @ class_name value)))"

section \<open>Applying the filters of one list\<close>

text \<open>\<open>list_actions\<close>: 0 excludes the item at that index, 1 includes it, -1 is no action yet.\<close>

definition exclude_actions :: "gval list \<Rightarrow> gval \<Rightarrow> int list \<Rightarrow> int list" where
  "exclude_actions the_list exclude_item list_actions =
     map2 (\<lambda>item action. if py_eq exclude_item item then 0 else action) the_list list_actions"

text \<open>\<open>[action, pattern] = regex_item\<close>, then the action's value and the compiled pattern.\<close>

definition regex_filter ::
  "re_compile \<Rightarrow> string \<Rightarrow> string \<Rightarrow> gval \<Rightarrow> (int \<times> (string \<Rightarrow> bool)) result" where
  "regex_filter compile name regex_key regex_item =
     rbind (py_iter regex_item) (\<lambda>parts.
       case parts of
         [action, pattern] \<Rightarrow>
           rbind (as_str pattern) (\<lambda>p.
           rbind (compile p) (\<lambda>search.
             if action = GStr ''exclude'' then Inr (0, search)
             else if action = GStr ''include'' then Inr (1, search)
             else rbind (as_str action) (\<lambda>a.
                  Inl (ValueError (''Unrecognized action '' @ a @ '' in '' @ name @ '' key '' @ regex_key)))))
       | _ \<Rightarrow> Inl (ValueError ''wrong number of values to unpack''))"

definition regex_actions :: "gval list \<Rightarrow> int \<times> (string \<Rightarrow> bool) \<Rightarrow> int list \<Rightarrow> int list result" where
  "regex_actions the_list = (\<lambda>(action_value, search) list_actions.
     rmap (\<lambda>(list_item, action).
       if action = action_value then Inr action
       else rbind (as_str list_item) (\<lambda>s. Inr (if search s then action_value else action)))
       (zip the_list list_actions))"

definition list_actions ::
  "re_compile \<Rightarrow> string \<Rightarrow> string \<Rightarrow> gdict \<Rightarrow> gval list \<Rightarrow> int list result" where
  "list_actions compile name list_key the_dict the_list =
     rbind (get_iter the_dict (list_key @ ''!'')) (\<lambda>excludes.
     rbind (get_iter the_dict (list_key @ ''/'')) (\<lambda>regexes.
     rfold (\<lambda>regex_item actions.
        rbind (regex_filter compile name (list_key @ ''/'') regex_item) (\<lambda>f.
        regex_actions the_list f actions))
       regexes
       (fold (exclude_actions the_list) excludes (replicate (length the_list) (- 1)))))"

definition excluded_key :: "string \<Rightarrow> string" where
  "excluded_key list_key = list_key @ ''_excluded''"

definition apply_filters :: "re_compile \<Rightarrow> string \<Rightarrow> string \<Rightarrow> gdict \<Rightarrow> gdict result" where
  "apply_filters compile name list_key the_dict =
     rbind (dict_read the_dict list_key) (\<lambda>v.
     rbind (as_list v) (\<lambda>the_list.
     rbind (list_actions compile name list_key the_dict the_list) (\<lambda>actions.
     let the_dict = AList.delete (list_key @ ''!'') the_dict;
         the_dict = AList.delete (list_key @ ''/'') the_dict
     in if has_key (excluded_key list_key) the_dict
        then Inl (GypError (name @ '' key '' @ excluded_key list_key
               @ '' must not be present prior to applying exclusion/regex filters for '' @ list_key))
        else let excluded = map fst (filter (\<lambda>(x, a). a = 0) (zip the_list actions));
                 kept = map fst (filter (\<lambda>(x, a). a \<noteq> 0) (zip the_list actions));
                 the_dict = AList.update list_key (GList kept) the_dict
             in Inr (if excluded \<noteq> [] then AList.update (excluded_key list_key) (GList excluded) the_dict
                     else the_dict))))"

definition filter_lists :: "re_compile \<Rightarrow> string \<Rightarrow> gdict \<Rightarrow> gdict result" where
  "filter_lists compile name the_dict =
     rbind (rfold (collect_filter name the_dict) the_dict ([], [])) (\<lambda>(lists, del_lists).
     rfold (apply_filters compile name) lists
       (fold AList.delete del_lists the_dict))"

section \<open>Recursion into nested dictionaries and lists\<close>

text \<open>Every value a level leaves is no larger than one it found.\<close>

definition value_bound :: "gdict \<Rightarrow> gdict \<Rightarrow> bool" where
  "value_bound d d' \<longleftrightarrow> (\<forall>v \<in> snd ` set d'. \<exists>v' \<in> snd ` set d. size v \<le> size v')"

lemma value_bound_refl [simp]: "value_bound d d"
  unfolding value_bound_def by (blast intro: order_refl)

lemma value_bound_trans: "value_bound a b \<Longrightarrow> value_bound b c \<Longrightarrow> value_bound a c"
  unfolding value_bound_def by (meson order_trans)

lemma value_bound_delete: "value_bound d (AList.delete k d)"
proof -
  have "set (AList.delete k d) \<subseteq> set d" by (auto simp: AList.delete_eq)
  then show ?thesis unfolding value_bound_def by (meson image_mono order_refl subsetD)
qed

lemma size_filtered: "size_list f (map fst (filter P (zip xs ys))) \<le> size_list f xs"
  by (induction xs ys rule: list_induct2') (auto simp: comp_def)

lemma apply_filters_Inr:
  assumes "apply_filters compile name k d = Inr d'"
  shows "\<exists>l actions. map_of d k = Some (GList l) \<and> list_actions compile name k d l = Inr actions
    \<and> \<not> has_key (excluded_key k) (AList.delete (k @ ''/'') (AList.delete (k @ ''!'') d))
    \<and> d' = (let e = AList.update k (GList (map fst (filter (\<lambda>(x, a). a \<noteq> 0) (zip l actions))))
                         (AList.delete (k @ ''/'') (AList.delete (k @ ''!'') d));
                   excluded = map fst (filter (\<lambda>(x, a). a = 0) (zip l actions))
               in if excluded \<noteq> [] then AList.update (excluded_key k) (GList excluded) e else e)"
proof -
  from assms obtain l actions where 1: "map_of d k = Some (GList l)" "list_actions compile name k d l = Inr actions"
    by (auto simp: apply_filters_def)
  with assms show ?thesis
    by (intro exI [of _ l] exI [of _ actions])
      (simp add: apply_filters_def dict_read_def Let_def split: if_split_asm)
qed

lemma apply_filters_bound:
  assumes "apply_filters compile name k d = Inr d'"
  shows "value_bound d d'"
proof -
  from assms obtain l and actions :: "int list" where l: "map_of d k = Some (GList l)"
    and d': "d' = (let e = AList.update k (GList (map fst (filter (\<lambda>(x, a). a \<noteq> 0) (zip l actions))))
                         (AList.delete (k @ ''/'') (AList.delete (k @ ''!'') d));
                   excluded = map fst (filter (\<lambda>(x, a). a = 0) (zip l actions))
               in if excluded \<noteq> [] then AList.update (excluded_key k) (GList excluded) e else e)"
    using apply_filters_Inr [OF assms] by blast
  define e where "e = AList.delete (k @ ''/'') (AList.delete (k @ ''!'') d)"
  define kept where "kept = map fst (filter (\<lambda>(x, a). a \<noteq> 0) (zip l actions))"
  define excluded where "excluded = map fst (filter (\<lambda>(x, a). a = 0) (zip l actions))"
  have "map_of e k = Some (GList l)" using l by (simp add: e_def map_of_delete)
  then have e: "(k, GList l) \<in> set e" by (rule map_of_SomeD)
  have d: "value_bound d e"
    unfolding e_def by (rule value_bound_trans [OF value_bound_delete value_bound_delete])
  then obtain v' where v': "v' \<in> snd ` set d" "size (GList l) \<le> size v'"
    using e unfolding value_bound_def by (metis image_eqI snd_conv)
  have small: "size (GList kept) \<le> size v'" "size (GList excluded) \<le> size v'"
    using v'(2) size_filtered [of size "\<lambda>(x, a). a \<noteq> 0" l actions]
      size_filtered [of size "\<lambda>(x, a). a = 0" l actions]
    by (simp_all add: kept_def excluded_def)
  have upd: "value_bound d (AList.update x v f)" if "value_bound d f" "size v \<le> size v'" for x v f
  proof -
    have "set (AList.update x v f) \<subseteq> insert (x, v) (set f)" by (induction f) auto
    then have "snd ` set (AList.update x v f) \<subseteq> insert v (snd ` set f)" by auto
    with that v'(1) show ?thesis unfolding value_bound_def by blast
  qed
  have "d' = (if excluded \<noteq> [] then AList.update (excluded_key k) (GList excluded) (AList.update k (GList kept) e)
      else AList.update k (GList kept) e)"
    using d' by (simp add: e_def kept_def excluded_def Let_def)
  with upd d small show ?thesis by simp
qed

lemma filter_lists_bound:
  assumes "filter_lists compile name d = Inr d'"
  shows "value_bound d d'"
proof -
  have del: "value_bound e (fold AList.delete ks e)" for ks e
    by (induction ks arbitrary: e) (simp, metis fold_simps(2) value_bound_delete value_bound_trans)
  from assms obtain lists dels where
    "rfold (apply_filters compile name) lists (fold AList.delete dels d) = Inr d'"
    by (auto simp: filter_lists_def)
  then show ?thesis
    by (rule rfold_invariant [where P = "value_bound d", OF _ del])
      (blast intro: value_bound_trans apply_filters_bound)
qed

lemma filter_lists_size:
  assumes "filter_lists compile name d = Inr d'" and "(k, v) \<in> set d'"
  shows "size v < Suc (size_list (size_prod (\<lambda>_. 0) size) d)"
proof -
  from filter_lists_bound [OF assms(1)] assms(2) obtain k' v' where
    v': "(k', v') \<in> set d" "size v \<le> size v'" unfolding value_bound_def by force
  have "size v' \<le> size_list (size_prod (\<lambda>_. 0) size) d"
    using v'(1) by (rule size_list_estimation') simp
  with v'(2) show ?thesis by simp
qed

function (sequential)
  ProcessListFiltersInDict :: "re_compile \<Rightarrow> string \<Rightarrow> gdict \<Rightarrow> gdict result"
  and ProcessListFiltersInList :: "re_compile \<Rightarrow> string \<Rightarrow> gval list \<Rightarrow> gval list result"
where
  "ProcessListFiltersInDict compile name the_dict =
     rbind (filter_lists compile name the_dict)
       (rmap (\<lambda>(key, v).
          case v of
            GDict d \<Rightarrow> rbind (ProcessListFiltersInDict compile key d) (\<lambda>d. Inr (key, GDict d))
          | GList l \<Rightarrow> rbind (ProcessListFiltersInList compile key l) (\<lambda>l. Inr (key, GList l))
          | v \<Rightarrow> Inr (key, v)))"
| "ProcessListFiltersInList compile name the_list =
     rmap (\<lambda>item.
       case item of
         GDict d \<Rightarrow> rbind (ProcessListFiltersInDict compile name d) (\<lambda>d. Inr (GDict d))
       | GList l \<Rightarrow> rbind (ProcessListFiltersInList compile name l) (\<lambda>l. Inr (GList l))
       | item \<Rightarrow> Inr item)
      the_list"
  by pat_completeness auto
termination
proof (relation "measure (\<lambda>x. case x of
    Inl (compile, name, d) \<Rightarrow> size_list (size_prod (\<lambda>_. 0) size) d
  | Inr (compile, name, l) \<Rightarrow> size_list size l)", goal_cases)
  case (2 compile name d d' kv k v e)
  then show ?case using filter_lists_size [of compile name d d' k v] by simp
next
  case (3 compile name d d' kv k v l)
  then show ?case using filter_lists_size [of compile name d d' k v] by simp
qed (auto simp: less_Suc_eq_le intro: size_list_estimation size_list_estimation')

declare ProcessListFiltersInDict.simps [simp del] ProcessListFiltersInList.simps [simp del]

section \<open>The last matching filter decides\<close>

definition search_val :: "(string \<Rightarrow> bool) \<Rightarrow> gval \<Rightarrow> bool" where
  "search_val search item = (case item of GStr s \<Rightarrow> search s | _ \<Rightarrow> False)"

text \<open>
  The action of an item, stated without the loop: that of the last regular expression that
  matches, else exclusion by name.
\<close>

definition item_action :: "gval list \<Rightarrow> (int \<times> (string \<Rightarrow> bool)) list \<Rightarrow> gval \<Rightarrow> int" where
  "item_action excludes filters item =
     (case find (\<lambda>(action_value, search). search_val search item) (rev filters) of
        Some (action_value, search) \<Rightarrow> action_value
      | None \<Rightarrow> if \<exists>e \<in> set excludes. py_eq e item then 0 else - 1)"

lemma item_action_snoc:
  "item_action excludes (filters @ [(a, search)]) x =
     (if search_val search x then a else item_action excludes filters x)"
  by (simp add: item_action_def)

lemma regex_actions_map:
  "regex_actions l (a, search) (map g l) = Inr actions \<Longrightarrow>
   actions = map (\<lambda>x. if search_val search x then a else g x) l"
proof (induction l arbitrary: actions)
  case (Cons x l)
  then show ?case by (cases x) (auto simp: regex_actions_def search_val_def split: if_splits)
qed (simp add: regex_actions_def)

lemma exclude_actions_map:
  "fold (exclude_actions l) excludes (map g l) =
     map (\<lambda>x. if \<exists>e \<in> set excludes. py_eq e x then 0 else g x) l"
proof (induction excludes arbitrary: g)
  case (Cons e excludes)
  have "exclude_actions l e (map g l) = map (\<lambda>x. if py_eq e x then 0 else g x) l"
    unfolding exclude_actions_def by (induction l) auto
  then show ?case by (simp add: Cons.IH)
qed simp

lemma regex_loop:
  assumes "rfold (\<lambda>r actions. rbind (regex_filter compile name key r) (\<lambda>f. regex_actions l f actions))
      regexes (map (item_action excludes filters) l) = Inr actions"
  shows "\<exists>more. rmap (regex_filter compile name key) regexes = Inr more
    \<and> actions = map (item_action excludes (filters @ more)) l"
  using assms
proof (induction regexes arbitrary: filters)
  case (Cons r regexes)
  then obtain a search actions1 where f: "regex_filter compile name key r = Inr (a, search)"
    "regex_actions l (a, search) (map (item_action excludes filters) l) = Inr actions1"
    "rfold (\<lambda>r actions. rbind (regex_filter compile name key r) (\<lambda>f. regex_actions l f actions))
      regexes actions1 = Inr actions" by auto
  from regex_actions_map [OF f(2)] have "actions1 = map (item_action excludes (filters @ [(a, search)])) l"
    by (simp add: item_action_snoc [abs_def])
  with Cons.IH [of "filters @ [(a, search)]"] f show ?case by auto
qed simp

lemma list_actions_spec:
  assumes "list_actions compile name k d l = Inr actions"
  shows "\<exists>excludes regexes filters. get_iter d (k @ ''!'') = Inr excludes
    \<and> get_iter d (k @ ''/'') = Inr regexes \<and> rmap (regex_filter compile name (k @ ''/'')) regexes = Inr filters
    \<and> actions = map (item_action excludes filters) l"
proof -
  from assms obtain excludes regexes where 1: "get_iter d (k @ ''!'') = Inr excludes"
    "get_iter d (k @ ''/'') = Inr regexes"
    "rfold (\<lambda>r actions. rbind (regex_filter compile name (k @ ''/'') r) (\<lambda>f. regex_actions l f actions))
      regexes (fold (exclude_actions l) excludes (replicate (length l) (- 1))) = Inr actions"
    by (auto simp: list_actions_def)
  have "fold (exclude_actions l) excludes (replicate (length l) (- 1)) = map (item_action excludes []) l"
    using exclude_actions_map [of l excludes "\<lambda>_. - 1"]
    by (simp add: item_action_def [abs_def] map_replicate_const)
  with regex_loop [where filters = "[]"] 1 show ?thesis by fastforce
qed

lemma zip_map_filter: "map fst (filter (\<lambda>(x, a). P a) (zip l (map g l))) = filter (\<lambda>x. P (g x)) l"
  by (induction l) auto

lemma apply_filters_split:
  assumes "apply_filters compile name k d = Inr d'"
  shows "\<exists>l excludes regexes filters. map_of d k = Some (GList l)
    \<and> get_iter d (k @ ''!'') = Inr excludes \<and> get_iter d (k @ ''/'') = Inr regexes
    \<and> rmap (regex_filter compile name (k @ ''/'')) regexes = Inr filters
    \<and> map_of d' k = Some (GList (filter (\<lambda>x. item_action excludes filters x \<noteq> 0) l))
    \<and> dict_get d' (excluded_key k) (GList []) = GList (filter (\<lambda>x. item_action excludes filters x = 0) l)
    \<and> map_of d' (k @ ''!'') = None \<and> map_of d' (k @ ''/'') = None
    \<and> (\<forall>x. x \<notin> {k, k @ ''!'', k @ ''/'', excluded_key k} \<longrightarrow> map_of d' x = map_of d x)"
proof -
  from apply_filters_Inr [OF assms] obtain l actions where
    l: "map_of d k = Some (GList l)" "list_actions compile name k d l = Inr actions"
    "\<not> has_key (excluded_key k) (AList.delete (k @ ''/'') (AList.delete (k @ ''!'') d))"
    "d' = (let e = AList.update k (GList (map fst (filter (\<lambda>(x, a). a \<noteq> 0) (zip l actions))))
                         (AList.delete (k @ ''/'') (AList.delete (k @ ''!'') d));
                   excluded = map fst (filter (\<lambda>(x, a). a = 0) (zip l actions))
               in if excluded \<noteq> [] then AList.update (excluded_key k) (GList excluded) e else e)"
    by blast
  from list_actions_spec [OF l(2)] obtain excludes regexes filters where
    s: "get_iter d (k @ ''!'') = Inr excludes" "get_iter d (k @ ''/'') = Inr regexes"
    "rmap (regex_filter compile name (k @ ''/'')) regexes = Inr filters"
    "actions = map (item_action excludes filters) l" by blast
  have ne: "k \<noteq> excluded_key k" "excluded_key k \<noteq> k @ ''!''" "excluded_key k \<noteq> k @ ''/''"
    by (simp_all add: excluded_key_def)
  define kept where "kept = filter (\<lambda>x. item_action excludes filters x \<noteq> 0) l"
  define excluded where "excluded = filter (\<lambda>x. item_action excludes filters x = 0) l"
  have d': "d' = (if excluded \<noteq> []
       then AList.update (excluded_key k) (GList excluded)
         (AList.update k (GList kept) (AList.delete (k @ ''/'') (AList.delete (k @ ''!'') d)))
       else AList.update k (GList kept) (AList.delete (k @ ''/'') (AList.delete (k @ ''!'') d)))"
    using l(4) by (simp only: s(4) zip_map_filter kept_def excluded_def Let_def)
  have "dict_get d' (excluded_key k) (GList []) = GList excluded"
    using l(3) ne unfolding d' by (auto simp: dict_get_def map_of_update map_of_delete has_key_iff)
  moreover have "map_of d' k = Some (GList kept)" "map_of d' (k @ ''!'') = None" "map_of d' (k @ ''/'') = None"
    "\<forall>x. x \<notin> {k, k @ ''!'', k @ ''/'', excluded_key k} \<longrightarrow> map_of d' x = map_of d x"
    using ne unfolding d' by (auto simp: map_of_update map_of_delete)
  ultimately show ?thesis using l(1) s(1-3) unfolding kept_def excluded_def by blast
qed

section \<open>No filter key is left\<close>

definition is_filter_key :: "string \<Rightarrow> bool" where
  "is_filter_key key \<longleftrightarrow> key \<noteq> [] \<and> last key \<in> {CHR ''!'', CHR ''/''}"

lemma collect_filter_Inr:
  assumes "collect_filter name d (key, v) (kls, dels) = Inr (kls', dels')"
  shows "set kls \<subseteq> set kls' \<and> set dels \<subseteq> set dels'
    \<and> (is_filter_key key \<longrightarrow> key \<in> set dels' \<or> butlast key \<in> set kls')"
  using assms
  by (auto simp: collect_filter_def is_filter_key_def Let_def split: if_splits gval.splits option.splits)

lemma collect_filters_Inr:
  assumes "rfold (collect_filter name d) es (kls, dels) = Inr (kls', dels')"
  shows "set kls \<subseteq> set kls' \<and> set dels \<subseteq> set dels'
    \<and> (\<forall>key \<in> fst ` set es. is_filter_key key \<longrightarrow> key \<in> set dels' \<or> butlast key \<in> set kls')"
  using assms
proof (induction es arbitrary: kls dels)
  case (Cons e es)
  obtain key v where e: "e = (key, v)" by (cases e)
  with Cons.prems obtain l1 d1 where 1: "collect_filter name d (key, v) (kls, dels) = Inr (l1, d1)"
    "rfold (collect_filter name d) es (l1, d1) = Inr (kls', dels')" by auto
  from collect_filter_Inr [OF 1(1)] Cons.IH [OF 1(2)] e show ?case by auto
qed simp

lemma apply_filters_keys:
  assumes "apply_filters compile name k d = Inr d'" and "is_filter_key key" and "map_of d' key \<noteq> None"
  shows "map_of d key \<noteq> None \<and> butlast key \<noteq> k"
proof -
  from apply_filters_split [OF assms(1)] have
    "map_of d k \<noteq> None" "map_of d' (k @ ''!'') = None" "map_of d' (k @ ''/'') = None"
    "\<forall>x. x \<notin> {k, k @ ''!'', k @ ''/'', excluded_key k} \<longrightarrow> map_of d' x = map_of d x" by auto
  moreover have "key \<noteq> excluded_key k"
    using assms(2) by (auto simp: is_filter_key_def excluded_key_def)
  moreover have "key = butlast key @ [last key]" "last key \<in> {CHR ''!'', CHR ''/''}"
    using assms(2) by (auto simp: is_filter_key_def)
  ultimately show ?thesis using assms(3) by (metis empty_iff insert_iff)
qed

text \<open>
  After a dictionary's filters have run, it has no key that ends in an exclamation mark or a
  slash, at whatever list the filters pointed and whether that list exists or not.
\<close>

theorem filter_lists_done:
  assumes "filter_lists compile name d = Inr d'" and "is_filter_key key"
  shows "map_of d' key = None"
proof (rule ccontr)
  assume left: "map_of d' key \<noteq> None"
  from assms(1) obtain kls dels where
    collect: "rfold (collect_filter name d) d ([], []) = Inr (kls, dels)"
    and loop: "rfold (apply_filters compile name) kls (fold AList.delete dels d) = Inr d'"
    by (auto simp: filter_lists_def)
  have prev: "map_of e key \<noteq> None \<and> butlast key \<notin> set ks"
    if "rfold (apply_filters compile name) ks e = Inr d'" for ks e
    using that
  proof (induction ks arbitrary: e)
    case Nil
    with left show ?case by simp
  next
    case (Cons k ks)
    then obtain e1 where "apply_filters compile name k e = Inr e1" "map_of e1 key \<noteq> None" "butlast key \<notin> set ks"
      by auto
    with apply_filters_keys [OF _ assms(2)] show ?case by auto
  qed
  have del: "map_of (fold AList.delete ks e) x = (if x \<in> set ks then None else map_of e x)" for ks e x
    by (induction ks arbitrary: e) (auto simp: map_of_delete)
  from prev [OF loop] have "map_of d key \<noteq> None" "key \<notin> set dels" "butlast key \<notin> set kls"
    by (auto simp: del split: if_splits)
  with collect_filters_Inr [OF collect] assms(2) show False by (auto dest: map_of_key)
qed

section \<open>What becomes of a filtered list\<close>

text \<open>
  C17: the filters of a list split it in two: the items that stay under its key and the excluded
  items under its \<open>_excluded\<close> key, both in the old order. An item's fate is that of the last regular
  expression that matches it and, where none does, whether an exclusion list names it.
\<close>

theorem apply_filters_partition:
  assumes "apply_filters compile name k d = Inr d'"
  shows "\<exists>l excludes regexes filters. map_of d k = Some (GList l)
    \<and> get_iter d (k @ ''!'') = Inr excludes \<and> get_iter d (k @ ''/'') = Inr regexes
    \<and> rmap (regex_filter compile name (k @ ''/'')) regexes = Inr filters
    \<and> map_of d' k = Some (GList (filter (\<lambda>x. item_action excludes filters x \<noteq> 0) l))
    \<and> dict_get d' (excluded_key k) (GList []) = GList (filter (\<lambda>x. item_action excludes filters x = 0) l)
    \<and> map_of d' (k @ ''!'') = None \<and> map_of d' (k @ ''/'') = None
    \<and> (\<forall>x. x \<notin> {k, k @ ''!'', k @ ''/'', excluded_key k} \<longrightarrow> map_of d' x = map_of d x)"
  by (rule apply_filters_split [OF assms])

text \<open>A pattern language for the example: a pattern matches the strings it begins.\<close>

definition ex_compile :: re_compile where
  "ex_compile pattern = Inr (prefix pattern)"

definition ex_filtered :: gdict where
  "ex_filtered =
     [(''sources'', GList [GStr ''a.cc'', GStr ''b.cc'', GStr ''a_mac.cc'']),
      (''sources!'', GList [GStr ''b.cc'']),
      (''sources/'', GList [GList [GStr ''exclude'', GStr ''a''], GList [GStr ''include'', GStr ''a_mac'']])]"

definition ex_split :: gdict where
  "ex_split = [(''sources'', GList [GStr ''a_mac.cc'']), (''sources_excluded'', GList [GStr ''a.cc'', GStr ''b.cc''])]"

theorem apply_filters_witness:
  "\<exists>l excludes filters. map_of ex_filtered ''sources'' = Some (GList l)
    \<and> get_iter ex_filtered ''sources!'' = Inr excludes
    \<and> filter (\<lambda>x. item_action excludes filters x \<noteq> 0) l = [GStr ''a_mac.cc'']"
proof -
  have run: "apply_filters ex_compile ''t'' ''sources'' ex_filtered = Inr ex_split"
    by code_simp
  show ?thesis
    using apply_filters_partition [OF run]
    by (elim exE conjE) (intro exI conjI, assumption, simp, simp add: ex_split_def)
qed

theorem filter_lists_witness: "map_of ex_split ''sources/'' = None"
proof (rule filter_lists_done)
  show "filter_lists ex_compile ''t'' ex_filtered = Inr ex_split" by code_simp
  show "is_filter_key ''sources/''" by code_simp
qed

section \<open>Well-formed values stay well formed\<close>

lemma filtered_wf: "list_all wf_gval l \<Longrightarrow> list_all wf_gval (map fst (filter P (zip l actions)))"
  by (auto simp: list_all_iff dest: set_zip_leftD)

lemma apply_filters_wf:
  assumes "apply_filters compile name k d = Inr d'" and "wf_gdict d"
  shows "wf_gdict d'"
proof -
  from apply_filters_Inr [OF assms(1)] obtain l and actions :: "int list" where l: "map_of d k = Some (GList l)"
    and d': "d' = (let e = AList.update k (GList (map fst (filter (\<lambda>(x, a). a \<noteq> 0) (zip l actions))))
                         (AList.delete (k @ ''/'') (AList.delete (k @ ''!'') d));
                   excluded = map fst (filter (\<lambda>(x, a). a = 0) (zip l actions))
               in if excluded \<noteq> [] then AList.update (excluded_key k) (GList excluded) e else e)"
    by blast
  from wf_gdict_lookup [OF assms(2) l] have "list_all wf_gval l" by simp
  then have "wf_gval (GList (map fst (filter P (zip l actions))))" for P by (simp only: wf_gval.simps filtered_wf)
  with assms(2) show ?thesis by (simp only: d' Let_def wf_gdict_update wf_gdict_delete if_split) blast
qed

lemma filter_lists_wf:
  assumes "filter_lists compile name d = Inr d'" and "wf_gdict d"
  shows "wf_gdict d'"
proof -
  have del: "wf_gdict (fold AList.delete ks d)" for ks
    using assms(2) by (induction ks arbitrary: d) simp_all
  from assms(1) obtain lists dels where
    "rfold (apply_filters compile name) lists (fold AList.delete dels d) = Inr d'"
    by (auto simp: filter_lists_def)
  then show ?thesis by (rule rfold_invariant [where P = wf_gdict, OF _ del]) (rule apply_filters_wf)
qed

lemma rmap_values_wf:
  assumes "rmap f xs = Inr ys" and "\<And>x y. x \<in> set xs \<Longrightarrow> f x = Inr y \<Longrightarrow> P y"
  shows "\<forall>y \<in> set ys. P y"
  using assms by (auto simp: rmap_Inr_iff list_all2_conv_all_nth in_set_conv_nth) (metis nth_mem)

lemma ProcessListFilters_wf:
  "\<forall>d'. wf_gdict d \<longrightarrow> ProcessListFiltersInDict compile name d = Inr d' \<longrightarrow> wf_gdict d'"
  "\<forall>l'. list_all wf_gval l \<longrightarrow> ProcessListFiltersInList compile name l = Inr l' \<longrightarrow> list_all wf_gval l'"
proof (induction compile name d and compile name l rule: ProcessListFiltersInDict_ProcessListFiltersInList.induct)
  case (1 compile name d)
  show ?case
  proof (intro allI impI)
    fix d'
    assume d: "wf_gdict d" and run: "ProcessListFiltersInDict compile name d = Inr d'"
    then obtain e where e: "filter_lists compile name d = Inr e" and d': "rmap (\<lambda>(key, v).
          case v of
            GDict d \<Rightarrow> rbind (ProcessListFiltersInDict compile key d) (\<lambda>d. Inr (key, GDict d))
          | GList l \<Rightarrow> rbind (ProcessListFiltersInList compile key l) (\<lambda>l. Inr (key, GList l))
          | v \<Rightarrow> Inr (key, v)) e = Inr d'"
      by (auto simp: ProcessListFiltersInDict.simps [of compile name d])
    have wf: "wf_gdict e" using filter_lists_wf [OF e d] .
    have "map fst d' = map fst e"
      using d' by (induction e arbitrary: d') (auto split: gval.splits)
    moreover have "\<forall>y \<in> set d'. wf_gval (snd y)"
    proof (rule rmap_values_wf [OF d'])
      fix x y
      assume x: "x \<in> set e" and y: "(case x of (key, v) \<Rightarrow>
          case v of
            GDict d \<Rightarrow> rbind (ProcessListFiltersInDict compile key d) (\<lambda>d. Inr (key, GDict d))
          | GList l \<Rightarrow> rbind (ProcessListFiltersInList compile key l) (\<lambda>l. Inr (key, GList l))
          | v \<Rightarrow> Inr (key, v)) = Inr y"
      obtain key v where kv: "x = (key, v)" by force
      from wf x kv have v: "wf_gval v" by (auto simp: wf_gdict_iff)
      show "wf_gval (snd y)"
      proof (cases v)
        case (GList l)
        with y kv v 1(1) [OF e x kv [symmetric] GList] show ?thesis by auto
      next
        case (GDict d0)
        with y kv obtain d1 where d1: "ProcessListFiltersInDict compile key d0 = Inr d1" "y = (key, GDict d1)"
          by auto
        from GDict v have "wf_gdict d0" by (simp add: wf_gdict_def)
        with 1(2) [OF e x kv [symmetric] GDict] d1 show ?thesis by (simp only: wf_gdict_def [symmetric] snd_conv)
      qed (use y kv v in auto)
    qed
    ultimately show "wf_gdict d'" using wf by (auto simp: wf_gdict_iff wf_dict_def)
  qed
next
  case (2 compile name l)
  show ?case
  proof (intro allI impI)
    fix l'
    assume l: "list_all wf_gval l" and run: "ProcessListFiltersInList compile name l = Inr l'"
    have "\<forall>y \<in> set l'. wf_gval y"
    proof (rule rmap_values_wf [OF run [unfolded ProcessListFiltersInList.simps [of compile name l]]])
      fix x y
      assume x: "x \<in> set l" and y: "(case x of
          GDict d \<Rightarrow> rbind (ProcessListFiltersInDict compile name d) (\<lambda>d. Inr (GDict d))
        | GList l \<Rightarrow> rbind (ProcessListFiltersInList compile name l) (\<lambda>l. Inr (GList l))
        | item \<Rightarrow> Inr item) = Inr y"
      with l have v: "wf_gval x" by (simp add: list_all_iff)
      show "wf_gval y"
      proof (cases x)
        case (GList l0)
        with y v 2(1) [OF x GList] show ?thesis by auto
      next
        case (GDict d0)
        with y obtain d1 where d1: "ProcessListFiltersInDict compile name d0 = Inr d1" "y = GDict d1" by auto
        from GDict v have "wf_gdict d0" by (simp add: wf_gdict_def)
        with 2(2) [OF x GDict] d1 show ?thesis by (simp only: wf_gdict_def [symmetric])
      qed (use y v in auto)
    qed
    then show "list_all wf_gval l'" by (simp add: list_all_iff)
  qed
qed

end
