(* ===== verification/Py_Int.thy ===== *)
theory Py_Int
  imports Py_Prelude
begin

text \<open>
  Decimal text of integers: \<open>str(i)\<close> and \<open>int(s)\<close>, where \<open>None\<close> stands for the \<open>ValueError\<close> of
  \<open>int\<close>. Python's integers are unbounded.
\<close>

definition digit :: "nat \<Rightarrow> char" where
  "digit n = char_of (48 + n)"

definition digit_val :: "char \<Rightarrow> nat" where
  "digit_val c = of_char c - 48"

fun show_nat :: "nat \<Rightarrow> string" where
  "show_nat n = (if n < 10 then [digit n] else show_nat (n div 10) @ [digit (n mod 10)])"

declare show_nat.simps [simp del]

definition show_int :: "int \<Rightarrow> string" where
  "show_int i = (if i < 0 then CHR ''-'' # show_nat (nat (- i)) else show_nat (nat i))"

definition parse_nat :: "string \<Rightarrow> nat option" where
  "parse_nat s =
     (if s \<noteq> [] \<and> list_all is_digit s then Some (foldl (\<lambda>n c. 10 * n + digit_val c) 0 s) else None)"

definition parse_int :: "string \<Rightarrow> int option" where
  "parse_int s =
     (let s = strip s
      in if s \<noteq> [] \<and> hd s = CHR ''-'' then map_option (\<lambda>n. - int n) (parse_nat (tl s))
         else if s \<noteq> [] \<and> hd s = CHR ''+'' then map_option int (parse_nat (tl s))
         else map_option int (parse_nat s))"

lemma is_digit_code: "is_digit c \<longleftrightarrow> 48 \<le> (of_char c :: nat) \<and> of_char c \<le> (57 :: nat)"
  by (simp add: is_digit_def less_eq_char_def)

lemma digit_props:
  assumes "n < 10"
  shows "is_digit (digit n)" "digit_val (digit n) = n" "\<not> is_space (digit n)"
    "digit n \<noteq> CHR ''-''" "digit n \<noteq> CHR ''+''"
proof -
  have code: "of_char (digit n) = 48 + n" using assms by (simp add: digit_def)
  then show d: "is_digit (digit n)" "digit_val (digit n) = n"
    using assms by (simp_all add: is_digit_code digit_val_def)
  have "c \<noteq> digit n" if "of_char c < (48 :: nat)" for c using that code by auto
  then show "\<not> is_space (digit n)" "digit n \<noteq> CHR ''-''" "digit n \<noteq> CHR ''+''"
    unfolding is_space_def by force+
qed

lemma show_nat_digits: "show_nat n \<noteq> [] \<and> list_all is_digit (show_nat n)
  \<and> foldl (\<lambda>n c. 10 * n + digit_val c) 0 (show_nat n) = n"
proof (induction n rule: show_nat.induct)
  case (1 n)
  then show ?case
    by (subst (1 2 3) show_nat.simps) (auto simp: digit_props)
qed

lemma digits_no_space: "list_all is_digit s \<Longrightarrow> c \<in> set s \<Longrightarrow> \<not> is_space c \<and> c \<noteq> CHR ''-'' \<and> c \<noteq> CHR ''+''"
  by (auto simp: list_all_iff is_space_def is_digit_code)

theorem parse_show_int: "parse_int (show_int i) = Some i"
proof (cases "i < 0")
  case True
  have "strip (CHR ''-'' # show_nat (nat (- i))) = CHR ''-'' # show_nat (nat (- i))"
    using digits_no_space show_nat_digits by (intro strip_id) (auto simp: is_space_def)
  with True show ?thesis
    by (simp add: show_int_def parse_int_def parse_nat_def show_nat_digits)
next
  case False
  have "strip (show_nat (nat i)) = show_nat (nat i)"
    using digits_no_space show_nat_digits by (intro strip_id) auto
  moreover have "hd (show_nat (nat i)) \<noteq> CHR ''-''" "hd (show_nat (nat i)) \<noteq> CHR ''+''"
    using digits_no_space show_nat_digits hd_in_set by metis+
  ultimately show ?thesis
    using False by (simp add: show_int_def parse_int_def parse_nat_def show_nat_digits)
qed

end
