(* ===== verification/Gyp_Targets.thy ===== *)
theory Gyp_Targets
  imports Gyp_Deps Py_Int
begin

text \<open>
  \<open>input.py\<close>: the passes over the target dictionary before the graph is built, from
  \<open>BuildTargetsDict\<close> to \<open>RemoveSelfDependencies\<close>, and the two late passes
  \<open>TurnIntIntoStrInDict\<close> and \<open>VerifyNoCollidingTargets\<close>.

  \<open>data\<close> maps a build file's path to its contents; its special entry \<open>target_build_files\<close> is an
  argument of its own. The dictionaries under \<open>targets\<close> are the ones \<open>data\<close> holds, and the passes
  change their dependency lists only, which no pass reads through \<open>data\<close>.
\<close>

type_synonym gdata = "(string \<times> gdict) list"

section \<open>BuildTargetsDict\<close>

definition add_target :: "string \<Rightarrow> gval \<Rightarrow> gtargets \<Rightarrow> gtargets result" where
  "add_target build_file target targets =
     rbind (as_dict target) (\<lambda>d.
     rbind (dict_read d ''target_name'') (\<lambda>name.
     rbind (dict_read d ''toolset'') (\<lambda>toolset.
     rbind (as_str name) (\<lambda>name.
     rbind (as_str toolset) (\<lambda>toolset.
     let target_name = QualifiedTarget build_file name (Some toolset)
     in if has_key target_name targets
        then Inl (GypError (''Duplicate target definitions for '' @ target_name))
        else Inr (AList.update target_name d targets))))))"

definition BuildTargetsDict :: "string list \<Rightarrow> gdata \<Rightarrow> gtargets result" where
  "BuildTargetsDict target_build_files data =
     rfold (\<lambda>build_file targets.
        rbind (dict_read data build_file) (\<lambda>contents.
        rbind (get_iter contents ''targets'') (\<lambda>ts.
        rfold (add_target build_file) ts targets)))
       target_build_files []"

section \<open>QualifyDependencies\<close>

definition all_dependency_sections :: "string list" where
  "all_dependency_sections =
     concat (map (\<lambda>dep. map (\<lambda>op. dep @ op) [[], ''!'', ''/'']) dependency_sections)"

text \<open>The indexed assignment: only a list, or anything empty, can be walked this way.\<close>

fun seq_items :: "gval \<Rightarrow> gval list result" where
  "seq_items (GList l) = Inr l"
| "seq_items (GStr []) = Inr []"
| "seq_items (GDict []) = Inr []"
| "seq_items v = Inl (TypeError (class_name v @ '' object does not support item assignment''))"

definition qualify_item ::
  "gyp_env \<Rightarrow> string option \<Rightarrow> string \<Rightarrow> gval \<Rightarrow> string result" where
  "qualify_item env target_build_file toolset item =
     (case item of
        GStr s \<Rightarrow>
          (let (dep_file, dep_target, dep_toolset) =
                 ResolveTarget (realpath env) target_build_file s (Some toolset);
               dep_toolset = (if multiple_toolsets env then dep_toolset else Some toolset)
           in case dep_file of
                Some f \<Rightarrow> Inr (QualifiedTarget f dep_target dep_toolset)
              | None \<Rightarrow> Inl (TypeError ''unsupported operand NoneType''))
      | v \<Rightarrow> Inl (AttributeError (class_name v @ '' object has no attribute rsplit'')))"

text \<open>
  One entry: the qualified name is stored before it is looked up in \<open>dependencies\<close>, which is the
  same list when the key is \<open>dependencies\<close>. The state is the target's dictionary.
\<close>

definition qualify_entry ::
  "gyp_env \<Rightarrow> string \<Rightarrow> string option \<Rightarrow> string \<Rightarrow> string \<Rightarrow> nat \<Rightarrow> gdict \<Rightarrow> gdict result" where
  "qualify_entry env target target_build_file toolset dependency_key index target_dict =
     rbind (seq_items (dict_get target_dict dependency_key (GList []))) (\<lambda>dependencies.
     rbind (qualify_item env target_build_file toolset (dependencies ! index)) (\<lambda>dependency.
     let target_dict = AList.update dependency_key (GList (dependencies[index := GStr dependency])) target_dict
     in if dependency_key = ''dependencies'' then Inr target_dict
        else rbind (dict_read target_dict ''dependencies'') (\<lambda>v.
             rbind (py_iter v) (\<lambda>ds.
             if GStr dependency \<in> set ds then Inr target_dict
             else Inl (GypError (''Found '' @ dependency @ '' in '' @ dependency_key @ '' of '' @ target
                    @ '', but not in dependencies''))))))"

definition qualify_section ::
  "gyp_env \<Rightarrow> string \<Rightarrow> string option \<Rightarrow> string \<Rightarrow> string \<Rightarrow> gdict \<Rightarrow> gdict result" where
  "qualify_section env target target_build_file toolset dependency_key target_dict =
     rbind (seq_items (dict_get target_dict dependency_key (GList []))) (\<lambda>dependencies.
     rfold (qualify_entry env target target_build_file toolset dependency_key)
       [0..<length dependencies] target_dict)"

definition qualify_target :: "gyp_env \<Rightarrow> string \<times> gdict \<Rightarrow> (string \<times> gdict) result" where
  "qualify_target env = (\<lambda>(target, target_dict).
     rbind (dict_read target_dict ''toolset'') (\<lambda>toolset.
     rbind (as_str toolset) (\<lambda>toolset.
     rbind (rfold (qualify_section env target (BuildFile target) toolset) all_dependency_sections target_dict)
       (\<lambda>target_dict. Inr (target, target_dict)))))"

definition QualifyDependencies :: "gyp_env \<Rightarrow> gtargets \<Rightarrow> gtargets result" where
  "QualifyDependencies env targets = rmap (qualify_target env) targets"

section \<open>ExpandWildcardDependencies\<close>

text \<open>\<open>int(v)\<close> as a truth value.\<close>

fun int_truthy :: "gval \<Rightarrow> bool result" where
  "int_truthy (GInt i) = Inr (i \<noteq> 0)"
| "int_truthy (GStr s) =
     (case parse_int s of
        Some i \<Rightarrow> Inr (i \<noteq> 0)
      | None \<Rightarrow> Inl (ValueError (''invalid literal for int() with base 10: '' @ s)))"
| "int_truthy v = Inl (TypeError ''int() argument must be a string or a number'')"

definition wildcard_target ::
  "string \<Rightarrow> string \<Rightarrow> string option \<Rightarrow> gval \<Rightarrow> string list result" where
  "wildcard_target build_file dependency_target dependency_toolset target =
     rbind (as_dict target) (\<lambda>d.
     rbind (int_truthy (dict_get d ''suppress_wildcard'' (GInt 0))) (\<lambda>suppressed.
     if suppressed then Inr []
     else rbind (dict_read d ''target_name'') (\<lambda>name.
          rbind (as_str name) (\<lambda>name.
          if dependency_target \<noteq> ''*'' \<and> dependency_target \<noteq> name then Inr []
          else rbind (dict_read d ''toolset'') (\<lambda>toolset.
               rbind (as_str toolset) (\<lambda>toolset.
               if dependency_toolset \<noteq> Some ''*'' \<and> dependency_toolset \<noteq> Some toolset then Inr []
               else Inr [QualifiedTarget build_file name (Some toolset)]))))))"

definition expand_dependency ::
  "gdata \<Rightarrow> string \<Rightarrow> string \<Rightarrow> string \<Rightarrow> string list result" where
  "expand_dependency data target dependency_key dependency =
     (let (dependency_build_file, dependency_target, dependency_toolset) = ParseQualifiedTarget dependency
      in if dependency_target \<noteq> ''*'' \<and> dependency_toolset \<noteq> Some ''*'' then Inr [dependency]
         else if dependency_build_file = BuildFile target
         then Inl (GypError (''Found wildcard in '' @ dependency_key @ '' of '' @ target
                @ '' referring to same build file''))
         else case dependency_build_file of
           None \<Rightarrow> Inl (KeyError ''None'')
         | Some f \<Rightarrow>
             rbind (dict_read data f) (\<lambda>contents.
             rbind (dict_read contents ''targets'') (\<lambda>ts.
             rbind (py_iter ts) (\<lambda>ts.
             rbind (rmap (wildcard_target f dependency_target dependency_toolset) ts) (\<lambda>names.
             Inr (concat names))))))"

definition expand_section ::
  "gdata \<Rightarrow> string \<Rightarrow> string \<Rightarrow> gdict \<Rightarrow> gdict result" where
  "expand_section data target dependency_key target_dict =
     (case map_of target_dict dependency_key of
        None \<Rightarrow> Inr target_dict
      | Some v \<Rightarrow>
          rbind (seq_items v) (\<lambda>items.
          if items = [] then Inr target_dict
          else
          rbind (rmap as_str items) (\<lambda>dependencies.
          rbind (rmap (expand_dependency data target dependency_key) dependencies) (\<lambda>expanded.
          Inr (AList.update dependency_key (GList (map GStr (concat expanded))) target_dict)))))"

definition ExpandWildcardDependencies :: "gtargets \<Rightarrow> gdata \<Rightarrow> gtargets result" where
  "ExpandWildcardDependencies targets data =
     rmap (\<lambda>(target, target_dict).
        rbind (dict_read target_dict ''toolset'') (\<lambda>_.
        rbind (rfold (expand_section data target) dependency_sections target_dict) (\<lambda>target_dict.
        Inr (target, target_dict))))
       targets"

section \<open>RemoveDuplicateDependencies and RemoveSelfDependencies\<close>

definition Unify :: "'a list \<Rightarrow> 'a list" where
  "Unify l = keep_first (\<lambda>e. e) {} l"

definition unify_section :: "string \<Rightarrow> gdict \<Rightarrow> gdict result" where
  "unify_section dependency_key target_dict =
     (let v = dict_get target_dict dependency_key (GList [])
      in if \<not> truthy v then Inr target_dict
         else rbind (py_iter v) (\<lambda>items.
              rbind (rmap as_str items) (\<lambda>dependencies.
              Inr (AList.update dependency_key (GList (map GStr (Unify dependencies))) target_dict))))"

definition RemoveDuplicateDependencies :: "gtargets \<Rightarrow> gtargets result" where
  "RemoveDuplicateDependencies targets =
     rmap (\<lambda>(target_name, target_dict).
        rbind (rfold unify_section dependency_sections target_dict) (\<lambda>target_dict.
        Inr (target_name, target_dict)))
       targets"

text \<open>\<open>Filter(l, item)\<close>\<close>

definition Filter :: "'a list \<Rightarrow> 'a \<Rightarrow> 'a list" where
  "Filter l item = filter (\<lambda>e. e \<noteq> item) l"

definition prune_self_dependency :: "gdict \<Rightarrow> bool result" where
  "prune_self_dependency target_dict =
     rbind (as_dict (dict_get target_dict ''variables'' (GDict []))) (\<lambda>variables.
     Inr (get_truthy variables ''prune_self_dependency''))"

definition prune_section :: "string \<Rightarrow> string \<Rightarrow> gdict \<Rightarrow> gdict result" where
  "prune_section target_name dependency_key target_dict =
     (let v = dict_get target_dict dependency_key (GList [])
      in if \<not> truthy v then Inr target_dict
         else rbind (py_iter v) (\<lambda>dependencies.
              if GStr target_name \<notin> set dependencies then Inr target_dict
              else rbind (prune_self_dependency target_dict) (\<lambda>prune.
                   Inr (if prune
                        then AList.update dependency_key (GList (Filter dependencies (GStr target_name))) target_dict
                        else target_dict))))"

definition RemoveSelfDependencies :: "gtargets \<Rightarrow> gtargets result" where
  "RemoveSelfDependencies targets =
     rmap (\<lambda>(target_name, target_dict).
        rbind (rfold (prune_section target_name) dependency_sections target_dict) (\<lambda>target_dict.
        Inr (target_name, target_dict)))
       targets"

section \<open>TurnIntIntoStrInDict and TurnIntIntoStrInList\<close>

text \<open>Keys are strings here, so the branch that rewrites an integer key does not arise.\<close>

fun TurnIntIntoStr :: "gval \<Rightarrow> gval" where
  "TurnIntIntoStr (GInt i) = GStr (show_int i)"
| "TurnIntIntoStr (GDict d) = GDict (map (\<lambda>(k, v). (k, TurnIntIntoStr v)) d)"
| "TurnIntIntoStr (GList l) = GList (map TurnIntIntoStr l)"
| "TurnIntIntoStr v = v"

definition TurnIntIntoStrInDict :: "gdict \<Rightarrow> gdict" where
  "TurnIntIntoStrInDict the_dict = map (\<lambda>(k, v). (k, TurnIntIntoStr v)) the_dict"

definition TurnIntIntoStrInList :: "gval list \<Rightarrow> gval list" where
  "TurnIntIntoStrInList the_list = map TurnIntIntoStr the_list"

section \<open>VerifyNoCollidingTargets\<close>

definition check_collision ::
  "string \<Rightarrow> (string \<times> string) list \<Rightarrow> (string \<times> string) list result" where
  "check_collision target used =
     (case rsplit1 CHR '':'' target of
        None \<Rightarrow> Inl (ValueError ''need more than 1 value to unpack'')
      | Some (path, name) \<Rightarrow>
          let (subdir, gyp) = path_split path;
              subdir = (if subdir = [] then ''.'' else subdir);
              key = subdir @ '':'' @ name
          in case map_of used key of
               Some other \<Rightarrow>
                 Inl (GypError (''Duplicate target name '' @ name @ '' in directory '' @ subdir
                        @ '' used both in '' @ gyp @ '' and '' @ other))
             | None \<Rightarrow> Inr (AList.update key gyp used))"

definition VerifyNoCollidingTargets :: "string list \<Rightarrow> unit result" where
  "VerifyNoCollidingTargets targets = rbind (rfold check_collision targets []) (\<lambda>_. Inr ())"

section \<open>BuildTargetsDict: one entry per target, in order\<close>

definition target_entry :: "string \<Rightarrow> gval \<Rightarrow> (string \<times> gdict) \<Rightarrow> bool" where
  "target_entry build_file target e \<longleftrightarrow>
     (\<exists>d name toolset. target = GDict d \<and> map_of d ''target_name'' = Some (GStr name)
        \<and> map_of d ''toolset'' = Some (GStr toolset) \<and> e = (QualifiedTarget build_file name (Some toolset), d))"

lemma add_target_Inr:
  "add_target f target targets = Inr targets' \<Longrightarrow>
   \<exists>e. target_entry f target e \<and> targets' = targets @ [e] \<and> fst e \<notin> fst ` set targets"
  by (auto simp: add_target_def target_entry_def Let_def has_key_def update_fresh map_of_eq_None_iff
      split: if_splits)

lemma add_targets_Inr:
  "rfold (add_target f) ts targets = Inr targets' \<Longrightarrow> wf_dict targets \<Longrightarrow>
   \<exists>es. list_all2 (target_entry f) ts es \<and> targets' = targets @ es \<and> wf_dict targets'"
proof (induction ts arbitrary: targets)
  case (Cons t ts)
  then obtain targets1 where 1: "add_target f t targets = Inr targets1" "rfold (add_target f) ts targets1 = Inr targets'"
    by auto
  from add_target_Inr [OF 1(1)] obtain e where
    e: "target_entry f t e" "targets1 = targets @ [e]" "fst e \<notin> fst ` set targets" by blast
  with Cons.prems(2) have "wf_dict targets1" by (auto simp: wf_dict_def)
  with Cons.IH [OF 1(2)] obtain es where
    "list_all2 (target_entry f) ts es" "targets' = targets1 @ es" "wf_dict targets'" by blast
  with e show ?case by (intro exI [of _ "e # es"]) simp
qed simp

text \<open>
  \<open>BuildTargetsDict\<close> makes one entry per target of each build file, in order, under the target's
  qualified name, and no two entries share a name.
\<close>

theorem BuildTargetsDict_entries:
  assumes "BuildTargetsDict files data = Inr targets"
  shows "wf_dict targets \<and> (\<exists>ess. targets = concat ess
    \<and> list_all2 (\<lambda>f es. \<exists>contents ts. map_of data f = Some contents \<and> get_iter contents ''targets'' = Inr ts
          \<and> list_all2 (target_entry f) ts es) files ess)"
proof -
  let ?step = "\<lambda>f targets. rbind (dict_read data f) (\<lambda>contents. rbind (get_iter contents ''targets'') (\<lambda>ts.
        rfold (add_target f) ts targets))"
  have "rfold ?step files targets0 = Inr targets \<Longrightarrow> wf_dict targets0 \<Longrightarrow>
      wf_dict targets \<and> (\<exists>ess. targets = targets0 @ concat ess
    \<and> list_all2 (\<lambda>f es. \<exists>contents ts. map_of data f = Some contents \<and> get_iter contents ''targets'' = Inr ts
          \<and> list_all2 (target_entry f) ts es) files ess)" for targets0
  proof (induction files arbitrary: targets0)
    case (Cons f files)
    then obtain contents ts targets1 where c: "map_of data f = Some contents" "get_iter contents ''targets'' = Inr ts"
      "rfold (add_target f) ts targets0 = Inr targets1" "rfold ?step files targets1 = Inr targets" by auto
    from add_targets_Inr [OF c(3) Cons.prems(2)] obtain es where
      es: "list_all2 (target_entry f) ts es" "targets1 = targets0 @ es" "wf_dict targets1" by blast
    from Cons.IH [OF c(4) es(3)] obtain ess where ess: "wf_dict targets" "targets = targets1 @ concat ess"
      "list_all2 (\<lambda>f es. \<exists>contents ts. map_of data f = Some contents \<and> get_iter contents ''targets'' = Inr ts
          \<and> list_all2 (target_entry f) ts es) files ess" by blast
    with c(1,2) es show ?case by (intro conjI exI [of _ "es # ess"]) auto
  qed simp
  from this [of "[]"] assms show ?thesis by (simp add: BuildTargetsDict_def)
qed

section \<open>QualifyDependencies: every section is qualified\<close>

lemma qualify_entries:
  assumes "rfold (qualify_entry env t f ts key) (map ((+) n) [0..<length l]) d = Inr d'"
    and "map_of d key = Some (GList (xs @ l))" and "length xs = n"
  shows "\<exists>qs. rmap (qualify_item env f ts) l = Inr qs
    \<and> d' = (if l = [] then d else AList.update key (GList (xs @ map GStr qs)) d)
    \<and> (key \<noteq> ''dependencies'' \<longrightarrow> (\<forall>q \<in> set qs. \<exists>v ds. map_of d ''dependencies'' = Some v
          \<and> py_iter v = Inr ds \<and> GStr q \<in> set ds))"
  using assms
proof (induction l arbitrary: n d xs)
  case (Cons x l)
  have upt: "map ((+) n) [0..<length (x # l)] = n # map ((+) (Suc n)) [0..<length l]"
    by (simp add: upt_conv_Cons map_Suc_upt [symmetric] comp_def del: upt_Suc)
  with Cons.prems(1) obtain d1 where 1: "qualify_entry env t f ts key n d = Inr d1"
    "rfold (qualify_entry env t f ts key) (map ((+) (Suc n)) [0..<length l]) d1 = Inr d'" by auto
  have nth: "(xs @ x # l) ! n = x" "(xs @ x # l)[n := y] = (xs @ [y]) @ l" for y
    using Cons.prems(3) by (auto simp: nth_append list_update_append)
  from 1(1) Cons.prems(2) nth obtain q where q: "qualify_item env f ts x = Inr q"
    "d1 = AList.update key (GList ((xs @ [GStr q]) @ l)) d"
    "key \<noteq> ''dependencies'' \<longrightarrow> (\<exists>v ds. map_of d ''dependencies'' = Some v \<and> py_iter v = Inr ds \<and> GStr q \<in> set ds)"
    by (auto simp: qualify_entry_def dict_get_def Let_def map_of_update split: if_splits)
  have "map_of d1 key = Some (GList ((xs @ [GStr q]) @ l))" by (simp add: q(2) map_of_update)
  from Cons.IH [OF 1(2) this] Cons.prems(3) obtain qs where
    qs: "rmap (qualify_item env f ts) l = Inr qs"
      "d' = (if l = [] then d1 else AList.update key (GList ((xs @ [GStr q]) @ map GStr qs)) d1)"
      "key \<noteq> ''dependencies'' \<longrightarrow> (\<forall>q \<in> set qs. \<exists>v ds. map_of d1 ''dependencies'' = Some v
          \<and> py_iter v = Inr ds \<and> GStr q \<in> set ds)" by auto
  have "d' = AList.update key (GList (xs @ map GStr (q # qs))) d"
    using qs(1,2) q(2) by (cases "l = []") auto
  with q qs show ?case by (intro exI [of _ "q # qs"]) (auto simp: map_of_update)
qed simp

text \<open>
  Qualifying a dependency section replaces every item by its fully qualified name; a name in a
  section other than \<open>dependencies\<close> is then also in \<open>dependencies\<close>, or the pass fails.
\<close>

theorem qualify_section_items:
  assumes "qualify_section env t f ts key d = Inr d'"
  shows "\<exists>l qs. seq_items (dict_get d key (GList [])) = Inr l \<and> rmap (qualify_item env f ts) l = Inr qs
    \<and> d' = (if l = [] then d else AList.update key (GList (map GStr qs)) d)
    \<and> (key \<noteq> ''dependencies'' \<longrightarrow> (\<forall>q \<in> set qs. \<exists>v ds. map_of d' ''dependencies'' = Some v
          \<and> py_iter v = Inr ds \<and> GStr q \<in> set ds))"
proof -
  from assms obtain l where l: "seq_items (dict_get d key (GList [])) = Inr l"
    "rfold (qualify_entry env t f ts key) [0..<length l] d = Inr d'" by (auto simp: qualify_section_def)
  show ?thesis
  proof (cases "l = []")
    case True
    with l show ?thesis by auto
  next
    case False
    with l(1) have "map_of d key = Some (GList l)"
      by (auto simp: dict_get_def split: option.splits elim!: seq_items.elims)
    moreover have "map ((+) 0) [0..<length l] = [0..<length l]" by (rule map_idI) simp
    with l(2) have "rfold (qualify_entry env t f ts key) (map ((+) 0) [0..<length l]) d = Inr d'" by metis
    ultimately obtain qs where qs: "rmap (qualify_item env f ts) l = Inr qs"
      "d' = AList.update key (GList (map GStr qs)) d"
      "key \<noteq> ''dependencies'' \<longrightarrow> (\<forall>q \<in> set qs. \<exists>v ds. map_of d ''dependencies'' = Some v
          \<and> py_iter v = Inr ds \<and> GStr q \<in> set ds)"
      using qualify_entries [where xs = "[]" and n = 0] False by fastforce
    with l(1) False show ?thesis by (auto simp: map_of_update)
  qed
qed

section \<open>Wildcards\<close>

text \<open>What a wildcard stands for: the targets of the file that it matches and that allow it.\<close>

definition wildcard_names :: "string \<Rightarrow> string \<Rightarrow> string option \<Rightarrow> gval \<Rightarrow> string \<Rightarrow> bool" where
  "wildcard_names f dependency_target dependency_toolset target name \<longleftrightarrow>
     (\<exists>d n ts. target_entry f target (name, d) \<and> map_of d ''target_name'' = Some (GStr n)
        \<and> map_of d ''toolset'' = Some (GStr ts)
        \<and> int_truthy (dict_get d ''suppress_wildcard'' (GInt 0)) = Inr False
        \<and> dependency_target \<in> {''*'', n} \<and> dependency_toolset \<in> {Some ''*'', Some ts})"

lemma wildcard_target_set:
  "wildcard_target f t ts target = Inr names \<Longrightarrow> name \<in> set names \<longleftrightarrow> wildcard_names f t ts target name"
  by (auto simp: wildcard_target_def wildcard_names_def target_entry_def split: if_splits)

text \<open>
  A wildcard dependency expands to the qualified names of exactly the targets of its build file
  that match its name and toolset and do not suppress wildcards; it never refers to its own file.
\<close>

theorem expand_dependency_wildcard:
  assumes "expand_dependency data target key dep = Inr names"
    and "ParseQualifiedTarget dep = (Some f, t, ts)" and "t = ''*'' \<or> ts = Some ''*''"
  shows "BuildFile target \<noteq> Some f \<and> (\<exists>contents dicts. map_of data f = Some contents
    \<and> map_of contents ''targets'' = Some dicts
    \<and> (\<forall>ds. py_iter dicts = Inr ds \<longrightarrow> set names = {name. \<exists>d \<in> set ds. wildcard_names f t ts d name}))"
proof -
  from assms obtain contents dicts ds xss where c: "BuildFile target \<noteq> Some f" "map_of data f = Some contents"
    "map_of contents ''targets'' = Some dicts" "py_iter dicts = Inr ds"
    "rmap (wildcard_target f t ts) ds = Inr xss" "names = concat xss"
    by (auto simp: expand_dependency_def split: if_splits)
  from c(5) have "name \<in> set (concat xss) \<longleftrightarrow> (\<exists>d \<in> set ds. wildcard_names f t ts d name)" for name
    by (induction ds arbitrary: xss) (auto simp: wildcard_target_set)
  with c show ?thesis by auto
qed

lemma expand_dependency_plain:
  "ParseQualifiedTarget dep = (f, t, ts) \<Longrightarrow> t \<noteq> ''*'' \<Longrightarrow> ts \<noteq> Some ''*'' \<Longrightarrow>
   expand_dependency data target key dep = Inr [dep]"
  by (simp add: expand_dependency_def)

section \<open>Duplicates and self dependencies\<close>

lemma unify_section_items:
  assumes "unify_section key d = Inr d'" and "map_of d key = Some (GList (map GStr ds))"
  shows "\<exists>ds'. map_of d' key = Some (GList (map GStr ds')) \<and> distinct ds' \<and> set ds' = set ds \<and> subseq ds' ds
    \<and> (\<forall>k. k \<noteq> key \<longrightarrow> map_of d' k = map_of d k)"
proof -
  have conv: "rmap as_str (map GStr xs) = Inr xs" for xs by (induction xs) auto
  have "d' = (if ds = [] then d else AList.update key (GList (map GStr (Unify ds))) d)"
    using assms by (auto simp: unify_section_def dict_get_def conv)
  moreover have "distinct (Unify ds)" "set (Unify ds) = set ds" "subseq (Unify ds) ds"
    using keep_first_distinct [of "\<lambda>e. e" "{}" ds] keep_first_image [of "\<lambda>e. e" "{}" ds] keep_first_subseq
    by (auto simp: Unify_def)
  ultimately show ?thesis using assms(2) by (cases "ds = []") (auto simp: map_of_update)
qed

lemma prune_section_items:
  assumes "prune_section t key d = Inr d'" and "map_of d key = Some (GList ds)"
    and "prune_self_dependency d = Inr True"
  shows "map_of d' key = Some (GList (filter (\<lambda>x. x \<noteq> GStr t) ds))"
proof -
  have "GStr t \<notin> set ds \<Longrightarrow> filter (\<lambda>x. x \<noteq> GStr t) ds = ds" by (simp add: filter_id_conv) blast
  with assms show ?thesis
    by (auto simp: prune_section_def dict_get_def Filter_def map_of_update split: if_splits)
qed

section \<open>No integer is left\<close>

fun no_int :: "gval \<Rightarrow> bool" where
  "no_int (GInt i) = False"
| "no_int (GDict d) = list_all (\<lambda>(k, v). no_int v) d"
| "no_int (GList l) = list_all no_int l"
| "no_int v = True"

lemma TurnIntIntoStr_no_int: "no_int (TurnIntIntoStr v)"
  by (induction v rule: TurnIntIntoStr.induct) (auto simp: list_all_iff)

lemma TurnIntIntoStr_id: "no_int v \<Longrightarrow> TurnIntIntoStr v = v"
  by (induction v rule: TurnIntIntoStr.induct) (auto simp: list_all_iff intro!: map_idI)

lemma TurnIntIntoStrInDict_done:
  "no_int (GDict (TurnIntIntoStrInDict d)) \<and> TurnIntIntoStrInDict (TurnIntIntoStrInDict d) = TurnIntIntoStrInDict d
   \<and> map fst (TurnIntIntoStrInDict d) = map fst d"
proof -
  have "GDict (TurnIntIntoStrInDict d) = TurnIntIntoStr (GDict d)" for d by (simp add: TurnIntIntoStrInDict_def)
  then have "no_int (GDict (TurnIntIntoStrInDict d))"
    "GDict (TurnIntIntoStrInDict (TurnIntIntoStrInDict d)) = GDict (TurnIntIntoStrInDict d)"
    by (metis TurnIntIntoStr_no_int, metis TurnIntIntoStr_id TurnIntIntoStr_no_int)
  then show ?thesis by (auto simp: TurnIntIntoStrInDict_def comp_def split_beta)
qed

section \<open>Colliding targets\<close>

text \<open>The directory and name of a target; a name with no colon has none.\<close>

definition collision_key :: "string \<Rightarrow> (string \<times> string) option" where
  "collision_key target =
     map_option (\<lambda>(path, name). (if dirname path = [] then ''.'' else dirname path, name))
       (rsplit1 CHR '':'' target)"

lemma collision_key_inj:
  assumes "CHR '':'' \<notin> set n" and "CHR '':'' \<notin> set m"
  shows "s @ '':'' @ n = t @ '':'' @ m \<longleftrightarrow> s = t \<and> n = m"
proof
  assume eq: "s @ '':'' @ n = t @ '':'' @ m"
  have "rsplit1 CHR '':'' (s @ CHR '':'' # n) = rsplit1 CHR '':'' (t @ CHR '':'' # m)"
    using eq by simp
  with assms show "s = t \<and> n = m" by simp
qed simp

definition key_text :: "string \<times> string \<Rightarrow> string" where
  "key_text = (\<lambda>(subdir, name). subdir @ '':'' @ name)"

lemma collision_key_text:
  assumes "collision_key t = Some k" and "collision_key u = Some l"
  shows "key_text k = key_text l \<longleftrightarrow> k = l"
  using assms collision_key_inj
  by (auto simp: collision_key_def key_text_def rsplit1_Some_iff)

lemma check_collision_eq:
  assumes "collision_key t = Some k"
  shows "check_collision t used = Inr used' \<longleftrightarrow>
    key_text k \<notin> fst ` set used \<and> used' = used @ [(key_text k, basename (fst (the (rsplit1 CHR '':'' t))))]"
proof (cases "map_of used (key_text k)")
  case None
  then have "key_text k \<notin> fst ` set used" by (simp add: map_of_eq_None_iff)
  with None assms show ?thesis
    by (auto simp: check_collision_def collision_key_def key_text_def dirname_def basename_def update_fresh
        Let_def split: prod.splits)
next
  case (Some g)
  then have "key_text k \<in> fst ` set used" by (rule map_of_key)
  with Some assms show ?thesis
    by (auto simp: check_collision_def collision_key_def key_text_def dirname_def Let_def split: prod.splits)
qed

lemma check_collisions_Inr:
  "(\<exists>used'. rfold check_collision ts used = Inr used') \<longleftrightarrow>
     (\<forall>t \<in> set ts. collision_key t \<noteq> None) \<and> distinct (map (\<lambda>t. key_text (the (collision_key t))) ts)
     \<and> (\<lambda>t. key_text (the (collision_key t))) ` set ts \<inter> fst ` set used = {}"
proof (induction ts arbitrary: used)
  case (Cons t ts)
  show ?case
  proof (cases "collision_key t")
    case None
    then have "check_collision t used = Inl (ValueError ''need more than 1 value to unpack'')"
      by (simp add: collision_key_def check_collision_def)
    with None show ?thesis by simp
  next
    case (Some k)
    show ?thesis
    proof (cases "key_text k \<in> fst ` set used")
      case True
      with check_collision_eq [OF Some] Some show ?thesis by auto
    next
      case False
      with check_collision_eq [OF Some] have
        step: "check_collision t used = Inr (used @ [(key_text k, basename (fst (the (rsplit1 CHR '':'' t))))])" by simp
      show ?thesis
        using False Some unfolding rfold.simps step rbind.simps Cons.IH by auto
    qed
  qed
qed simp

text \<open>
  \<open>VerifyNoCollidingTargets\<close> accepts a list of qualified targets exactly when no two of them
  have both the same directory and the same name.
\<close>

theorem VerifyNoCollidingTargets_iff:
  "VerifyNoCollidingTargets targets = Inr () \<longleftrightarrow>
     (\<forall>t \<in> set targets. CHR '':'' \<in> set t) \<and> distinct (map collision_key targets)"
proof -
  have colon: "collision_key t \<noteq> None \<longleftrightarrow> CHR '':'' \<in> set t" for t
    using rsplit1_None_iff [of "CHR '':''" t] by (cases "rsplit1 CHR '':'' t") (auto simp: collision_key_def)
  have "distinct (map (\<lambda>t. key_text (the (collision_key t))) targets) \<longleftrightarrow> distinct (map collision_key targets)"
    if "\<forall>t \<in> set targets. collision_key t \<noteq> None"
    using that collision_key_text by (auto simp: distinct_map inj_on_def) (metis option.sel)+
  with check_collisions_Inr [of targets "[]"] colon show ?thesis
    by (auto simp: VerifyNoCollidingTargets_def)
qed

section \<open>Examples\<close>

definition ex_data :: gdata where
  "ex_data =
     [(''x.gyp'', [(''targets'', GList
         [GDict [(''target_name'', GStr ''p''), (''toolset'', GStr ''host'')],
          GDict [(''target_name'', GStr ''q''), (''toolset'', GStr ''host''), (''suppress_wildcard'', GInt 1)]])])]"

theorem BuildTargetsDict_witness:
  "wf_dict [(''x.gyp:p#host'', [(''target_name'', GStr ''p''), (''toolset'', GStr ''host'')]),
     (''x.gyp:q#host'', [(''target_name'', GStr ''q''), (''toolset'', GStr ''host''), (''suppress_wildcard'', GInt 1)])]"
  by (rule BuildTargetsDict_entries [where files = "[''x.gyp'']" and data = ex_data, THEN conjunct1]) code_simp

theorem qualify_section_witness:
  "\<exists>l qs. rmap (qualify_item ex_globals (Some ''x/x.gyp'') ''host'') l = Inr qs
    \<and> l = [GStr ''q'', GStr ''../y/y.gyp:r'']
    \<and> map GStr qs = [GStr ''x/x.gyp:q#host'', GStr ''y/y.gyp:r#host'']"
proof -
  let ?items = "[GStr ''q'', GStr ''../y/y.gyp:r'']"
    and ?qualified = "[GStr ''x/x.gyp:q#host'', GStr ''y/y.gyp:r#host'']"
  have "qualify_section ex_globals ''x/x.gyp:p#host'' (Some ''x/x.gyp'') ''host'' ''dependencies''
      [(''dependencies'', GList ?items)] = Inr [(''dependencies'', GList ?qualified)]"
    by code_simp
  from qualify_section_items [OF this] obtain l qs where
    l: "seq_items (dict_get [(''dependencies'', GList ?items)] ''dependencies'' (GList [])) = Inr l"
      "rmap (qualify_item ex_globals (Some ''x/x.gyp'') ''host'') l = Inr qs"
      "[(''dependencies'', GList ?qualified)] = (if l = [] then [(''dependencies'', GList ?items)]
         else AList.update ''dependencies'' (GList (map GStr qs)) [(''dependencies'', GList ?items)])"
    by (elim exE conjE) (rule that)
  from l(1) have items: "l = ?items" by (auto simp: dict_get_def)
  with l(3) have "map GStr qs = ?qualified" by simp
  with l(2) items show ?thesis by (intro exI conjI)
qed

theorem expand_dependency_witness:
  "BuildFile ''y.gyp:r#host'' \<noteq> Some ''x.gyp''
   \<and> {''x.gyp:p#host''} = {name. \<exists>d \<in> set [GDict [(''target_name'', GStr ''p''), (''toolset'', GStr ''host'')],
          GDict [(''target_name'', GStr ''q''), (''toolset'', GStr ''host''), (''suppress_wildcard'', GInt 1)]].
        wildcard_names ''x.gyp'' ''*'' (Some ''host'') d name}"
proof -
  have "expand_dependency ex_data ''y.gyp:r#host'' ''dependencies'' ''x.gyp:*#host'' = Inr [''x.gyp:p#host'']"
    "ParseQualifiedTarget ''x.gyp:*#host'' = (Some ''x.gyp'', ''*'', Some ''host'')"
    by code_simp+
  from expand_dependency_wildcard [OF this] show ?thesis by (simp add: ex_data_def)
qed

theorem VerifyNoCollidingTargets_witness:
  "VerifyNoCollidingTargets [''a/x.gyp:p'', ''a/y.gyp:q'', ''b/x.gyp:p''] = Inr ()"
proof -
  have "\<forall>t \<in> set [''a/x.gyp:p'', ''a/y.gyp:q'', ''b/x.gyp:p'']. CHR '':'' \<in> set t"
    "distinct (map collision_key [''a/x.gyp:p'', ''a/y.gyp:q'', ''b/x.gyp:p''])"
    by code_simp+
  then show ?thesis using VerifyNoCollidingTargets_iff by blast
qed

end
