(* ===== verification/Gyp_Validate.thy ===== *)
theory Gyp_Validate
  imports Gyp_Value
begin

text \<open>
  \<open>input.py\<close>: the validation passes \<open>Load\<close> runs on every target: its type, the base names of its
  sources, its rules, its \<open>run_as\<close> and its actions. Only \<open>ValidateRulesInTarget\<close> changes the
  target: it stores the sources each rule applies to. The texts of the errors leave out the values
  the code formats into them.
\<close>

section \<open>ValidateTargetType\<close>

definition VALID_TARGET_TYPES :: "string list" where
  "VALID_TARGET_TYPES = [''executable'', ''loadable_module'', ''static_library'', ''shared_library'', ''none'']"

definition ValidateTargetType :: "string \<Rightarrow> gdict \<Rightarrow> unit result" where
  "ValidateTargetType target target_dict =
     (let target_type = map_of target_dict ''type''
      in if target_type \<notin> (\<lambda>t. Some (GStr t)) ` set VALID_TARGET_TYPES
         then Inl (GypError (''Target '' @ target @ '' has an invalid target type.  Must be one of ''
                @ join ''/'' VALID_TARGET_TYPES @ ''.''))
         else if get_truthy target_dict ''standalone_static_library'' \<and> target_type \<noteq> Some (GStr ''static_library'')
         then Inl (GypError (''Target '' @ target
                @ '' has standalone_static_library flag, only valid for static_library type.''))
         else Inr ())"

lemma ValidateTargetType_iff:
  "ValidateTargetType target d = Inr () \<longleftrightarrow>
     (\<exists>t \<in> set VALID_TARGET_TYPES. map_of d ''type'' = Some (GStr t)
        \<and> (get_truthy d ''standalone_static_library'' \<longrightarrow> t = ''static_library''))"
  by (auto simp: ValidateTargetType_def Let_def)

section \<open>ValidateSourcesInTarget\<close>

definition compiled_extensions :: "string list" where
  "compiled_extensions = [''.c'', ''.cc'', ''.cpp'', ''.cxx'', ''.m'', ''.mm'', ''.s'', ''.S'']"

text \<open>\<open>basenames.setdefault(basename, []).append(source)\<close>\<close>

definition add_basename :: "gval \<Rightarrow> (string \<times> string list) list \<Rightarrow> (string \<times> string list) list result" where
  "add_basename source basenames =
     rbind (as_str source) (\<lambda>source.
     let (name, ext) = splitext source; base = basename name
     in if ext \<notin> set compiled_extensions then Inr basenames
        else Inr (AList.update base (dict_get basenames base [] @ [source]) basenames))"

definition ValidateSourcesInTarget :: "string \<Rightarrow> gdict \<Rightarrow> string \<Rightarrow> unit result" where
  "ValidateSourcesInTarget target target_dict build_file =
     (if map_of target_dict ''type'' \<notin> {Some (GStr ''static_library''), Some (GStr ''shared_library'')}
      then Inr ()
      else rbind (get_iter target_dict ''sources'') (\<lambda>sources.
           rbind (rfold add_basename sources []) (\<lambda>basenames.
           if \<exists>(b, files) \<in> set basenames. 1 < length files
           then Inl (GypError ''Duplicate basenames in sources section, see list above'')
           else Inr ())))"

text \<open>The base names, without extension, of the sources that are compiled.\<close>

definition compiled_basenames :: "string list \<Rightarrow> string list" where
  "compiled_basenames sources =
     map (\<lambda>s. basename (fst (splitext s))) (filter (\<lambda>s. snd (splitext s) \<in> set compiled_extensions) sources)"

lemma add_basenames:
  "rfold add_basename (map GStr ss) bs = Inr bs' \<Longrightarrow> wf_dict bs \<Longrightarrow>
   wf_dict bs' \<and> (\<forall>b. length (dict_get bs' b []) = length (dict_get bs b []) + count_list (compiled_basenames ss) b)"
proof (induction ss arbitrary: bs)
  case (Cons s ss)
  obtain name ext where sp: "splitext s = (name, ext)" by (cases "splitext s")
  let ?bs = "if ext \<notin> set compiled_extensions then bs
     else AList.update (basename name) (dict_get bs (basename name) [] @ [s]) bs"
  have "add_basename (GStr s) bs = Inr ?bs" by (simp add: add_basename_def sp Let_def)
  with Cons.prems(1) have "rfold add_basename (map GStr ss) ?bs = Inr bs'" by simp
  with Cons.IH Cons.prems(2) have ih: "wf_dict bs'"
    "\<forall>b. length (dict_get bs' b []) = length (dict_get ?bs b []) + count_list (compiled_basenames ss) b"
    by (simp_all split: if_splits)
  have "length (dict_get ?bs b []) + count_list (compiled_basenames ss) b
      = length (dict_get bs b []) + count_list (compiled_basenames (s # ss)) b" for b
    using sp by (simp add: compiled_basenames_def) (simp add: dict_get_def map_of_update)
  with ih show ?case by simp
qed (simp add: compiled_basenames_def)

lemma count_list_distinct: "distinct xs \<longleftrightarrow> (\<forall>x. count_list xs x \<le> 1)"
proof (induction xs)
  case (Cons a xs)
  have a: "a \<notin> set xs \<longleftrightarrow> count_list xs a = 0" by (simp add: count_list_0_iff)
  show ?case
  proof
    assume "distinct (a # xs)"
    with Cons a show "\<forall>x. count_list (a # xs) x \<le> 1" by simp
  next
    assume le: "\<forall>x. count_list (a # xs) x \<le> 1"
    from spec [OF le, of a] have "count_list xs a = 0" by simp
    moreover have "count_list xs x \<le> 1" for x using spec [OF le, of x] by (simp split: if_splits)
    ultimately show "distinct (a # xs)" using Cons a by simp
  qed
qed simp

lemma add_basenames_total: "\<exists>bs'. rfold add_basename (map GStr ss) bs = Inr bs'"
  by (induction ss arbitrary: bs) (auto simp: add_basename_def Let_def split: prod.splits)

text \<open>
  For a library, \<open>ValidateSourcesInTarget\<close> accepts a list of sources exactly when no two sources
  that are compiled have the same base name without extension, in whatever directories they are.
\<close>

theorem ValidateSourcesInTarget_iff:
  assumes "map_of d ''type'' = Some (GStr ''static_library'') \<or> map_of d ''type'' = Some (GStr ''shared_library'')"
    and "get_iter d ''sources'' = Inr (map GStr sources)"
  shows "ValidateSourcesInTarget target d bf = Inr () \<longleftrightarrow> distinct (compiled_basenames sources)"
proof -
  obtain bs where bs: "rfold add_basename (map GStr sources) [] = Inr bs"
    using add_basenames_total by blast
  from add_basenames [OF bs] have wf: "wf_dict bs"
    and len: "\<And>b. length (dict_get bs b []) = count_list (compiled_basenames sources) b"
    by (simp_all add: dict_get_def)
  have "(\<exists>(b, files) \<in> set bs. 1 < length files) \<longleftrightarrow> (\<exists>b. 1 < length (dict_get bs b []))"
  proof
    assume "\<exists>(b, files) \<in> set bs. 1 < length files"
    then obtain b files where "(b, files) \<in> set bs" "1 < length files" by blast
    with wf have "dict_get bs b [] = files" by (simp add: dict_get_def wf_dict_def)
    with \<open>1 < length files\<close> show "\<exists>b. 1 < length (dict_get bs b [])" by blast
  next
    assume "\<exists>b. 1 < length (dict_get bs b [])"
    then obtain b where b: "1 < length (dict_get bs b [])" by blast
    then have "map_of bs b = Some (dict_get bs b [])" by (auto simp: dict_get_def split: option.splits)
    with b show "\<exists>(b, files) \<in> set bs. 1 < length files" by (blast dest: map_of_SomeD)
  qed
  also have "\<dots> \<longleftrightarrow> \<not> distinct (compiled_basenames sources)"
    by (simp add: len count_list_distinct not_le)
  finally show ?thesis
    using assms bs by (auto simp: ValidateSourcesInTarget_def)
qed

section \<open>ValidateRulesInTarget\<close>

text \<open>Dictionary keys must be hashable.\<close>

fun as_key :: "gval \<Rightarrow> gval result" where
  "as_key (GList l) = Inl (TypeError ''unhashable type'')"
| "as_key (GDict d) = Inl (TypeError ''unhashable type'')"
| "as_key v = Inr v"

definition source_extension :: "string \<Rightarrow> string" where
  "source_extension source = (let ext = snd (splitext source) in if prefix ''.'' ext then tl ext else ext)"

definition rule_sources :: "gdict \<Rightarrow> string list \<Rightarrow> gval \<Rightarrow> gval list result" where
  "rule_sources target_dict source_keys extension =
     rfold (\<lambda>source_key acc.
        rbind (get_iter target_dict source_key) (\<lambda>sources.
        rfold (\<lambda>source acc.
           rbind (as_str source) (\<lambda>s.
           Inr (if GStr (source_extension s) = extension then acc @ [source] else acc)))
          sources acc))
       source_keys []"

definition validate_rule ::
  "string \<Rightarrow> gdict \<Rightarrow> string list \<Rightarrow> gval
   \<Rightarrow> gval list \<times> gval list \<times> gval list \<Rightarrow> (gval list \<times> gval list \<times> gval list) result" where
  "validate_rule target target_dict extra_sources_for_rules rule = (\<lambda>(rule_names, rule_extensions, rules).
     rbind (as_dict rule) (\<lambda>d.
     rbind (dict_read d ''rule_name'') (\<lambda>rule_name.
     rbind (as_key rule_name) (\<lambda>_.
     if rule_name \<in> set rule_names then Inl (GypError (''rule exists in duplicate, target '' @ target))
     else rbind (dict_read d ''extension'') (\<lambda>extension.
          rbind (as_key extension) (\<lambda>_.
          if extension \<in> set rule_extensions
          then Inl (GypError (''extension associated with multiple rules, target '' @ target))
          else if has_key ''rule_sources'' d
          then Inl (GypError (''rule_sources must not exist in input, target '' @ target))
          else rbind (rule_sources target_dict (''sources'' # extra_sources_for_rules) extension) (\<lambda>ss.
               Inr (rule_names @ [rule_name], rule_extensions @ [extension],
                    rules @ [GDict (if ss \<noteq> [] then AList.update ''rule_sources'' (GList ss) d else d)]))))))))"

definition ValidateRulesInTarget :: "string \<Rightarrow> gdict \<Rightarrow> string list \<Rightarrow> gdict result" where
  "ValidateRulesInTarget target target_dict extra_sources_for_rules =
     rbind (get_iter target_dict ''rules'') (\<lambda>rules.
     rbind (rfold (validate_rule target target_dict extra_sources_for_rules) rules ([], [], []))
       (\<lambda>(rule_names, rule_extensions, rules).
        Inr (if has_key ''rules'' target_dict then AList.update ''rules'' (GList rules) target_dict
             else target_dict)))"

text \<open>The sources a rule applies to: those with its extension, in the order of the keys.\<close>

definition scanned_sources :: "gdict \<Rightarrow> string list \<Rightarrow> gval list" where
  "scanned_sources d keys = concat (map (\<lambda>k. case get_iter d k of Inl e \<Rightarrow> [] | Inr l \<Rightarrow> l) keys)"

definition has_extension :: "gval \<Rightarrow> gval \<Rightarrow> bool" where
  "has_extension extension source \<longleftrightarrow> (\<exists>s. source = GStr s \<and> GStr (source_extension s) = extension)"

lemma rule_sources_eq:
  assumes "rule_sources d keys extension = Inr ss"
  shows "ss = filter (has_extension extension) (scanned_sources d keys)"
proof -
  have inner: "rfold (\<lambda>source acc. rbind (as_str source) (\<lambda>s.
        Inr (if GStr (source_extension s) = extension then acc @ [source] else acc))) sources acc = Inr acc' \<Longrightarrow>
      acc' = acc @ filter (has_extension extension) sources" for sources acc acc'
  proof (induction sources arbitrary: acc)
    case (Cons source sources)
    then obtain s where s: "source = GStr s" by auto
    with Cons.prems have "rfold (\<lambda>source acc. rbind (as_str source) (\<lambda>s.
        Inr (if GStr (source_extension s) = extension then acc @ [source] else acc))) sources
        (if GStr (source_extension s) = extension then acc @ [source] else acc) = Inr acc'"
      by (cases "GStr (source_extension s) = extension") simp_all
    from Cons.IH [OF this] s show ?case by (simp add: has_extension_def)
  qed simp
  have "rfold (\<lambda>source_key acc.
        rbind (get_iter d source_key) (\<lambda>sources.
        rfold (\<lambda>source acc. rbind (as_str source) (\<lambda>s.
           Inr (if GStr (source_extension s) = extension then acc @ [source] else acc))) sources acc))
       keys acc = Inr acc' \<Longrightarrow> acc' = acc @ filter (has_extension extension) (scanned_sources d keys)" for acc acc'
  proof (induction keys arbitrary: acc)
    case (Cons k keys)
    then obtain sources acc1 where "get_iter d k = Inr sources"
      "rfold (\<lambda>source acc. rbind (as_str source) (\<lambda>s.
           Inr (if GStr (source_extension s) = extension then acc @ [source] else acc))) sources acc = Inr acc1"
      "rfold (\<lambda>source_key acc.
        rbind (get_iter d source_key) (\<lambda>sources.
        rfold (\<lambda>source acc. rbind (as_str source) (\<lambda>s.
           Inr (if GStr (source_extension s) = extension then acc @ [source] else acc))) sources acc))
       keys acc1 = Inr acc'" by auto
    with inner [OF this(2)] Cons.IH [OF this(3)] show ?case by (simp add: scanned_sources_def)
  qed (simp add: scanned_sources_def)
  from this [of "[]" ss] assms show ?thesis by (simp add: rule_sources_def)
qed

text \<open>What one rule has become.\<close>

definition rule_done :: "gdict \<Rightarrow> string list \<Rightarrow> gval \<Rightarrow> gval \<times> gval \<times> gval \<Rightarrow> bool" where
  "rule_done target_dict keys rule = (\<lambda>(name, extension, rule').
     \<exists>d. rule = GDict d \<and> map_of d ''rule_name'' = Some name \<and> map_of d ''extension'' = Some extension
       \<and> map_of d ''rule_sources'' = None
       \<and> (let ss = filter (has_extension extension) (scanned_sources target_dict keys)
          in rule' = GDict (if ss \<noteq> [] then AList.update ''rule_sources'' (GList ss) d else d)))"

lemma validate_rules_Inr:
  "rfold (validate_rule target td extra) rules (ns, es, rs) = Inr (ns', es', rs') \<Longrightarrow> distinct ns \<Longrightarrow> distinct es \<Longrightarrow>
   \<exists>xs. list_all2 (rule_done td (''sources'' # extra)) rules xs
     \<and> ns' = ns @ map fst xs \<and> es' = es @ map (fst \<circ> snd) xs \<and> rs' = rs @ map (snd \<circ> snd) xs
     \<and> distinct ns' \<and> distinct es'"
proof (induction rules arbitrary: ns es rs)
  case (Cons rule rules)
  then obtain ns1 es1 rs1 where 1: "validate_rule target td extra rule (ns, es, rs) = Inr (ns1, es1, rs1)"
    "rfold (validate_rule target td extra) rules (ns1, es1, rs1) = Inr (ns', es', rs')" by auto
  from 1(1) obtain d n e ss where r: "rule = GDict d" "map_of d ''rule_name'' = Some n" "n \<notin> set ns"
    "map_of d ''extension'' = Some e" "e \<notin> set es" "map_of d ''rule_sources'' = None"
    "rule_sources td (''sources'' # extra) e = Inr ss"
    "ns1 = ns @ [n]" "es1 = es @ [e]" "rs1 = rs @ [GDict (if ss \<noteq> [] then AList.update ''rule_sources'' (GList ss) d else d)]"
    by (auto simp: validate_rule_def has_key_iff split: if_splits)
  from r Cons.prems have "distinct ns1" "distinct es1" by auto
  from Cons.IH [OF 1(2) this] obtain xs where
    xs: "list_all2 (rule_done td (''sources'' # extra)) rules xs"
      "ns' = ns1 @ map fst xs" "es' = es1 @ map (fst \<circ> snd) xs" "rs' = rs1 @ map (snd \<circ> snd) xs"
      "distinct ns'" "distinct es'" by blast
  have "rule_done td (''sources'' # extra) rule
      (n, e, GDict (if ss \<noteq> [] then AList.update ''rule_sources'' (GList ss) d else d))"
    using r rule_sources_eq [OF r(7)] by (simp add: rule_done_def Let_def)
  with xs r show ?case
    by (intro exI [of _ "(n, e, GDict (if ss \<noteq> [] then AList.update ''rule_sources'' (GList ss) d else d)) # xs"]) simp
qed auto

text \<open>
  \<open>ValidateRulesInTarget\<close> succeeds only where rule names and extensions are unique, and gives each
  rule the sources with its extension, from the \<open>sources\<close> of the target and the extra keys, in order.
\<close>

theorem ValidateRulesInTarget_sources:
  assumes "ValidateRulesInTarget target d extra = Inr d'" and "map_of d ''rules'' = Some (GList rules)"
  shows "\<exists>xs. list_all2 (rule_done d (''sources'' # extra)) rules xs
    \<and> distinct (map fst xs) \<and> distinct (map (fst \<circ> snd) xs)
    \<and> d' = AList.update ''rules'' (GList (map (snd \<circ> snd) xs)) d"
proof -
  from assms obtain ns es rs where "rfold (validate_rule target d extra) rules ([], [], []) = Inr (ns, es, rs)"
    "d' = AList.update ''rules'' (GList rs) d"
    by (auto simp: ValidateRulesInTarget_def get_iter_def dict_get_def has_key_iff)
  with validate_rules_Inr [OF this(1)] show ?thesis by auto
qed

section \<open>ValidateRunAsInTarget\<close>

definition ValidateRunAsInTarget :: "string \<Rightarrow> gdict \<Rightarrow> string \<Rightarrow> unit result" where
  "ValidateRunAsInTarget target target_dict build_file =
     (if \<not> get_truthy target_dict ''run_as'' then Inr ()
      else case the (map_of target_dict ''run_as'') of
        GDict run_as \<Rightarrow>
          if \<not> get_truthy run_as ''action''
          then Inl (GypError (''The run_as in target from file '' @ build_file @ '' must have an action section.''))
          else if class_name (the (map_of run_as ''action'')) \<noteq> ''list''
          then Inl (GypError (''The action for run_as in target from file '' @ build_file @ '' must be a list.''))
          else if get_truthy run_as ''working_directory''
               \<and> class_name (the (map_of run_as ''working_directory'')) \<noteq> ''str''
          then Inl (GypError (''The working_directory for run_as in file '' @ build_file @ '' should be a string.''))
          else if get_truthy run_as ''environment''
               \<and> class_name (the (map_of run_as ''environment'')) \<noteq> ''dict''
          then Inl (GypError (''The environment for run_as in file '' @ build_file @ '' should be a dictionary.''))
          else Inr ()
      | _ \<Rightarrow> Inl (GypError (''The run_as in target from file '' @ build_file @ '' should be a dictionary.'')))"

section \<open>ValidateActionsInTarget\<close>

text \<open>\<open>not action_command[0]\<close>\<close>

fun first_falsy :: "gval \<Rightarrow> bool result" where
  "first_falsy (GList (v # vs)) = Inr (\<not> truthy v)"
| "first_falsy (GStr (c # cs)) = Inr False"
| "first_falsy (GDict d) = Inl (KeyError ''0'')"
| "first_falsy v = Inl (TypeError (class_name v @ '' object has no attribute __getitem__''))"

definition validate_action :: "gval \<Rightarrow> unit \<Rightarrow> unit result" where
  "validate_action action _ =
     rbind (as_dict action) (\<lambda>d.
     if \<not> get_truthy d ''action_name''
     then Inl (GypError ''Anonymous action in target.  An action must have an action_name field.'')
     else if map_of d ''inputs'' \<in> {None, Some (GOther ''NoneType'' False)}
     then Inl (GypError ''Action in target has no inputs.'')
     else if \<not> get_truthy d ''action'' then Inr ()
     else rbind (first_falsy (the (map_of d ''action''))) (\<lambda>bad.
          if bad then Inl (GypError ''Empty action as command in target.'') else Inr ()))"

definition ValidateActionsInTarget :: "string \<Rightarrow> gdict \<Rightarrow> string \<Rightarrow> unit result" where
  "ValidateActionsInTarget target target_dict build_file =
     rbind (get_iter target_dict ''actions'') (\<lambda>actions. rfold validate_action actions ())"

definition good_action :: "gval \<Rightarrow> bool" where
  "good_action action \<longleftrightarrow> (\<exists>d. action = GDict d \<and> get_truthy d ''action_name''
     \<and> map_of d ''inputs'' \<notin> {None, Some (GOther ''NoneType'' False)}
     \<and> (get_truthy d ''action'' \<longrightarrow> first_falsy (the (map_of d ''action'')) = Inr False))"

lemma ValidateActionsInTarget_iff:
  assumes "get_iter d ''actions'' = Inr actions"
  shows "ValidateActionsInTarget target d bf = Inr () \<longleftrightarrow> (\<forall>a \<in> set actions. good_action a)"
proof -
  have step: "validate_action a u = Inr w \<longleftrightarrow> good_action a" for a u w
    by (cases a) (auto simp: validate_action_def good_action_def split: if_splits)
  have "rfold validate_action as () = Inr () \<longleftrightarrow> (\<forall>a \<in> set as. good_action a)" for as
    by (induction as) (auto simp: step)
  with assms show ?thesis by (simp add: ValidateActionsInTarget_def)
qed

section \<open>Examples\<close>

theorem ValidateSourcesInTarget_witness:
  "ValidateSourcesInTarget ''t'' [(''type'', GStr ''static_library''),
     (''sources'', GList (map GStr [''a/x.cc'', ''b/x.h'', ''b/y.c'']))] ''x.gyp'' = Inr ()"
proof -
  let ?d = "[(''type'', GStr ''static_library''), (''sources'', GList (map GStr [''a/x.cc'', ''b/x.h'', ''b/y.c'']))]"
  have "map_of ?d ''type'' = Some (GStr ''static_library'') \<or> map_of ?d ''type'' = Some (GStr ''shared_library'')"
    "get_iter ?d ''sources'' = Inr (map GStr [''a/x.cc'', ''b/x.h'', ''b/y.c''])"
    by (simp_all add: get_iter_def dict_get_def)
  moreover have "distinct (compiled_basenames [''a/x.cc'', ''b/x.h'', ''b/y.c''])" by code_simp
  ultimately show ?thesis using ValidateSourcesInTarget_iff by blast
qed

definition ex_rules :: gdict where
  "ex_rules =
     [(''sources'', GList [GStr ''a.idl'', GStr ''b.cc'', GStr ''c.idl'']),
      (''rules'', GList [GDict [(''rule_name'', GStr ''gen''), (''extension'', GStr ''idl'')]])]"

definition ex_rule :: gval where
  "ex_rule = GDict [(''rule_name'', GStr ''gen''), (''extension'', GStr ''idl''),
     (''rule_sources'', GList [GStr ''a.idl'', GStr ''c.idl''])]"

theorem ValidateRulesInTarget_witness:
  "\<exists>xs. list_all2 (rule_done ex_rules [''sources''])
      [GDict [(''rule_name'', GStr ''gen''), (''extension'', GStr ''idl'')]] xs
    \<and> map (snd \<circ> snd) xs = [ex_rule]"
proof -
  have run: "ValidateRulesInTarget ''t'' ex_rules [] = Inr (AList.update ''rules'' (GList [ex_rule]) ex_rules)"
    by code_simp
  have "map_of ex_rules ''rules'' = Some (GList [GDict [(''rule_name'', GStr ''gen''), (''extension'', GStr ''idl'')]])"
    by (simp add: ex_rules_def)
  from ValidateRulesInTarget_sources [OF run this] obtain xs where
    "list_all2 (rule_done ex_rules [''sources'']) [GDict [(''rule_name'', GStr ''gen''), (''extension'', GStr ''idl'')]] xs"
    "AList.update ''rules'' (GList [ex_rule]) ex_rules = AList.update ''rules'' (GList (map (snd \<circ> snd) xs)) ex_rules"
    by (elim exE conjE) (rule that)
  moreover from arg_cong [OF this(2), of "\<lambda>d. map_of d ''rules''"] have "map (snd \<circ> snd) xs = [ex_rule]"
    by (simp add: map_of_update)
  ultimately show ?thesis by (intro exI conjI)
qed

end
