(* ===== verification/Gyp_Eval.thy ===== *)
theory Gyp_Eval
  imports Gyp_Value Py_Int
begin

text \<open>
  \<open>input.py\<close>: reading a build file (\<open>CheckedEval\<close>, \<open>CheckNode\<close>) and the expansion of toolsets
  (\<open>ProcessToolsetsInDict\<close>). \<open>compiler.parse\<close> is the parameter \<open>parse\<close>: it returns the module's
  documentation string and its statements.
\<close>

section \<open>CheckNode and CheckedEval\<close>

datatype const = CStr string | CInt int | COther string bool

text \<open>The nodes of Python's compiler that matter: all other nodes are \<open>AOther\<close>.\<close>

datatype ast = AConst const | AList "ast list" | ADict "(ast \<times> ast) list" | AOther string

datatype stmt = Discard ast | OtherStmt

text \<open>A literal with constant keys; \<open>gval_of\<close> turns it into a value of a build file.\<close>

datatype pval = PConst const | PList "pval list" | PDict "(const \<times> pval) list"

fun const_text :: "const \<Rightarrow> string result" where
  "const_text (CStr s) = Inr s"
| "const_text (CInt i) = Inl (TypeError ''expected string, int found'')"
| "const_text (COther c b) = Inl (TypeError (''expected string, '' @ c @ '' found''))"

definition repeated_key :: "const \<Rightarrow> const list \<Rightarrow> 'a result" where
  "repeated_key key keypath =
     rbind (const_text key) (\<lambda>key.
     rbind (rmap const_text keypath) (\<lambda>path.
     Inl (GypError (''Key '' @ [CHR 0x27] @ key @ [CHR 0x27] @ '' repeated at level ''
            @ show_nat (length keypath + 1) @ '' with key path '' @ [CHR 0x27] @ join ''.'' path @ [CHR 0x27]))))"

definition unknown_node :: "string \<Rightarrow> const list \<Rightarrow> 'a result" where
  "unknown_node node keypath =
     rbind (rmap const_text keypath) (\<lambda>path.
     Inl (TypeError (''Unknown AST node at key path '' @ [CHR 0x27] @ join ''.'' path @ [CHR 0x27]
            @ '': '' @ node)))"

lemma enumerate_size: "(i, child) \<in> set (enumerate n c) \<Longrightarrow> size child < Suc (size_list size c)"
  by (induction c arbitrary: n) (auto, fastforce)

lemma entry_size: "(k, v) \<in> set c \<Longrightarrow> size v < Suc (size_list (size_prod size size) c)"
  by (induction c) auto

function (sequential) CheckNode :: "ast \<Rightarrow> const list \<Rightarrow> pval result" where
  "CheckNode (ADict c) keypath =
     rbind (rfold (\<lambda>(k, v) d.
              case k of
                AConst key \<Rightarrow>
                  if key \<in> fst ` set d then repeated_key key keypath
                  else rbind (CheckNode v (keypath @ [key])) (\<lambda>x. Inr (d @ [(key, x)]))
              | _ \<Rightarrow> Inl AssertionError)
            c [])
       (\<lambda>d. Inr (PDict d))"
| "CheckNode (AList c) keypath =
     rbind (rmap (\<lambda>(i, child). CheckNode child (keypath @ [CStr (show_nat i)])) (enumerate 0 c))
       (\<lambda>children. Inr (PList children))"
| "CheckNode (AConst k) keypath = Inr (PConst k)"
| "CheckNode (AOther node) keypath = unknown_node node keypath"
  by pat_completeness auto
termination
  by (relation "measure (\<lambda>(node, _). size node)") (auto dest: enumerate_size entry_size)

declare CheckNode.simps [simp del]

text \<open>Only the first statement is looked at.\<close>

definition CheckedEval :: "(string \<Rightarrow> (string option \<times> stmt list) result) \<Rightarrow> string \<Rightarrow> pval result" where
  "CheckedEval parse file_contents =
     rbind (parse file_contents) (\<lambda>(doc, stmts).
       if doc \<noteq> None then Inl AssertionError
       else case stmts of
              [] \<Rightarrow> Inl IndexError
            | Discard e # _ \<Rightarrow> CheckNode e []
            | OtherStmt # _ \<Rightarrow> Inl AssertionError)"

subsection \<open>What CheckNode accepts\<close>

fun const_of :: "ast \<Rightarrow> const" where
  "const_of (AConst k) = k"
| "const_of _ = COther [] False"

fun is_const :: "ast \<Rightarrow> bool" where
  "is_const (AConst k) = True"
| "is_const _ = False"

text \<open>Dictionaries, lists and constants only, and no key twice in a dictionary.\<close>

fun plain_node :: "ast \<Rightarrow> bool" where
  "plain_node (AConst k) = True"
| "plain_node (AList c) = list_all plain_node c"
| "plain_node (ADict c) = (list_all (\<lambda>(k, v). is_const k \<and> plain_node v) c \<and> distinct (map (const_of \<circ> fst) c))"
| "plain_node (AOther node) = False"

text \<open>The value Python's \<open>eval\<close> has for such a literal.\<close>

fun literal :: "ast \<Rightarrow> pval" where
  "literal (AConst k) = PConst k"
| "literal (AList c) = PList (map literal c)"
| "literal (ADict c) = PDict (map (\<lambda>(k, v). (const_of k, literal v)) c)"
| "literal (AOther node) = PConst (COther node False)"

lemma repeated_key_Inr [simp]: "repeated_key k kp \<noteq> Inr x"
  by (simp add: repeated_key_def)

lemma unknown_node_Inr [simp]: "unknown_node node kp \<noteq> Inr x"
  by (simp add: unknown_node_def)

lemma CheckNode_list_Inr:
  assumes "\<And>x kp v. x \<in> set c \<Longrightarrow> CheckNode x kp = Inr v \<longleftrightarrow> plain_node x \<and> v = literal x"
  shows "rmap (\<lambda>(i, child). CheckNode child (kp @ [CStr (show_nat i)])) (enumerate n c) = Inr l \<longleftrightarrow>
    list_all plain_node c \<and> l = map literal c"
  using assms
proof (induction c arbitrary: n l)
  case (Cons x c)
  have x: "CheckNode x kp = Inr v \<longleftrightarrow> plain_node x \<and> v = literal x" for kp v
    using Cons.prems by simp
  have ih: "rmap (\<lambda>(i, child). CheckNode child (kp @ [CStr (show_nat i)])) (enumerate (Suc n) c) = Inr l \<longleftrightarrow>
    list_all plain_node c \<and> l = map literal c" for l
    by (rule Cons.IH) (use Cons.prems in simp)
  show ?case by (auto simp: x ih)
qed auto

lemma CheckNode_dict_Inr:
  assumes "\<And>k v kp w. (k, v) \<in> set c \<Longrightarrow> CheckNode v kp = Inr w \<longleftrightarrow> plain_node v \<and> w = literal v"
  shows "rfold (\<lambda>(k, v) d.
      case k of
        AConst key \<Rightarrow>
          if key \<in> fst ` set d then repeated_key key kp
          else rbind (CheckNode v (kp @ [key])) (\<lambda>x. Inr (d @ [(key, x)]))
      | _ \<Rightarrow> Inl AssertionError) c d = Inr d' \<longleftrightarrow>
    list_all (\<lambda>(k, v). is_const k \<and> plain_node v) c \<and> distinct (map (const_of \<circ> fst) c)
    \<and> const_of ` fst ` set c \<inter> fst ` set d = {} \<and> d' = d @ map (\<lambda>(k, v). (const_of k, literal v)) c"
  using assms
proof (induction c arbitrary: d)
  case (Cons e c)
  obtain k v where e: "e = (k, v)" by (cases e)
  have v: "CheckNode v kp = Inr w \<longleftrightarrow> plain_node v \<and> w = literal v" for kp w
    using Cons.prems by (auto simp: e)
  have prems: "\<And>k v kp w. (k, v) \<in> set c \<Longrightarrow> CheckNode v kp = Inr w \<longleftrightarrow> plain_node v \<and> w = literal v"
    using Cons.prems by auto
  show ?case
  proof (cases k)
    case (AConst key)
    show ?thesis
      using Cons.IH [where d = "d @ [(key, literal v)]", OF prems] v [of "kp @ [key]"]
      by (auto simp: e AConst)
  qed (auto simp: e)
qed auto

lemma CheckNode_iff:
  "CheckNode node keypath = Inr v \<longleftrightarrow> plain_node node \<and> v = literal node"
proof (induction node arbitrary: keypath v)
  case (AList c)
  then show ?case by (auto simp: CheckNode.simps CheckNode_list_Inr)
next
  case (ADict c)
  have "CheckNode w kp = Inr x \<longleftrightarrow> plain_node w \<and> x = literal w" if "(k, w) \<in> set c" for k w kp x
    using ADict(2) [of "(k, w)" w] that by simp
  from CheckNode_dict_Inr [OF this] show ?case by (auto simp: CheckNode.simps)
qed (auto simp: CheckNode.simps)

text \<open>
  \<open>CheckNode\<close> accepts exactly the literals built of dictionaries, lists and constants in which no
  dictionary repeats a key, at any depth, and returns the value of the literal.
\<close>

theorem CheckNode_plain:
  "CheckNode node keypath = Inr v \<longleftrightarrow> plain_node node \<and> v = literal node"
  by (rule CheckNode_iff)

text \<open>
  \<open>CheckedEval\<close> evaluates the first statement only: whatever follows a literal in a build file is
  ignored, although \<open>eval\<close> would refuse the file.
\<close>

theorem CheckedEval_first:
  assumes "parse text = Inr (None, Discard e # rest)" and "plain_node e"
  shows "CheckedEval parse text = Inr (literal e)"
  using assms CheckNode_iff [of e "[]" "literal e"] by (simp add: CheckedEval_def)

theorem CheckedEval_witness:
  "CheckedEval (\<lambda>_. Inr (None, [Discard (AList [AConst (CInt 1)]), OtherStmt])) ''[1]; x = 2''
    = Inr (PList [PConst (CInt 1)])"
  using CheckedEval_first [of "\<lambda>_. Inr (None, [Discard (AList [AConst (CInt 1)]), OtherStmt])" "''[1]; x = 2''"]
  by simp

end
