(* ===== verification/Gyp_Toolsets.thy ===== *)
theory Gyp_Toolsets
  imports Gyp_Value
begin

text \<open>
  \<open>input.py\<close>: \<open>ProcessToolsetsInDict\<close>, which replaces a target that lists several toolsets by one
  target per toolset. It runs before and after conditions are evaluated and descends into them.
\<close>

section \<open>ProcessToolsetsInDict\<close>

text \<open>\<open>k in v\<close>: a key of a dictionary, an item of a list, a substring.\<close>

fun py_in :: "string \<Rightarrow> gval \<Rightarrow> bool result" where
  "py_in k (GDict d) = Inr (has_key k d)"
| "py_in k (GList l) = Inr (GStr k \<in> set l)"
| "py_in k (GStr s) = Inr (sublist k s)"
| "py_in k v = Inl (TypeError (''argument of type '' @ class_name v @ '' is not iterable''))"

text \<open>A sequence that has a length and slices.\<close>

fun py_seq :: "gval \<Rightarrow> gval list result" where
  "py_seq (GList l) = Inr l"
| "py_seq (GStr s) = Inr (map (\<lambda>c. GStr [c]) s)"
| "py_seq v = Inl (TypeError (class_name v @ '' object is not a sequence''))"

definition expand_toolsets :: "gyp_env \<Rightarrow> gval \<Rightarrow> gval list \<Rightarrow> gval list result" where
  "expand_toolsets env target new_target_list =
     rbind (py_in ''toolset'' target) (\<lambda>explicit.
     rbind (if explicit then py_in ''toolsets'' target else Inr True) (\<lambda>toolsets_listed.
     if explicit \<and> \<not> toolsets_listed then Inr (new_target_list @ [target])
     else rbind (as_dict target) (\<lambda>d.
          rbind (if multiple_toolsets env
                 then py_seq (dict_get d ''toolsets'' (GList [GStr ''target'']))
                 else Inr [GStr ''target'']) (\<lambda>toolsets.
          let d = AList.delete ''toolsets'' d;
              with_toolset = (\<lambda>build. GDict (AList.update ''toolset'' build d))
          in case toolsets of
               [] \<Rightarrow> Inr new_target_list
             | first # others \<Rightarrow>
                 Inr (new_target_list @ map with_toolset others @ [with_toolset first])))))"

definition expand_targets :: "gyp_env \<Rightarrow> gdict \<Rightarrow> gdict result" where
  "expand_targets env data =
     (case map_of data ''targets'' of
        None \<Rightarrow> Inr data
      | Some v \<Rightarrow>
          rbind (py_iter v) (\<lambda>target_list.
          rbind (rfold (expand_toolsets env) target_list []) (\<lambda>new_target_list.
          Inr (AList.update ''targets'' (GList new_target_list) data))))"

lemma map_of_size: "map_of d k = Some v \<Longrightarrow> size v < Suc (size_list (size_prod (\<lambda>_. 0) size) d)"
  by (induction d) (auto split: if_splits)

lemma size_member: "x \<in> set l \<Longrightarrow> size x < Suc (size_list size l)"
  by (induction l) auto

lemma condition_size:
  assumes "x \<in> set ds" and "GList (c # ds) \<in> set conditions" and "map_of data ''conditions'' = Some (GList conditions)"
  shows "size x < Suc (size_list (size_prod (\<lambda>_. 0) size) data)"
proof -
  have "size x < size (GList (c # ds))" using size_member [OF assms(1)] by simp
  also have "\<dots> < size (GList conditions)" using size_member [OF assms(2)] by simp
  also have "\<dots> < Suc (size_list (size_prod (\<lambda>_. 0) size) data)" by (rule map_of_size [OF assms(3)])
  finally show ?thesis .
qed

text \<open>
  The conditions are not touched by the step before, so they are read from the argument. A value
  that is no dictionary has no key, unless it is a string or a list that happens to contain one,
  which then fails to be indexed.
\<close>

function (sequential) ProcessToolsetsInDict :: "gyp_env \<Rightarrow> gval \<Rightarrow> gval result" where
  "ProcessToolsetsInDict env (GDict data) =
     rbind (expand_targets env data) (\<lambda>data'.
     case map_of data ''conditions'' of
       None \<Rightarrow> Inr (GDict data')
     | Some (GList conditions) \<Rightarrow>
         rbind (rmap (\<lambda>condition.
                  case condition of
                    GList (cond_expr # condition_dicts) \<Rightarrow>
                      rbind (rmap (ProcessToolsetsInDict env) condition_dicts) (\<lambda>ds. Inr (GList (cond_expr # ds)))
                  | _ \<Rightarrow> Inr condition)
                conditions) (\<lambda>conditions.
         Inr (GDict (AList.update ''conditions'' (GList conditions) data')))
     | Some v \<Rightarrow> rbind (py_iter v) (\<lambda>_. Inr (GDict data')))"
| "ProcessToolsetsInDict env v =
     rbind (py_in ''targets'' v) (\<lambda>t.
     rbind (py_in ''conditions'' v) (\<lambda>c.
     if t \<or> c then Inl (TypeError (class_name v @ '' indices'')) else Inr v))"
  by pat_completeness auto

termination
  by (relation "measure (\<lambda>(env, v). size v)") (auto dest: condition_size)

declare ProcessToolsetsInDict.simps [simp del]

section \<open>What is left\<close>

text \<open>A target that the pass leaves alone.\<close>

definition toolset_done :: "gval \<Rightarrow> bool" where
  "toolset_done target \<longleftrightarrow> py_in ''toolset'' target = Inr True \<and> py_in ''toolsets'' target = Inr False"

lemma expand_toolsets_done: "toolset_done t \<Longrightarrow> expand_toolsets env t new = Inr (new @ [t])"
  by (simp add: expand_toolsets_def toolset_done_def)

lemma with_toolset_done: "toolset_done (GDict (AList.update ''toolset'' b (AList.delete ''toolsets'' d)))"
  by (simp add: toolset_done_def has_key_iff map_of_update map_of_delete)

lemma expand_toolsets_Inr:
  "expand_toolsets env t new = Inr new' \<Longrightarrow> \<exists>ts. new' = new @ ts \<and> (\<forall>t \<in> set ts. toolset_done t)"
proof (cases "toolset_done t")
  case True
  moreover assume "expand_toolsets env t new = Inr new'"
  ultimately show ?thesis by (auto simp: expand_toolsets_done)
next
  case False
  assume run: "expand_toolsets env t new = Inr new'"
  then obtain explicit listed where e: "py_in ''toolset'' t = Inr explicit"
    "(if explicit then py_in ''toolsets'' t else Inr True) = Inr listed"
    unfolding expand_toolsets_def by (simp only: rbind_Inr_iff) blast
  have "\<not> (explicit \<and> \<not> listed)"
  proof
    assume "explicit \<and> \<not> listed"
    with e False show False by (simp add: toolset_done_def)
  qed
  with run e obtain d toolsets where
    "(case toolsets of
        [] \<Rightarrow> Inr new
      | first # others \<Rightarrow>
          Inr (new @ map (\<lambda>build. GDict (AList.update ''toolset'' build (AList.delete ''toolsets'' d))) others
                @ [GDict (AList.update ''toolset'' first (AList.delete ''toolsets'' d))])) = (Inr new' :: gval list result)"
    unfolding expand_toolsets_def Let_def by (simp only: rbind.simps if_False rbind_Inr_iff) blast
  then show ?thesis
    by (cases toolsets) (auto simp: with_toolset_done)
qed

lemma expand_all_Inr:
  "rfold (expand_toolsets env) ts new = Inr new' \<Longrightarrow> \<forall>t \<in> set new. toolset_done t \<Longrightarrow> \<forall>t \<in> set new'. toolset_done t"
  by (rule rfold_invariant [where P = "\<lambda>new. \<forall>t \<in> set new. toolset_done t"])
     (auto dest!: expand_toolsets_Inr)

lemma expand_all_done:
  "\<forall>t \<in> set ts. toolset_done t \<Longrightarrow> rfold (expand_toolsets env) ts new = Inr (new @ ts)"
  by (induction ts arbitrary: new) (auto simp: expand_toolsets_done)

lemma expand_targets_Inr:
  assumes "expand_targets env data = Inr data'"
  shows "(\<forall>k. k \<noteq> ''targets'' \<longrightarrow> map_of data' k = map_of data k)
    \<and> (\<forall>v. map_of data' ''targets'' = Some v \<longrightarrow> (\<exists>ts. v = GList ts \<and> (\<forall>t \<in> set ts. toolset_done t)))"
proof (cases "map_of data ''targets''")
  case None
  with assms show ?thesis by (simp add: expand_targets_def)
next
  case (Some v)
  with assms obtain ts new where "rfold (expand_toolsets env) ts [] = Inr new"
    and data': "data' = AList.update ''targets'' (GList new) data" by (auto simp: expand_targets_def)
  from expand_all_Inr [OF this(1)] have "\<forall>t \<in> set new. toolset_done t" by simp
  with data' show ?thesis by (simp add: map_of_update)
qed

lemma expand_targets_done:
  assumes "\<forall>v. map_of data ''targets'' = Some v \<longrightarrow> (\<exists>ts. v = GList ts \<and> (\<forall>t \<in> set ts. toolset_done t))"
  shows "expand_targets env data = Inr data"
  using assms by (auto simp: expand_targets_def expand_all_done update_same split: option.split)

lemma rmap_fixed: "\<forall>x \<in> set ys. f x = Inr x \<Longrightarrow> rmap f ys = Inr ys"
  by (induction ys) auto

lemma rmap_Inr_set: "rmap f xs = Inr ys \<Longrightarrow> y \<in> set ys \<Longrightarrow> \<exists>x \<in> set xs. f x = Inr y"
  by (induction xs arbitrary: ys) auto

lemma ProcessToolsets_again:
  "ProcessToolsetsInDict env v = Inr v' \<Longrightarrow> ProcessToolsetsInDict env v' = Inr v'"
proof (induction env v arbitrary: v' rule: ProcessToolsetsInDict.induct)
  case (1 env data)
  let ?step = "\<lambda>condition. case condition of
      GList (cond_expr # condition_dicts) \<Rightarrow>
        rbind (rmap (ProcessToolsetsInDict env) condition_dicts) (\<lambda>ds. Inr (GList (cond_expr # ds)))
    | _ \<Rightarrow> Inr condition"
  from 1(2) obtain data' where data': "expand_targets env data = Inr data'"
    by (auto simp: ProcessToolsetsInDict.simps)
  note t = expand_targets_Inr [OF this]
  show ?case
  proof (cases "\<exists>conditions. map_of data ''conditions'' = Some (GList conditions)")
    case False
    with 1(2) data' have v': "v' = GDict data'"
      by (auto simp: ProcessToolsetsInDict.simps split: option.splits gval.splits)
    moreover have "expand_targets env data' = Inr data'" by (rule expand_targets_done) (use t in blast)
    moreover have "map_of data' ''conditions'' = map_of data ''conditions''" using t by simp
    ultimately show ?thesis
      using False 1(2) data' by (auto simp: ProcessToolsetsInDict.simps split: option.splits gval.splits)
  next
    case True
    then obtain conditions where c: "map_of data ''conditions'' = Some (GList conditions)" ..
    with 1(2) data' obtain cs where cs: "rmap ?step conditions = Inr cs"
      and v': "v' = GDict (AList.update ''conditions'' (GList cs) data')"
      by (auto simp: ProcessToolsetsInDict.simps)
    have "?step y = Inr y" if y: "y \<in> set cs" for y
    proof -
      from rmap_Inr_set [OF cs y] obtain x where x: "x \<in> set conditions" "?step x = Inr y" by blast
      show ?thesis
      proof (cases "\<exists>e ds. x = GList (e # ds)")
        case True
        then obtain e ds where e: "x = GList (e # ds)" by blast
        with x(2) obtain ds' where ds': "rmap (ProcessToolsetsInDict env) ds = Inr ds'" "y = GList (e # ds')"
          by auto
        have "ProcessToolsetsInDict env d' = Inr d'" if "d' \<in> set ds'" for d'
        proof -
          from rmap_Inr_set [OF ds'(1) that] obtain d where "d \<in> set ds" "ProcessToolsetsInDict env d = Inr d'"
            by blast
          with 1(1) [OF data' c refl x(1) e refl] show ?thesis by blast
        qed
        then have "rmap (ProcessToolsetsInDict env) ds' = Inr ds'" by (intro rmap_fixed) blast
        with ds'(2) show ?thesis by simp
      next
        case False
        with x(2) have "y = x" by (auto split: gval.splits list.splits)
        show ?thesis using x(2) unfolding \<open>y = x\<close> .
      qed
    qed
    then have "rmap ?step cs = Inr cs" by (intro rmap_fixed) blast
    moreover have "expand_targets env (AList.update ''conditions'' (GList cs) data')
        = Inr (AList.update ''conditions'' (GList cs) data')"
      by (rule expand_targets_done) (use t in \<open>simp add: map_of_update\<close>)
    ultimately show ?thesis by (simp add: v' ProcessToolsetsInDict.simps map_of_update update_same)
  qed
qed (auto simp: ProcessToolsetsInDict.simps split: if_splits)

text \<open>
  C33: toolsets are expanded once. After the pass every target has a \<open>toolset\<close> and no \<open>toolsets\<close>, in
  the targets of the file and in those of every conditional part, so the second round, which \<open>gyp\<close>
  runs after conditions, changes nothing that the first has done.
\<close>

theorem ProcessToolsetsInDict_idempotent:
  assumes "ProcessToolsetsInDict env (GDict data) = Inr v"
  shows "\<exists>data'. v = GDict data'
    \<and> (map_of data' ''targets'' = None
        \<or> (\<exists>ts. map_of data' ''targets'' = Some (GList ts) \<and> list_all toolset_done ts))
    \<and> ProcessToolsetsInDict env v = Inr v"
proof -
  from assms obtain d1 where d1: "expand_targets env data = Inr d1"
    by (auto simp: ProcessToolsetsInDict.simps)
  have "\<exists>data'. v = GDict data' \<and> map_of data' ''targets'' = map_of d1 ''targets''"
  proof (cases "map_of data ''conditions''")
    case None
    with assms d1 show ?thesis by (auto simp: ProcessToolsetsInDict.simps)
  next
    case (Some w)
    with assms d1 show ?thesis by (cases w) (auto simp: ProcessToolsetsInDict.simps map_of_update)
  qed
  then obtain data' where v: "v = GDict data'" "map_of data' ''targets'' = map_of d1 ''targets''" by blast
  have "map_of data' ''targets'' = None
        \<or> (\<exists>ts. map_of data' ''targets'' = Some (GList ts) \<and> list_all toolset_done ts)"
    using expand_targets_Inr [OF d1] v(2) by (cases "map_of d1 ''targets''") (auto simp: list_all_iff)
  with v(1) ProcessToolsets_again [OF assms] show ?thesis by blast
qed

definition ex_toolsets :: gdict where
  "ex_toolsets = [(''targets'', GList [GDict [(''target_name'', GStr ''a''),
     (''toolsets'', GList [GStr ''host'', GStr ''target''])]])]"

definition ex_expanded :: gdict where
  "ex_expanded = [(''targets'', GList
     [GDict [(''target_name'', GStr ''a''), (''toolset'', GStr ''target'')],
      GDict [(''target_name'', GStr ''a''), (''toolset'', GStr ''host'')]])]"

theorem ProcessToolsetsInDict_witness:
  "ProcessToolsetsInDict (gyp_globals id [] [] False True) (GDict ex_expanded) = Inr (GDict ex_expanded)"
proof -
  have "ProcessToolsetsInDict (gyp_globals id [] [] False True) (GDict ex_toolsets) = Inr (GDict ex_expanded)"
    by code_simp
  from ProcessToolsetsInDict_idempotent [OF this] show ?thesis by blast
qed

end
