(* ===== verification/Gyp_Load.thy ===== *)
theory Gyp_Load
  imports Gyp_Merge Gyp_Eval
begin

text \<open>
  \<open>input.py\<close>: loading one build file with everything it includes (\<open>LoadOneBuildFile\<close>,
  \<open>LoadBuildFileIncludesIntoDict\<close>, \<open>LoadBuildFileIncludesIntoList\<close>) and the list of the files that
  contributed to it (\<open>GetIncludedBuildFiles\<close>).

  The file system and Python's parser are the record \<open>file_io\<close>. The state is the dictionary \<open>data\<close>
  from paths to contents and \<open>aux_data\<close>, of which only the lists \<open>included\<close> matter; a file without
  one has the empty list. Contents are trees that the code mutates in place. That is visible while a
  file is being loaded only to a file that includes it back, directly or not: such a cycle, which
  merges a dictionary into itself, leaves the model (\<open>NotModelled\<close>), and \<open>open_files\<close> are the files
  being loaded. The first argument of the loading functions is the recursion depth left.
\<close>

section \<open>GetIncludedBuildFiles\<close>

type_synonym aux_data = "(string \<times> string list) list"

fun GetIncludedBuildFiles :: "nat \<Rightarrow> aux_data \<Rightarrow> string \<Rightarrow> string list \<Rightarrow> string list result" where
  "GetIncludedBuildFiles 0 aux_data build_file_path included = Inl RecursionLimit"
| "GetIncludedBuildFiles (Suc n) aux_data build_file_path included =
     (if build_file_path \<in> set included then Inr included
      else rbind (dict_read aux_data build_file_path) (\<lambda>included_files.
           rfold (GetIncludedBuildFiles n aux_data) included_files (included @ [build_file_path])))"

declare GetIncludedBuildFiles.simps(2) [simp del]

definition includes_file :: "aux_data \<Rightarrow> string \<Rightarrow> string \<Rightarrow> bool" where
  "includes_file aux f g \<longleftrightarrow> (\<exists>gs. map_of aux f = Some gs \<and> g \<in> set gs)"

interpretation included: shared_walk
  "\<lambda>_. Inr ()" "\<lambda>_. False" "dict_read aux" "\<lambda>n. GetIncludedBuildFiles n aux" for aux
  by unfold_locales (simp_all add: GetIncludedBuildFiles.simps)

lemma includes_file_update [simp]:
  "includes_file (AList.update p gs aux) f g \<longleftrightarrow> (if f = p then g \<in> set gs else includes_file aux f g)"
  by (simp add: includes_file_def map_of_update)

lemma includes_file_get [simp]: "g \<in> set (dict_get aux f []) \<longleftrightarrow> includes_file aux f g"
  by (cases "map_of aux f") (simp_all add: includes_file_def dict_get_def)

lemma included_edge: "included.edge aux = includes_file aux"
  by (simp add: fun_eq_iff included.edge_def includes_file_def)

lemma GetIncluded_set:
  assumes "GetIncludedBuildFiles n aux path [] = Inr files"
  shows "distinct files \<and> set files = {f. (includes_file aux)\<^sup>*\<^sup>* path f}"
proof -
  have "rfold (GetIncludedBuildFiles n aux) [path] [] = Inr files" using assms by simp
  from included.walk_distinct [OF this] included.walk_set [OF this] show ?thesis
    by (simp add: included_edge)
qed

lemma GetIncluded_enough:
  assumes "\<And>f gs. map_of aux f = Some gs \<Longrightarrow> set gs \<subseteq> fst ` set aux" and "path \<in> fst ` set aux" and "length aux < n"
  shows "\<exists>files. GetIncludedBuildFiles n aux path [] = Inr files"
proof -
  let ?N = "fst ` set aux"
  have "Inr () = (Inr () :: unit result) \<and> (\<exists>ys. dict_read aux x = Inr ys \<and> set ys \<subseteq> ?N)" if "x \<in> ?N" for x
  proof -
    from that obtain gs where "map_of aux x = Some gs" by (metis map_of_eq_None_iff not_Some_eq)
    with assms(1) show ?thesis by auto
  qed
  moreover have "card ?N < n"
    using assms(3) by (metis card_image_le card_length finite_set le_less_trans)
  ultimately have "\<exists>files. rfold (GetIncludedBuildFiles n aux) [path] [] = Inr files"
    using included.walk_enough [where N = ?N and xs = "[path]" and acc = "[]"] assms(2) by simp
  then show ?thesis by simp
qed

section \<open>Loading a file and its includes\<close>

record file_io =
  read_file :: "string \<Rightarrow> string option"
  parse_module :: "string \<Rightarrow> (string option \<times> stmt list) result"
  py_eval :: "string \<Rightarrow> gval result"
  getcwd :: string

record load_state =
  data :: "(string \<times> gdict) list"
  aux_data :: aux_data
  open_files :: "string list"

text \<open>A dictionary of a build file has strings as keys; any other key leaves the model.\<close>

fun gval_of :: "pval \<Rightarrow> gval result" where
  "gval_of (PConst (CStr s)) = Inr (GStr s)"
| "gval_of (PConst (CInt i)) = Inr (GInt i)"
| "gval_of (PConst (COther c b)) = Inr (GOther c b)"
| "gval_of (PList l) = rbind (rmap gval_of l) (\<lambda>l. Inr (GList l))"
| "gval_of (PDict d) =
     rbind (rmap (\<lambda>(k, v).
              rbind (gval_of v) (\<lambda>v.
              case k of CStr s \<Rightarrow> Inr (s, v) | _ \<Rightarrow> Inl (NotModelled ''key that is not a string''))) d)
       (\<lambda>d. Inr (GDict d))"

text \<open>\<open>ExceptionAppend\<close> on an exception; a class whose model has no message stays as it is.\<close>

definition append_error :: "string \<Rightarrow> py_error \<Rightarrow> py_error" where
  "append_error msg e =
     (let app = (\<lambda>m. hd (ExceptionAppend [m] msg))
      in case e of
           GypError m \<Rightarrow> GypError (app m)
         | PlainException m \<Rightarrow> PlainException (app m)
         | TypeError m \<Rightarrow> TypeError (app m)
         | ValueError m \<Rightarrow> ValueError (app m)
         | KeyError m \<Rightarrow> KeyError (app m)
         | AttributeError m \<Rightarrow> AttributeError (app m)
         | e \<Rightarrow> e)"

definition on_error :: "(py_error \<Rightarrow> py_error) \<Rightarrow> 'a result \<Rightarrow> 'a result" where
  "on_error f r = (case r of Inl e \<Rightarrow> Inl (f e) | Inr x \<Rightarrow> Inr x)"

lemma on_error_Inr [simp]: "on_error f r = Inr x \<longleftrightarrow> r = Inr x"
  by (simp add: on_error_def split: sum.split)

definition read_build_file :: "file_io \<Rightarrow> bool \<Rightarrow> string \<Rightarrow> gdict result" where
  "read_build_file io check build_file_path =
     (case read_file io build_file_path of
        None \<Rightarrow> Inl (GypError (build_file_path @ '' not found (cwd: '' @ getcwd io @ '')''))
      | Some contents \<Rightarrow>
          on_error (append_error (''while reading '' @ build_file_path))
            (rbind (if check then rbind (CheckedEval (parse_module io) contents) gval_of
                    else py_eval io contents) as_dict))"

text \<open>The files to include: those handed in, then those listed, relative to the including file.\<close>

definition includes_list :: "string list option \<Rightarrow> gdict \<Rightarrow> string \<Rightarrow> string list result" where
  "includes_list extra subdict subdict_path =
     rbind (get_iter subdict ''includes'') (\<lambda>listed.
     rbind (rmap (\<lambda>include. rbind (as_str include) (\<lambda>include.
              Inr (normpath (path_join (dirname subdict_path) include)))) listed) (\<lambda>relative.
     Inr ((case extra of None \<Rightarrow> [] | Some l \<Rightarrow> l) @ relative)))"

definition note_included :: "string \<Rightarrow> string \<Rightarrow> load_state \<Rightarrow> load_state" where
  "note_included subdict_path include st =
     st\<lparr>aux_data := AList.update subdict_path (dict_get (aux_data st) subdict_path [] @ [include]) (aux_data st)\<rparr>"

definition start_file :: "string \<Rightarrow> gdict \<Rightarrow> load_state \<Rightarrow> load_state" where
  "start_file path contents st =
     st\<lparr>data := AList.update path contents (data st), aux_data := AList.update path [] (aux_data st),
        open_files := path # open_files st\<rparr>"

definition finish_file :: "string \<Rightarrow> gdict \<Rightarrow> load_state \<Rightarrow> load_state" where
  "finish_file path contents st =
     st\<lparr>data := AList.update path contents (data st), open_files := removeAll path (open_files st)\<rparr>"

function (sequential)
  LoadOneBuildFile ::
    "nat \<Rightarrow> gyp_env \<Rightarrow> file_io \<Rightarrow> bool \<Rightarrow> string list option \<Rightarrow> string \<Rightarrow> load_state
     \<Rightarrow> (gdict \<times> load_state) result"
  and LoadBuildFileIncludesIntoDict ::
    "nat \<Rightarrow> gyp_env \<Rightarrow> file_io \<Rightarrow> bool \<Rightarrow> string list option \<Rightarrow> string \<Rightarrow> gdict \<Rightarrow> load_state
     \<Rightarrow> (gdict \<times> load_state) result"
  and LoadBuildFileIncludesIntoList ::
    "nat \<Rightarrow> gyp_env \<Rightarrow> file_io \<Rightarrow> bool \<Rightarrow> string \<Rightarrow> gval list \<Rightarrow> load_state
     \<Rightarrow> (gval list \<times> load_state) result"
where
  "LoadOneBuildFile 0 env io check extra path st = Inl RecursionLimit"
| "LoadOneBuildFile (Suc n) env io check extra path st =
     (case map_of (data st) path of
        Some contents \<Rightarrow>
          if path \<in> set (open_files st) then Inl (NotModelled ''include cycle'') else Inr (contents, st)
      | None \<Rightarrow>
          rbind (read_build_file io check path) (\<lambda>contents.
          on_error (append_error (''while reading includes of '' @ path))
            (rbind (LoadBuildFileIncludesIntoDict n env io check extra path contents
                      (start_file path contents st)) (\<lambda>(contents, st).
             Inr (contents, finish_file path contents st)))))"
| "LoadBuildFileIncludesIntoDict 0 env io check extra path subdict st = Inl RecursionLimit"
| "LoadBuildFileIncludesIntoDict (Suc n) env io check extra path subdict st =
     rbind (includes_list extra subdict path) (\<lambda>includes.
     rbind (rfold (\<lambda>include (subdict, st).
              rbind (LoadOneBuildFile n env io check None include (note_included path include st))
                (\<lambda>(fro, st).
              rbind (MergeDicts env subdict fro path include) (\<lambda>subdict. Inr (subdict, st))))
            includes (AList.delete ''includes'' subdict, st)) (\<lambda>(subdict, st).
     rfold (\<lambda>(k, v) (seen, st).
        case v of
          GDict d \<Rightarrow>
            rbind (LoadBuildFileIncludesIntoDict n env io check None path d st) (\<lambda>(d, st).
            Inr (seen @ [(k, GDict d)], st))
        | GList l \<Rightarrow>
            rbind (LoadBuildFileIncludesIntoList n env io check path l st) (\<lambda>(l, st).
            Inr (seen @ [(k, GList l)], st))
        | v \<Rightarrow> Inr (seen @ [(k, v)], st))
       subdict ([], st)))"
| "LoadBuildFileIncludesIntoList 0 env io check path items st = Inl RecursionLimit"
| "LoadBuildFileIncludesIntoList (Suc n) env io check path items st =
     rfold (\<lambda>item (seen, st).
        case item of
          GDict d \<Rightarrow>
            rbind (LoadBuildFileIncludesIntoDict n env io check None path d st) (\<lambda>(d, st).
            Inr (seen @ [GDict d], st))
        | GList l \<Rightarrow>
            rbind (LoadBuildFileIncludesIntoList n env io check path l st) (\<lambda>(l, st).
            Inr (seen @ [GList l], st))
        | item \<Rightarrow> Inr (seen @ [item], st))
       items ([], st)"
  by pat_completeness auto
termination
  by (relation "measure (case_sum fst (case_sum fst fst))") simp_all

declare LoadOneBuildFile.simps(2) [simp del] LoadBuildFileIncludesIntoDict.simps(2) [simp del]
  LoadBuildFileIncludesIntoList.simps(2) [simp del]

section \<open>Every included file is loaded\<close>

text \<open>
  \<open>aux_data\<close> knows the loaded files, and the files they include are loaded as well, except perhaps
  those in \<open>P\<close>, whose loading is under way.
\<close>

definition files_known :: "string set \<Rightarrow> load_state \<Rightarrow> bool" where
  "files_known P st \<longleftrightarrow>
     fst ` set (aux_data st) = fst ` set (data st)
     \<and> (\<forall>f g. includes_file (aux_data st) f g \<longrightarrow> g \<in> P \<or> g \<in> fst ` set (data st))"

definition files_grow :: "string set \<Rightarrow> load_state \<Rightarrow> load_state \<Rightarrow> bool" where
  "files_grow P st st' \<longleftrightarrow> fst ` set (data st) \<subseteq> fst ` set (data st') \<and> files_known P st'"

lemma files_grow_refl: "files_known P st \<Longrightarrow> files_grow P st st"
  by (simp add: files_grow_def)

lemma files_grow_trans: "files_grow P a b \<Longrightarrow> files_grow P b c \<Longrightarrow> files_grow P a c"
  by (auto simp: files_grow_def)

lemma update_keys_set: "fst ` set (AList.update k v d) = insert k (fst ` set d)"
  by (induction d) auto

lemma files_known_note:
  assumes "files_known P st" and "path \<in> fst ` set (data st)"
  shows "files_known (insert include P) (note_included path include st)"
  using assms by (auto simp: files_known_def note_included_def update_keys_set)

lemma files_known_start:
  "files_known P st \<Longrightarrow> files_known P (start_file path contents st)"
  by (auto simp: files_known_def start_file_def update_keys_set)

lemma files_known_finish:
  "files_known P st \<Longrightarrow> path \<in> fst ` set (data st) \<Longrightarrow> files_known P (finish_file path contents st)"
  by (simp add: files_known_def finish_file_def update_keys_set insert_absorb)

lemma files_known_arrived:
  "files_known (insert f P) st \<Longrightarrow> f \<in> fst ` set (data st) \<Longrightarrow> files_known P st"
  by (auto simp: files_known_def)

text \<open>What each of the three functions keeps, at recursion depth \<open>n\<close>.\<close>

definition one_keeps :: "nat \<Rightarrow> bool" where
  "one_keeps n \<longleftrightarrow> (\<forall>env io check extra path st contents st' P.
     LoadOneBuildFile n env io check extra path st = Inr (contents, st') \<longrightarrow> files_known P st
     \<longrightarrow> files_grow P st st' \<and> path \<in> fst ` set (data st'))"

definition dict_keeps :: "nat \<Rightarrow> bool" where
  "dict_keeps n \<longleftrightarrow> (\<forall>env io check extra path d st d' st' P.
     LoadBuildFileIncludesIntoDict n env io check extra path d st = Inr (d', st') \<longrightarrow> files_known P st
     \<longrightarrow> path \<in> fst ` set (data st) \<longrightarrow> files_grow P st st')"

definition list_keeps :: "nat \<Rightarrow> bool" where
  "list_keeps n \<longleftrightarrow> (\<forall>env io check path l st l' st' P.
     LoadBuildFileIncludesIntoList n env io check path l st = Inr (l', st') \<longrightarrow> files_known P st
     \<longrightarrow> path \<in> fst ` set (data st) \<longrightarrow> files_grow P st st')"

lemmas one_keepsD = one_keeps_def [THEN iffD1, rule_format]
lemmas dict_keepsD = dict_keeps_def [THEN iffD1, rule_format]
lemmas list_keepsD = list_keeps_def [THEN iffD1, rule_format]

lemma one_keeps_Suc:
  assumes dict: "dict_keeps n"
  shows "one_keeps (Suc n)"
  unfolding one_keeps_def
proof (intro allI impI)
  fix env io check extra path st contents st' P
  assume run: "LoadOneBuildFile (Suc n) env io check extra path st = Inr (contents, st')" and known: "files_known P st"
  show "files_grow P st st' \<and> path \<in> fst ` set (data st')"
  proof (cases "map_of (data st) path")
    case None
    with run obtain c c' st1 where
      1: "LoadBuildFileIncludesIntoDict n env io check extra path c (start_file path c st) = Inr (c', st1)"
        "st' = finish_file path c' st1" by (auto simp: LoadOneBuildFile.simps)
    have "path \<in> fst ` set (data (start_file path c st))" by (simp add: start_file_def update_keys_set)
    from dict_keepsD [OF dict 1(1) files_known_start [OF known] this]
    have "files_known P st1" "insert path (fst ` set (data st)) \<subseteq> fst ` set (data st1)"
      by (auto simp: files_grow_def start_file_def update_keys_set)
    with files_known_finish [of P st1 path c'] show ?thesis
      by (auto simp: 1(2) files_grow_def finish_file_def update_keys_set)
  next
    case (Some c)
    with run known show ?thesis
      by (auto simp: LoadOneBuildFile.simps files_grow_refl dest: map_of_key split: if_splits)
  qed
qed

text \<open>One included file.\<close>

lemma include_keeps:
  assumes one: "one_keeps n" and t: "files_grow P st t" and path: "path \<in> fst ` set (data st)"
    and run: "LoadOneBuildFile n env io check None inc (note_included path inc t) = Inr (fro, t')"
  shows "files_grow P st t'"
proof -
  have known: "files_known P t" and sub: "fst ` set (data st) \<subseteq> fst ` set (data t)"
    using t by (simp_all add: files_grow_def)
  with path have "path \<in> fst ` set (data t)" by blast
  from one_keepsD [OF one run files_known_note [OF known this]]
  have 1: "files_known (insert inc P) t'" "fst ` set (data t) \<subseteq> fst ` set (data t')" "inc \<in> fst ` set (data t')"
    by (simp_all add: files_grow_def note_included_def)
  from subset_trans [OF sub 1(2)] files_known_arrived [OF 1(1,3)] show ?thesis
    unfolding files_grow_def by (rule conjI)
qed

text \<open>One value of a dictionary or a list.\<close>

lemma value_keeps:
  assumes dict: "dict_keeps n" and list: "list_keeps n"
    and t: "files_grow P st t" and path: "path \<in> fst ` set (data st)"
  shows "LoadBuildFileIncludesIntoDict n env io check None path d t = Inr (d', t') \<Longrightarrow> files_grow P st t'"
    and "LoadBuildFileIncludesIntoList n env io check path l t = Inr (l', t') \<Longrightarrow> files_grow P st t'"
proof -
  have "files_known P t" "path \<in> fst ` set (data t)" using t path by (auto simp: files_grow_def)
  from dict_keepsD [OF dict _ this] list_keepsD [OF list _ this] files_grow_trans [OF t]
  show "LoadBuildFileIncludesIntoDict n env io check None path d t = Inr (d', t') \<Longrightarrow> files_grow P st t'"
    and "LoadBuildFileIncludesIntoList n env io check path l t = Inr (l', t') \<Longrightarrow> files_grow P st t'" by blast+
qed

lemma dict_keeps_Suc:
  assumes one: "one_keeps n" and dict: "dict_keeps n" and list: "list_keeps n"
  shows "dict_keeps (Suc n)"
  unfolding dict_keeps_def
proof (intro allI impI)
  fix env io check extra path d st d' st' P
  let ?ok = "\<lambda>(x, s). files_grow P st s"
  assume run: "LoadBuildFileIncludesIntoDict (Suc n) env io check extra path d st = Inr (d', st')"
    and known: "files_known P st" and path: "path \<in> fst ` set (data st)"
  from run obtain incs x where
    1: "rfold (\<lambda>include (subdict, st).
          rbind (LoadOneBuildFile n env io check None include (note_included path include st))
            (\<lambda>(fro, st). rbind (MergeDicts env subdict fro path include) (\<lambda>subdict. Inr (subdict, st))))
        incs (AList.delete ''includes'' d, st) = Inr x"
    and 2: "(case x of (subdict, st) \<Rightarrow> rfold (\<lambda>(k, v) (seen, st).
        case v of
          GDict d \<Rightarrow> rbind (LoadBuildFileIncludesIntoDict n env io check None path d st) (\<lambda>(d, st).
            Inr (seen @ [(k, GDict d)], st))
        | GList l \<Rightarrow> rbind (LoadBuildFileIncludesIntoList n env io check path l st) (\<lambda>(l, st).
            Inr (seen @ [(k, GList l)], st))
        | v \<Rightarrow> Inr (seen @ [(k, v)], st)) subdict ([], st)) = Inr (d', st')"
    unfolding LoadBuildFileIncludesIntoDict.simps rbind_Inr_iff by (elim exE conjE) (rule that)
  have "?ok x"
  proof (rule rfold_invariant [OF 1])
    show "?ok (AList.delete ''includes'' d, st)" by (simp add: files_grow_refl known)
  qed (auto dest: include_keeps [OF one _ path])
  then obtain d1 st1 where x: "x = (d1, st1)" and st1: "files_grow P st st1" by (cases x) simp
  have "?ok (d', st')"
  proof (rule rfold_invariant [OF 2 [unfolded x prod.case]])
    show "?ok ([], st1)" using st1 by simp
  qed (auto split: gval.splits dest: value_keeps [OF dict list _ path])
  then show "files_grow P st st'" by simp
qed

lemma list_keeps_Suc:
  assumes dict: "dict_keeps n" and list: "list_keeps n"
  shows "list_keeps (Suc n)"
  unfolding list_keeps_def
proof (intro allI impI)
  fix env io check path l st l' st' P
  let ?ok = "\<lambda>(x, s). files_grow P st s"
  assume run: "LoadBuildFileIncludesIntoList (Suc n) env io check path l st = Inr (l', st')"
    and known: "files_known P st" and path: "path \<in> fst ` set (data st)"
  have "?ok (l', st')"
  proof (rule rfold_invariant [OF run [unfolded LoadBuildFileIncludesIntoList.simps]])
    show "?ok ([], st)" by (simp add: files_grow_refl known)
  qed (auto split: gval.splits dest: value_keeps [OF dict list _ path])
  then show "files_grow P st st'" by simp
qed

lemma load_keeps: "one_keeps n \<and> dict_keeps n \<and> list_keeps n"
proof (induction n)
  case 0
  show ?case by (simp add: one_keeps_def dict_keeps_def list_keeps_def)
qed (simp add: one_keeps_Suc dict_keeps_Suc list_keeps_Suc)

section \<open>Every include is recorded\<close>

text \<open>
  \<open>file_noted\<close>: a file as it is read, before anything is merged, and the files it lists, together with those
  handed in, are recorded as its includes. \<open>noted\<close>: a run keeps the records, and each file it loads
  has been included by \<open>path\<close>, directly or not, and has its own includes recorded.
\<close>

definition file_noted :: "file_io \<Rightarrow> bool \<Rightarrow> string list option \<Rightarrow> load_state \<Rightarrow> string \<Rightarrow> bool" where
  "file_noted io check extra st f \<longleftrightarrow>
     (\<exists>contents l. read_build_file io check f = Inr contents \<and> includes_list extra contents f = Inr l
        \<and> (\<forall>g \<in> set l. includes_file (aux_data st) f g))"

definition noted :: "file_io \<Rightarrow> bool \<Rightarrow> string \<Rightarrow> load_state \<Rightarrow> load_state \<Rightarrow> bool" where
  "noted io check path st st' \<longleftrightarrow>
     (\<forall>f g. includes_file (aux_data st) f g \<longrightarrow> includes_file (aux_data st') f g)
     \<and> (\<forall>f \<in> fst ` set (data st') - fst ` set (data st).
          (includes_file (aux_data st'))\<^sup>*\<^sup>* path f \<and> (f \<noteq> path \<longrightarrow> file_noted io check None st' f))"

lemma file_noted_mono:
  "file_noted io check extra st f \<Longrightarrow>
   (\<And>f g. includes_file (aux_data st) f g \<Longrightarrow> includes_file (aux_data st') f g) \<Longrightarrow>
   file_noted io check extra st' f"
  unfolding file_noted_def by blast

lemma includes_file_mono:
  "(includes_file aux)\<^sup>*\<^sup>* f g \<Longrightarrow> (\<And>f g. includes_file aux f g \<Longrightarrow> includes_file aux' f g) \<Longrightarrow>
   (includes_file aux')\<^sup>*\<^sup>* f g"
  by (rule rtranclp_mono [THEN predicate2D, rotated]) blast+

lemma noted_refl: "noted io check path st st"
  by (simp add: noted_def)

lemma noted_trans:
  assumes "noted io check path a b" and "noted io check path b c"
  shows "noted io check path a c"
proof -
  have mono: "includes_file (aux_data b) f g \<Longrightarrow> includes_file (aux_data c) f g" for f g
    using assms(2) by (simp add: noted_def)
  have "(includes_file (aux_data c))\<^sup>*\<^sup>* path f \<and> (f \<noteq> path \<longrightarrow> file_noted io check None c f)"
    if f: "f \<in> fst ` set (data c) - fst ` set (data a)" for f
  proof (cases "f \<in> fst ` set (data b)")
    case True
    with f assms(1) have "(includes_file (aux_data b))\<^sup>*\<^sup>* path f" "f \<noteq> path \<longrightarrow> file_noted io check None b f"
      by (auto simp: noted_def)
    with mono show ?thesis using includes_file_mono [of "aux_data b" path f "aux_data c"] file_noted_mono [of io check None b f c]
      by blast
  next
    case False
    with f assms(2) show ?thesis by (auto simp: noted_def)
  qed
  with assms mono show ?thesis by (auto simp: noted_def)
qed

lemma rfold_each:
  assumes "rfold f xs s = Inr t" and "P s"
    and step: "\<And>x s s'. x \<in> set xs \<Longrightarrow> f x s = Inr s' \<Longrightarrow> P s \<Longrightarrow> P s' \<and> Q x s' \<and> (\<forall>y. Q y s \<longrightarrow> Q y s')"
  shows "P t \<and> (\<forall>x \<in> set xs. Q x t) \<and> (\<forall>y. Q y s \<longrightarrow> Q y t)"
  using assms
proof (induction xs arbitrary: s)
  case (Cons x xs)
  then obtain s' where s': "f x s = Inr s'" "rfold f xs s' = Inr t" by auto
  from Cons.prems(3) [OF _ s'(1) Cons.prems(2)] have x: "P s'" "Q x s'" "\<forall>y. Q y s \<longrightarrow> Q y s'" by auto
  have "P t \<and> (\<forall>x \<in> set xs. Q x t) \<and> (\<forall>y. Q y s' \<longrightarrow> Q y t)"
    by (rule Cons.IH [OF s'(2) x(1)], rule Cons.prems(3)) simp_all
  with x show ?case by simp
qed simp

definition one_notes :: "nat \<Rightarrow> bool" where
  "one_notes n \<longleftrightarrow> (\<forall>env io check extra path st contents st'.
     LoadOneBuildFile n env io check extra path st = Inr (contents, st') \<longrightarrow> files_known UNIV st
     \<longrightarrow> noted io check path st st' \<and> (path \<notin> fst ` set (data st) \<longrightarrow> file_noted io check extra st' path))"

definition dict_notes :: "nat \<Rightarrow> bool" where
  "dict_notes n \<longleftrightarrow> (\<forall>env io check extra path d st d' st'.
     LoadBuildFileIncludesIntoDict n env io check extra path d st = Inr (d', st') \<longrightarrow> files_known UNIV st
     \<longrightarrow> path \<in> fst ` set (data st) \<longrightarrow> noted io check path st st'
       \<and> (\<exists>l. includes_list extra d path = Inr l \<and> (\<forall>g \<in> set l. includes_file (aux_data st') path g)))"

definition list_notes :: "nat \<Rightarrow> bool" where
  "list_notes n \<longleftrightarrow> (\<forall>env io check path l st l' st'.
     LoadBuildFileIncludesIntoList n env io check path l st = Inr (l', st') \<longrightarrow> files_known UNIV st
     \<longrightarrow> path \<in> fst ` set (data st) \<longrightarrow> noted io check path st st')"

lemmas one_notesD = one_notes_def [THEN iffD1, rule_format]
lemmas dict_notesD = dict_notes_def [THEN iffD1, rule_format]
lemmas list_notesD = list_notes_def [THEN iffD1, rule_format]

lemma one_notes_Suc:
  assumes dict: "dict_notes n"
  shows "one_notes (Suc n)"
  unfolding one_notes_def
proof (intro allI impI)
  fix env io check extra path st contents st'
  assume run: "LoadOneBuildFile (Suc n) env io check extra path st = Inr (contents, st')"
    and known: "files_known UNIV st"
  show "noted io check path st st' \<and> (path \<notin> fst ` set (data st) \<longrightarrow> file_noted io check extra st' path)"
  proof (cases "map_of (data st) path")
    case None
    then have new: "path \<notin> fst ` set (data st)" by (simp add: map_of_eq_None_iff)
    with known have "path \<notin> fst ` set (aux_data st)" by (simp add: files_known_def)
    then have fresh: "\<not> includes_file (aux_data st) path g" for g
      by (simp add: includes_file_def map_of_eq_None_iff [symmetric])
    from run None obtain c c' st1 where
      1: "read_build_file io check path = Inr c"
        "LoadBuildFileIncludesIntoDict n env io check extra path c (start_file path c st) = Inr (c', st1)"
        "st' = finish_file path c' st1" by (auto simp: LoadOneBuildFile.simps)
    have path: "path \<in> fst ` set (data (start_file path c st))" by (simp add: start_file_def update_keys_set)
    from dict_notesD [OF dict 1(2) files_known_start [OF known] path] obtain l where
      l: "noted io check path (start_file path c st) st1" "includes_list extra c path = Inr l"
        "\<forall>g \<in> set l. includes_file (aux_data st1) path g" by blast
    have aux: "aux_data st' = aux_data st1" "fst ` set (data st') = insert path (fst ` set (data st1))"
      by (simp_all add: 1(3) finish_file_def update_keys_set)
    have edges: "includes_file (aux_data st) f g \<longrightarrow> includes_file (aux_data st1) f g" for f g
    proof
      assume f: "includes_file (aux_data st) f g"
      with fresh have "includes_file (aux_data (start_file path c st)) f g" by (auto simp: start_file_def)
      with l(1) show "includes_file (aux_data st1) f g" by (simp add: noted_def)
    qed
    have this_file: "file_noted io check extra st' path"
      using 1(1) l(2,3) aux by (simp add: file_noted_def)
    have files: "file_noted io check None st' f" if "file_noted io check None st1 f" for f
      using that aux by (simp add: file_noted_def)
    have "noted io check path st st'"
      unfolding noted_def aux
    proof (intro conjI allI ballI impI)
      fix f assume f: "f \<in> insert path (fst ` set (data st1)) - fst ` set (data st)"
      then have new: "f \<in> fst ` set (data st1) - fst ` set (data (start_file path c st))" if "f \<noteq> path"
        using that by (simp add: start_file_def update_keys_set)
      show "(includes_file (aux_data st1))\<^sup>*\<^sup>* path f"
        using new l(1) by (cases "f = path") (auto simp: noted_def)
      show "file_noted io check None st' f" if "f \<noteq> path"
        using new [OF that] that l(1) files by (simp add: noted_def)
    qed (use edges in blast)
    with this_file show ?thesis by blast
  next
    case (Some c)
    with run show ?thesis
      by (auto simp: LoadOneBuildFile.simps noted_refl dest: map_of_key split: if_splits)
  qed
qed

lemma include_notes:
  assumes one: "one_notes n" and t: "files_grow UNIV st t" "noted io check path st t" and path: "path \<in> fst ` set (data st)"
    and run: "LoadOneBuildFile n env io check None inc (note_included path inc t) = Inr (fro, t')"
  shows "noted io check path st t' \<and> includes_file (aux_data t') path inc
    \<and> (\<forall>f g. includes_file (aux_data t) f g \<longrightarrow> includes_file (aux_data t') f g)"
proof -
  let ?t = "note_included path inc t"
  have edges: "includes_file (aux_data t) f g \<Longrightarrow> includes_file (aux_data ?t) f g"
    "includes_file (aux_data ?t) path inc" for f g
    by (auto simp: note_included_def)
  have same: "data ?t = data t" by (simp add: note_included_def)
  have "path \<in> fst ` set (data t)" using t(1) path by (auto simp: files_grow_def)
  have "files_known UNIV ?t"
    using files_known_note [of UNIV t path inc] t(1) \<open>path \<in> fst ` set (data t)\<close> by (simp add: files_grow_def)
  from one_notesD [OF one run this] have
    1: "noted io check inc ?t t'" "inc \<notin> fst ` set (data t) \<longrightarrow> file_noted io check None t' inc"
    unfolding same by blast+
  have mono: "includes_file (aux_data t) f g \<Longrightarrow> includes_file (aux_data t') f g" for f g
    using 1(1) edges(1) by (auto simp: noted_def)
  have here: "includes_file (aux_data t') path inc" using 1(1) edges(2) by (auto simp: noted_def)
  have "noted io check path t t'"
    unfolding noted_def
  proof (intro conjI ballI allI impI)
    fix f assume f: "f \<in> fst ` set (data t') - fst ` set (data t)"
    with 1(1) have "(includes_file (aux_data t'))\<^sup>*\<^sup>* inc f" by (simp add: noted_def same)
    with here show "(includes_file (aux_data t'))\<^sup>*\<^sup>* path f" by (rule converse_rtranclp_into_rtranclp)
    show "file_noted io check None t' f"
      using 1 f by (cases "f = inc") (simp_all add: noted_def same)
  qed (rule mono)
  from noted_trans [OF t(2) this] here mono show ?thesis by blast
qed

lemma value_notes:
  assumes dict: "dict_notes n" and list: "list_notes n"
    and t: "files_grow UNIV st t" "noted io check path st t" and path: "path \<in> fst ` set (data st)"
  shows "LoadBuildFileIncludesIntoDict n env io check None path d t = Inr (d', t') \<Longrightarrow> noted io check path st t'"
    and "LoadBuildFileIncludesIntoList n env io check path l t = Inr (l', t') \<Longrightarrow> noted io check path st t'"
proof -
  have "files_known UNIV t" "path \<in> fst ` set (data t)" using t(1) path by (auto simp: files_grow_def)
  from dict_notesD [OF dict _ this] list_notesD [OF list _ this] noted_trans [OF t(2)]
  show "LoadBuildFileIncludesIntoDict n env io check None path d t = Inr (d', t') \<Longrightarrow> noted io check path st t'"
    and "LoadBuildFileIncludesIntoList n env io check path l t = Inr (l', t') \<Longrightarrow> noted io check path st t'" by blast+
qed

lemma dict_notes_Suc:
  assumes one: "one_notes n" and dict: "dict_notes n" and list: "list_notes n"
  shows "dict_notes (Suc n)"
  unfolding dict_notes_def
proof (intro allI impI)
  fix env io check extra path d st d' st'
  let ?ok = "\<lambda>(x, s). files_grow UNIV st s \<and> noted io check path st s"
  let ?has = "\<lambda>inc (x, s). includes_file (aux_data s) path inc"
  note keeps = load_keeps [of n, THEN conjunct1] load_keeps [of n, THEN conjunct2, THEN conjunct1]
    load_keeps [of n, THEN conjunct2, THEN conjunct2]
  assume run: "LoadBuildFileIncludesIntoDict (Suc n) env io check extra path d st = Inr (d', st')"
    and known: "files_known UNIV st" and path: "path \<in> fst ` set (data st)"
  from run obtain incs x where
    0: "includes_list extra d path = Inr incs" and
    1: "rfold (\<lambda>include (subdict, st).
          rbind (LoadOneBuildFile n env io check None include (note_included path include st))
            (\<lambda>(fro, st). rbind (MergeDicts env subdict fro path include) (\<lambda>subdict. Inr (subdict, st))))
        incs (AList.delete ''includes'' d, st) = Inr x"
    and 2: "(case x of (subdict, st) \<Rightarrow> rfold (\<lambda>(k, v) (seen, st).
        case v of
          GDict d \<Rightarrow> rbind (LoadBuildFileIncludesIntoDict n env io check None path d st) (\<lambda>(d, st).
            Inr (seen @ [(k, GDict d)], st))
        | GList l \<Rightarrow> rbind (LoadBuildFileIncludesIntoList n env io check path l st) (\<lambda>(l, st).
            Inr (seen @ [(k, GList l)], st))
        | v \<Rightarrow> Inr (seen @ [(k, v)], st)) subdict ([], st)) = Inr (d', st')"
    unfolding LoadBuildFileIncludesIntoDict.simps rbind_Inr_iff by (elim exE conjE) (rule that)
  have "?ok x \<and> (\<forall>inc \<in> set incs. ?has inc x) \<and> (\<forall>inc. ?has inc (AList.delete ''includes'' d, st) \<longrightarrow> ?has inc x)"
  proof (rule rfold_each [OF 1, where P = ?ok and Q = ?has])
    show "?ok (AList.delete ''includes'' d, st)" by (simp add: files_grow_refl known noted_refl)
  next
    fix inc s s'
    assume "inc \<in> set incs" and step: "(case s of (subdict, st) \<Rightarrow>
          rbind (LoadOneBuildFile n env io check None inc (note_included path inc st))
            (\<lambda>(fro, st). rbind (MergeDicts env subdict fro path inc) (\<lambda>subdict. Inr (subdict, st)))) = Inr s'"
      and ok: "?ok s"
    obtain x t x' t' where s: "s = (x, t)" "s' = (x', t')" by (cases s, cases s')
    with step obtain fro where load: "LoadOneBuildFile n env io check None inc (note_included path inc t) = Inr (fro, t')"
      by auto
    from ok s have t: "files_grow UNIV st t" "noted io check path st t" by simp_all
    from include_keeps [OF keeps(1) t(1) path load] include_notes [OF one t path load]
    show "?ok s' \<and> ?has inc s' \<and> (\<forall>inc. ?has inc s \<longrightarrow> ?has inc s')" by (simp add: s)
  qed
  then obtain d1 st1 where x: "x = (d1, st1)" and st1: "files_grow UNIV st st1" "noted io check path st st1"
    "\<forall>inc \<in> set incs. includes_file (aux_data st1) path inc" by (cases x) simp
  let ?on = "\<lambda>(x, s). files_grow UNIV st1 s \<and> noted io check path st1 s"
  have path1: "path \<in> fst ` set (data st1)" and known1: "files_known UNIV st1"
    using st1(1) path by (auto simp: files_grow_def)
  have "?on (d', st')"
  proof (rule rfold_invariant [OF 2 [unfolded x prod.case]])
    show "?on ([], st1)" using known1 by (simp add: files_grow_refl noted_refl)
  qed (auto split: gval.splits dest: value_keeps [OF keeps(2,3) _ path1] value_notes [OF dict list _ _ path1])
  then have "noted io check path st1 st'" by simp
  with noted_trans [OF st1(2) this] st1(3) 0 show "noted io check path st st'
      \<and> (\<exists>l. includes_list extra d path = Inr l \<and> (\<forall>g \<in> set l. includes_file (aux_data st') path g))"
    by (auto simp: noted_def [of io check path st1])
qed

lemma list_notes_Suc:
  assumes dict: "dict_notes n" and list: "list_notes n"
  shows "list_notes (Suc n)"
  unfolding list_notes_def
proof (intro allI impI)
  fix env io check path l st l' st'
  let ?ok = "\<lambda>(x, s). files_grow UNIV st s \<and> noted io check path st s"
  note keeps = load_keeps [of n, THEN conjunct2, THEN conjunct1] load_keeps [of n, THEN conjunct2, THEN conjunct2]
  assume run: "LoadBuildFileIncludesIntoList (Suc n) env io check path l st = Inr (l', st')"
    and known: "files_known UNIV st" and path: "path \<in> fst ` set (data st)"
  have "?ok (l', st')"
  proof (rule rfold_invariant [OF run [unfolded LoadBuildFileIncludesIntoList.simps]])
    show "?ok ([], st)" by (simp add: files_grow_refl known noted_refl)
  qed (auto split: gval.splits dest: value_keeps [OF keeps _ path] value_notes [OF dict list _ _ path])
  then show "noted io check path st st'" by simp
qed

lemma load_notes: "one_notes n \<and> dict_notes n \<and> list_notes n"
proof (induction n)
  case 0
  show ?case by (simp add: one_notes_def dict_notes_def list_notes_def)
qed (simp add: one_notes_Suc dict_notes_Suc list_notes_Suc)

text \<open>
  C32: loading and asking for the included files fit together. After a file has been loaded,
  \<open>GetIncludedBuildFiles\<close>, with a recursion depth above the number of loaded files, returns it, each file once,
  and with it exactly what loading has added to \<open>data\<close>, besides files that were loaded before and are
  included again. The includes that each added file lists at its top level, as it is read from the disk, are
  among them, and for the file itself those that were handed in. The state before is one in which every
  recorded include is loaded, such as the empty one.
\<close>

theorem included_files_found:
  assumes "LoadOneBuildFile n env io check extra path st = Inr (contents, st')" and "files_known {} st"
    and "length (aux_data st') < m"
  shows "\<exists>files. GetIncludedBuildFiles m (aux_data st') path [] = Inr files
    \<and> distinct files \<and> path \<in> set files
    \<and> fst ` set (data st') = fst ` set (data st) \<union> set files
    \<and> set files = {f. (includes_file (aux_data st'))\<^sup>*\<^sup>* path f}
    \<and> (\<forall>f \<in> set files - fst ` set (data st). \<exists>c l. read_build_file io check f = Inr c
         \<and> includes_list (if f = path then extra else None) c f = Inr l \<and> set l \<subseteq> set files)"
proof -
  from one_keepsD [OF load_keeps [THEN conjunct1] assms(1,2)]
  have known: "files_known {} st'" and path: "path \<in> fst ` set (data st')"
    and grow: "fst ` set (data st) \<subseteq> fst ` set (data st')" by (simp_all add: files_grow_def)
  have closed: "set gs \<subseteq> fst ` set (aux_data st')" if "map_of (aux_data st') f = Some gs" for f gs
  proof
    fix g assume "g \<in> set gs"
    with that have "includes_file (aux_data st') f g" by (simp add: includes_file_def)
    with known show "g \<in> fst ` set (aux_data st')" by (simp add: files_known_def)
  qed
  have path': "path \<in> fst ` set (aux_data st')" using known path by (simp add: files_known_def)
  obtain files where files: "GetIncludedBuildFiles m (aux_data st') path [] = Inr files"
    using GetIncluded_enough [of "aux_data st'" path m] closed path' assms(3) by blast
  have "f \<in> fst ` set (aux_data st')" if "(includes_file (aux_data st'))\<^sup>*\<^sup>* path f" for f
    using that by (induction rule: rtranclp_induct) (use path' known in \<open>auto simp: files_known_def\<close>)
  then have loaded: "set files \<subseteq> fst ` set (data st')"
    using GetIncluded_set [OF files] known by (auto simp: files_known_def)
  have "files_known UNIV st" using assms(2) by (simp add: files_known_def)
  from one_notesD [OF load_notes [THEN conjunct1] assms(1) this]
  have noted: "noted io check path st st'" "path \<notin> fst ` set (data st) \<longrightarrow> file_noted io check extra st' path" by auto
  have new: "fst ` set (data st') - fst ` set (data st) \<subseteq> set files"
    using noted(1) GetIncluded_set [OF files] by (auto simp: noted_def)
  have "\<exists>c l. read_build_file io check f = Inr c
      \<and> includes_list (if f = path then extra else None) c f = Inr l \<and> set l \<subseteq> set files"
    if f: "f \<in> set files - fst ` set (data st)" for f
  proof -
    have "file_noted io check (if f = path then extra else None) st' f"
      using noted f loaded by (auto simp: noted_def)
    then obtain c l where "read_build_file io check f = Inr c" "includes_list (if f = path then extra else None) c f = Inr l"
      and l: "\<forall>g \<in> set l. includes_file (aux_data st') f g" by (auto simp: file_noted_def simp del: split_paired_Ex)
    moreover have "set l \<subseteq> set files"
    proof
      fix g assume "g \<in> set l"
      with l f GetIncluded_set [OF files] show "g \<in> set files" by (auto intro: rtranclp.rtrancl_into_rtrancl)
    qed
    ultimately show ?thesis by blast
  qed
  with files GetIncluded_set [OF files] loaded new grow show ?thesis by auto
qed

section \<open>Example\<close>

definition ex_io :: file_io where
  "ex_io = \<lparr>read_file = (\<lambda>p. if p = ''d/a.gyp'' then Some ''A'' else if p = ''d/b.gypi'' then Some ''B'' else None),
     parse_module = (\<lambda>s. Inl (SyntaxError s)),
     py_eval = (\<lambda>s. if s = ''A'' then Inr (GDict [(''includes'', GList [GStr ''b.gypi'']), (''x'', GInt 1)])
                     else Inr (GDict [(''y'', GInt 2)])),
     getcwd = ''/r''\<rparr>"

definition ex_loaded :: load_state where
  "ex_loaded = \<lparr>data = [(''d/a.gyp'', [(''x'', GInt 1), (''y'', GInt 2)]), (''d/b.gypi'', [(''y'', GInt 2)])],
     aux_data = [(''d/a.gyp'', [''d/b.gypi'']), (''d/b.gypi'', [])], open_files = []\<rparr>"

theorem included_files_witness:
  "\<exists>files. GetIncludedBuildFiles 3 (aux_data ex_loaded) ''d/a.gyp'' [] = Inr files
    \<and> distinct files \<and> set files = {''d/a.gyp'', ''d/b.gypi''}"
proof -
  have run: "LoadOneBuildFile 5 ex_globals ex_io False None ''d/a.gyp'' \<lparr>data = [], aux_data = [], open_files = []\<rparr>
    = Inr ([(''x'', GInt 1), (''y'', GInt 2)], ex_loaded)"
    by code_simp
  have known: "files_known {} \<lparr>data = [], aux_data = [], open_files = []\<rparr>" by (simp add: files_known_def includes_file_def)
  have "length (aux_data ex_loaded) < 3" "fst ` set (data ex_loaded) = {''d/a.gyp'', ''d/b.gypi''}"
    by (simp_all add: ex_loaded_def)
  with included_files_found [OF run known, of 3] show ?thesis by auto
qed

end
