(* ===== verification/Gyp_Parallel.thy ===== *)
theory Gyp_Parallel
  imports Py_Prelude
begin

text \<open>
  \<open>input.py\<close>: loading build files in parallel (\<open>ParallelState\<close>, \<open>LoadTargetBuildFileParallel\<close>). Worker
  processes load one build file each and the pool calls \<open>LoadTargetBuildFileCallback\<close> with their
  results. The state is what the condition variable protects, together with the jobs in flight; a
  step is one iteration of the main loop that hands out a job, or one callback. Every interleaving
  of the two is a run of the step relation, also those that the lock rules out. A job sees the set
  of loaded files as it was when the job was handed out. The contents of the files, which the
  callback stores beside, do not matter here.

  \<open>load f\<close> is what loading the file \<open>f\<close> yields in a worker: the files its targets depend on, or
  \<open>None\<close> where it raises.
\<close>

section \<open>State and steps\<close>

type_synonym loader = "string \<Rightarrow> string list option"

datatype worker_result = NoResult | Loaded string "string list"

text \<open>\<open>dependencies\<close> is a stack: \<open>pop()\<close> takes its last element.\<close>

record parallel_state =
  target_build_files :: "string list"
  scheduled :: "string list"
  todo :: "string list"
  pending :: int
  running :: "(string \<times> string list) list"
  p_error :: bool

text \<open>A file that is already loaded yields \<open>False\<close>, an exception \<open>None\<close>.\<close>

definition CallLoadTargetBuildFile :: "loader \<Rightarrow> string \<times> string list \<Rightarrow> worker_result" where
  "CallLoadTargetBuildFile load = (\<lambda>(build_file_path, seen).
     if build_file_path \<in> set seen then NoResult
     else case load build_file_path of
            None \<Rightarrow> NoResult
          | Some dependencies \<Rightarrow> Loaded build_file_path dependencies)"

definition schedule :: "string \<Rightarrow> parallel_state \<Rightarrow> parallel_state" where
  "schedule new_dependency s =
     (if new_dependency \<in> set (scheduled s) then s
      else s\<lparr>scheduled := scheduled s @ [new_dependency], todo := todo s @ [new_dependency]\<rparr>)"

definition LoadTargetBuildFileCallback :: "worker_result \<Rightarrow> parallel_state \<Rightarrow> parallel_state" where
  "LoadTargetBuildFileCallback result s =
     (case result of
        NoResult \<Rightarrow> s\<lparr>p_error := True\<rparr>
      | Loaded build_file_path0 dependencies0 \<Rightarrow>
          let s = s\<lparr>target_build_files := List.insert build_file_path0 (target_build_files s)\<rparr>;
              s = fold schedule dependencies0 s
          in s\<lparr>pending := pending s - 1\<rparr>)"

definition dispatch :: "parallel_state \<Rightarrow> parallel_state" where
  "dispatch s = s\<lparr>todo := butlast (todo s), pending := pending s + 1,
     running := running s @ [(last (todo s), target_build_files s)]\<rparr>"

definition parallel_init :: "string \<Rightarrow> string list \<Rightarrow> parallel_state" where
  "parallel_init build_file_path loaded =
     \<lparr>target_build_files = loaded, scheduled = [build_file_path], todo = [build_file_path],
      pending = 0, running = [], p_error = False\<rparr>"

inductive pstep :: "loader \<Rightarrow> parallel_state \<Rightarrow> parallel_state \<Rightarrow> bool" for load where
  Dispatch: "\<not> p_error s \<Longrightarrow> todo s \<noteq> [] \<Longrightarrow> pstep load s (dispatch s)"
| Callback: "running s = before @ job # after \<Longrightarrow>
    pstep load s (LoadTargetBuildFileCallback (CallLoadTargetBuildFile load job) (s\<lparr>running := before @ after\<rparr>))"

inductive_cases pstepE [consumes 1, case_names Dispatch Callback]: "pstep load s s'"

text \<open>When the main loop ends.\<close>

definition parallel_done :: "parallel_state \<Rightarrow> bool" where
  "parallel_done s \<longleftrightarrow> p_error s \<or> todo s = [] \<and> pending s = 0"

section \<open>The invariant\<close>

definition file_dep :: "loader \<Rightarrow> string \<Rightarrow> string \<Rightarrow> bool" where
  "file_dep load f g \<longleftrightarrow> (\<exists>ds. load f = Some ds \<and> g \<in> set ds)"

text \<open>The files whose job has come back.\<close>

definition completed :: "parallel_state \<Rightarrow> string set" where
  "completed s = set (scheduled s) - set (todo s) - fst ` set (running s)"

definition parallel_inv :: "loader \<Rightarrow> string \<Rightarrow> string list \<Rightarrow> parallel_state \<Rightarrow> bool" where
  "parallel_inv load root loaded s \<longleftrightarrow>
     pending s = int (length (running s))
     \<and> distinct (scheduled s)
     \<and> distinct (todo s @ map fst (running s))
     \<and> set (todo s) \<union> fst ` set (running s) \<subseteq> set (scheduled s)
     \<and> root \<in> set (scheduled s)
     \<and> set (scheduled s) \<subseteq> {f. (file_dep load)\<^sup>*\<^sup>* root f}
     \<and> set (target_build_files s) = set loaded \<union> completed s
     \<and> completed s \<inter> set loaded = {}
     \<and> (\<forall>(f, seen) \<in> set (running s). set loaded \<subseteq> set seen)
     \<and> (\<forall>f \<in> completed s. load f \<noteq> None \<and> (\<forall>g. file_dep load f g \<longrightarrow> g \<in> set (scheduled s)))"

lemma fold_schedule:
  "target_build_files (fold schedule ds s) = target_build_files s"
  "pending (fold schedule ds s) = pending s"
  "running (fold schedule ds s) = running s"
  "p_error (fold schedule ds s) = p_error s"
  "\<exists>new. scheduled (fold schedule ds s) = scheduled s @ new \<and> todo (fold schedule ds s) = todo s @ new
     \<and> distinct new \<and> set new = set ds - set (scheduled s)"
proof (induction ds arbitrary: s)
  case (Cons d ds)
  {
    case 5
    show ?case
    proof (cases "d \<in> set (scheduled s)")
      case True
      with Cons(5) [of s] show ?thesis by (auto simp: schedule_def insert_absorb)
    next
      case False
      then have d: "scheduled (schedule d s) = scheduled s @ [d]" "todo (schedule d s) = todo s @ [d]"
        by (simp_all add: schedule_def)
      from Cons(5) [of "schedule d s"] obtain new where
        "scheduled (fold schedule (d # ds) s) = scheduled s @ d # new"
        "todo (fold schedule (d # ds) s) = todo s @ d # new"
        "distinct new" "set new = set ds - insert d (set (scheduled s))"
        unfolding d by auto
      with False show ?thesis by (intro exI [of _ "d # new"]) auto
    qed
  }
qed (simp_all add: schedule_def)

lemma parallel_inv_init: "parallel_inv load root loaded (parallel_init root loaded)"
  by (simp add: parallel_inv_def parallel_init_def completed_def)

lemma parallel_inv_dispatch:
  assumes "parallel_inv load root loaded s" and "todo s \<noteq> []"
  shows "parallel_inv load root loaded (dispatch s)"
proof -
  obtain ts t where todo: "todo s = ts @ [t]" using assms(2) by (metis append_butlast_last_id)
  have "completed (dispatch s) = completed s" by (auto simp: completed_def dispatch_def todo)
  with assms(1) show ?thesis
    by (auto simp: parallel_inv_def dispatch_def todo)
qed

lemma parallel_inv_loaded:
  assumes inv: "parallel_inv load root loaded s" and job: "running s = before @ (f, seen) # after"
    and f: "f \<notin> set seen" "load f = Some ds"
  shows "parallel_inv load root loaded (LoadTargetBuildFileCallback (Loaded f ds) (s\<lparr>running := before @ after\<rparr>))"
    (is "parallel_inv load root loaded ?s'")
proof -
  let ?s0 = "s\<lparr>running := before @ after, target_build_files := List.insert f (target_build_files s)\<rparr>"
  obtain new where new: "scheduled (fold schedule ds ?s0) = scheduled s @ new"
    "todo (fold schedule ds ?s0) = todo s @ new" "distinct new" "set new = set ds - set (scheduled s)"
    using fold_schedule(5) [of ds ?s0] by auto
  have s': "scheduled ?s' = scheduled s @ new" "todo ?s' = todo s @ new" "running ?s' = before @ after"
    "pending ?s' = pending s - 1" "set (target_build_files ?s') = insert f (set (target_build_files s))"
    using new(1,2) by (simp_all add: LoadTargetBuildFileCallback_def fold_schedule(1-4))
  have f_in: "f \<in> set (scheduled s)" "f \<notin> set (todo s)" "f \<notin> fst ` set (before @ after)" "f \<notin> set loaded"
    using inv job f(1) by (auto simp: parallel_inv_def)
  have reach: "(file_dep load)\<^sup>*\<^sup>* root g" if "g \<in> set new" for g
  proof -
    from that new(4) have "file_dep load f g" by (auto simp: file_dep_def f(2))
    moreover have "(file_dep load)\<^sup>*\<^sup>* root f" using inv f_in(1) by (auto simp: parallel_inv_def)
    ultimately show ?thesis by (rule rtranclp.rtrancl_into_rtrancl [rotated])
  qed
  have disj: "set new \<inter> set (scheduled s) = {}" using new(4) by auto
  have run_sched: "fst ` set (running s) \<subseteq> set (scheduled s)" "set (todo s) \<subseteq> set (scheduled s)"
    using inv by (auto simp: parallel_inv_def)
  have comp: "completed ?s' = insert f (completed s)"
    using f_in disj run_sched unfolding completed_def s' job by auto
  have deps: "g \<in> set (scheduled ?s')" if "file_dep load f g" for g
    using that new(4) by (auto simp: s' file_dep_def f(2))
  show ?thesis
    unfolding parallel_inv_def comp
  proof (intro conjI)
    show "distinct (todo ?s' @ map fst (running ?s'))"
      using inv disj run_sched new(3) unfolding s' parallel_inv_def job by auto
    show "set (todo ?s') \<union> fst ` set (running ?s') \<subseteq> set (scheduled ?s')"
      using run_sched unfolding s' job by auto
    show "\<forall>x \<in> insert f (completed s). load x \<noteq> None \<and> (\<forall>g. file_dep load x g \<longrightarrow> g \<in> set (scheduled ?s'))"
      using inv deps f(2) unfolding parallel_inv_def s' by auto
  qed (use inv disj f_in reach new(3) in \<open>auto simp: parallel_inv_def s' job\<close>)
qed

text \<open>A run that has not failed keeps the invariant.\<close>

lemma error_stays: "pstep load s s' \<Longrightarrow> p_error s \<Longrightarrow> p_error s'"
  by (auto elim!: pstepE simp: LoadTargetBuildFileCallback_def fold_schedule dispatch_def Let_def
      split: worker_result.split)

lemma parallel_inv_step:
  assumes "pstep load s s'" and "\<not> p_error s'" and "parallel_inv load root loaded s"
  shows "parallel_inv load root loaded s'"
  using assms(1)
proof (cases rule: pstepE)
  case Dispatch
  with assms(3) show ?thesis by (simp add: parallel_inv_dispatch)
next
  case (Callback before job after)
  obtain f seen where job: "job = (f, seen)" by (cases job)
  show ?thesis
  proof (cases "CallLoadTargetBuildFile load job")
    case NoResult
    with Callback assms(2) show ?thesis by (simp add: LoadTargetBuildFileCallback_def)
  next
    case (Loaded g ds)
    then have "f \<notin> set seen" "load f = Some ds" "g = f"
      by (auto simp: CallLoadTargetBuildFile_def job split: if_splits option.splits)
    with parallel_inv_loaded [OF assms(3)] Callback Loaded job show ?thesis by simp
  qed
qed

lemma parallel_inv_reachable:
  "(pstep load)\<^sup>*\<^sup>* (parallel_init root loaded) s \<Longrightarrow> p_error s \<or> parallel_inv load root loaded s"
proof (induction rule: rtranclp_induct)
  case base
  show ?case by (simp add: parallel_inv_init)
next
  case (step s s')
  then show ?case using error_stays parallel_inv_step by blast
qed

section \<open>What every run does\<close>

lemma parallel_completed:
  assumes inv: "parallel_inv load root loaded s" and "parallel_done s" and "\<not> p_error s"
  shows "completed s = {f. (file_dep load)\<^sup>*\<^sup>* root f}"
proof -
  have "todo s = []" "running s = []" using assms by (auto simp: parallel_done_def parallel_inv_def)
  then have comp: "completed s = set (scheduled s)" by (simp add: completed_def)
  have "f \<in> set (scheduled s)" if "(file_dep load)\<^sup>*\<^sup>* root f" for f
    using that
  proof (induction rule: rtranclp_induct)
    case base
    show ?case using inv by (simp add: parallel_inv_def)
  next
    case (step f g)
    then show ?case using inv by (auto simp: parallel_inv_def comp)
  qed
  then show ?thesis using inv by (auto simp: parallel_inv_def comp)
qed

text \<open>
  C29: in every interleaving of the main loop and the callbacks, a run that ends without an error has
  loaded exactly the files that were loaded before and those that the given file reaches through
  dependencies; all of these loaded without an exception, and none had been loaded before.
\<close>

theorem parallel_loads_all:
  assumes "(pstep load)\<^sup>*\<^sup>* (parallel_init root loaded) s" and "parallel_done s" and "\<not> p_error s"
  shows "set (target_build_files s) = set loaded \<union> {f. (file_dep load)\<^sup>*\<^sup>* root f}
    \<and> {f. (file_dep load)\<^sup>*\<^sup>* root f} \<inter> (set loaded \<union> {f. load f = None}) = {}"
proof -
  have inv: "parallel_inv load root loaded s" using parallel_inv_reachable [OF assms(1)] assms(3) by blast
  from parallel_completed [OF this assms(2,3)] inv show ?thesis by (auto simp: parallel_inv_def)
qed

text \<open>A bound on the steps that are left.\<close>

definition parallel_rank :: "string set \<Rightarrow> parallel_state \<Rightarrow> nat" where
  "parallel_rank R s = 2 * length (todo s) + length (running s) + 3 * card (R - set (scheduled s))"

lemma pstep_rank:
  assumes "pstep load s s'" and "\<not> p_error s'" and inv: "parallel_inv load root loaded s"
    and "finite R" and R: "{f. (file_dep load)\<^sup>*\<^sup>* root f} \<subseteq> R"
  shows "parallel_rank R s' < parallel_rank R s"
  using assms(1)
proof (cases rule: pstepE)
  case Dispatch
  then show ?thesis by (cases "todo s") (simp_all add: parallel_rank_def dispatch_def)
next
  case (Callback before job after)
  obtain f seen where job: "job = (f, seen)" by (cases job)
  show ?thesis
  proof (cases "CallLoadTargetBuildFile load job")
    case NoResult
    with Callback assms(2) show ?thesis by (simp add: LoadTargetBuildFileCallback_def)
  next
    case (Loaded g ds)
    then have f: "load f = Some ds" "g = f"
      by (auto simp: CallLoadTargetBuildFile_def job split: if_splits option.splits)
    let ?s0 = "s\<lparr>running := before @ after, target_build_files := List.insert g (target_build_files s)\<rparr>"
    obtain new where new: "scheduled (fold schedule ds ?s0) = scheduled s @ new"
      "todo (fold schedule ds ?s0) = todo s @ new" "distinct new" "set new = set ds - set (scheduled s)"
      using fold_schedule(5) [of ds ?s0] by auto
    have s': "scheduled s' = scheduled s @ new" "todo s' = todo s @ new" "running s' = before @ after"
      using Callback Loaded new(1,2) by (simp_all add: LoadTargetBuildFileCallback_def fold_schedule)
    have "(file_dep load)\<^sup>*\<^sup>* root f"
      using inv Callback(2) job by (auto simp: parallel_inv_def)
    moreover have "file_dep load f x" if "x \<in> set ds" for x using that f(1) by (simp add: file_dep_def)
    ultimately have "set ds \<subseteq> R"
      using R by (auto intro: rtranclp.rtrancl_into_rtrancl)
    then have "set new \<subseteq> R - set (scheduled s)" using new(4) by auto
    moreover have "R - set (scheduled s') = (R - set (scheduled s)) - set new" by (auto simp: s')
    ultimately have "card (R - set (scheduled s')) + length new = card (R - set (scheduled s))"
      using assms(4) new(3) by (metis card_Diff_subset card_mono distinct_card finite_Diff finite_set le_add_diff_inverse2)
    then show ?thesis by (simp add: parallel_rank_def s' Callback(2))
  qed
qed

text \<open>
  C30: no run is stuck or goes on for ever, if the given file reaches finitely many files: as long as
  the main loop has not ended there is a step, and every step that does not report an error brings
  the end nearer.
\<close>

theorem parallel_ends:
  assumes "(pstep load)\<^sup>*\<^sup>* (parallel_init root loaded) s" and "\<not> parallel_done s"
    and "finite {f. (file_dep load)\<^sup>*\<^sup>* root f}"
  shows "(\<exists>s'. pstep load s s')
    \<and> (\<forall>s'. pstep load s s' \<longrightarrow> p_error s'
      \<or> parallel_rank {f. (file_dep load)\<^sup>*\<^sup>* root f} s' < parallel_rank {f. (file_dep load)\<^sup>*\<^sup>* root f} s)"
proof -
  have ok: "\<not> p_error s" using assms(2) by (simp add: parallel_done_def)
  then have inv: "parallel_inv load root loaded s" using parallel_inv_reachable [OF assms(1)] by blast
  have "\<exists>s'. pstep load s s'"
  proof (cases "todo s = []")
    case True
    with assms(2) inv have "running s \<noteq> []" by (auto simp: parallel_done_def parallel_inv_def)
    then obtain job after where "running s = [] @ job # after" by (cases "running s") auto
    from pstep.Callback [OF this] show ?thesis by blast
  next
    case False
    with ok show ?thesis by (blast intro: pstep.Dispatch)
  qed
  with pstep_rank [OF _ _ inv assms(3)] show ?thesis by blast
qed

section \<open>Examples\<close>

text \<open>One file that depends on another.\<close>

definition ex_loader :: loader where
  "ex_loader f = (if f = ''a.gyp'' then Some [''b.gyp''] else Some [])"

definition ex_parallel_end :: parallel_state where
  "ex_parallel_end = \<lparr>target_build_files = [''b.gyp'', ''a.gyp''], scheduled = [''a.gyp'', ''b.gyp''],
     todo = [], pending = 0, running = [], p_error = False\<rparr>"

lemma callback_first:
  "running s = job # after \<Longrightarrow> LoadTargetBuildFileCallback (CallLoadTargetBuildFile load job) (s\<lparr>running := after\<rparr>) = s'
   \<Longrightarrow> pstep load s s'"
  using pstep.Callback [of s "[]" job after load] by simp

lemma ex_parallel_run: "(pstep ex_loader)\<^sup>*\<^sup>* (parallel_init ''a.gyp'' []) ex_parallel_end"
proof -
  let ?s1 = "dispatch (parallel_init ''a.gyp'' [])"
  let ?s2 = "\<lparr>target_build_files = [''a.gyp''], scheduled = [''a.gyp'', ''b.gyp''], todo = [''b.gyp''],
     pending = 0, running = [], p_error = False\<rparr>"
  let ?s3 = "dispatch ?s2"
  have "pstep ex_loader (parallel_init ''a.gyp'' []) ?s1"
    by (rule pstep.Dispatch) (simp_all add: parallel_init_def)
  moreover have "pstep ex_loader ?s1 ?s2"
    by (rule callback_first) (simp add: parallel_init_def dispatch_def, simp add: parallel_init_def dispatch_def LoadTargetBuildFileCallback_def
        CallLoadTargetBuildFile_def ex_loader_def schedule_def)
  moreover have "pstep ex_loader ?s2 ?s3" by (rule pstep.Dispatch) simp_all
  moreover have "pstep ex_loader ?s3 ex_parallel_end"
    by (rule callback_first) (simp add: parallel_init_def dispatch_def, simp add: dispatch_def LoadTargetBuildFileCallback_def
        CallLoadTargetBuildFile_def ex_loader_def schedule_def ex_parallel_end_def)
  ultimately show ?thesis by (meson converse_rtranclp_into_rtranclp rtranclp.rtrancl_refl)
qed

theorem parallel_loads_all_witness:
  "set (target_build_files ex_parallel_end) = {f. (file_dep ex_loader)\<^sup>*\<^sup>* ''a.gyp'' f}"
  using parallel_loads_all [OF ex_parallel_run] by (simp add: parallel_done_def ex_parallel_end_def)

lemma ex_loader_reach: "(file_dep ex_loader)\<^sup>*\<^sup>* ''a.gyp'' f \<Longrightarrow> f \<in> {''a.gyp'', ''b.gyp''}"
  by (induction rule: rtranclp_induct) (auto simp: file_dep_def ex_loader_def split: if_splits)

theorem parallel_ends_witness:
  "\<exists>s'. pstep ex_loader (parallel_init ''a.gyp'' []) s'"
proof -
  have "{f. (file_dep ex_loader)\<^sup>*\<^sup>* ''a.gyp'' f} \<subseteq> {''a.gyp'', ''b.gyp''}" using ex_loader_reach by blast
  then have "finite {f. (file_dep ex_loader)\<^sup>*\<^sup>* ''a.gyp'' f}" by (rule finite_subset) simp
  moreover have "\<not> parallel_done (parallel_init ''a.gyp'' [])" by (simp add: parallel_done_def parallel_init_def)
  ultimately show ?thesis using parallel_ends [OF rtranclp.rtrancl_refl] by blast
qed

text \<open>
  A second call of \<open>LoadTargetBuildFileParallel\<close>, for a build file that the first has loaded as a
  dependency, never ends without an error: the worker answers \<open>False\<close>, and the callback takes that
  for a failure. The sequential loader accepts the same files.
\<close>

theorem parallel_reload_fails:
  assumes "(pstep load)\<^sup>*\<^sup>* (parallel_init root loaded) s" and "parallel_done s"
    and "(file_dep load)\<^sup>*\<^sup>* root f" and "f \<in> set loaded"
  shows "p_error s"
proof (rule ccontr)
  assume ok: "\<not> p_error s"
  have inv: "parallel_inv load root loaded s" using parallel_inv_reachable [OF assms(1)] ok by blast
  with parallel_completed [OF inv assms(2) ok] assms(3,4) show False by (auto simp: parallel_inv_def)
qed

theorem parallel_reload_fails_witness:
  "\<exists>s. (pstep ex_loader)\<^sup>*\<^sup>* (parallel_init ''b.gyp'' [''b.gyp'', ''a.gyp'']) s \<and> parallel_done s \<and> p_error s"
proof -
  let ?s1 = "dispatch (parallel_init ''b.gyp'' [''b.gyp'', ''a.gyp''])"
  let ?s2 = "?s1\<lparr>running := [], p_error := True\<rparr>"
  have "pstep ex_loader (parallel_init ''b.gyp'' [''b.gyp'', ''a.gyp'']) ?s1"
    by (rule pstep.Dispatch) (simp_all add: parallel_init_def)
  moreover have "pstep ex_loader ?s1 ?s2"
    by (rule callback_first) (simp add: parallel_init_def dispatch_def, simp add: parallel_init_def dispatch_def LoadTargetBuildFileCallback_def CallLoadTargetBuildFile_def)
  ultimately have run: "(pstep ex_loader)\<^sup>*\<^sup>* (parallel_init ''b.gyp'' [''b.gyp'', ''a.gyp'']) ?s2"
    by (meson converse_rtranclp_into_rtranclp rtranclp.rtrancl_refl)
  have done': "parallel_done ?s2" by (simp add: parallel_done_def)
  have "p_error ?s2" by (rule parallel_reload_fails [OF run done' rtranclp.rtrancl_refl]) simp
  with run done' show ?thesis by blast
qed

end
