(* ===== verification/Gyp_Vars.thy ===== *)
theory Gyp_Vars
  imports Gyp_Value Py_Int
begin

text \<open>
  \<open>tools/gyp/pylib/gyp/input.py\<close>: the texts that variable expansion looks for. The group of brackets
  that encloses a reference, integers in canonical form, the regular expression of a reference,
  and the two functions that fill the dictionary of variables.
\<close>

section \<open>FindEnclosingBracketGroup\<close>

definition LBRACKETS :: "char set" where
  "LBRACKETS = {CHR ''{'', CHR ''['', CHR ''(''}"

definition BRACKETS :: "(char \<times> char) list" where
  "BRACKETS = [(CHR ''}'', CHR ''{''), (CHR '']'', CHR ''[''), (CHR '')'', CHR ''('')]"

fun bracket_loop :: "string \<Rightarrow> int \<Rightarrow> char list \<Rightarrow> int \<Rightarrow> int \<times> int" where
  "bracket_loop [] index stack start = (- 1, - 1)"
| "bracket_loop (c # s) index stack start =
     (if c \<in> LBRACKETS
      then bracket_loop s (index + 1) (c # stack) (if start = - 1 then index else start)
      else case map_of BRACKETS c of
        Some l \<Rightarrow>
          (case stack of
             [] \<Rightarrow> (- 1, - 1)
           | t # stack \<Rightarrow>
               if t \<noteq> l then (- 1, - 1)
               else if stack = [] then (start, index + 1)
               else bracket_loop s (index + 1) stack start)
      | None \<Rightarrow> bracket_loop s (index + 1) stack start)"

definition FindEnclosingBracketGroup :: "string \<Rightarrow> int \<times> int" where
  "FindEnclosingBracketGroup input_str = bracket_loop input_str 0 [] (- 1)"

subsection \<open>Balanced text\<close>

definition bracket_pair :: "char \<Rightarrow> char \<Rightarrow> bool" where
  "bracket_pair l r \<longleftrightarrow> map_of BRACKETS r = Some l"

definition is_bracket :: "char \<Rightarrow> bool" where
  "is_bracket c \<longleftrightarrow> c \<in> LBRACKETS \<or> map_of BRACKETS c \<noteq> None"

inductive nested :: "string \<Rightarrow> bool" where
  Empty: "nested []"
| Plain: "\<not> is_bracket c \<Longrightarrow> nested s \<Longrightarrow> nested (c # s)"
| Group: "bracket_pair l r \<Longrightarrow> nested s \<Longrightarrow> nested t \<Longrightarrow> nested (l # s @ r # t)"

lemma bracket_pairD:
  "bracket_pair l r \<Longrightarrow> l \<in> LBRACKETS \<and> r \<notin> LBRACKETS \<and> map_of BRACKETS r = Some l"
  by (auto simp: bracket_pair_def BRACKETS_def LBRACKETS_def split: if_splits)

lemma bracket_open: "bracket_pair l r \<Longrightarrow>
    bracket_loop (l # s) i stack start = bracket_loop s (i + 1) (l # stack) (if start = - 1 then i else start)"
  using bracket_pairD [of l r] by (simp add: bracket_loop.simps(2))

lemma bracket_close: "bracket_pair l r \<Longrightarrow>
    bracket_loop (r # s) i (l # stack) start =
      (if stack = [] then (start, i + 1) else bracket_loop s (i + 1) stack start)"
  using bracket_pairD [of l r] by (simp add: bracket_loop.simps(2))

lemma bracket_plain: "\<not> is_bracket c \<Longrightarrow> bracket_loop (c # s) i stack start = bracket_loop s (i + 1) stack start"
  by (simp add: is_bracket_def bracket_loop.simps(2))

declare bracket_loop.simps(2) [simp del]

lemma bracket_nested:
  "nested s \<Longrightarrow> stack \<noteq> [] \<Longrightarrow> start \<noteq> - 1 \<Longrightarrow>
   bracket_loop (s @ rest) i stack start = bracket_loop rest (i + int (length s)) stack start"
proof (induction s arbitrary: i stack rest rule: nested.induct)
  case (Group l r s t)
  then show ?case
    by (simp add: bracket_open [OF Group.hyps(1)] bracket_close [OF Group.hyps(1)] ac_simps)
qed (simp_all add: bracket_plain ac_simps)

lemma bracket_found:
  assumes "bracket_loop s i (c # stack) start = (a, b)" and "b \<noteq> - 1" and "start \<noteq> - 1"
  shows "\<exists>mid r rest. s = mid @ r # rest \<and> nested mid \<and> bracket_pair c r
    \<and> (if stack = [] then a = start \<and> b = i + int (length mid) + 1
       else bracket_loop rest (i + int (length mid) + 1) stack start = (a, b))"
  using assms
proof (induction "length s" arbitrary: s i c stack rule: less_induct)
  case less
  show ?case
  proof (cases s)
    case Nil
    with less.prems show ?thesis by simp
  next
    case (Cons d s')
    consider (plain) "\<not> is_bracket d" | (left) "d \<in> LBRACKETS"
      | (right) l where "d \<notin> LBRACKETS" "map_of BRACKETS d = Some l"
      unfolding is_bracket_def by blast
    then show ?thesis
    proof cases
      case plain
      with less.prems Cons have "bracket_loop s' (i + 1) (c # stack) start = (a, b)" by (simp add: bracket_plain)
      from less.hyps [OF _ this less.prems(2,3)] Cons obtain mid r rest where
        "s' = mid @ r # rest" "nested mid" "bracket_pair c r"
        "if stack = [] then a = start \<and> b = i + 1 + int (length mid) + 1
         else bracket_loop rest (i + 1 + int (length mid) + 1) stack start = (a, b)" by auto
      with plain Cons show ?thesis
        by (intro exI [of _ "d # mid"] exI [of _ r] exI [of _ rest]) (auto simp: nested.Plain algebra_simps)
    next
      case left
      with less.prems Cons have "bracket_loop s' (i + 1) (d # c # stack) start = (a, b)"
        by (simp add: bracket_loop.simps(2))
      from less.hyps [OF _ this less.prems(2,3)] Cons obtain m1 r1 rest1 where
        1: "s' = m1 @ r1 # rest1" "nested m1" "bracket_pair d r1"
        "bracket_loop rest1 (i + 1 + int (length m1) + 1) (c # stack) start = (a, b)" by auto
      from less.hyps [OF _ 1(4) less.prems(2,3)] Cons 1(1) obtain mid r rest where
        2: "rest1 = mid @ r # rest" "nested mid" "bracket_pair c r"
        "if stack = [] then a = start \<and> b = i + 1 + int (length m1) + 1 + int (length mid) + 1
         else bracket_loop rest (i + 1 + int (length m1) + 1 + int (length mid) + 1) stack start = (a, b)" by auto
      have "nested (d # m1 @ r1 # mid)" using nested.Group [OF 1(3,2) 2(2)] .
      with 1(1) 2 Cons show ?thesis
        by (intro exI [of _ "d # m1 @ r1 # mid"] exI [of _ r] exI [of _ rest]) (auto simp: algebra_simps)
    next
      case right
      with less.prems Cons have "c = l" by (auto simp: bracket_loop.simps(2) split: if_splits)
      then have "bracket_pair c d" using right by (simp add: bracket_pair_def)
      with less.prems(1) Cons bracket_close [OF this, of s' i stack start] show ?thesis
        by (intro exI [of _ "[]"] exI [of _ d] exI [of _ s']) (auto simp: nested.Empty split: if_splits)
    qed
  qed
qed

lemma bracket_before: "list_all (\<lambda>c. \<not> is_bracket c) pre \<Longrightarrow>
    bracket_loop (pre @ s) i stack start = bracket_loop s (i + int (length pre)) stack start"
  by (induction pre arbitrary: i) (simp_all add: bracket_plain ac_simps)

lemma bracket_start:
  assumes "bracket_loop s (int i) [] (- 1) = (a, b)" and "b \<noteq> - 1"
  shows "\<exists>pre l mid r post. s = pre @ l # mid @ r # post \<and> list_all (\<lambda>c. \<not> is_bracket c) pre
    \<and> bracket_pair l r \<and> nested mid \<and> a = int (i + length pre) \<and> b = int (i + length pre + length mid + 2)"
  using assms
proof (induction s arbitrary: i)
  case (Cons d s)
  consider (plain) "\<not> is_bracket d" | (left) "d \<in> LBRACKETS"
    | (right) l where "d \<notin> LBRACKETS" "map_of BRACKETS d = Some l"
    unfolding is_bracket_def by blast
  then show ?case
  proof cases
    case plain
    with Cons.prems have "bracket_loop s (int (Suc i)) [] (- 1) = (a, b)" by (simp add: bracket_plain ac_simps)
    from Cons.IH [OF this Cons.prems(2)] obtain pre l mid r post where
      "s = pre @ l # mid @ r # post" "list_all (\<lambda>c. \<not> is_bracket c) pre" "bracket_pair l r" "nested mid"
      "a = int (Suc i + length pre)" "b = int (Suc i + length pre + length mid + 2)" by blast
    with plain show ?thesis
      by (intro exI [of _ "d # pre"] exI [of _ l] exI [of _ mid] exI [of _ r] exI [of _ post]) simp
  next
    case left
    with Cons.prems have "bracket_loop s (int i + 1) [d] (int i) = (a, b)" by (simp add: bracket_loop.simps(2))
    from bracket_found [OF this Cons.prems(2)] obtain mid r rest where
      "s = mid @ r # rest" "nested mid" "bracket_pair d r" "a = int i" "b = int i + 1 + int (length mid) + 1" by auto
    then show ?thesis
      by (intro exI [of _ "[]"] exI [of _ d] exI [of _ mid] exI [of _ r] exI [of _ rest]) simp
  next
    case right
    with Cons.prems show ?thesis by (simp add: bracket_loop.simps(2))
  qed
qed simp

text \<open>
  C25: the group of brackets that is found is the first one, from its opening bracket to the matching
  closing one: the text before it has no bracket and the text inside is balanced, with brackets of
  all three kinds. The answer is \<open>(-1, -1)\<close> exactly if the text has no such group at its first
  bracket.
\<close>

theorem FindEnclosingBracketGroup_group:
  "FindEnclosingBracketGroup s = (int a, int b) \<longleftrightarrow>
    (\<exists>pre l mid r post. s = pre @ l # mid @ r # post \<and> list_all (\<lambda>c. \<not> is_bracket c) pre
       \<and> bracket_pair l r \<and> nested mid \<and> a = length pre \<and> b = length pre + length mid + 2)"
  (is "?L \<longleftrightarrow> ?R")
proof
  assume ?L
  then have "bracket_loop s (int 0) [] (- 1) = (int a, int b)" by (simp add: FindEnclosingBracketGroup_def)
  from bracket_start [OF this] obtain pre l mid r post where
    "s = pre @ l # mid @ r # post" "list_all (\<lambda>c. \<not> is_bracket c) pre" "bracket_pair l r" "nested mid"
    "int a = int (length pre)" "int b = int (length pre + length mid + 2)" by auto
  then show ?R by (simp only: of_nat_eq_iff) blast
next
  assume ?R
  then obtain pre l mid r post where s: "s = pre @ l # mid @ r # post" "list_all (\<lambda>c. \<not> is_bracket c) pre"
    "bracket_pair l r" "nested mid" "a = length pre" "b = length pre + length mid + 2" by blast
  show ?L
    using s by (simp add: FindEnclosingBracketGroup_def bracket_before bracket_open [OF s(3)]
        bracket_nested [OF s(4)] bracket_close [OF s(3)])
qed

section \<open>References in a string\<close>

text \<open>
  The phases and their symbols. The regular expression of a phase is
  \<open>(?P<replace>(?P<type><(?:(?:!?@?)|\|)?)(?P<command_string>[-a-zA-Z0-9_.]+)?\((?P<is_array>\s*\[?)(?P<content>.*?)(\]?)\))\<close>
  with the symbol of the phase in place of the first character. What follows the opening
  parenthesis matches up to the first closing one, unless a line break comes before it: the groups
  \<open>content\<close> and \<open>(\]?)\<close> are not used, and a shorter \<open>\s*\[?\<close> does not help the rest to match.
\<close>

datatype phase = PHASE_EARLY | PHASE_LATE | PHASE_LATELATE

fun expansion_symbol :: "phase \<Rightarrow> char" where
  "expansion_symbol PHASE_EARLY = CHR ''<''"
| "expansion_symbol PHASE_LATE = CHR ''>''"
| "expansion_symbol PHASE_LATELATE = CHR ''^''"

text \<open>The groups of a match that the code uses; \<open>command_string\<close> is empty where it is \<open>None\<close>.\<close>

record var_match =
  match_start :: nat
  match_type :: string
  command_string :: string
  is_array :: bool

definition between :: "char \<Rightarrow> char \<Rightarrow> char \<Rightarrow> bool" where
  "between lo hi c \<longleftrightarrow> lo \<le> c \<and> c \<le> hi"

definition command_char :: "char \<Rightarrow> bool" where
  "command_char c \<longleftrightarrow>
     is_digit c \<or> between (CHR ''a'') (CHR ''z'') c \<or> between (CHR ''A'') (CHR ''Z'') c
     \<or> c = CHR ''-'' \<or> c = CHR ''_'' \<or> c = CHR ''.''"

definition optional :: "char \<Rightarrow> string \<Rightarrow> string \<times> string" where
  "optional c s = (if s \<noteq> [] \<and> hd s = c then ([c], tl s) else ([], s))"

definition match_type_of :: "string \<Rightarrow> string \<times> string" where
  "match_type_of s =
     (if s \<noteq> [] \<and> hd s = CHR ''|'' then (''|'', tl s)
      else let (bang, s) = optional CHR ''!'' s; (at, s) = optional CHR ''@'' s in (bang @ at, s))"

text \<open>The match at the beginning of a string, and the text after it.\<close>

definition match_here :: "char \<Rightarrow> nat \<Rightarrow> string \<Rightarrow> (var_match \<times> string) option" where
  "match_here symbol pos s =
     (if s = [] \<or> hd s \<noteq> symbol then None
      else let (ty, s) = match_type_of (tl s);
               command = takeWhile command_char s;
               s = dropWhile command_char s
           in if s = [] \<or> hd s \<noteq> CHR ''('' then None
              else let space = takeWhile is_space (tl s);
                       (bracket, s) = optional CHR ''['' (dropWhile is_space (tl s));
                       s = dropWhile (\<lambda>c. c \<noteq> CHR '')'' \<and> c \<noteq> CHR 0x0A) s
                   in if s = [] \<or> hd s \<noteq> CHR '')'' then None
                      else Some (\<lparr>match_start = pos, match_type = symbol # ty, command_string = command,
                                  is_array = space @ bracket \<noteq> []\<rparr>, tl s))"

lemma optional_length: "optional c s = (a, r) \<Longrightarrow> length r \<le> length s"
  by (auto simp: optional_def split: if_splits)

lemma match_type_length: "match_type_of s = (a, r) \<Longrightarrow> length r \<le> length s"
  by (auto simp: match_type_of_def split: if_splits prod.splits dest!: optional_length)

lemma match_here_length: "match_here symbol pos s = Some (m, r) \<Longrightarrow> length r < length s"
proof -
  have drop: "length (dropWhile P x) \<le> length x" for P and x :: string by (rule length_dropWhile_le)
  assume m: "match_here symbol pos s = Some (m, r)"
  obtain ty s1 where 1: "match_type_of (tl s) = (ty, s1)" by force
  obtain b s2 where 2: "optional CHR ''['' (dropWhile is_space (tl (dropWhile command_char s1))) = (b, s2)" by force
  from m 1 2 have r: "s \<noteq> []" "r = tl (dropWhile (\<lambda>c. c \<noteq> CHR '')'' \<and> c \<noteq> CHR 0x0A) s2)"
    by (auto simp: match_here_def Let_def split: if_splits)
  have "length s1 \<le> length (tl s)" using match_type_length [OF 1] .
  moreover have "length s2 \<le> length s1"
    using optional_length [OF 2] drop [of is_space "tl (dropWhile command_char s1)"] drop [of command_char s1] by simp
  moreover have "length r \<le> length s2"
    using r(2) drop [of "\<lambda>c. c \<noteq> CHR '')'' \<and> c \<noteq> CHR 0x0A" s2] by simp
  ultimately show ?thesis using r(1) by (cases s) auto
qed

text \<open>\<open>variable_re.finditer(input_str)\<close>\<close>

function find_matches :: "char \<Rightarrow> nat \<Rightarrow> string \<Rightarrow> var_match list" where
  "find_matches symbol pos s =
     (if s = [] then []
      else case match_here symbol pos s of
        None \<Rightarrow> find_matches symbol (pos + 1) (tl s)
      | Some (m, rest) \<Rightarrow> m # find_matches symbol (pos + (length s - length rest)) rest)"
  by pat_completeness auto
termination
  by (relation "measure (\<lambda>(symbol, pos, s). length s)") (auto dest: match_here_length)

declare find_matches.simps [simp del]

text \<open>\<open>s[a:b]\<close>, where a negative index counts from the end.\<close>

definition slice_index :: "string \<Rightarrow> int \<Rightarrow> nat" where
  "slice_index s i = nat (if i < 0 then i + int (length s) else i)"

definition py_slice :: "string \<Rightarrow> int \<Rightarrow> int \<Rightarrow> string" where
  "py_slice s a b = take (slice_index s b - slice_index s a) (drop (slice_index s a) s)"

text \<open>\<open>re.sub('^cat ', 'type ', cmd)\<close>, for a command and for the first item of a command list.\<close>

definition cat_to_type :: "string \<Rightarrow> string" where
  "cat_to_type cmd = (if prefix ''cat '' cmd then ''type '' @ drop 4 cmd else cmd)"

definition FixupPlatformCommand :: "string \<Rightarrow> gval \<Rightarrow> gval result" where
  "FixupPlatformCommand platform cmd =
     (if platform = ''win32'' then
        (case cmd of
           GList l \<Rightarrow>
             (case l of
                [] \<Rightarrow> Inl IndexError
              | c # cs \<Rightarrow> rbind (as_str c) (\<lambda>s. Inr (GList (GStr (cat_to_type s) # cs))))
         | _ \<Rightarrow> rbind (as_str cmd) (\<lambda>s. Inr (GStr (cat_to_type s))))
      else Inr cmd)"

section \<open>Canonical integers\<close>

text \<open>\<open>(0|-?[1-9][0-9]*)$\<close>; \<open>$\<close> also matches before a final line break.\<close>

definition IsStrCanonicalInt :: "string \<Rightarrow> bool" where
  "IsStrCanonicalInt s \<longleftrightarrow>
     (let s = (if s \<noteq> [] \<and> last s = CHR 0x0A then butlast s else s);
          ds = (if s \<noteq> [] \<and> hd s = CHR ''-'' then tl s else s)
      in s = ''0'' \<or> ds \<noteq> [] \<and> list_all is_digit ds \<and> hd ds \<noteq> CHR ''0'')"

lemma canonical_chars:
  assumes "IsStrCanonicalInt s"
  shows "\<forall>c \<in> set s. is_digit c \<or> c = CHR ''-'' \<or> c = CHR 0x0A"
proof -
  have short: "\<forall>c \<in> set x. is_digit c \<or> c = CHR ''-''"
    if "x = ''0'' \<or> (if x \<noteq> [] \<and> hd x = CHR ''-'' then list_all is_digit (tl x) else list_all is_digit x)" for x
    using that by (cases x) (auto simp: list_all_iff is_digit_code split: if_splits)
  show ?thesis
  proof (cases s rule: rev_cases)
    case (snoc ys y)
    with assms short [of ys] short [of s] show ?thesis
      by (cases "y = CHR 0x0A") (auto simp: IsStrCanonicalInt_def Let_def split: if_splits)
  qed simp
qed

lemma digit_digit_val: "is_digit c \<Longrightarrow> digit (digit_val c) = c \<and> digit_val c < 10"
  by (auto simp: is_digit_code digit_def digit_val_def)

lemma show_nat_foldl:
  "ds \<noteq> [] \<Longrightarrow> list_all is_digit ds \<Longrightarrow> hd ds \<noteq> CHR ''0'' \<Longrightarrow>
   show_nat (foldl (\<lambda>n c. 10 * n + digit_val c) 0 ds) = ds \<and> 0 < foldl (\<lambda>n c. 10 * n + digit_val c) 0 ds"
proof (induction ds rule: rev_induct)
  case (snoc d ds)
  from snoc.prems have d: "digit (digit_val d) = d" "digit_val d < 10" using digit_digit_val by simp_all
  show ?case
  proof (cases "ds = []")
    case True
    have "digit 0 = CHR ''0''" by code_simp
    with True snoc.prems d have "digit_val d \<noteq> 0" by (metis append_Nil list.sel(1))
    with True d show ?thesis by (subst show_nat.simps) simp
  next
    case False
    let ?n = "foldl (\<lambda>n c. 10 * n + digit_val c) 0 ds"
    have n: "show_nat ?n = ds" "0 < ?n" using snoc.IH False snoc.prems by simp_all
    then have "(10 * ?n + digit_val d) div 10 = ?n" "(10 * ?n + digit_val d) mod 10 = digit_val d" "\<not> 10 * ?n + digit_val d < 10"
      using d(2) by auto
    with n d(1) show ?thesis by (subst show_nat.simps) simp
  qed
qed simp

lemma show_nat_hd: "0 < n \<Longrightarrow> hd (show_nat n) \<noteq> CHR ''0''"
proof (induction n rule: show_nat.induct)
  case (1 n)
  have ne: "show_nat m \<noteq> []" for m using show_nat_digits [of m] by simp
  have d: "digit n \<noteq> CHR ''0''" if "n < 10"
  proof
    assume "digit n = CHR ''0''"
    then have "of_char (digit n) = (48 :: nat)" by simp
    with that 1(2) show False by (simp add: digit_def)
  qed
  show ?case using 1 d ne by (subst show_nat.simps) auto
qed

text \<open>Without the final line break.\<close>

definition canonical :: "string \<Rightarrow> bool" where
  "canonical s \<longleftrightarrow>
     (let ds = (if s \<noteq> [] \<and> hd s = CHR ''-'' then tl s else s)
      in s = ''0'' \<or> ds \<noteq> [] \<and> list_all is_digit ds \<and> hd ds \<noteq> CHR ''0'')"

lemma canonical_show: "canonical s \<longleftrightarrow> (\<exists>i. s = show_int i)"
proof
  assume "canonical s"
  then consider "s = ''0''" | ds where "s = CHR ''-'' # ds" "ds \<noteq> []" "list_all is_digit ds" "hd ds \<noteq> CHR ''0''"
    | "s \<noteq> []" "list_all is_digit s" "hd s \<noteq> CHR ''0''"
    by (cases s) (auto simp: canonical_def Let_def split: if_splits)
  then show "\<exists>i. s = show_int i"
  proof cases
    case 1
    have "show_int 0 = ''0''" by code_simp
    with 1 show ?thesis by metis
  next
    case (2 ds)
    with show_nat_foldl [OF 2(2-4)] show ?thesis
      by (intro exI [of _ "- int (foldl (\<lambda>n c. 10 * n + digit_val c) 0 ds)"]) (simp add: show_int_def)
  next
    case 3
    with show_nat_foldl [OF 3] show ?thesis
      by (intro exI [of _ "int (foldl (\<lambda>n c. 10 * n + digit_val c) 0 s)"]) (simp add: show_int_def)
  qed
next
  assume "\<exists>i. s = show_int i"
  then obtain i where i: "s = show_int i" ..
  have nat: "show_nat n \<noteq> [] \<and> list_all is_digit (show_nat n)" for n using show_nat_digits [of n] by simp
  have dash: "hd (show_nat n) \<noteq> CHR ''-''" for n
    using nat [of n] digits_no_space [of "show_nat n" "hd (show_nat n)"] by simp
  have "show_int 0 = ''0''" by code_simp
  then show "canonical s"
    using nat dash show_nat_hd [of "nat i"] show_nat_hd [of "nat (- i)"]
    by (cases "i = 0") (auto simp: canonical_def i show_int_def Let_def)
qed

lemma strip_space: "x \<noteq> [] \<Longrightarrow> (\<And>c. c \<in> set x \<Longrightarrow> \<not> is_space c) \<Longrightarrow> strip (x @ [CHR 0x0A]) = x"
proof -
  assume x: "x \<noteq> []" "\<And>c. c \<in> set x \<Longrightarrow> \<not> is_space c"
  have "dropWhile is_space xs = xs" if "set xs \<subseteq> set x" for xs using that x(2) by (cases xs) auto
  from this [of "rev x"] x show ?thesis by (cases x) (auto simp: strip_def is_space_def)
qed

text \<open>
  A string is a canonical integer exactly if \<open>str\<close> prints it for some integer, which \<open>int\<close> reads
  back, or if it is such a string with a line break at its end; for the latter the promise that
  \<open>str(int(string)) == string\<close> fails.
\<close>

theorem IsStrCanonicalInt_show:
  "IsStrCanonicalInt s \<longleftrightarrow> (\<exists>i. (s = show_int i \<or> s = show_int i @ [CHR 0x0A]) \<and> parse_int s = Some i)"
proof -
  have chars: "show_int i \<noteq> []" "c \<in> set (show_int i) \<Longrightarrow> \<not> is_space c" for i c
    using show_nat_digits [of "nat i"] show_nat_digits [of "nat (- i)"] digits_no_space
    by (auto simp: show_int_def is_space_def split: if_splits)
  have strip: "strip (show_int i @ [CHR 0x0A]) = show_int i" "strip (show_int i) = show_int i" for i
    using strip_space [of "show_int i"] strip_id [of "show_int i"] chars by auto
  have p: "parse_int (show_int i @ [CHR 0x0A]) = Some i" for i
    using parse_show_int [of i] strip [of i] by (simp add: parse_int_def)
  have nl: "last (show_int i) \<noteq> CHR 0x0A" for i
    using chars(1) chars(2) [of "last (show_int i)" i] by (auto simp: is_space_def)
  have "IsStrCanonicalInt s \<longleftrightarrow> canonical (if s \<noteq> [] \<and> last s = CHR 0x0A then butlast s else s)"
    by (simp add: IsStrCanonicalInt_def canonical_def Let_def)
  also have "\<dots> \<longleftrightarrow> (\<exists>i. s = show_int i \<or> s = show_int i @ [CHR 0x0A])"
  proof (cases "s \<noteq> [] \<and> last s = CHR 0x0A")
    case True
    then have s: "s = butlast s @ [CHR 0x0A]" by (metis append_butlast_last_id)
    have "s \<noteq> show_int i" for i using True nl by metis
    moreover have "butlast s = show_int i \<longleftrightarrow> s = show_int i @ [CHR 0x0A]" for i using s by (metis butlast_snoc)
    ultimately show ?thesis using True by (simp add: canonical_show)
  next
    case False
    then have "s \<noteq> show_int i @ [CHR 0x0A]" for i by auto
    moreover have "(if s \<noteq> [] \<and> last s = CHR 0x0A then butlast s else s) = s" using False by (rule if_not_P)
    ultimately show ?thesis by (simp only: canonical_show) simp
  qed
  finally show ?thesis using p parse_show_int by auto
qed

end
