(* ===== verification/Py_Repr.thy ===== *)
theory Py_Repr
  imports Gyp_Value Py_Int
begin

text \<open>
  \<open>repr(v)\<close> and \<open>str(v)\<close> of the values of a build file. The text of a command list is the key of
  the cache of commands, and an argument that is not a string is printed before it is quoted.
\<close>

definition hex_digit :: "nat \<Rightarrow> char" where
  "hex_digit n = (if n < 10 then char_of (48 + n) else char_of (87 + n))"

definition repr_char :: "char \<Rightarrow> char \<Rightarrow> string" where
  "repr_char q c =
     (if c = q \<or> c = CHR 0x5C then [CHR 0x5C, c]
      else if c = CHR 0x09 then [CHR 0x5C, CHR ''t'']
      else if c = CHR 0x0A then [CHR 0x5C, CHR ''n'']
      else if c = CHR 0x0D then [CHR 0x5C, CHR ''r'']
      else if of_char c < (32 :: nat) \<or> (127 :: nat) \<le> of_char c
      then [CHR 0x5C, CHR ''x'', hex_digit (of_char c div 16), hex_digit (of_char c mod 16)]
      else [c])"

definition repr_str :: "string \<Rightarrow> string" where
  "repr_str s =
     (let q = (if CHR 0x27 \<in> set s \<and> CHR 0x22 \<notin> set s then CHR 0x22 else CHR 0x27)
      in q # concat (map (repr_char q) s) @ [q])"

fun py_repr :: "gval \<Rightarrow> string result" where
  "py_repr (GStr s) = Inr (repr_str s)"
| "py_repr (GInt i) = Inr (show_int i)"
| "py_repr (GList l) = rbind (rmap py_repr l) (\<lambda>xs. Inr (''['' @ join '', '' xs @ '']''))"
| "py_repr (GDict d) =
     rbind (rmap (\<lambda>(k, v). rbind (py_repr v) (\<lambda>x. Inr (repr_str k @ '': '' @ x))) d)
       (\<lambda>xs. Inr (''{'' @ join '', '' xs @ ''}''))"
| "py_repr (GOther c b) =
     (if c = ''NoneType'' then Inr ''None''
      else if c = ''bool'' then Inr (if b then ''True'' else ''False'')
      else Inl (NotModelled (''repr of '' @ c)))"

definition py_str :: "gval \<Rightarrow> string result" where
  "py_str v = (case v of GStr s \<Rightarrow> Inr s | _ \<Rightarrow> py_repr v)"

lemma py_str_scalar [simp]: "py_str (GStr s) = Inr s" "py_str (GInt i) = Inr (show_int i)"
  by (simp_all add: py_str_def)

lemma repr_examples:
  "py_str (GList [GStr ''python'', GStr [CHR ''a'', CHR 0x27, CHR 0x0A], GInt (- 3)])
    = Inr (''['' @ [CHR 0x27] @ ''python'' @ [CHR 0x27] @ '', '' @ [CHR 0x22, CHR ''a'', CHR 0x27, CHR 0x5C, CHR ''n'', CHR 0x22] @ '', -3]'')"
  by code_simp

end
