(* ===== verification/Gyp_Heap.thy ===== *)
theory Gyp_Heap
  imports Gyp_Merge Py_Repr
begin

text \<open>
  The objects that variable expansion mutates. \<open>ExpandVariables\<close> and its callers change lists and
  dictionaries in place, and a variable shares its list with the dictionary that defines it, so
  here a list or a dictionary is an object at an address; the trees of \<open>Gyp_Value\<close> are stored into
  the heap and read back. The state also has the cache of command results, the commands that have
  been started and the files that have been written.
\<close>

section \<open>Objects and the state\<close>

datatype hval = HStr string | HInt int | HRef nat | HOther string bool

type_synonym hdict = "(string \<times> hval) list"

datatype obj = OList "hval list" | ODict hdict

text \<open>A process with its arguments, \<open>shell\<close> and \<open>cwd\<close>; or a call of a Python module's \<open>DoMain\<close>.\<close>

datatype command = Process gval bool "string option" | PyModule string "string list" string

record estate =
  cells :: "obj list"
  cached_command_results :: "(string \<times> string) list"
  commands :: "(string \<times> command) list"
  written :: "(string \<times> string) list"

type_synonym 'a cmd = "estate \<Rightarrow> ('a \<times> estate) result"

definition creturn :: "'a \<Rightarrow> 'a cmd" where
  "creturn x = (\<lambda>s. Inr (x, s))"

definition cbind :: "'a cmd \<Rightarrow> ('a \<Rightarrow> 'b cmd) \<Rightarrow> 'b cmd" where
  "cbind m f = (\<lambda>s. rbind (m s) (\<lambda>(x, s'). f x s'))"

definition clift :: "'a result \<Rightarrow> 'a cmd" where
  "clift r = (\<lambda>s. rbind r (\<lambda>x. Inr (x, s)))"

abbreviation craise :: "py_error \<Rightarrow> 'a cmd" where
  "craise e \<equiv> clift (Inl e)"

definition cstate :: "(estate \<Rightarrow> 'a) \<Rightarrow> 'a cmd" where
  "cstate f = (\<lambda>s. Inr (f s, s))"

fun cfold :: "('a \<Rightarrow> 'b \<Rightarrow> 'b cmd) \<Rightarrow> 'a list \<Rightarrow> 'b \<Rightarrow> 'b cmd" where
  "cfold f [] y = creturn y"
| "cfold f (x # xs) y = cbind (f x y) (cfold f xs)"

definition cfor :: "('a \<Rightarrow> unit cmd) \<Rightarrow> 'a list \<Rightarrow> unit cmd" where
  "cfor f xs = cfold (\<lambda>x u. f x) xs ()"

fun cmap :: "('a \<Rightarrow> 'b cmd) \<Rightarrow> 'a list \<Rightarrow> 'b list cmd" where
  "cmap f [] = creturn []"
| "cmap f (x # xs) = cbind (f x) (\<lambda>y. cbind (cmap f xs) (\<lambda>ys. creturn (y # ys)))"

lemma cbind_cong [fundef_cong]: "m = m' \<Longrightarrow> (\<And>x. f x = g x) \<Longrightarrow> cbind m f = cbind m' g"
  by (simp add: cbind_def cong: rbind_cong)

lemma cfold_cong [fundef_cong]:
  "xs = ys \<Longrightarrow> y = z \<Longrightarrow> (\<And>x y. x \<in> set ys \<Longrightarrow> f x y = g x y) \<Longrightarrow> cfold f xs y = cfold g ys z"
  by (induction ys arbitrary: xs y z) (auto intro!: cbind_cong)

lemma creturn_Inr [simp]: "creturn x s = Inr (y, s') \<longleftrightarrow> y = x \<and> s' = s"
  by (auto simp: creturn_def)

lemma clift_Inr [simp]: "clift r s = Inr (y, s') \<longleftrightarrow> r = Inr y \<and> s' = s"
  by (auto simp: clift_def)

lemma cstate_Inr [simp]: "cstate f s = Inr (y, s') \<longleftrightarrow> y = f s \<and> s' = s"
  by (auto simp: cstate_def)

lemma cbind_Inr [simp]: "cbind m f s = Inr (y, s') \<longleftrightarrow> (\<exists>x t. m s = Inr (x, t) \<and> f x t = Inr (y, s'))"
  by (auto simp: cbind_def)

section \<open>Reading and writing\<close>

definition object_at :: "nat \<Rightarrow> obj cmd" where
  "object_at a = (\<lambda>s. if a < length (cells s) then Inr (cells s ! a, s) else Inl (NotModelled ''dangling address''))"

definition set_object :: "nat \<Rightarrow> obj \<Rightarrow> unit cmd" where
  "set_object a ob = (\<lambda>s. Inr ((), s\<lparr>cells := (cells s)[a := ob]\<rparr>))"

definition new_object :: "obj \<Rightarrow> hval cmd" where
  "new_object ob = (\<lambda>s. Inr (HRef (length (cells s)), s\<lparr>cells := cells s @ [ob]\<rparr>))"

text \<open>The object of a value, where it has one.\<close>

definition object_of :: "hval \<Rightarrow> obj option cmd" where
  "object_of v = (case v of HRef a \<Rightarrow> cbind (object_at a) (\<lambda>ob. creturn (Some ob)) | _ \<Rightarrow> creturn None)"

fun object_class :: "obj \<Rightarrow> string" where
  "object_class (OList l) = ''list''"
| "object_class (ODict d) = ''dict''"

definition hclass :: "hval \<Rightarrow> string cmd" where
  "hclass v =
     (case v of
        HStr s \<Rightarrow> creturn ''str''
      | HInt i \<Rightarrow> creturn ''int''
      | HRef a \<Rightarrow> cbind (object_at a) (\<lambda>ob. creturn (object_class ob))
      | HOther c b \<Rightarrow> creturn c)"

fun hscalar :: "hval \<Rightarrow> bool" where
  "hscalar (HStr s) = True"
| "hscalar (HInt i) = True"
| "hscalar v = False"

text \<open>A value that is used as a list, or as a dictionary; \<open>v.iteritems\<close> fails on anything else.\<close>

definition list_at :: "nat \<Rightarrow> hval list cmd" where
  "list_at a = cbind (object_at a) (\<lambda>ob.
     case ob of OList l \<Rightarrow> creturn l | ODict d \<Rightarrow> craise (TypeError ''expected list, found dict''))"

definition dict_at :: "nat \<Rightarrow> hdict cmd" where
  "dict_at a = cbind (object_at a) (\<lambda>ob.
     case ob of ODict d \<Rightarrow> creturn d | OList l \<Rightarrow> craise (AttributeError ''list object has no attribute iteritems''))"

definition address_of :: "hval \<Rightarrow> nat cmd" where
  "address_of v =
     (case v of HRef a \<Rightarrow> creturn a
      | _ \<Rightarrow> cbind (hclass v) (\<lambda>c. craise (AttributeError (c @ '' object has no attribute iteritems''))))"

definition update_dict :: "nat \<Rightarrow> string \<Rightarrow> hval \<Rightarrow> unit cmd" where
  "update_dict a k v = cbind (dict_at a) (\<lambda>d. set_object a (ODict (AList.update k v d)))"

subsection \<open>Trees in the heap\<close>

fun store :: "gval \<Rightarrow> obj list \<Rightarrow> hval \<times> obj list"
  and store_list :: "gval list \<Rightarrow> obj list \<Rightarrow> hval list \<times> obj list"
  and store_dict :: "gdict \<Rightarrow> obj list \<Rightarrow> hdict \<times> obj list"
where
  "store (GStr s) h = (HStr s, h)"
| "store (GInt i) h = (HInt i, h)"
| "store (GOther c b) h = (HOther c b, h)"
| "store (GList l) h = (let (vs, h) = store_list l h in (HRef (length h), h @ [OList vs]))"
| "store (GDict d) h = (let (vs, h) = store_dict d h in (HRef (length h), h @ [ODict vs]))"
| "store_list [] h = ([], h)"
| "store_list (x # xs) h = (let (v, h) = store x h; (vs, h) = store_list xs h in (v # vs, h))"
| "store_dict [] h = ([], h)"
| "store_dict ((k, x) # d) h = (let (v, h) = store x h; (vs, h) = store_dict d h in ((k, v) # vs, h))"

definition new_tree :: "gval \<Rightarrow> hval cmd" where
  "new_tree t = (\<lambda>s. let (v, h) = store t (cells s) in Inr (v, s\<lparr>cells := h\<rparr>))"

definition new_dict :: "gdict \<Rightarrow> hdict cmd" where
  "new_dict d = (\<lambda>s. let (vs, h) = store_dict d (cells s) in Inr (vs, s\<lparr>cells := h\<rparr>))"

text \<open>
  The tree below a value. A structure without cycles is no deeper than the heap has objects; a
  cyclic one leaves the model (Python prints it with dots).
\<close>

fun load_value :: "nat \<Rightarrow> obj list \<Rightarrow> hval \<Rightarrow> gval result" where
  "load_value n h (HStr s) = Inr (GStr s)"
| "load_value n h (HInt i) = Inr (GInt i)"
| "load_value n h (HOther c b) = Inr (GOther c b)"
| "load_value 0 h (HRef a) = Inl (NotModelled ''cyclic value'')"
| "load_value (Suc n) h (HRef a) =
     (if a < length h then
        (case h ! a of
           OList l \<Rightarrow> rbind (rmap (load_value n h) l) (\<lambda>xs. Inr (GList xs))
         | ODict d \<Rightarrow>
             rbind (rmap (\<lambda>(k, v). rbind (load_value n h v) (\<lambda>x. Inr (k, x))) d) (\<lambda>e. Inr (GDict e)))
      else Inl (NotModelled ''dangling address''))"

definition read_tree :: "hval \<Rightarrow> gval cmd" where
  "read_tree v = (\<lambda>s. rbind (load_value (length (cells s)) (cells s) v) (\<lambda>t. Inr (t, s)))"

definition read_dict :: "hdict \<Rightarrow> gdict cmd" where
  "read_dict d = cmap (\<lambda>(k, v). cbind (read_tree v) (\<lambda>x. creturn (k, x))) d"

definition str_of :: "hval \<Rightarrow> string cmd" where
  "str_of v = cbind (read_tree v) (\<lambda>t. clift (py_str t))"

section \<open>Merging into an object\<close>

text \<open>
  \<open>MergeLists\<close> and \<open>MergeDicts\<close> with the receiver in the heap. What is merged is read first: every
  item is copied, so the receiver shares nothing with it.
\<close>

definition HMergeLists :: "gyp_env \<Rightarrow> nat \<Rightarrow> gval list \<Rightarrow> string \<Rightarrow> string \<Rightarrow> bool \<Rightarrow> bool \<Rightarrow> unit cmd" where
  "HMergeLists env a fro to_file fro_file is_paths app =
     cbind (list_at a) (\<lambda>to.
     cbind (cfold (\<lambda>item st.
        cbind (clift (merge_list_item env to_file fro_file is_paths item)) (\<lambda>x.
        cbind (new_tree x) (\<lambda>v.
        creturn (merge_item app (v, singleton_item item) st)))) fro (to, 0)) (\<lambda>(to, prepend_index).
     set_object a (OList to)))"

text \<open>The object that a key of the receiver has, a new one where it has none.\<close>

definition entry_object :: "nat \<Rightarrow> string \<Rightarrow> obj \<Rightarrow> hval cmd" where
  "entry_object a k ob =
     cbind (dict_at a) (\<lambda>to.
     case map_of to k of
       Some v \<Rightarrow> creturn v
     | None \<Rightarrow> cbind (new_object ob) (\<lambda>v. cbind (update_dict a k v) (\<lambda>_. creturn v)))"

definition check_merge :: "nat \<Rightarrow> string \<Rightarrow> gval \<Rightarrow> unit cmd" where
  "check_merge a k v =
     cbind (dict_at a) (\<lambda>to.
     case map_of to k of
       None \<Rightarrow> creturn ()
     | Some t \<Rightarrow> cbind (hclass t) (\<lambda>c.
         if (if is_scalar v then \<not> hscalar t else class_name v \<noteq> c)
         then craise (TypeError (''Attempt to merge dict value of type '' @ class_name v
                @ '' into incompatible type '' @ c @ '' for key '' @ k))
         else creturn ()))"

function (sequential) HMergeDicts :: "gyp_env \<Rightarrow> nat \<Rightarrow> gdict \<Rightarrow> string \<Rightarrow> string \<Rightarrow> unit cmd" where
  "HMergeDicts env a fro to_file fro_file =
     cfold (\<lambda>(k, v) u.
       cbind (check_merge a k v) (\<lambda>_.
       case v of
         GDict d \<Rightarrow>
           cbind (entry_object a k (ODict [])) (\<lambda>t.
           cbind (address_of t) (\<lambda>b. HMergeDicts env b d to_file fro_file))
       | GList l \<Rightarrow>
           if k = [] then craise IndexError
           else let (ext, list_base, lists_incompatible, app) = list_policy k
                in cbind (if ext = CHR ''=''
                          then cbind (new_object (OList [])) (update_dict a list_base) else creturn ()) (\<lambda>_.
                   case find (\<lambda>x. has_key x fro) lists_incompatible of
                     Some bad \<Rightarrow> craise (GypError (''Incompatible list policies '' @ k @ '' and '' @ bad))
                   | None \<Rightarrow>
                       cbind (dict_at a) (\<lambda>to.
                       if has_key list_base to \<and> ext = CHR ''?'' then creturn ()
                       else cbind (entry_object a list_base (OList [])) (\<lambda>t.
                            cbind (hclass t) (\<lambda>c.
                            case t of
                              HRef b \<Rightarrow>
                                if c = ''list''
                                then HMergeLists env b l to_file fro_file (IsPathSection env list_base) app
                                else craise (TypeError (''Attempt to merge dict value of type list''
                                       @ '' into incompatible type '' @ c
                                       @ '' for key '' @ list_base @ ''('' @ k @ '')''))
                            | _ \<Rightarrow> craise (TypeError (''Attempt to merge dict value of type list''
                                       @ '' into incompatible type '' @ c
                                       @ '' for key '' @ list_base @ ''('' @ k @ '')''))))))
       | GOther c b \<Rightarrow>
           craise (TypeError (''Attempt to merge dict value of unsupported type '' @ c @ '' for key '' @ k))
       | scalar \<Rightarrow>
           cbind (clift (if IsPathSection env k then MakePathRelative env to_file fro_file scalar
                         else Inr scalar)) (\<lambda>x.
           cbind (new_tree x) (update_dict a k))))
       fro ()"
  by pat_completeness auto
termination
  by (relation "measure (\<lambda>(env, a, fro, to_file, fro_file). size_list (size_prod (\<lambda>_. 0) size) fro)")
    (auto simp: less_Suc_eq_le intro: size_list_estimation size_list_estimation')

declare HMergeDicts.simps [simp del]

end
