(* ===== verification/Py_Shlex.thy ===== *)
theory Py_Shlex
  imports Gyp_Shell
begin

text \<open>
  \<open>shlex.split\<close> of Python's standard library, which variable expansion uses to split the text of a
  list reference and the arguments of a module: POSIX mode, splitting at white space only, no
  comments. It reads back what \<open>EncodePOSIXShellList\<close> writes, with two exceptions.
\<close>

section \<open>The lexer\<close>

text \<open>\<open>Within q\<close> is between quotes; \<open>Escape st\<close> follows a backslash that was read in state \<open>st\<close>.\<close>

datatype shlex_state = Space | Word | Within char | Escape shlex_state

definition shlex_space :: "char \<Rightarrow> bool" where
  "shlex_space c \<longleftrightarrow> c \<in> {CHR '' '', CHR 0x09, CHR 0x0D, CHR 0x0A}"

definition shlex_quote :: "char \<Rightarrow> bool" where
  "shlex_quote c \<longleftrightarrow> c \<in> {CHR 0x27, CHR 0x22}"

text \<open>
  \<open>quoted\<close> and \<open>token\<close> are the variables of \<open>read_token\<close>: an empty token counts only if it was
  quoted.
\<close>

fun shlex_loop :: "shlex_state \<Rightarrow> bool \<Rightarrow> string \<Rightarrow> string \<Rightarrow> string list result" where
  "shlex_loop (Within q) quoted token [] = Inl (ValueError ''No closing quotation'')"
| "shlex_loop (Escape st) quoted token [] = Inl (ValueError ''No escaped character'')"
| "shlex_loop st quoted token [] = Inr (if token \<noteq> [] \<or> quoted then [token] else [])"
| "shlex_loop (Within q) quoted token (c # s) =
     (if c = q then shlex_loop Word True token s
      else if c = CHR 0x5C \<and> q = CHR 0x22 then shlex_loop (Escape (Within q)) True token s
      else shlex_loop (Within q) True (token @ [c]) s)"
| "shlex_loop (Escape st) quoted token (c # s) =
     shlex_loop st quoted
       (token @ (case st of
                   Within q \<Rightarrow> if c \<noteq> CHR 0x5C \<and> c \<noteq> q then [CHR 0x5C, c] else [c]
                 | _ \<Rightarrow> [c])) s"
| "shlex_loop st quoted token (c # s) =
     (if shlex_space c
      then (if token \<noteq> [] \<or> quoted
            then rbind (shlex_loop Space False [] s) (\<lambda>tokens. Inr (token # tokens))
            else shlex_loop Space quoted token s)
      else if c = CHR 0x5C then shlex_loop (Escape Word) quoted token s
      else if shlex_quote c then shlex_loop (Within c) quoted token s
      else shlex_loop Word quoted (token @ [c]) s)"

definition shlex_split :: "string \<Rightarrow> string list result" where
  "shlex_split s = shlex_loop Space False [] s"

section \<open>Encoded arguments\<close>

text \<open>
  Between double quotes the encoder writes a backslash before a back quote; a shell drops it there,
  \<open>shlex\<close> does not.
\<close>

definition shlex_seen :: "string \<Rightarrow> string" where
  "shlex_seen a =
     (if quote_matches a then concat (map (\<lambda>c. if c = CHR 0x60 then [CHR 0x5C, c] else [c]) a) else a)"

lemma shlex_within:
  "shlex_loop (Within CHR 0x22) quoted token (escape_sub s @ CHR 0x22 # rest) =
     shlex_loop Word True (token @ concat (map (\<lambda>c. if c = CHR 0x60 then [CHR 0x5C, c] else [c]) s)) rest"
  by (induction s arbitrary: token quoted) (auto simp: escape_sub_Cons escape_chars_def)

text \<open>
  Outside quotes a carriage return ends a token, and the encoder does not quote for it: the tokens that
  end within an argument, after an open token, and the token that is open at its end.
\<close>

fun cr_split :: "string \<Rightarrow> string \<Rightarrow> string list \<times> string" where
  "cr_split token [] = ([], token)"
| "cr_split token (c # s) =
     (if c = CHR 0x0D
      then (if token \<noteq> [] then (token # fst (cr_split [] s), snd (cr_split [] s)) else cr_split [] s)
      else cr_split (token @ [c]) s)"

definition shlex_words :: "string \<Rightarrow> string list" where
  "shlex_words a =
     (if quote_matches a then [shlex_seen a]
      else fst (cr_split [] a) @ (if snd (cr_split [] a) \<noteq> [] then [snd (cr_split [] a)] else []))"

lemma shlex_Word: "shlex_loop Word quoted token s = shlex_loop Space quoted token s"
  by (cases s) simp_all

lemma shlex_plain_char:
  "c \<notin> set quote_chars \<Longrightarrow> c \<noteq> CHR 0x0D \<Longrightarrow> \<not> shlex_space c \<and> c \<noteq> CHR 0x27"
  by (auto simp: quote_chars_def shlex_space_def)

lemma shlex_escaped_char:
  assumes "\<not> shlex_space c" "c \<noteq> CHR 0x27"
  shows "shlex_loop Space quoted token (escape_sub (c # s) @ rest)
    = shlex_loop Space quoted (token @ [c]) (escape_sub s @ rest)"
proof -
  have "\<not> shlex_space CHR 0x5C" by (simp add: shlex_space_def)
  with assms show ?thesis
    by (simp add: escape_sub_Cons escape_chars_def shlex_quote_def shlex_Word)
qed

lemma shlex_plain:
  "set s \<inter> set quote_chars = {} \<Longrightarrow>
   shlex_loop Space False token (escape_sub s @ rest)
     = rbind (shlex_loop Space False (snd (cr_split token s)) rest) (\<lambda>ts. Inr (fst (cr_split token s) @ ts))"
proof (induction s arbitrary: token)
  case Nil
  then show ?case by (cases "shlex_loop Space False token rest") simp_all
next
  case (Cons c s)
  show ?case
  proof (cases "c = CHR 0x0D")
    case True
    then have "escape_sub (c # s) = c # escape_sub s" "shlex_space c"
      by (simp_all add: escape_sub_Cons escape_chars_def shlex_space_def)
    with True Cons show ?thesis by (simp add: rbind_assoc)
  next
    case False
    with Cons.prems have "\<not> shlex_space c" "c \<noteq> CHR 0x27" using shlex_plain_char [of c] by auto
    from shlex_escaped_char [OF this] False Cons show ?thesis by simp
  qed
qed

lemma shlex_argument:
  assumes "rest = [] \<or> hd rest = CHR '' ''"
  shows "shlex_loop Space False [] (EncodePOSIXShellArgument a @ rest)
    = rbind (shlex_loop Space False [] rest) (\<lambda>ts. Inr (shlex_words a @ ts))"
proof (cases "quote_matches a")
  case True
  then have "shlex_loop Space False [] (EncodePOSIXShellArgument a @ rest)
      = shlex_loop Word True (shlex_seen a) rest"
    by (simp add: EncodePOSIXShellArgument_def shlex_seen_def shlex_within shlex_quote_def shlex_space_def)
  with True assms show ?thesis
    by (cases rest) (simp_all add: shlex_words_def shlex_space_def)
next
  case False
  then have "set a \<inter> set quote_chars = {}" by (auto simp: quote_matches_def)
  from shlex_plain [OF this, of "[]" rest] False
  have "shlex_loop Space False [] (EncodePOSIXShellArgument a @ rest)
      = rbind (shlex_loop Space False (snd (cr_split [] a)) rest) (\<lambda>ts. Inr (fst (cr_split [] a) @ ts))"
    by (simp add: EncodePOSIXShellArgument_def)
  with False assms show ?thesis
    by (cases rest) (simp_all add: shlex_words_def shlex_space_def rbind_assoc)
qed

lemma shlex_encoded_words:
  "shlex_split (EncodePOSIXShellList args) = Inr (concat (map shlex_words args))"
  unfolding shlex_split_def EncodePOSIXShellList_def
proof (induction args rule: induct_list012)
  case (2 a)
  with shlex_argument [of "[]" a] show ?case by simp
next
  case (3 a b args)
  have j: "join '' '' (map EncodePOSIXShellArgument (a # b # args))
    = EncodePOSIXShellArgument a @ CHR '' '' # join '' '' (map EncodePOSIXShellArgument (b # args))"
    by simp
  have "shlex_space CHR '' ''" by (simp add: shlex_space_def)
  with 3 show ?case unfolding j by (subst shlex_argument) simp_all
qed simp

text \<open>A carriage return survives between quotes only.\<close>

lemma cr_split_without:
  "CHR 0x0D \<notin> set token \<Longrightarrow> CHR 0x0D \<notin> \<Union> (set ` set (fst (cr_split token s))) \<union> set (snd (cr_split token s))"
  by (induction token s rule: cr_split.induct) auto

lemma cr_split_same: "CHR 0x0D \<notin> set s \<Longrightarrow> cr_split token s = ([], token @ s)"
  by (induction s arbitrary: token) auto

definition returns :: "string list \<Rightarrow> nat" where
  "returns ws = sum_list (map (\<lambda>w. count_list w CHR 0x0D) ws)"

lemma returns_words: "returns (shlex_words a) = (if quote_matches a then count_list a CHR 0x0D else 0)"
proof (cases "quote_matches a")
  case True
  have "count_list (concat (map (\<lambda>c. if c = CHR 0x60 then [CHR 0x5C, c] else [c]) a)) CHR 0x0D = count_list a CHR 0x0D"
    by (induction a) auto
  with True show ?thesis by (simp add: shlex_words_def shlex_seen_def returns_def)
next
  case False
  have "CHR 0x0D \<notin> \<Union> (set ` set (shlex_words a))"
    using cr_split_without [of "[]" a] False by (auto simp: shlex_words_def)
  then have "returns (shlex_words a) = 0" by (auto simp: returns_def count_list_0_iff)
  with False show ?thesis by simp
qed

lemma returns_left:
  assumes "concat (map shlex_words args) = args" and "a \<in> set args" "\<not> quote_matches a"
  shows "CHR 0x0D \<notin> set a"
proof -
  have le: "returns (concat (map shlex_words xs)) \<le> returns xs" for xs
    by (induction xs) (auto simp: returns_def [of "_ @ _"] returns_def [of "_ # _"] returns_def [symmetric] returns_words)
  from assms(2) obtain xs ys where args: "args = xs @ a # ys" by (meson split_list)
  have app: "returns (xs @ a # ys) = returns xs + count_list a CHR 0x0D + returns ys"
    "returns (concat (map shlex_words (xs @ a # ys)))
      = returns (concat (map shlex_words xs)) + returns (shlex_words a) + returns (concat (map shlex_words ys))"
    by (simp_all add: returns_def)
  from app le [of xs] le [of ys] assms(1,3) args have "count_list a CHR 0x0D = 0"
    by (simp add: returns_words)
  then show ?thesis by (simp add: count_list_0_iff)
qed

lemma shlex_words_seen:
  assumes "quote_matches a \<or> CHR 0x0D \<notin> set a"
  shows "shlex_words a = [shlex_seen a]"
proof (cases "quote_matches a")
  case False
  then have "a \<noteq> []" by (auto simp: quote_matches_def)
  with False assms show ?thesis by (simp add: shlex_words_def shlex_seen_def cr_split_same)
qed (simp add: shlex_words_def)

lemma shlex_seen_length: "length (shlex_seen a) = length a + (if quote_matches a then count_list a CHR 0x60 else 0)"
proof -
  have "length (concat (map (\<lambda>c. if c = CHR 0x60 then [CHR 0x5C, c] else [c]) a)) = length a + count_list a CHR 0x60"
    by (induction a) auto
  then show ?thesis by (simp add: shlex_seen_def)
qed

lemma shlex_seen_id: "shlex_seen a = a \<longleftrightarrow> \<not> quote_matches a \<or> CHR 0x60 \<notin> set a"
proof
  assume "shlex_seen a = a"
  then have "quote_matches a \<longrightarrow> count_list a CHR 0x60 = 0" using shlex_seen_length [of a] by (simp split: if_splits)
  then show "\<not> quote_matches a \<or> CHR 0x60 \<notin> set a" by (simp add: count_list_0_iff)
next
  assume a: "\<not> quote_matches a \<or> CHR 0x60 \<notin> set a"
  have "concat (map (\<lambda>c. if c = CHR 0x60 then [CHR 0x5C, c] else [c]) x) = x" if "CHR 0x60 \<notin> set x" for x
    using that by (induction x) auto
  with a show "shlex_seen a = a" by (auto simp: shlex_seen_def)
qed

text \<open>
  C28: a list that is expanded into a string and split again by \<open>shlex\<close> gives the arguments back
  exactly if no argument that has to be quoted contains a back quote, and no other one a carriage return.
\<close>

theorem shlex_split_encoded:
  "shlex_split (EncodePOSIXShellList args) = Inr args
    \<longleftrightarrow> (\<forall>a \<in> set args. if quote_matches a then CHR 0x60 \<notin> set a else CHR 0x0D \<notin> set a)"
proof -
  let ?plain = "\<forall>a \<in> set args. quote_matches a \<or> CHR 0x0D \<notin> set a"
  have split: "shlex_split (EncodePOSIXShellList args) = Inr args \<longleftrightarrow> concat (map shlex_words args) = args"
    by (simp add: shlex_encoded_words)
  show ?thesis
  proof (cases ?plain)
    case True
    then have "concat (map shlex_words args) = map shlex_seen args"
      by (induction args) (simp_all add: shlex_words_seen)
    moreover have "map shlex_seen args = args \<longleftrightarrow> (\<forall>a \<in> set args. shlex_seen a = a)"
      using map_eq_conv [of shlex_seen args id] by simp
    ultimately show ?thesis using split True shlex_seen_id by auto
  next
    case False
    with returns_left have "concat (map shlex_words args) \<noteq> args" by blast
    with split False show ?thesis by auto
  qed
qed

theorem shlex_split_encoded_witness:
  "shlex_split (EncodePOSIXShellList [''-I'', ''my dir'', [], ''a='' @ [CHR 0x5C]])
    = Inr [''-I'', ''my dir'', [], ''a='' @ [CHR 0x5C]]
   \<and> shlex_split (EncodePOSIXShellList [''`id`; ls'']) \<noteq> Inr [''`id`; ls'']
   \<and> shlex_split (EncodePOSIXShellList [''a'' @ CHR 0x0D # ''b'']) \<noteq> Inr [''a'' @ CHR 0x0D # ''b'']"
proof (intro conjI)
  have "\<forall>a \<in> set [''-I'', ''my dir'', [], ''a='' @ [CHR 0x5C]]. CHR 0x60 \<notin> set a \<and> CHR 0x0D \<notin> set a" by code_simp
  then show "shlex_split (EncodePOSIXShellList [''-I'', ''my dir'', [], ''a='' @ [CHR 0x5C]])
      = Inr [''-I'', ''my dir'', [], ''a='' @ [CHR 0x5C]]"
    by (subst shlex_split_encoded) auto
  have "quote_matches ''`id`; ls''" "\<not> quote_matches (''a'' @ CHR 0x0D # ''b'')" by code_simp+
  then show "shlex_split (EncodePOSIXShellList [''`id`; ls'']) \<noteq> Inr [''`id`; ls'']"
    "shlex_split (EncodePOSIXShellList [''a'' @ CHR 0x0D # ''b'']) \<noteq> Inr [''a'' @ CHR 0x0D # ''b'']"
    by (subst shlex_split_encoded; auto)+
qed

end
