(* ===== verification/Gyp_Expand.thy ===== *)
theory Gyp_Expand
  imports Gyp_Vars Gyp_Heap Gyp_Filter Py_Shlex
begin

text \<open>
  \<open>tools/gyp/pylib/gyp/input.py\<close>: \<open>ExpandVariables\<close> and the functions that call it and that it calls.
  They are mutually recursive, over lists and dictionaries that they change on the way. Each is
  defined over the functions it calls, a record \<open>calls\<close>; \<open>calls E n\<close> are the functions that may
  nest \<open>n\<close> calls, where one step of the loop over a list counts as a call. What needs more ends
  with \<open>RecursionLimit\<close>, as it does in Python.
\<close>

section \<open>What the functions depend on\<close>

text \<open>
  The platform, the regular expressions of filters, the processes and modules that commands run
  and the two uses of \<open>eval\<close>. A process gives its exit status and its two outputs, or cannot be
  started; what it gives may depend on the commands started before it. \<open>do_main\<close> is the text of
  what a module's \<open>DoMain\<close> returns; \<open>None\<close> is an \<open>ImportError\<close>. \<open>eval_condition\<close> is the truth
  value of an expression over the variables.
\<close>

record expand_env =
  genv :: gyp_env
  platform :: string
  compile_re :: re_compile
  run_process :: "(string \<times> command) list \<Rightarrow> command \<Rightarrow> (int \<times> string \<times> string) option"
  do_main :: "(string \<times> command) list \<Rightarrow> string \<Rightarrow> string list \<Rightarrow> string \<Rightarrow> string result option"
  py_eval :: "string \<Rightarrow> gval result"
  eval_condition :: "string \<Rightarrow> gdict \<Rightarrow> bool result"

record calls =
  call_expand :: "phase \<Rightarrow> hdict \<Rightarrow> string \<Rightarrow> hval \<Rightarrow> hval cmd"
  call_list :: "phase \<Rightarrow> hdict \<Rightarrow> string \<Rightarrow> nat \<Rightarrow> nat \<Rightarrow> unit cmd"
  call_dict :: "phase \<Rightarrow> hdict \<Rightarrow> string \<Rightarrow> string option \<Rightarrow> hval \<Rightarrow> unit cmd"

text \<open>
  \<open>int(s)\<close> of a canonical string. A number beyond 64 bits is a \<open>long\<close>, which is not an instance of
  \<open>int\<close>, and leaves the model.
\<close>

definition canonical_int :: "string \<Rightarrow> hval result" where
  "canonical_int s =
     (case parse_int s of
        None \<Rightarrow> Inl (ValueError ''invalid literal for int()'')
      | Some i \<Rightarrow> if - (2 ^ 63) \<le> i \<and> i < 2 ^ 63 then Inr (HInt i) else Inl (NotModelled ''long''))"

definition canonical_value :: "hval \<Rightarrow> hval result" where
  "canonical_value v =
     (case v of HStr s \<Rightarrow> if IsStrCanonicalInt s then canonical_int s else Inr v | _ \<Rightarrow> Inr v)"

section \<open>Commands\<close>

definition rstrip :: "string \<Rightarrow> string" where
  "rstrip s = rev (dropWhile is_space (rev s))"

text \<open>\<open>build_file_dir\<close>\<close>

definition dir_of :: "string \<Rightarrow> string option" where
  "dir_of build_file = (let d = dirname build_file in if d = [] then None else Some d)"

text \<open>A command is noted under its cache key when it is started.\<close>

definition start_command :: "string \<Rightarrow> command \<Rightarrow> (string \<times> command) list cmd" where
  "start_command key c = (\<lambda>s. Inr (commands s, s\<lparr>commands := commands s @ [(key, c)]\<rparr>))"

fun is_command :: "gval \<Rightarrow> bool" where
  "is_command (GStr s) = True"
| "is_command (GList l) = list_all (\<lambda>x. case x of GStr s \<Rightarrow> True | _ \<Rightarrow> False) l"
| "is_command v = False"

definition call_process :: "expand_env \<Rightarrow> string \<Rightarrow> gval \<Rightarrow> bool \<Rightarrow> string option \<Rightarrow> string cmd" where
  "call_process E key contents use_shell build_file_dir =
     cbind (clift (FixupPlatformCommand (platform E) contents)) (\<lambda>contents.
     if \<not> is_command contents then craise (TypeError ''execv() arg 2 must contain only strings'')
     else cbind (start_command key (Process contents use_shell build_file_dir)) (\<lambda>started.
       case run_process E started (Process contents use_shell build_file_dir) of
         None \<Rightarrow> craise (OSError ''No such file or directory'')
       | Some (status, out, err) \<Rightarrow>
           if status \<noteq> 0 \<or> err \<noteq> []
           then cbind (clift (py_str contents)) (\<lambda>c.
                craise (GypError (''Call to '' @ c @ '' returned exit status '' @ show_int status @ ''.'')))
           else creturn (rstrip out)))"

text \<open>
  \<open>os.chdir(None)\<close> fails, so a module cannot be called from a build file whose directory is empty;
  \<open>shlex.split\<close> of a list fails too.
\<close>

definition call_module :: "expand_env \<Rightarrow> string \<Rightarrow> gval \<Rightarrow> string option \<Rightarrow> string cmd" where
  "call_module E key contents build_file_dir =
     (case build_file_dir of
        None \<Rightarrow> craise (TypeError ''coercing to Unicode: need string or buffer, NoneType found'')
      | Some d \<Rightarrow>
          (case contents of
             GStr c \<Rightarrow>
               cbind (clift (shlex_split c)) (\<lambda>parsed_contents.
               case parsed_contents of
                 [] \<Rightarrow> craise IndexError
               | m # args \<Rightarrow>
                   cbind (start_command key (PyModule m args d)) (\<lambda>started.
                   case do_main E started m args d of
                     None \<Rightarrow> craise (GypError (''Error importing pymod_do_mainmodule ('' @ m @ '')''))
                   | Some r \<Rightarrow> cbind (clift r) (\<lambda>x. creturn (rstrip x))))
           | _ \<Rightarrow> craise (AttributeError (class_name contents @ '' object has no attribute read''))))"

definition run_command :: "expand_env \<Rightarrow> string \<Rightarrow> var_match \<Rightarrow> string \<Rightarrow> string cmd" where
  "run_command E build_file m contents =
     cbind (clift (if is_array m then py_eval E contents else Inr (GStr contents))) (\<lambda>contents.
     cbind (clift (py_str contents)) (\<lambda>cache_key.
     cbind (cstate cached_command_results) (\<lambda>cache.
     case map_of cache cache_key of
       Some cached_value \<Rightarrow> creturn cached_value
     | None \<Rightarrow>
         cbind (if command_string m = ''pymod_do_main''
                then call_module E cache_key contents (dir_of build_file)
                else if command_string m \<noteq> []
                then craise (GypError (''Unknown command string '' @ command_string m @ '' in '' @ cache_key @ ''.''))
                else call_process E cache_key contents (\<not> is_array m) (dir_of build_file)) (\<lambda>replacement s.
         Inr (replacement, s\<lparr>cached_command_results :=
           AList.update cache_key replacement (cached_command_results s)\<rparr>)))))"

text \<open>
  \<open><|(file items)\<close> writes the items to the file, one on each line. \<open>os.path.join(None, path)\<close> fails.
\<close>

definition write_file_list :: "string \<Rightarrow> string \<Rightarrow> string cmd" where
  "write_file_list build_file contents =
     (let contents_list = split_on CHR '' '' contents;
          path = hd contents_list;
          content = concat (map (\<lambda>i. i @ [CHR 0x0A]) (tl contents_list));
          write = (\<lambda>p s. Inr (hd contents_list, s\<lparr>written := written s @ [(p, content)]\<rparr>))
      in if isabs path then write path
         else case dir_of build_file of
           None \<Rightarrow> craise (AttributeError ''NoneType object has no attribute endswith'')
         | Some d \<Rightarrow> write (path_join d path))"

section \<open>One reference\<close>

definition lookup_variable :: "hdict \<Rightarrow> string \<Rightarrow> string \<Rightarrow> hval cmd" where
  "lookup_variable variables build_file contents =
     (case map_of variables contents of
        Some v \<Rightarrow> creturn v
      | None \<Rightarrow>
          if contents = [] then craise IndexError
          else if last contents \<in> {CHR ''!'', CHR ''/''} then new_object (OList [])
          else craise (GypError (''Undefined variable '' @ contents @ '' in '' @ build_file)))"

text \<open>The items of a list that a variable has: strings and integers, unless its name ends with a slash.\<close>

definition check_item :: "string \<Rightarrow> hval \<Rightarrow> unit cmd" where
  "check_item contents item =
     (if contents = [] then craise IndexError
      else if last contents \<noteq> CHR ''/'' \<and> \<not> hscalar item
      then cbind (hclass item) (\<lambda>c. craise (GypError (''Variable '' @ contents
             @ '' must expand to a string or list of strings; list contains a '' @ c)))
      else creturn ())"

definition process_replacement ::
  "calls \<Rightarrow> phase \<Rightarrow> hdict \<Rightarrow> string \<Rightarrow> string \<Rightarrow> hval \<Rightarrow> unit cmd" where
  "process_replacement C phase variables build_file contents replacement =
     (if hscalar replacement then creturn ()
      else cbind (object_of replacement) (\<lambda>ob.
        case (replacement, ob) of
          (HRef a, Some (OList items)) \<Rightarrow>
            cbind (cfor (check_item contents) items) (\<lambda>_.
            call_list C phase variables build_file a 0)
        | _ \<Rightarrow> cbind (hclass replacement) (\<lambda>c. craise (GypError (''Variable '' @ contents
                 @ '' must expand to a string or list of strings; found a '' @ c)))))"

definition strip_contents :: "hval \<Rightarrow> string cmd" where
  "strip_contents v =
     (case v of
        HStr s \<Rightarrow> creturn (strip s)
      | _ \<Rightarrow> cbind (hclass v) (\<lambda>c. craise (AttributeError (c @ '' object has no attribute strip''))))"

text \<open>\<open>copy.deepcopy(variables)\<close> with the filters applied.\<close>

definition filtered_variables :: "expand_env \<Rightarrow> string \<Rightarrow> hdict \<Rightarrow> hdict cmd" where
  "filtered_variables E contents variables =
     cbind (read_dict variables) (\<lambda>d.
     cbind (clift (ProcessListFiltersInDict (compile_re E) contents d)) new_dict)"

text \<open>\<open>(c_start, c_end)\<close> as they are used: the text of the reference, and its contents.\<close>

definition reference_text :: "string \<Rightarrow> nat \<Rightarrow> int \<Rightarrow> string" where
  "reference_text input_str replace_start replace_end = py_slice input_str (int replace_start) replace_end"

text \<open>A list is copied and a string is split; in a string, a list is quoted for the shell.\<close>

definition expand_list_context :: "hval \<Rightarrow> obj option \<Rightarrow> hval cmd" where
  "expand_list_context replacement ob =
     (case ob of
        Some (OList items) \<Rightarrow> new_object (OList items)
      | _ \<Rightarrow> cbind (str_of replacement) (\<lambda>x.
             cbind (clift (shlex_split x)) (\<lambda>words. new_object (OList (map HStr words)))))"

definition expand_string_context ::
  "string \<Rightarrow> nat \<Rightarrow> int \<Rightarrow> hval \<Rightarrow> obj option \<Rightarrow> hval cmd" where
  "expand_string_context input_str replace_start replace_end replacement ob =
     cbind (case ob of
              Some (OList items) \<Rightarrow>
                cbind (cmap str_of items) (\<lambda>xs. creturn (EncodePOSIXShellList xs))
            | _ \<Rightarrow> str_of replacement) (\<lambda>x.
     creturn (HStr (take replace_start input_str @ x @ drop (slice_index input_str replace_end) input_str)))"

definition expand_match ::
  "expand_env \<Rightarrow> calls \<Rightarrow> phase \<Rightarrow> hdict \<Rightarrow> string \<Rightarrow> var_match \<Rightarrow> string \<Rightarrow> hval cmd" where
  "expand_match E C phase variables build_file m input_str =
     (let run = CHR ''!'' \<in> set (match_type m);
          file_list = CHR ''|'' \<in> set (match_type m);
          replace_start = match_start m;
          (c_start, c_end) = FindEnclosingBracketGroup (drop replace_start input_str);
          replace_end = int replace_start + c_end;
          replacement = reference_text input_str replace_start replace_end;
          contents = py_slice input_str (int replace_start + c_start + 1) (replace_end - 1)
      in cbind (if file_list then filtered_variables E contents variables else creturn variables) (\<lambda>vs.
         cbind (call_expand C phase vs build_file (HStr contents)) (\<lambda>expanded.
         cbind (strip_contents expanded) (\<lambda>contents.
         let expand_to_list = (CHR ''@'' \<in> set (match_type m) \<and> input_str = replacement)
         in cbind (if file_list then cbind (write_file_list build_file contents) (\<lambda>x. creturn (HStr x))
                   else if run then cbind (run_command E build_file m contents) (\<lambda>x. creturn (HStr x))
                   else lookup_variable variables build_file contents) (\<lambda>replacement.
            cbind (process_replacement C phase variables build_file contents replacement) (\<lambda>_.
            cbind (object_of replacement) (\<lambda>ob.
            if expand_to_list then expand_list_context replacement ob
            else expand_string_context input_str replace_start replace_end replacement ob)))))))"

section \<open>ExpandVariables\<close>

text \<open>
  The references from right to left. Only the leftmost one can be all of the string, so a list is
  the result of the last one.
\<close>

fun expand_matches ::
  "expand_env \<Rightarrow> calls \<Rightarrow> phase \<Rightarrow> hdict \<Rightarrow> string \<Rightarrow> var_match list \<Rightarrow> hval \<Rightarrow> hval cmd" where
  "expand_matches E C phase variables build_file [] out = creturn out"
| "expand_matches E C phase variables build_file (m # ms) (HStr input_str) =
     cbind (expand_match E C phase variables build_file m input_str)
       (expand_matches E C phase variables build_file ms)"
| "expand_matches E C phase variables build_file (m # ms) out =
     craise (TypeError ''expected string or buffer'')"

text \<open>The output is expanded again: a list item by item, unless it is a list of lists.\<close>

definition expand_again :: "calls \<Rightarrow> phase \<Rightarrow> hdict \<Rightarrow> string \<Rightarrow> hval \<Rightarrow> hval cmd" where
  "expand_again C phase variables build_file out =
     cbind (object_of out) (\<lambda>ob.
     case ob of
       Some (OList items) \<Rightarrow>
         cbind (case items of [] \<Rightarrow> creturn None | x # xs \<Rightarrow> object_of x) (\<lambda>first.
         case first of
           Some (OList inner) \<Rightarrow> creturn out
         | _ \<Rightarrow> cbind (cmap (call_expand C phase variables build_file) items) (\<lambda>ys. new_object (OList ys)))
     | _ \<Rightarrow> call_expand C phase variables build_file out)"

text \<open>The canonical integers of the output.\<close>

definition convert_output :: "hval \<Rightarrow> hval cmd" where
  "convert_output out =
     (case out of
        HRef a \<Rightarrow>
          cbind (object_at a) (\<lambda>ob.
          case ob of
            OList items \<Rightarrow> cbind (clift (rmap canonical_value items)) (\<lambda>ys.
              cbind (set_object a (OList ys)) (\<lambda>_. creturn out))
          | _ \<Rightarrow> creturn out)
      | _ \<Rightarrow> clift (canonical_value out))"

definition ExpandVariables ::
  "expand_env \<Rightarrow> calls \<Rightarrow> phase \<Rightarrow> hdict \<Rightarrow> string \<Rightarrow> hval \<Rightarrow> hval cmd" where
  "ExpandVariables E C phase variables build_file input =
     cbind (str_of input) (\<lambda>input_str.
     if IsStrCanonicalInt input_str then clift (canonical_int input_str)
     else if expansion_symbol phase \<notin> set input_str then creturn (HStr input_str)
     else let matches = find_matches (expansion_symbol phase) 0 input_str
          in if matches = [] then creturn (HStr input_str)
             else cbind (expand_matches E C phase variables build_file (rev matches) (HStr input_str)) (\<lambda>out.
                  cbind (expand_again C phase variables build_file out) convert_output))"

section \<open>Lists\<close>

text \<open>The loop of \<open>ProcessVariablesAndConditionsInList\<close> from an index on.\<close>

definition ProcessVariablesAndConditionsInList ::
  "calls \<Rightarrow> phase \<Rightarrow> hdict \<Rightarrow> string \<Rightarrow> nat \<Rightarrow> nat \<Rightarrow> unit cmd" where
  "ProcessVariablesAndConditionsInList C phase variables build_file a index =
     cbind (list_at a) (\<lambda>the_list.
     if length the_list \<le> index then creturn ()
     else let item = the_list ! index in
       case item of
         HRef b \<Rightarrow>
           cbind (object_at b) (\<lambda>ob.
           cbind (case ob of
                    ODict d \<Rightarrow> call_dict C phase variables build_file None item
                  | OList l \<Rightarrow> call_list C phase variables build_file b 0) (\<lambda>_.
           call_list C phase variables build_file a (index + 1)))
       | HStr s \<Rightarrow>
           cbind (call_expand C phase variables build_file item) (\<lambda>expanded.
           cbind (list_at a) (\<lambda>the_list.
           cbind (object_of expanded) (\<lambda>ob.
           if hscalar expanded
           then if index < length the_list
                then cbind (set_object a (OList (the_list[index := expanded]))) (\<lambda>_.
                     call_list C phase variables build_file a (index + 1))
                else craise IndexError
           else case ob of
             Some (OList items) \<Rightarrow>
               cbind (set_object a (OList (take index the_list @ items @ drop (index + 1) the_list))) (\<lambda>_.
               call_list C phase variables build_file a (index + length items))
           | _ \<Rightarrow> craise (TypeError ''cannot concatenate str and int objects''))))
       | HInt i \<Rightarrow> call_list C phase variables build_file a (index + 1)
       | HOther c b \<Rightarrow> craise (TypeError ''cannot concatenate str and int objects''))"

section \<open>Variables of a dictionary\<close>

definition variable_value :: "hval \<Rightarrow> bool cmd" where
  "variable_value v = cbind (hclass v) (\<lambda>c. creturn (c \<in> {''str'', ''int'', ''list''}))"

definition LoadAutomaticVariablesFromDict :: "hdict \<Rightarrow> hdict \<Rightarrow> hdict cmd" where
  "LoadAutomaticVariablesFromDict variables the_dict =
     cfold (\<lambda>(key, value) variables.
       cbind (variable_value value) (\<lambda>ok.
       creturn (if ok then AList.update (CHR ''_'' # key) value variables else variables))) the_dict variables"

text \<open>
  A key that ends with a percent sign gives a default. \<open>the_dict_key\<close> is the key of the dictionary
  in its parent, \<open>None\<close> if it has none.
\<close>

definition load_variable :: "hdict \<Rightarrow> string option \<Rightarrow> string \<times> hval \<Rightarrow> hdict \<Rightarrow> hdict cmd" where
  "load_variable the_dict the_dict_key = (\<lambda>(key, value) variables.
     cbind (variable_value value) (\<lambda>ok.
     creturn
       (if \<not> ok then variables
        else if key \<noteq> [] \<and> last key = CHR ''%'' then
          (if has_key (butlast key) variables then variables
           else let value = (if the_dict_key = Some ''variables'' then dict_get the_dict (butlast key) value else value)
                in AList.update (butlast key) value variables)
        else AList.update key value variables)))"

definition LoadVariablesFromVariablesDict :: "hdict \<Rightarrow> hdict \<Rightarrow> string option \<Rightarrow> hdict cmd" where
  "LoadVariablesFromVariablesDict variables the_dict the_dict_key =
     (case map_of the_dict ''variables'' of
        None \<Rightarrow> creturn variables
      | Some v \<Rightarrow>
          cbind (address_of v) (\<lambda>b.
          cbind (dict_at b) (\<lambda>d. cfold (load_variable the_dict the_dict_key) d variables)))"

section \<open>Conditions\<close>

fun conditions_key :: "phase \<Rightarrow> string option" where
  "conditions_key PHASE_EARLY = Some ''conditions''"
| "conditions_key PHASE_LATE = Some ''target_conditions''"
| "conditions_key PHASE_LATELATE = None"

text \<open>The items of a \<open>for\<close> loop: of a list, the characters of a string, the keys of a dictionary.\<close>

definition hiter :: "hval \<Rightarrow> hval list cmd" where
  "hiter v =
     (case v of
        HStr s \<Rightarrow> creturn (map (\<lambda>c. HStr [c]) s)
      | HRef a \<Rightarrow> cbind (object_at a) (\<lambda>ob.
          case ob of OList l \<Rightarrow> creturn l | ODict d \<Rightarrow> creturn (map (\<lambda>(k, v). HStr k) d))
      | _ \<Rightarrow> cbind (hclass v) (\<lambda>c. craise (TypeError (c @ '' object is not iterable''))))"

text \<open>
  \<open>compile\<close> takes text only, so a condition that expands to an integer fails; one that expands to a
  list fails with the name \<open>expanded\<close>, which is not defined where the message is built.
\<close>

definition choose_dict ::
  "expand_env \<Rightarrow> hdict \<Rightarrow> string \<Rightarrow> hval list \<Rightarrow> hval \<Rightarrow> hval option cmd" where
  "choose_dict E variables build_file condition cond_expr_expanded =
     (case cond_expr_expanded of
        HStr e \<Rightarrow>
          cbind (read_dict variables) (\<lambda>vs.
          case eval_condition E e vs of
            Inr True \<Rightarrow> creturn (Some (condition ! 1))
          | Inr False \<Rightarrow> creturn (if length condition = 3 then Some (condition ! 2) else None)
          | Inl (SyntaxError x) \<Rightarrow>
              craise (SyntaxError (x @ '' while evaluating condition '' @ e @ '' in '' @ build_file))
          | Inl (NameError x) \<Rightarrow>
              craise (GypError (x @ '' while evaluating condition '' @ e @ '' in '' @ build_file))
          | Inl x \<Rightarrow> craise x)
      | HInt i \<Rightarrow> craise (TypeError ''compile() arg 1 must be string'')
      | _ \<Rightarrow> craise (NameError ''global name expanded is not defined''))"

definition process_condition ::
  "expand_env \<Rightarrow> calls \<Rightarrow> phase \<Rightarrow> hdict \<Rightarrow> string \<Rightarrow> nat \<Rightarrow> string \<Rightarrow> hval \<Rightarrow> unit cmd" where
  "process_condition E C phase variables build_file a key condition =
     cbind (object_of condition) (\<lambda>ob.
     case ob of
       Some (OList parts) \<Rightarrow>
         if length parts \<noteq> 2 \<and> length parts \<noteq> 3
         then (case parts of
                 [] \<Rightarrow> craise IndexError
               | HStr c # _ \<Rightarrow> craise (GypError (key @ '' '' @ c @ '' must be length 2 or 3, not ''
                                        @ show_int (int (length parts))))
               | _ \<Rightarrow> craise (TypeError ''cannot concatenate''))
         else cbind (call_expand C phase variables build_file (parts ! 0)) (\<lambda>cond_expr_expanded.
              cbind (choose_dict E variables build_file parts cond_expr_expanded) (\<lambda>merge_dict.
              case merge_dict of
                None \<Rightarrow> creturn ()
              | Some v \<Rightarrow>
                  cbind (hclass v) (\<lambda>c.
                  if c = ''NoneType'' then creturn ()
                  else cbind (call_dict C phase variables build_file None v) (\<lambda>_.
                       cbind (read_tree v) (\<lambda>t.
                       cbind (clift (as_dict t)) (\<lambda>fro.
                       HMergeDicts (genv E) a fro build_file build_file))))))
     | _ \<Rightarrow> craise (GypError (key @ '' must be a list'')))"

definition ProcessConditionsInDict ::
  "expand_env \<Rightarrow> calls \<Rightarrow> phase \<Rightarrow> hdict \<Rightarrow> string \<Rightarrow> nat \<Rightarrow> unit cmd" where
  "ProcessConditionsInDict E C phase variables build_file a =
     (case conditions_key phase of
        None \<Rightarrow> creturn ()
      | Some key \<Rightarrow>
          cbind (dict_at a) (\<lambda>the_dict.
          case map_of the_dict key of
            None \<Rightarrow> creturn ()
          | Some conditions_list \<Rightarrow>
              cbind (set_object a (ODict (AList.delete key the_dict))) (\<lambda>_.
              cbind (hiter conditions_list)
                (cfor (process_condition E C phase variables build_file a key)))))"

section \<open>Dictionaries\<close>

text \<open>
  A loop over \<open>the_dict.iteritems()\<close>: the keys are those at its start, the values those of the
  moment. A dictionary that loses a key on the way leaves the model (Python raises a
  \<open>RuntimeError\<close> there).
\<close>

definition for_items :: "(string \<Rightarrow> hval \<Rightarrow> unit cmd) \<Rightarrow> nat \<Rightarrow> unit cmd" where
  "for_items f a =
     cbind (dict_at a) (\<lambda>d.
     cfor (\<lambda>key. cbind (dict_at a) (\<lambda>d.
       case map_of d key of
         None \<Rightarrow> craise (NotModelled ''dictionary changed size during iteration'')
       | Some value \<Rightarrow> f key value)) (map fst d))"

definition expand_entry :: "calls \<Rightarrow> phase \<Rightarrow> hdict \<Rightarrow> string \<Rightarrow> nat \<Rightarrow> string \<Rightarrow> hval \<Rightarrow> unit cmd" where
  "expand_entry C phase variables build_file a key value =
     (case value of
        HStr s \<Rightarrow>
          if key = ''variables'' then creturn ()
          else cbind (call_expand C phase variables build_file value) (\<lambda>expanded.
               if hscalar expanded then update_dict a key expanded
               else cbind (hclass expanded) (\<lambda>c. craise (ValueError
                 (''Variable expansion in this context permits str and int only, found '' @ c @ '' for '' @ key))))
      | _ \<Rightarrow> creturn ())"

definition process_entry :: "calls \<Rightarrow> phase \<Rightarrow> hdict \<Rightarrow> string \<Rightarrow> string \<Rightarrow> hval \<Rightarrow> unit cmd" where
  "process_entry C phase variables build_file key value =
     (if key = ''variables'' then creturn ()
      else case value of
        HStr s \<Rightarrow> creturn ()
      | HInt i \<Rightarrow> creturn ()
      | HOther c b \<Rightarrow> craise (TypeError (''Unknown type '' @ c @ '' for '' @ key))
      | HRef b \<Rightarrow>
          cbind (object_at b) (\<lambda>ob.
          case ob of
            ODict d \<Rightarrow> call_dict C phase variables build_file (Some key) value
          | OList l \<Rightarrow> call_list C phase variables build_file b 0))"

text \<open>A copy of \<open>variables_in\<close> with the variables that the dictionary gives at this moment.\<close>

definition reload_variables :: "hdict \<Rightarrow> string option \<Rightarrow> nat \<Rightarrow> hdict cmd" where
  "reload_variables variables_in the_dict_key a =
     cbind (dict_at a) (\<lambda>the_dict.
     cbind (LoadAutomaticVariablesFromDict variables_in the_dict) (\<lambda>variables.
     LoadVariablesFromVariablesDict variables the_dict the_dict_key))"

text \<open>The associated variables dictionary, processed first; the result are the variables that it sees.\<close>

definition process_variables_dict ::
  "calls \<Rightarrow> phase \<Rightarrow> hdict \<Rightarrow> string \<Rightarrow> nat \<Rightarrow> hdict cmd" where
  "process_variables_dict C phase variables build_file a =
     cbind (dict_at a) (\<lambda>the_dict.
     case map_of the_dict ''variables'' of
       None \<Rightarrow> creturn variables
     | Some v \<Rightarrow>
         cbind (address_of v) (\<lambda>b.
         cbind (dict_at b) (\<lambda>d.
         let variables = fold (\<lambda>(key, value). AList.update key value) d variables
         in cbind (call_dict C phase variables build_file (Some ''variables'') v) (\<lambda>_.
            creturn variables))))"

definition ProcessVariablesAndConditionsInDict ::
  "expand_env \<Rightarrow> calls \<Rightarrow> phase \<Rightarrow> hdict \<Rightarrow> string \<Rightarrow> string option \<Rightarrow> hval \<Rightarrow> unit cmd" where
  "ProcessVariablesAndConditionsInDict E C phase variables_in build_file the_dict_key v =
     cbind (address_of v) (\<lambda>a.
     cbind (dict_at a) (\<lambda>the_dict.
     cbind (LoadAutomaticVariablesFromDict variables_in the_dict) (\<lambda>variables.
     cbind (process_variables_dict C phase variables build_file a) (\<lambda>variables.
     cbind (dict_at a) (\<lambda>the_dict.
     cbind (LoadVariablesFromVariablesDict variables the_dict the_dict_key) (\<lambda>variables.
     cbind (for_items (expand_entry C phase variables build_file a) a) (\<lambda>_.
     cbind (reload_variables variables_in the_dict_key a) (\<lambda>variables.
     cbind (ProcessConditionsInDict E C phase variables build_file a) (\<lambda>_.
     cbind (reload_variables variables_in the_dict_key a) (\<lambda>variables.
     for_items (process_entry C phase variables build_file) a))))))))))"

section \<open>Nested calls\<close>

primrec calls_upto :: "expand_env \<Rightarrow> nat \<Rightarrow> calls" where
  "calls_upto E 0 =
     \<lparr>call_expand = (\<lambda>phase variables build_file input. craise RecursionLimit),
      call_list = (\<lambda>phase variables build_file a index. craise RecursionLimit),
      call_dict = (\<lambda>phase variables build_file key v. craise RecursionLimit)\<rparr>"
| "calls_upto E (Suc n) =
     \<lparr>call_expand = ExpandVariables E (calls_upto E n),
      call_list = ProcessVariablesAndConditionsInList (calls_upto E n),
      call_dict = ProcessVariablesAndConditionsInDict E (calls_upto E n)\<rparr>"

lemma calls_upto_0 [simp]:
  "call_expand (calls_upto E 0) phase vs bf v = craise RecursionLimit"
  "call_list (calls_upto E 0) phase vs bf a i = craise RecursionLimit"
  "call_dict (calls_upto E 0) phase vs bf k v = craise RecursionLimit"
  by simp_all

lemma calls_upto_Suc [simp]:
  "call_expand (calls_upto E (Suc n)) = ExpandVariables E (calls_upto E n)"
  "call_list (calls_upto E (Suc n)) = ProcessVariablesAndConditionsInList (calls_upto E n)"
  "call_dict (calls_upto E (Suc n)) = ProcessVariablesAndConditionsInDict E (calls_upto E n)"
  by simp_all

declare calls_upto.simps [simp del]

end
