(* ===== verification/Gyp_Expand_Fuel.thy ===== *)
theory Gyp_Expand_Fuel
  imports Gyp_Expand
begin

text \<open>
  The bound on nested calls in \<open>Gyp_Expand\<close> only decides whether a run ends with
  \<open>RecursionLimit\<close>: what ends below a bound is the same below every larger one.
\<close>

section \<open>Commands that agree unless the first one runs out\<close>

definition refines :: "'a cmd \<Rightarrow> 'a cmd \<Rightarrow> bool" where
  "refines c c' \<longleftrightarrow> (\<forall>s. c s = Inl RecursionLimit \<or> c' s = c s)"

named_theorems refine

lemma refines_refl [refine]: "refines c c"
  by (simp add: refines_def)

lemma refines_limit [refine]: "refines (craise RecursionLimit) c"
  by (simp add: refines_def clift_def)

lemma refines_bind [refine]:
  assumes "refines m m'" and "\<And>x. refines (f x) (f' x)"
  shows "refines (cbind m f) (cbind m' f')"
  unfolding refines_def
proof
  fix s
  show "cbind m f s = Inl RecursionLimit \<or> cbind m' f' s = cbind m f s"
  proof (cases "m s = Inl RecursionLimit")
    case False
    with assms(1) have m: "m' s = m s" by (auto simp: refines_def)
    show ?thesis
    proof (cases "m s")
      case (Inr p)
      with m assms(2) [of "fst p"] show ?thesis by (cases p) (simp add: cbind_def refines_def)
    qed (simp add: m cbind_def)
  qed (simp add: cbind_def)
qed

lemma refines_fold [refine]:
  "(\<And>x y. refines (f x y) (f' x y)) \<Longrightarrow> refines (cfold f xs y) (cfold f' xs y)"
  by (induction xs arbitrary: y) (auto intro: refine)

lemma refines_for [refine]: "(\<And>x. refines (f x) (f' x)) \<Longrightarrow> refines (cfor f xs) (cfor f' xs)"
  unfolding cfor_def by (intro refine)

lemma refines_map [refine]: "(\<And>x. refines (f x) (f' x)) \<Longrightarrow> refines (cmap f xs) (cmap f' xs)"
  by (induction xs) (auto intro!: refine)

lemma refines_if [refine]: "refines a a' \<Longrightarrow> refines b b' \<Longrightarrow> refines (if P then a else b) (if P then a' else b')"
  by simp

lemma refines_option [refine]:
  "refines a a' \<Longrightarrow> (\<And>x. refines (f x) (f' x)) \<Longrightarrow>
   refines (case v of None \<Rightarrow> a | Some x \<Rightarrow> f x) (case v of None \<Rightarrow> a' | Some x \<Rightarrow> f' x)"
  by (cases v) auto

lemma refines_obj [refine]:
  "(\<And>x. refines (f x) (f' x)) \<Longrightarrow> (\<And>x. refines (g x) (g' x)) \<Longrightarrow>
   refines (case v of OList x \<Rightarrow> f x | ODict x \<Rightarrow> g x) (case v of OList x \<Rightarrow> f' x | ODict x \<Rightarrow> g' x)"
  by (cases v) auto

lemma refines_hval [refine]:
  "(\<And>x. refines (f x) (f' x)) \<Longrightarrow> (\<And>x. refines (g x) (g' x)) \<Longrightarrow> (\<And>x. refines (h x) (h' x)) \<Longrightarrow>
   (\<And>x y. refines (k x y) (k' x y)) \<Longrightarrow>
   refines (case v of HStr x \<Rightarrow> f x | HInt x \<Rightarrow> g x | HRef x \<Rightarrow> h x | HOther x y \<Rightarrow> k x y)
     (case v of HStr x \<Rightarrow> f' x | HInt x \<Rightarrow> g' x | HRef x \<Rightarrow> h' x | HOther x y \<Rightarrow> k' x y)"
  by (cases v) auto

lemma refines_list [refine]:
  "refines a a' \<Longrightarrow> (\<And>x y. refines (f x y) (f' x y)) \<Longrightarrow>
   refines (case v of [] \<Rightarrow> a | x # y \<Rightarrow> f x y) (case v of [] \<Rightarrow> a' | x # y \<Rightarrow> f' x y)"
  by (cases v) auto

lemma refines_prod [refine]:
  "(\<And>x y. refines (f x y) (f' x y)) \<Longrightarrow>
   refines (case v of (x, y) \<Rightarrow> f x y) (case v of (x, y) \<Rightarrow> f' x y)"
  by (cases v) auto

lemma refines_Let [refine]: "(\<And>x. refines (f x) (f' x)) \<Longrightarrow> refines (let x = v in f x) (let x = v in f' x)"
  by simp

section \<open>Every function is monotone in the functions it calls\<close>

definition calls_refine :: "calls \<Rightarrow> calls \<Rightarrow> bool" where
  "calls_refine C C' \<longleftrightarrow>
     (\<forall>phase vs bf v. refines (call_expand C phase vs bf v) (call_expand C' phase vs bf v))
     \<and> (\<forall>phase vs bf a i. refines (call_list C phase vs bf a i) (call_list C' phase vs bf a i))
     \<and> (\<forall>phase vs bf k v. refines (call_dict C phase vs bf k v) (call_dict C' phase vs bf k v))"

locale refining_calls =
  fixes C C' :: calls
  assumes calls: "calls_refine C C'"
begin

lemma refines_calls [refine]:
  "refines (call_expand C phase vs bf v) (call_expand C' phase vs bf v)"
  "refines (call_list C phase vs bf a i) (call_list C' phase vs bf a i)"
  "refines (call_dict C phase vs bf k v) (call_dict C' phase vs bf k v)"
  using calls by (simp_all add: calls_refine_def)

lemma refines_match [refine]:
  "refines (expand_match E C phase vs bf m s) (expand_match E C' phase vs bf m s)"
  unfolding expand_match_def process_replacement_def by (intro refine)

lemma refines_matches [refine]:
  "refines (expand_matches E C phase vs bf ms v) (expand_matches E C' phase vs bf ms v)"
proof (induction ms arbitrary: v)
  case (Cons m ms)
  then show ?case by (cases v) (auto intro!: refine)
qed (simp add: refine)

lemma refines_ExpandVariables:
  "refines (ExpandVariables E C phase vs bf v) (ExpandVariables E C' phase vs bf v)"
  unfolding ExpandVariables_def expand_again_def by (intro refine)

lemma refines_list_loop:
  "refines (ProcessVariablesAndConditionsInList C phase vs bf a i)
     (ProcessVariablesAndConditionsInList C' phase vs bf a i)"
  unfolding ProcessVariablesAndConditionsInList_def by (intro refine)

lemma refines_conditions [refine]:
  "refines (ProcessConditionsInDict E C phase vs bf a) (ProcessConditionsInDict E C' phase vs bf a)"
  unfolding ProcessConditionsInDict_def process_condition_def by (intro refine)

lemma refines_dict:
  "refines (ProcessVariablesAndConditionsInDict E C phase vs bf k v)
     (ProcessVariablesAndConditionsInDict E C' phase vs bf k v)"
  unfolding ProcessVariablesAndConditionsInDict_def process_variables_dict_def for_items_def
    expand_entry_def process_entry_def
  by (intro refine)

end

lemma calls_refine_step: "calls_refine (calls_upto E n) (calls_upto E (Suc n))"
proof (induction n)
  case 0
  show ?case by (simp add: calls_refine_def refine)
next
  case (Suc n)
  note step = refining_calls.intro [OF Suc]
  show ?case
    by (simp add: calls_refine_def refining_calls.refines_ExpandVariables [OF step]
        refining_calls.refines_list_loop [OF step] refining_calls.refines_dict [OF step])
qed

lemma refines_trans: "refines c c' \<Longrightarrow> refines c' c'' \<Longrightarrow> refines c c''"
  unfolding refines_def by metis

lemma calls_refine_trans: "calls_refine C C' \<Longrightarrow> calls_refine C' C'' \<Longrightarrow> calls_refine C C''"
  unfolding calls_refine_def
  by (metis refines_trans [where c' = "call_expand C' p vs bf v" for p vs bf v]
      refines_trans [where c' = "call_list C' p vs bf a i" for p vs bf a i]
      refines_trans [where c' = "call_dict C' p vs bf k v" for p vs bf k v])

lemma calls_refine_upto: "n \<le> m \<Longrightarrow> calls_refine (calls_upto E n) (calls_upto E m)"
proof (induction m)
  case (Suc m)
  show ?case
  proof (cases "n = Suc m")
    case True
    then show ?thesis by (simp add: calls_refine_def refine)
  next
    case False
    with Suc have "calls_refine (calls_upto E n) (calls_upto E m)" by simp
    then show ?thesis by (rule calls_refine_trans) (rule calls_refine_step)
  qed
qed (simp add: calls_refine_def refine)

interpretation upto: refining_calls "calls_upto E n" "calls_upto E (n + k)"
  by unfold_locales (rule calls_refine_upto, simp)

text \<open>
  Expansion has one result: if a string, a list or a dictionary is processed within some bound
  on nested calls, with a value or with an exception other than the recursion limit, every larger
  bound gives the same result and the same state.
\<close>

theorem expansion_bound_irrelevant:
  assumes "n \<le> m"
  shows
    "(ExpandVariables E (calls_upto E n) phase variables bf v s = Inl RecursionLimit
      \<or> ExpandVariables E (calls_upto E m) phase variables bf v s
        = ExpandVariables E (calls_upto E n) phase variables bf v s)
   \<and> (ProcessVariablesAndConditionsInList (calls_upto E n) phase variables bf a i s = Inl RecursionLimit
      \<or> ProcessVariablesAndConditionsInList (calls_upto E m) phase variables bf a i s
        = ProcessVariablesAndConditionsInList (calls_upto E n) phase variables bf a i s)
   \<and> (ProcessVariablesAndConditionsInDict E (calls_upto E n) phase variables bf k v s = Inl RecursionLimit
      \<or> ProcessVariablesAndConditionsInDict E (calls_upto E m) phase variables bf k v s
        = ProcessVariablesAndConditionsInDict E (calls_upto E n) phase variables bf k v s)"
proof -
  obtain j where m: "m = n + j" using assms le_Suc_ex by blast
  show ?thesis
    using upto.refines_ExpandVariables [of E E n phase variables bf v j]
      upto.refines_list_loop [of E n phase variables bf a i j]
      upto.refines_dict [of E E n phase variables bf k v j]
    unfolding m refines_def by blast
qed

text \<open>
  An environment for the examples: every process succeeds and prints the number of processes
  before it; the conditions are the words \<open>yes\<close> and \<open>no\<close>.
\<close>

definition ex_expand :: expand_env where
  "ex_expand =
     \<lparr>genv = gyp_globals (\<lambda>path. path) [] [] False True, platform = ''linux2'',
      compile_re = (\<lambda>pattern. Inr (prefix pattern)),
      run_process = (\<lambda>started c. Some (0, show_nat (length started) @ [CHR 0x0A], [])),
      do_main = (\<lambda>started m args d. None),
      py_eval = (\<lambda>text. Inr (GStr text)),
      eval_condition = (\<lambda>e vs. if e = ''yes'' then Inr True else if e = ''no'' then Inr False
        else Inl (NameError e))\<rparr>"

definition ex_state :: estate where
  "ex_state = \<lparr>cells = [OList [HStr ''<(os).c'', HInt 7]], cached_command_results = [], commands = [], written = []\<rparr>"

definition ex_variables :: hdict where
  "ex_variables = [(''os'', HStr ''linux''), (''files'', HRef 0)]"

theorem expansion_bound_witness:
  "ExpandVariables ex_expand (calls_upto ex_expand 900) PHASE_EARLY ex_variables ''a.gyp''
     (HStr ''[<(os)]'') ex_state = Inr (HStr ''[linux]'', ex_state)
   \<and> ExpandVariables ex_expand (calls_upto ex_expand 1) PHASE_EARLY ex_variables ''a.gyp''
     (HStr ''[<(os)]'') ex_state = Inr (HStr ''[linux]'', ex_state)"
proof -
  have "ExpandVariables ex_expand (calls_upto ex_expand 1) PHASE_EARLY ex_variables ''a.gyp''
     (HStr ''[<(os)]'') ex_state = Inr (HStr ''[linux]'', ex_state)"
    by code_simp
  with expansion_bound_irrelevant [of 1 900 ex_expand PHASE_EARLY ex_variables "''a.gyp''"
      "HStr ''[<(os)]''" ex_state 0 0 None] show ?thesis by simp
qed

end
