(* ===== verification/Gyp_Expand_Logic.thy ===== *)
theory Gyp_Expand_Logic
  imports Gyp_Expand_Fuel
begin

text \<open>
  What every run of variable expansion keeps. The heap stays well formed: every address that an
  object holds has an object, the keys of a dictionary are distinct, and an object keeps its class.
  The locale \<open>kept\<close> adds any property of the rest of the state that running a command keeps; it is
  interpreted with none, for the heap alone, and with the log of commands.
\<close>

section \<open>Well-formed heaps\<close>

definition in_range :: "nat \<Rightarrow> hval \<Rightarrow> bool" where
  "in_range n v \<longleftrightarrow> (case v of HRef a \<Rightarrow> a < n | _ \<Rightarrow> True)"

definition valid :: "estate \<Rightarrow> hval \<Rightarrow> bool" where
  "valid s v \<longleftrightarrow> in_range (length (cells s)) v"

lemma in_range_mono: "in_range n v \<Longrightarrow> n \<le> m \<Longrightarrow> in_range m v"
  by (cases v) (simp_all add: in_range_def)

lemma in_range_simps [simp]:
  "in_range n (HStr s)" "in_range n (HInt i)" "in_range n (HOther c b)" "in_range n (HRef a) \<longleftrightarrow> a < n"
  by (simp_all add: in_range_def)

fun values_of :: "obj \<Rightarrow> hval list" where
  "values_of (OList l) = l"
| "values_of (ODict d) = map snd d"

definition valid_obj :: "estate \<Rightarrow> obj \<Rightarrow> bool" where
  "valid_obj s ob \<longleftrightarrow> (\<forall>v \<in> set (values_of ob). valid s v) \<and> (\<forall>d. ob = ODict d \<longrightarrow> wf_dict d)"

definition wf_heap :: "estate \<Rightarrow> bool" where
  "wf_heap s \<longleftrightarrow> (\<forall>ob \<in> set (cells s). valid_obj s ob)"

definition has_class :: "estate \<Rightarrow> nat \<Rightarrow> string \<Rightarrow> bool" where
  "has_class s a c \<longleftrightarrow> a < length (cells s) \<and> object_class (cells s ! a) = c"

definition extends :: "estate \<Rightarrow> estate \<Rightarrow> bool" where
  "extends s t \<longleftrightarrow> (\<forall>a c. has_class s a c \<longrightarrow> has_class t a c)"

definition valid_vars :: "estate \<Rightarrow> hdict \<Rightarrow> bool" where
  "valid_vars s d \<longleftrightarrow> wf_dict d \<and> (\<forall>v \<in> set (map snd d). valid s v)"

definition persistent :: "(estate \<Rightarrow> bool) \<Rightarrow> bool" where
  "persistent P \<longleftrightarrow> (\<forall>s t. P s \<longrightarrow> extends s t \<longrightarrow> P t)"

named_theorems stables

lemma extends_refl [simp]: "extends s s"
  by (simp add: extends_def)

lemma extends_trans: "extends s t \<Longrightarrow> extends t u \<Longrightarrow> extends s u"
  by (auto simp: extends_def)

lemma valid_class: "valid s (HRef a) \<longleftrightarrow> (\<exists>c. has_class s a c)"
  by (simp add: valid_def has_class_def)

lemma valid_extends: "valid s v \<Longrightarrow> extends s t \<Longrightarrow> valid t v"
  by (cases v) (auto simp: valid_class extends_def, auto simp: valid_def)

lemma valid_obj_extends: "valid_obj s ob \<Longrightarrow> extends s t \<Longrightarrow> valid_obj t ob"
  by (auto simp: valid_obj_def dest: valid_extends)

lemma stable_simple [stables]:
  "persistent (\<lambda>s. Q)" "persistent P \<Longrightarrow> persistent P' \<Longrightarrow> persistent (\<lambda>s. P s \<and> P' s)"
  "persistent P \<Longrightarrow> persistent (\<lambda>s. Q \<longrightarrow> P s)" "(\<And>x. persistent (R x)) \<Longrightarrow> persistent (\<lambda>s. \<forall>x. R x s)"
  unfolding persistent_def by blast+

lemma stable_class [stables]: "persistent (\<lambda>s. has_class s a c)"
  by (simp add: persistent_def extends_def)

lemma stable_valid [stables]: "persistent (\<lambda>s. valid s v)"
  by (simp add: persistent_def valid_extends)

lemma stable_ball [stables]: "(\<And>x. persistent (R x)) \<Longrightarrow> persistent (\<lambda>s. \<forall>x \<in> A. R x s)"
  by (auto simp: persistent_def)

lemma stable_vars [stables]: "persistent (\<lambda>s. valid_vars s d)"
  by (auto simp: persistent_def valid_vars_def dest: valid_extends)

lemma stable_obj [stables]: "persistent (\<lambda>s. valid_obj s ob)"
  by (auto simp: persistent_def dest: valid_obj_extends)

section \<open>Triples\<close>

definition triple :: "(estate \<Rightarrow> bool) \<Rightarrow> (estate \<Rightarrow> bool) \<Rightarrow> 'a cmd \<Rightarrow> ('a \<Rightarrow> estate \<Rightarrow> bool) \<Rightarrow> bool" where
  "triple J P c Q \<longleftrightarrow>
     (\<forall>s x s'. wf_heap s \<longrightarrow> J s \<longrightarrow> P s \<longrightarrow> c s = Inr (x, s')
        \<longrightarrow> wf_heap s' \<and> J s' \<and> extends s s' \<and> Q x s')"

named_theorems triples

lemma tripleD:
  "triple J P c Q \<Longrightarrow> wf_heap s \<Longrightarrow> J s \<Longrightarrow> P s \<Longrightarrow> c s = Inr (x, s') \<Longrightarrow>
   wf_heap s' \<and> J s' \<and> extends s s' \<and> Q x s'"
  unfolding triple_def by blast

lemma tripleI:
  "(\<And>s x s'. wf_heap s \<Longrightarrow> J s \<Longrightarrow> P s \<Longrightarrow> c s = Inr (x, s') \<Longrightarrow>
      wf_heap s' \<and> J s' \<and> extends s s' \<and> Q x s') \<Longrightarrow> triple J P c Q"
  unfolding triple_def by blast

lemma persistentD: "persistent P \<Longrightarrow> P s \<Longrightarrow> extends s t \<Longrightarrow> P t"
  unfolding persistent_def by blast

lemma triple_bind:
  assumes "triple J P c Q" and "\<And>x. triple J (\<lambda>s. P s \<and> Q x s) (f x) R" and "persistent P"
  shows "triple J P (cbind c f) R"
proof (rule tripleI)
  fix s y u
  assume s: "wf_heap s" "J s" "P s" and "cbind c f s = Inr (y, u)"
  then obtain x t where x: "c s = Inr (x, t)" "f x t = Inr (y, u)" by auto
  from tripleD [OF assms(1) s x(1)] have t: "wf_heap t" "J t" "extends s t" "Q x t" by simp_all
  have "P t" using persistentD [OF assms(3) s(3) t(3)] .
  with tripleD [OF assms(2) t(1,2) _ x(2)] t(4) have "wf_heap u \<and> J u \<and> extends t u \<and> R y u" by simp
  with t(3) show "wf_heap u \<and> J u \<and> extends s u \<and> R y u" by (blast intro: extends_trans)
qed

lemma triple_post: "triple J P c Q \<Longrightarrow> (\<And>x s. P s \<Longrightarrow> Q x s \<Longrightarrow> R x s) \<Longrightarrow> persistent P \<Longrightarrow> triple J P c R"
  unfolding triple_def persistent_def by blast

lemma triple_pre: "triple J P c Q \<Longrightarrow> (\<And>s. P' s \<Longrightarrow> P s) \<Longrightarrow> triple J P' c Q"
  unfolding triple_def by blast

lemma triple_return: "(\<And>s. wf_heap s \<Longrightarrow> P s \<Longrightarrow> Q x s) \<Longrightarrow> triple J P (creturn x) Q"
  by (simp add: triple_def)

lemma triple_lift: "(\<And>s x. P s \<Longrightarrow> r = Inr x \<Longrightarrow> Q x s) \<Longrightarrow> triple J P (clift r) Q"
  by (simp add: triple_def)

lemma triple_raise [triples]: "triple J P (craise e) Q"
  by (simp add: triple_def)

lemma triple_fold:
  assumes "\<And>x y. x \<in> set xs \<Longrightarrow> triple J (\<lambda>s. P s \<and> I y s) (f x y) I" and "persistent P"
  shows "triple J (\<lambda>s. P s \<and> I y s) (cfold f xs y) I"
  using assms(1)
proof (induction xs arbitrary: y)
  case Nil
  then show ?case unfolding cfold.simps by (intro triple_return) simp
next
  case (Cons x xs)
  show ?case
    unfolding cfold.simps
  proof (rule tripleI)
    fix s z u
    assume s: "wf_heap s" "J s" "P s \<and> I y s" and "cbind (f x y) (cfold f xs) s = Inr (z, u)"
    then obtain y' t where x: "f x y s = Inr (y', t)" and xs: "cfold f xs y' t = Inr (z, u)" by auto
    from tripleD [OF Cons.prems s x] have t: "wf_heap t" "J t" "extends s t" "I y' t" by simp_all
    have "P t" using persistentD [OF assms(2) _ t(3)] s(3) by simp
    with tripleD [OF Cons.IH [OF Cons.prems] t(1,2) _ xs] t(4)
    have "wf_heap u \<and> J u \<and> extends t u \<and> I z u" by simp
    with t(3) show "wf_heap u \<and> J u \<and> extends s u \<and> I z u" by (blast intro: extends_trans)
  qed
qed

lemma triple_for [triples]:
  assumes "\<And>x. x \<in> set xs \<Longrightarrow> triple J P (f x) (\<lambda>u s. True)" and "persistent P"
  shows "triple J P (cfor f xs) (\<lambda>u s. True)"
  using triple_fold [of xs J P "\<lambda>u s. True" "\<lambda>x u. f x" "()"] assms by (simp add: cfor_def)

lemma triple_map:
  assumes "\<And>x. x \<in> set xs \<Longrightarrow> triple J P (f x) Q" and "persistent P" and "\<And>y. persistent (Q y)"
  shows "triple J P (cmap f xs) (\<lambda>ys s. \<forall>y \<in> set ys. Q y s)"
  using assms(1)
proof (induction xs)
  case Nil
  then show ?case by (simp add: triple_return)
next
  case (Cons x xs)
  have rest: "triple J (\<lambda>s. P s \<and> Q y s) (cmap f xs) (\<lambda>ys s. \<forall>y \<in> set ys. Q y s)" for y
    by (rule triple_pre [where P = P]) (use Cons in simp_all)
  show ?case
    unfolding cmap.simps
  proof (rule triple_bind [where Q = Q])
    fix y
    show "triple J (\<lambda>s. P s \<and> Q y s) (cbind (cmap f xs) (\<lambda>ys. creturn (y # ys))) (\<lambda>ys s. \<forall>y \<in> set ys. Q y s)"
      by (rule triple_bind [OF rest], rule triple_return) (auto intro: stables assms)
  qed (auto intro: Cons.prems assms)
qed

subsection \<open>Reading\<close>

definition reads :: "'a cmd \<Rightarrow> bool" where
  "reads c \<longleftrightarrow> (\<forall>s x s'. c s = Inr (x, s') \<longrightarrow> s' = s)"

lemma reads_bind: "reads c \<Longrightarrow> (\<And>x. reads (f x)) \<Longrightarrow> reads (cbind c f)"
  unfolding reads_def cbind_Inr by metis

lemma reads_leaf: "reads (creturn x)" "reads (clift r)" "reads (cstate g)" "reads (object_at a)" "reads (read_tree v)"
  by (auto simp: reads_def object_at_def read_tree_def split: if_splits)

lemma reads_map: "(\<And>x. reads (f x)) \<Longrightarrow> reads (cmap f xs)"
  by (induction xs) (auto intro!: reads_bind reads_leaf)

lemma reads_values: "reads (hclass v)" "reads (str_of v)" "reads (read_dict d)" "reads (address_of v)" "reads (object_of v)"
  by (auto simp: hclass_def str_of_def read_dict_def address_of_def object_of_def
      intro!: reads_bind reads_map reads_leaf split: hval.splits)

lemma triple_reads: "reads c \<Longrightarrow> triple J P c (\<lambda>x s. True)"
  unfolding triple_def reads_def by (metis extends_refl)

lemma object_at_Inr:
  "object_at a s = Inr (ob, t) \<longleftrightarrow> a < length (cells s) \<and> ob = cells s ! a \<and> t = s"
  by (auto simp: object_at_def)

lemma wf_heap_at: "wf_heap s \<Longrightarrow> a < length (cells s) \<Longrightarrow> valid_obj s (cells s ! a)"
  by (simp add: wf_heap_def)

lemma triple_object_at [triples]:
  "triple J P (object_at a) (\<lambda>ob s. valid_obj s ob \<and> has_class s a (object_class ob))"
  by (simp add: triple_def object_at_Inr wf_heap_at has_class_def)

lemma triple_list_at [triples]:
  "triple J P (list_at a) (\<lambda>l s. valid_obj s (OList l) \<and> has_class s a ''list'')"
proof (rule triple_pre [where P = "\<lambda>s. True"])
  show "triple J (\<lambda>s. True) (list_at a) (\<lambda>d s. valid_obj s (OList d) \<and> has_class s a ''list'')"
    unfolding list_at_def
    by (rule triple_bind [OF triple_object_at]) (auto split: obj.split intro!: triple_return triples stables)
qed simp

lemma triple_dict_at [triples]:
  "triple J P (dict_at a) (\<lambda>d s. valid_obj s (ODict d) \<and> has_class s a ''dict'')"
proof (rule triple_pre [where P = "\<lambda>s. True"])
  show "triple J (\<lambda>s. True) (dict_at a) (\<lambda>d s. valid_obj s (ODict d) \<and> has_class s a ''dict'')"
    unfolding dict_at_def
    by (rule triple_bind [OF triple_object_at]) (auto split: obj.split intro!: triple_return triples stables)
qed simp

lemma triple_object_of [triples]:
  "triple J P (object_of v) (\<lambda>ob s. \<forall>x. ob = Some x \<longrightarrow> valid_obj s x)"
  by (auto simp: triple_def object_of_def object_at_def wf_heap_def split: if_splits hval.splits)

subsection \<open>Writing\<close>

lemma extends_append: "extends s (s\<lparr>cells := cells s @ obs\<rparr>)"
  by (simp add: extends_def has_class_def nth_append)

lemma wf_heap_append:
  assumes "wf_heap s" and "\<forall>ob \<in> set obs. valid_obj (s\<lparr>cells := cells s @ obs\<rparr>) ob"
  shows "wf_heap (s\<lparr>cells := cells s @ obs\<rparr>)"
  using assms valid_obj_extends [OF _ extends_append] by (auto simp: wf_heap_def)

lemma extends_update:
  assumes "has_class s a (object_class ob)"
  shows "extends s (s\<lparr>cells := (cells s)[a := ob]\<rparr>)"
  using assms by (auto simp: extends_def has_class_def nth_list_update)

lemma wf_heap_update:
  assumes "wf_heap s" and "has_class s a (object_class ob)" and "valid_obj s ob"
  shows "wf_heap (s\<lparr>cells := (cells s)[a := ob]\<rparr>)"
proof -
  have "valid_obj s x" if "x \<in> set ((cells s)[a := ob])" for x
    using that assms(1,3) set_update_subset_insert [of "cells s" a ob] by (auto simp: wf_heap_def)
  then show ?thesis
    using valid_obj_extends [OF _ extends_update [OF assms(2)]] by (simp add: wf_heap_def)
qed

text \<open>A tree that is stored appends objects, and its values are among them.\<close>

lemma store_values:
  "store t h = (v, h') \<Longrightarrow> \<exists>obs. h' = h @ obs \<and> in_range (length h') v"
  "store_list l h = (vs, h') \<Longrightarrow> \<exists>obs. h' = h @ obs \<and> (\<forall>v \<in> set vs. in_range (length h') v)"
  "store_dict d h = (e, h') \<Longrightarrow>
     \<exists>obs. h' = h @ obs \<and> map fst e = map fst d \<and> (\<forall>v \<in> set (map snd e). in_range (length h') v)"
proof (induction t h and l h and d h arbitrary: v h' and vs h' and e h' rule: store_store_list_store_dict.induct)
  case (7 x xs h)
  from 7(3) obtain v1 h1 vs1 where s: "store x h = (v1, h1)" "store_list xs h1 = (vs1, h')" "vs = v1 # vs1"
    by (auto split: prod.splits)
  with 7(1) [OF s(1)] 7(2) [OF s(1) [symmetric] refl s(2)] in_range_mono [of "length h1" v1 "length h'"]
  show ?case by auto
next
  case (9 k x d h)
  from 9(3) obtain v1 h1 e1 where s: "store x h = (v1, h1)" "store_dict d h1 = (e1, h')" "e = (k, v1) # e1"
    by (auto split: prod.splits)
  with 9(1) [OF s(1)] 9(2) [OF s(1) [symmetric] refl s(2)] in_range_mono [of "length h1" v1 "length h'"]
  show ?case by auto
qed (fastforce split: prod.splits)+

text \<open>With distinct keys at every depth, the objects are well formed.\<close>

definition wf_cells :: "obj list \<Rightarrow> bool" where
  "wf_cells h \<longleftrightarrow> (\<forall>ob \<in> set h. (\<forall>v \<in> set (values_of ob). in_range (length h) v)
     \<and> (\<forall>d. ob = ODict d \<longrightarrow> wf_dict d))"

lemma wf_heap_cells: "wf_heap s \<longleftrightarrow> wf_cells (cells s)"
  by (simp add: wf_heap_def wf_cells_def valid_obj_def valid_def)

lemma wf_cells_append:
  assumes "wf_cells h" and "\<forall>v \<in> set (values_of ob). in_range (length h) v"
    and "\<forall>d. ob = ODict d \<longrightarrow> wf_dict d"
  shows "wf_cells (h @ [ob])"
  using assms in_range_mono [of "length h" _ "length (h @ [ob])"] by (auto simp: wf_cells_def)

lemma store_wf:
  "wf_gval t \<Longrightarrow> wf_cells h \<Longrightarrow> wf_cells (snd (store t h))"
  "list_all wf_gval l \<Longrightarrow> wf_cells h \<Longrightarrow> wf_cells (snd (store_list l h))"
  "list_all (\<lambda>(k, v). wf_gval v) d \<Longrightarrow> wf_cells h \<Longrightarrow> wf_cells (snd (store_dict d h))"
proof (induction t h and l h and d h rule: store_store_list_store_dict.induct)
  case (4 l h)
  obtain vs h' where s: "store_list l h = (vs, h')" by force
  with 4 have "wf_cells h'" by simp
  moreover from store_values(2) [OF s] have "\<forall>v \<in> set vs. in_range (length h') v" by blast
  ultimately show ?case by (simp add: s wf_cells_append)
next
  case (5 d h)
  obtain vs h' where s: "store_dict d h = (vs, h')" by force
  with 5 have "wf_cells h'" by simp
  moreover from store_values(3) [OF s] have "\<forall>v \<in> set (map snd vs). in_range (length h') v" "map fst vs = map fst d"
    by blast+
  ultimately show ?case using 5(2) by (simp add: s wf_dict_def wf_cells_append)
qed (auto split: prod.splits)

lemma load_value_wf: "wf_cells h \<Longrightarrow> load_value n h v = Inr t \<Longrightarrow> wf_gval t"
proof (induction n h v arbitrary: t rule: load_value.induct)
  case (5 n h a)
  then have ob: "a < length h" "wf_cells h" by (auto split: if_splits)
  show ?case
  proof (cases "h ! a")
    case (OList l)
    with 5(4) ob obtain xs where xs: "rmap (load_value n h) l = Inr xs" "t = GList xs" by auto
    have "\<forall>x \<in> set xs. wf_gval x"
      by (rule rmap_values_wf [OF xs(1)]) (use 5(1) ob OList in blast)
    with xs(2) show ?thesis by (simp add: list_all_iff)
  next
    case (ODict d)
    with 5(4) ob obtain e where e: "rmap (\<lambda>(k, v). rbind (load_value n h v) (\<lambda>x. Inr (k, x))) d = Inr e" "t = GDict e"
      by auto
    have "\<forall>x \<in> set e. wf_gval (snd x)"
      by (rule rmap_values_wf [OF e(1)]) (use 5(2) ob ODict in auto)
    moreover have "map fst e = map fst d"
      using e(1) by (induction d arbitrary: e) auto
    moreover have "wf_dict d" using ob ODict nth_mem [OF ob(1)] by (auto simp: wf_cells_def)
    ultimately show ?thesis using e(2) by (auto simp: list_all_iff wf_dict_def)
  qed
qed auto

lemma triple_read_tree [triples]: "triple J P (read_tree v) (\<lambda>t s. wf_gval t)"
  by (auto simp: triple_def read_tree_def wf_heap_cells dest: load_value_wf)

lemma read_tree_Inr: "read_tree v s = Inr (x, t) \<longleftrightarrow> load_value (length (cells s)) (cells s) v = Inr x \<and> t = s"
  by (auto simp: read_tree_def)

lemma read_dict_Inr:
  "wf_heap s \<Longrightarrow> read_dict d s = Inr (e, t) \<Longrightarrow>
   map fst e = map fst d \<and> (\<forall>(k, x) \<in> set e. wf_gval x) \<and> t = s"
proof (induction d arbitrary: e)
  case (Cons p d)
  obtain k v where p: "p = (k, v)" by force
  with Cons.prems obtain x e' where e: "e = (k, x) # e'" "read_tree v s = Inr (x, s)" "read_dict d s = Inr (e', t)"
    by (auto simp: read_dict_def read_tree_Inr)
  have "wf_gval x" using load_value_wf e(2) Cons.prems(1) by (simp add: read_tree_Inr wf_heap_cells)
  with Cons.IH [OF Cons.prems(1) e(3)] e(1) p show ?case by simp
qed (simp add: read_dict_def)

lemma triple_read_dict [triples]: "triple J P (read_dict d) (\<lambda>e s. wf_dict d \<longrightarrow> wf_gdict e)"
proof (rule tripleI)
  fix s e t
  assume s: "wf_heap s" "J s" "P s" and e: "read_dict d s = Inr (e, t)"
  show "wf_heap t \<and> J t \<and> extends s t \<and> (wf_dict d \<longrightarrow> wf_gdict e)"
    using s read_dict_Inr [OF s(1) e] by (simp add: wf_gdict_iff wf_dict_def)
qed

section \<open>Verification conditions\<close>

text \<open>
  For every operation a rule where it begins a sequence and a rule where it ends one; the proof of a
  function applies them by its shape and leaves the conditions on values.
\<close>

named_theorems vcg

lemmas triple_begin = triple_bind [OF triple_object_at] triple_bind [OF triple_list_at]
  triple_bind [OF triple_dict_at] triple_bind [OF triple_object_of] triple_bind [OF triple_read_tree]
  triple_bind [OF triple_read_dict] triple_bind [OF triple_reads [OF reads_values(1)]]
  triple_bind [OF triple_reads [OF reads_values(2)]] triple_bind [OF triple_reads [OF reads_values(4)]]
  triple_bind [OF triple_reads [OF reads_leaf(3)]]

lemma cbind_creturn: "cbind (creturn x) f = f x"
  by (simp add: cbind_def creturn_def)

lemma cbind_clift: "cbind (clift r) f = (case r of Inl e \<Rightarrow> craise e | Inr x \<Rightarrow> f x)"
  by (cases r) (simp_all add: cbind_def clift_def)

lemma triple_bind_return: "triple J P (f x) R \<Longrightarrow> triple J P (cbind (creturn x) f) R"
  by (simp only: cbind_creturn)

lemma triple_bind_lift: "(\<And>x. r = Inr x \<Longrightarrow> triple J P (f x) R) \<Longrightarrow> triple J P (cbind (clift r) f) R"
  unfolding cbind_clift by (cases r) (simp_all add: triple_raise)

lemma triple_if [vcg]:
  "(Q \<Longrightarrow> triple J P c R) \<Longrightarrow> (\<not> Q \<Longrightarrow> triple J P c' R) \<Longrightarrow> triple J P (if Q then c else c') R"
  by simp

lemma triple_option [vcg]:
  "(v = None \<Longrightarrow> triple J P d R) \<Longrightarrow> (\<And>x. v = Some x \<Longrightarrow> triple J P (f x) R) \<Longrightarrow>
   triple J P (case v of None \<Rightarrow> d | Some x \<Rightarrow> f x) R"
  by (cases v) simp_all

lemma triple_obj [vcg]:
  "(\<And>x. ob = OList x \<Longrightarrow> triple J P (g x) R) \<Longrightarrow> (\<And>x. ob = ODict x \<Longrightarrow> triple J P (h x) R) \<Longrightarrow>
   triple J P (case ob of OList x \<Rightarrow> g x | ODict x \<Rightarrow> h x) R"
  by (cases ob) simp_all

lemma triple_hval [vcg]:
  "(\<And>x. v = HStr x \<Longrightarrow> triple J P (f x) R) \<Longrightarrow> (\<And>x. v = HInt x \<Longrightarrow> triple J P (g x) R) \<Longrightarrow>
   (\<And>x. v = HRef x \<Longrightarrow> triple J P (h x) R) \<Longrightarrow> (\<And>x y. v = HOther x y \<Longrightarrow> triple J P (k x y) R) \<Longrightarrow>
   triple J P (case v of HStr x \<Rightarrow> f x | HInt x \<Rightarrow> g x | HRef x \<Rightarrow> h x | HOther x y \<Rightarrow> k x y) R"
  by (cases v) simp_all

lemma triple_bind_if [vcg]:
  "(Q \<Longrightarrow> triple J P (cbind c f) R) \<Longrightarrow> (\<not> Q \<Longrightarrow> triple J P (cbind c' f) R) \<Longrightarrow>
   triple J P (cbind (if Q then c else c') f) R"
  by simp

lemma triple_bind_assoc [vcg]:
  "triple J P (cbind c (\<lambda>x. cbind (g x) f)) R \<Longrightarrow> triple J P (cbind (cbind c g) f) R"
proof -
  have "cbind (cbind c g) f = cbind c (\<lambda>x. cbind (g x) f)"
    by (rule ext) (simp add: cbind_def rbind_assoc split_def)
  then show "triple J P (cbind c (\<lambda>x. cbind (g x) f)) R \<Longrightarrow> triple J P (cbind (cbind c g) f) R" by simp
qed

lemma triple_bind_option [vcg]:
  "(v = None \<Longrightarrow> triple J P (cbind d f) R) \<Longrightarrow> (\<And>x. v = Some x \<Longrightarrow> triple J P (cbind (g x) f) R) \<Longrightarrow>
   triple J P (cbind (case v of None \<Rightarrow> d | Some x \<Rightarrow> g x) f) R"
  by (cases v) simp_all

lemma triple_bind_obj [vcg]:
  "(\<And>x. ob = OList x \<Longrightarrow> triple J P (cbind (g x) f) R) \<Longrightarrow> (\<And>x. ob = ODict x \<Longrightarrow> triple J P (cbind (h x) f) R) \<Longrightarrow>
   triple J P (cbind (case ob of OList x \<Rightarrow> g x | ODict x \<Rightarrow> h x) f) R"
  by (cases ob) simp_all

lemma triple_bind_list [vcg]:
  "(l = [] \<Longrightarrow> triple J P (cbind d f) R) \<Longrightarrow> (\<And>x y. l = x # y \<Longrightarrow> triple J P (cbind (k x y) f) R) \<Longrightarrow>
   triple J P (cbind (case l of [] \<Rightarrow> d | x # y \<Rightarrow> k x y) f) R"
  by (cases l) simp_all

lemma triple_gval [vcg]:
  "(\<And>x. v = GStr x \<Longrightarrow> triple J P (f x) R) \<Longrightarrow> (\<And>x. v = GInt x \<Longrightarrow> triple J P (g x) R) \<Longrightarrow>
   (\<And>x. v = GList x \<Longrightarrow> triple J P (h x) R) \<Longrightarrow> (\<And>x. v = GDict x \<Longrightarrow> triple J P (i x) R) \<Longrightarrow>
   (\<And>x y. v = GOther x y \<Longrightarrow> triple J P (k x y) R) \<Longrightarrow>
   triple J P (case v of GStr x \<Rightarrow> f x | GInt x \<Rightarrow> g x | GList x \<Rightarrow> h x | GDict x \<Rightarrow> i x | GOther x y \<Rightarrow> k x y) R"
  by (cases v) simp_all

lemma triple_list [vcg]:
  "(l = [] \<Longrightarrow> triple J P d R) \<Longrightarrow> (\<And>x y. l = x # y \<Longrightarrow> triple J P (k x y) R) \<Longrightarrow>
   triple J P (case l of [] \<Rightarrow> d | x # y \<Rightarrow> k x y) R"
  by (cases l) simp_all

lemma triple_pair [vcg]:
  "(\<And>x y. p = (x, y) \<Longrightarrow> triple J P (m x y) R) \<Longrightarrow> triple J P (case p of (x, y) \<Rightarrow> m x y) R"
  by (cases p) simp

lemma triple_let [vcg]: "(\<And>x. x = w \<Longrightarrow> triple J P (n x) R) \<Longrightarrow> triple J P (let x = w in n x) R"
  by simp

declare triple_begin [vcg] triple_bind_return [vcg] triple_bind_lift [vcg] triple_raise [vcg]
  triple_return [vcg] triple_lift [vcg]

lemma valid_obj_simps [simp]:
  "valid_obj s (OList l) \<longleftrightarrow> (\<forall>v \<in> set l. valid s v)"
  "valid_obj s (ODict d) \<longleftrightarrow> valid_vars s d"
  by (auto simp: valid_obj_def valid_vars_def)

lemma valid_simps [simp]: "valid s (HStr x)" "valid s (HInt i)" "valid s (HOther c b)"
  by (simp_all add: valid_def)

lemma valid_vars_update [simp]: "valid_vars s d \<Longrightarrow> valid s v \<Longrightarrow> valid_vars s (AList.update k v d)"
proof -
  assume d: "valid_vars s d" and v: "valid s v"
  have "set (map snd (AList.update k v d)) \<subseteq> insert v (set (map snd d))" by (induction d) auto
  with d v show ?thesis unfolding valid_vars_def by (blast intro: wf_dict_update)
qed

lemma valid_vars_delete [simp]: "valid_vars s d \<Longrightarrow> valid_vars s (AList.delete k d)"
  by (auto simp: valid_vars_def AList.delete_eq wf_dict_def distinct_map_filter)

lemma valid_vars_lookup: "valid_vars s d \<Longrightarrow> map_of d k = Some v \<Longrightarrow> valid s v"
  unfolding valid_vars_def by (metis map_of_SomeD image_eqI list.set_map snd_conv)

lemma valid_vars_entry: "valid_vars s d \<Longrightarrow> (k, v) \<in> set d \<Longrightarrow> valid s v"
  by (auto simp: valid_vars_def)

lemma valid_vars_wf: "valid_vars s d \<Longrightarrow> wf_dict d"
  by (simp add: valid_vars_def)

lemma merge_list_item_wf: "merge_list_item env tf ff isp x = Inr y \<Longrightarrow> wf_gval y"
proof (cases x)
  case (GList l)
  assume "merge_list_item env tf ff isp x = Inr y"
  with GList obtain l' where l': "MergeLists env [] l tf ff False True = Inr l'" "y = GList l'"
    by (auto simp: merge_list_item_def)
  have "list_all wf_gval l'"
    by (rule merge_wf [of "GList l" env tf ff, THEN conjunct1, rule_format, OF refl _ l'(1)]) simp
  with l'(2) show ?thesis by simp
next
  case (GDict d)
  assume "merge_list_item env tf ff isp x = Inr y"
  with GDict obtain d' where d': "MergeDicts env [] d tf ff = Inr d'" "y = GDict d'"
    by (auto simp: merge_list_item_def)
  from MergeDicts_wf [OF wf_gdict_Nil d'(1)] d'(2) show ?thesis by (simp only: wf_gdict_def)
qed (auto simp: merge_list_item_def intro: MakePathRelative_wf split: if_splits)

lemma merge_item_valid:
  "valid s v \<Longrightarrow> \<forall>w \<in> set (fst st). valid s w \<Longrightarrow> \<forall>w \<in> set (fst (merge_item app (v, b) st)). valid s w"
  by (auto simp: merge_item_def list_insert_def Let_def split: prod.splits if_splits
      dest: in_set_takeD in_set_dropD)

lemma triple_begin_fold:
  assumes "triple J (\<lambda>s. P s \<and> I y s) (cfold f xs y) I" and "\<And>s. P s \<Longrightarrow> I y s"
    and "\<And>z. triple J (\<lambda>s. P s \<and> I z s) (g z) R" and "persistent P"
  shows "triple J P (cbind (cfold f xs y) g) R"
  by (rule triple_bind [OF triple_pre [OF assms(1)] assms(3,4)]) (simp add: assms(2))

lemma canonical_value_valid: "canonical_value v = Inr w \<Longrightarrow> valid s v \<Longrightarrow> valid s w"
  by (auto simp: canonical_value_def canonical_int_def split: hval.splits if_splits option.splits)

section \<open>Running a command\<close>

text \<open>What a command that is started after the commands \<open>started\<close> leaves in the cache.\<close>

definition outcome :: "expand_env \<Rightarrow> (string \<times> command) list \<Rightarrow> command \<Rightarrow> string option" where
  "outcome E started c =
     (case c of
        Process contents use_shell d \<Rightarrow>
          (case run_process E started c of
             Some (status, out, err) \<Rightarrow> if status = 0 \<and> err = [] then Some (rstrip out) else None
           | None \<Rightarrow> None)
      | PyModule m args d \<Rightarrow>
          (case do_main E started m args d of Some (Inr x) \<Rightarrow> Some (rstrip x) | _ \<Rightarrow> None))"

lemma canonical_list_valid:
  "rmap canonical_value l = Inr xs \<Longrightarrow> \<forall>v \<in> set l. valid s v \<Longrightarrow> x \<in> set xs \<Longrightarrow> valid s x"
  using rmap_values_wf [of canonical_value l xs "valid s"] canonical_value_valid by blast

lemma start_command_Inr:
  "start_command key c s = Inr (x, t) \<longleftrightarrow> x = commands s \<and> t = s\<lparr>commands := commands s @ [(key, c)]\<rparr>"
  by (auto simp: start_command_def)

lemma call_process_Inr:
  assumes "call_process E key contents sh d s = Inr (x, t)"
  shows "\<exists>c. t = s\<lparr>commands := commands s @ [(key, c)]\<rparr> \<and> outcome E (commands s) c = Some x"
proof -
  from assms obtain g where g: "is_command g" "(case run_process E (commands s) (Process g sh d) of
         None \<Rightarrow> craise (OSError ''No such file or directory'')
       | Some (status, out, err) \<Rightarrow>
           if status \<noteq> 0 \<or> err \<noteq> []
           then cbind (clift (py_str g)) (\<lambda>c.
                craise (GypError (''Call to '' @ c @ '' returned exit status '' @ show_int status @ ''.'')))
           else creturn (rstrip out)) (s\<lparr>commands := commands s @ [(key, Process g sh d)]\<rparr>) = Inr (x, t)"
    by (auto simp: call_process_def start_command_Inr split: if_splits)
  then have "t = s\<lparr>commands := commands s @ [(key, Process g sh d)]\<rparr>
      \<and> outcome E (commands s) (Process g sh d) = Some x"
    by (auto simp: outcome_def split: option.splits prod.splits if_splits)
  then show ?thesis by blast
qed

lemma call_module_Inr:
  assumes "call_module E key contents d s = Inr (x, t)"
  shows "\<exists>c. t = s\<lparr>commands := commands s @ [(key, c)]\<rparr> \<and> outcome E (commands s) c = Some x"
proof -
  from assms obtain dir c parsed where d: "d = Some dir" "contents = GStr c" "shlex_split c = Inr parsed"
    by (auto simp: call_module_def split: option.splits gval.splits)
  with assms obtain m args where p: "parsed = m # args"
    by (cases parsed) (auto simp: call_module_def)
  with assms d have "t = s\<lparr>commands := commands s @ [(key, PyModule m args dir)]\<rparr>
      \<and> outcome E (commands s) (PyModule m args dir) = Some x"
    by (auto simp: call_module_def start_command_Inr outcome_def split: option.splits)
  then show ?thesis by blast
qed

lemma run_command_Inr:
  assumes "run_command E bf m contents s = Inr (x, t)"
  obtains (cached) key where "map_of (cached_command_results s) key = Some x" "t = s"
  | (run) key c where "map_of (cached_command_results s) key = None" "outcome E (commands s) c = Some x"
      "t = s\<lparr>commands := commands s @ [(key, c)],
             cached_command_results := AList.update key x (cached_command_results s)\<rparr>"
proof -
  from assms obtain key g where r: "(case map_of (cached_command_results s) key of
       Some cached_value \<Rightarrow> creturn cached_value
     | None \<Rightarrow>
         cbind (if command_string m = ''pymod_do_main''
                then call_module E key g (dir_of bf)
                else if command_string m \<noteq> []
                then craise (GypError (''Unknown command string '' @ command_string m @ '' in '' @ key @ ''.''))
                else call_process E key g (\<not> is_array m) (dir_of bf)) (\<lambda>replacement s.
         Inr (replacement, s\<lparr>cached_command_results :=
           AList.update key replacement (cached_command_results s)\<rparr>))) s = Inr (x, t)"
    by (auto simp: run_command_def)
  show thesis
  proof (cases "map_of (cached_command_results s) key")
    case None
    with r obtain u where u: "call_module E key g (dir_of bf) s = Inr (x, u)
        \<or> call_process E key g (\<not> is_array m) (dir_of bf) s = Inr (x, u)"
      "t = u\<lparr>cached_command_results := AList.update key x (cached_command_results u)\<rparr>"
      by (auto split: if_splits)
    from u(1) call_module_Inr call_process_Inr obtain c where
      "u = s\<lparr>commands := commands s @ [(key, c)]\<rparr>" "outcome E (commands s) c = Some x" by blast
    with u(2) None show thesis by (intro run [of key c]) simp_all
  next
    case (Some y)
    with r show thesis by (intro cached [of key]) simp_all
  qed
qed

section \<open>What every function keeps\<close>

locale kept =
  fixes E :: expand_env and J :: "estate \<Rightarrow> bool"
  assumes J_cells: "J (s\<lparr>cells := h\<rparr>) \<longleftrightarrow> J s"
    and J_written: "J (s\<lparr>written := w\<rparr>) \<longleftrightarrow> J s"
    and J_command: "J s \<Longrightarrow> run_command E bf m contents s = Inr (x, s') \<Longrightarrow> J s'"
begin

lemma triple_new_object:
  assumes "\<And>s. P s \<Longrightarrow> valid_obj s ob"
  shows "triple J P (new_object ob) (\<lambda>v s. valid s v)"
proof (rule tripleI)
  fix s v t
  assume s: "wf_heap s" "J s" "P s" and "new_object ob s = Inr (v, t)"
  then have v: "v = HRef (length (cells s))" "t = s\<lparr>cells := cells s @ [ob]\<rparr>" by (auto simp: new_object_def)
  with s assms [of s] show "wf_heap t \<and> J t \<and> extends s t \<and> valid t v"
    using extends_append [of s "[ob]"] wf_heap_append [of s "[ob]"] valid_obj_extends
    by (auto simp: J_cells valid_def)
qed

lemma triple_set_object:
  assumes "\<And>s. P s \<Longrightarrow> has_class s a (object_class ob) \<and> valid_obj s ob"
  shows "triple J P (set_object a ob) (\<lambda>u s. True)"
  using assms extends_update wf_heap_update by (auto simp: triple_def set_object_def J_cells)

lemma triple_new_tree:
  assumes "\<And>s. P s \<Longrightarrow> wf_gval t"
  shows "triple J P (new_tree t) (\<lambda>v s. valid s v)"
proof (rule tripleI)
  fix s v u
  assume s: "wf_heap s" "J s" "P s" and "new_tree t s = Inr (v, u)"
  then obtain h where h: "store t (cells s) = (v, h)" "u = s\<lparr>cells := h\<rparr>"
    by (auto simp: new_tree_def split: prod.splits)
  with store_values(1) [OF h(1)] store_wf(1) [OF assms [OF s(3)], of "cells s"] s extends_append
  show "wf_heap u \<and> J u \<and> extends s u \<and> valid u v"
    by (auto simp: J_cells valid_def wf_heap_cells)
qed

lemma triple_new_dict:
  assumes "\<And>s. P s \<Longrightarrow> wf_gdict d"
  shows "triple J P (new_dict d) (\<lambda>e s. valid_vars s e)"
proof (rule tripleI)
  fix s e u
  assume s: "wf_heap s" "J s" "P s" and "new_dict d s = Inr (e, u)"
  then obtain h where h: "store_dict d (cells s) = (e, h)" "u = s\<lparr>cells := h\<rparr>"
    by (auto simp: new_dict_def split: prod.splits)
  from assms [OF s(3)] have d: "list_all (\<lambda>(k, v). wf_gval v) d" "wf_dict d" by (auto simp: wf_gdict_iff list_all_iff)
  from store_values(3) [OF h(1)] store_wf(3) [OF d(1), of "cells s"] s extends_append h d(2)
  show "wf_heap u \<and> J u \<and> extends s u \<and> valid_vars u e"
    by (auto simp: J_cells valid_vars_def valid_def wf_heap_cells wf_dict_def)
qed

lemmas triple_writes = triple_bind [OF triple_new_object] triple_bind [OF triple_set_object]
  triple_bind [OF triple_new_tree] triple_post [OF triple_new_object] triple_post [OF triple_set_object]
  triple_post [OF triple_new_tree]

lemma triple_update_dict:
  assumes "\<And>s. P s \<Longrightarrow> valid s v" and "persistent P"
  shows "triple J P (update_dict a k v) (\<lambda>u s. True)"
  unfolding update_dict_def
  by (intro vcg triple_writes) (auto simp: assms intro!: stables assms(2))

lemma triple_entry_object:
  assumes "\<And>s. P s \<Longrightarrow> valid_obj s ob" and "persistent P"
  shows "triple J P (entry_object a k ob) (\<lambda>v s. valid s v)"
  unfolding entry_object_def
  by (intro vcg triple_writes triple_bind [OF triple_update_dict])
    (auto simp: assms intro!: stables assms(2) intro: valid_vars_lookup)
lemma triple_run_command: "triple J P (run_command E bf m contents) (\<lambda>x s. True)"
proof (rule tripleI)
  fix s x t
  assume s: "wf_heap s" "J s" and run: "run_command E bf m contents s = Inr (x, t)"
  from run have "cells t = cells s" by (cases rule: run_command_Inr) simp_all
  with s J_command [OF s(2) run] show "wf_heap t \<and> J t \<and> extends s t \<and> True"
    by (simp add: wf_heap_cells extends_def has_class_def)
qed

lemma triple_write_file_list: "triple J P (write_file_list bf contents) (\<lambda>x s. True)"
proof (rule tripleI)
  fix s x t
  assume s: "wf_heap s" "J s" and run: "write_file_list bf contents s = Inr (x, t)"
  then obtain w where "t = s\<lparr>written := w\<rparr>"
    by (auto simp: write_file_list_def Let_def split: if_splits option.splits)
  with s show "wf_heap t \<and> J t \<and> extends s t \<and> True"
    by (simp add: wf_heap_cells extends_def has_class_def J_written)
qed

lemma triple_filtered:
  assumes "\<And>s. P s \<Longrightarrow> valid_vars s variables" and "persistent P"
  shows "triple J P (filtered_variables E contents variables) (\<lambda>d s. valid_vars s d)"
  unfolding filtered_variables_def
  by (intro vcg triple_post [OF triple_new_dict])
    (auto intro!: stables assms(2) dest!: assms(1) valid_vars_wf ProcessListFilters_wf(1) [rule_format, rotated])
lemma triple_HMergeLists: "triple J P (HMergeLists env a fro tf ff isp app) (\<lambda>u s. True)"
proof (rule triple_pre [where P = "\<lambda>s. True"])
  have item: "triple J (\<lambda>s. P s \<and> (\<forall>v \<in> set (fst st). valid s v))
      (cbind (clift (merge_list_item env tf ff isp x)) (\<lambda>y.
       cbind (new_tree y) (\<lambda>v. creturn (merge_item app (v, singleton_item x) st))))
      (\<lambda>st s. \<forall>v \<in> set (fst st). valid s v)" if "persistent P" for P x st
    by (intro vcg triple_writes)
      (auto intro!: stables that intro: merge_list_item_wf dest: merge_item_valid [THEN bspec, rotated 2])
  show "triple J (\<lambda>s. True) (HMergeLists env a fro tf ff isp app) (\<lambda>u s. True)"
    unfolding HMergeLists_def
    by (intro vcg triple_begin_fold [where I = "\<lambda>st s. \<forall>v \<in> set (fst st). valid s v"] triple_fold item triple_writes)
      (auto intro!: stables)
qed simp

lemma reads_check_merge: "reads (check_merge a k v)"
  unfolding check_merge_def dict_at_def
  by (intro reads_bind reads_leaf) (auto intro!: reads_bind reads_leaf reads_values split: obj.split option.split)

lemma triple_HMergeDicts: "triple J (\<lambda>s. True) (HMergeDicts env a fro tf ff) (\<lambda>u s. True)"
proof (induction env a fro tf ff rule: HMergeDicts.induct)
  case (1 env a fro tf ff)
  note IH = triple_pre [OF 1]
  show ?case
    by (subst HMergeDicts.simps, rule triple_pre [OF triple_fold [where P = "\<lambda>s. True"]],
        simp only: split_paired_all prod.case,
        intro vcg triple_writes triple_bind [OF triple_reads [OF reads_check_merge]]
          triple_bind [OF triple_entry_object] triple_bind [OF triple_update_dict] triple_update_dict
          triple_HMergeLists IH)
      (auto simp: valid_vars_def intro!: stables intro: MakePathRelative_wf split: if_splits)
qed

lemma triple_cond_merge: "triple J P (HMergeDicts env a fro tf ff) (\<lambda>u s. True)"
  by (rule triple_pre [OF triple_HMergeDicts]) simp

end

text \<open>The functions that are called keep it too; the variables have to be well formed.\<close>

locale kept_calls = kept +
  fixes C :: calls
  assumes expand: "triple J (\<lambda>s. valid_vars s vs) (call_expand C phase vs bf v) (\<lambda>r s. valid s r)"
    and list: "triple J (\<lambda>s. valid_vars s vs) (call_list C phase vs bf a i) (\<lambda>u s. True)"
    and dict: "triple J (\<lambda>s. valid_vars s vs) (call_dict C phase vs bf k v) (\<lambda>u s. True)"
begin

lemma call_triples:
  "(\<And>s. P s \<Longrightarrow> valid_vars s vs) \<Longrightarrow> triple J P (call_expand C phase vs bf v) (\<lambda>r s. valid s r)"
  "(\<And>s. P s \<Longrightarrow> valid_vars s vs) \<Longrightarrow> triple J P (call_list C phase vs bf a i) (\<lambda>u s. True)"
  "(\<And>s. P s \<Longrightarrow> valid_vars s vs) \<Longrightarrow> triple J P (call_dict C phase vs bf k v) (\<lambda>u s. True)"
  by (rule triple_pre [OF expand] triple_pre [OF list] triple_pre [OF dict], simp)+

lemmas call_begin = triple_bind [OF call_triples(1)] triple_bind [OF call_triples(2)] triple_bind [OF call_triples(3)]

lemma triple_replacement:
  assumes "\<And>s. P s \<Longrightarrow> valid_vars s vs" and "persistent P"
  shows "triple J P (process_replacement C phase vs bf contents v) (\<lambda>u s. True)"
proof -
  have item: "triple J P' (check_item contents x) (\<lambda>u s. True)" if "persistent P'" for P' x
    unfolding check_item_def by (intro vcg) (auto intro: that)
  show ?thesis
    unfolding process_replacement_def
    by (intro vcg call_triples triple_bind [OF triple_for [OF item]])
      (auto simp: assms intro!: stables assms(2))
qed

lemma triple_expand_match:
  assumes "\<And>s. P s \<Longrightarrow> valid_vars s vs" and "persistent P"
  shows "triple J P (expand_match E C phase vs bf m input_str) (\<lambda>r s. valid s r)"
proof -
  have strip: "reads (strip_contents v)" for v
    unfolding strip_contents_def by (cases v) (auto intro!: reads_bind reads_leaf reads_values)
  have lookup: "triple J P' (lookup_variable vs bf contents) (\<lambda>v s. valid s v)"
    if "\<And>s. P' s \<Longrightarrow> valid_vars s vs" "persistent P'" for P' contents
    unfolding lookup_variable_def
    by (intro vcg triple_writes) (auto intro: valid_vars_lookup that)
  have words: "triple J P' (cmap str_of items) (\<lambda>xs s. True)" for P' items
    by (rule triple_reads [OF reads_map]) (rule reads_values)
  show ?thesis
    unfolding expand_match_def expand_list_context_def expand_string_context_def
    by (intro vcg triple_writes triple_bind [OF triple_filtered] call_begin triple_bind [OF triple_reads [OF strip]]
        triple_bind [OF triple_write_file_list] triple_bind [OF triple_run_command] triple_bind [OF lookup]
        triple_bind [OF triple_replacement] triple_bind [OF words])
      (auto simp: assms intro!: stables assms(2))
qed

lemma triple_expand_matches:
  assumes "\<And>s. P s \<Longrightarrow> valid_vars s vs" and "persistent P" and "\<And>s. P s \<Longrightarrow> valid s v"
  shows "triple J P (expand_matches E C phase vs bf ms v) (\<lambda>r s. valid s r)"
  using assms
proof (induction ms arbitrary: v P)
  case (Cons m ms)
  show ?case
  proof (cases v)
    case (HStr x)
    show ?thesis
      unfolding HStr expand_matches.simps
    proof (rule triple_bind [OF triple_expand_match Cons.IH])
    qed (auto simp: Cons.prems(1) intro!: stables Cons.prems(2))
  qed (auto intro: vcg)
qed (auto intro!: triple_return)

lemma triple_expand_again:
  assumes "\<And>s. P s \<Longrightarrow> valid_vars s vs" and "persistent P" and "\<And>s. P s \<Longrightarrow> valid s v"
  shows "triple J P (expand_again C phase vs bf v) (\<lambda>r s. valid s r)"
  unfolding expand_again_def
  by (intro vcg triple_writes call_triples triple_bind [OF triple_map [OF call_triples(1)]])
    (auto simp: assms intro!: stables assms(2))

lemma triple_convert_output:
  assumes "persistent P" and "\<And>s. P s \<Longrightarrow> valid s v"
  shows "triple J P (convert_output v) (\<lambda>r s. valid s r)"
  unfolding convert_output_def
  by (intro vcg triple_writes)
    (auto simp: valid_class [symmetric] intro!: stables assms(1) dest: assms(2)
      intro: canonical_value_valid canonical_list_valid valid_class [THEN iffD2])

lemma triple_ExpandVariables:
  "triple J (\<lambda>s. valid_vars s vs) (ExpandVariables E C phase vs bf v) (\<lambda>r s. valid s r)"
  unfolding ExpandVariables_def
  by (intro vcg triple_bind [OF triple_expand_matches] triple_bind [OF triple_expand_again] triple_convert_output)
    (auto simp: canonical_int_def intro!: stables split: option.splits if_splits)

lemma triple_list_loop:
  "triple J (\<lambda>s. valid_vars s vs) (ProcessVariablesAndConditionsInList C phase vs bf a i) (\<lambda>u s. True)"
  unfolding ProcessVariablesAndConditionsInList_def
  by (intro vcg triple_writes call_triples call_begin)
    (auto intro!: stables dest: set_update_subset_insert [THEN subsetD] in_set_takeD in_set_dropD)

lemma triple_variable_value: "reads (variable_value v)"
  unfolding variable_value_def by (intro reads_bind reads_values reads_leaf)

lemma triple_automatic:
  assumes "\<And>s. P s \<Longrightarrow> valid_vars s vs \<and> valid_vars s d" and "persistent P"
  shows "triple J P (LoadAutomaticVariablesFromDict vs d) (\<lambda>r s. valid_vars s r)"
proof -
  have "triple J (\<lambda>s. valid_vars s d \<and> valid_vars s vs) (LoadAutomaticVariablesFromDict vs d) (\<lambda>r s. valid_vars s r)"
    unfolding LoadAutomaticVariablesFromDict_def
  proof (rule triple_fold, goal_cases)
    case (1 x vs)
    obtain k v where x: "x = (k, v)" by force
    show ?case
      unfolding x prod.case
      by (intro vcg triple_bind [OF triple_reads [OF triple_variable_value]])
        (use 1 x in \<open>auto intro!: stables intro: valid_vars_update valid_vars_entry\<close>)
  qed (intro stables)
  then show ?thesis by (rule triple_pre) (use assms(1) in auto)
qed

lemma triple_variables:
  assumes "\<And>s. P s \<Longrightarrow> valid_vars s vs \<and> valid_vars s d" and "persistent P"
  shows "triple J P (LoadVariablesFromVariablesDict vs d key) (\<lambda>r s. valid_vars s r)"
proof -
  have step: "triple J (\<lambda>s. (valid_vars s d \<and> valid_vars s e) \<and> valid_vars s vs)
      (load_variable d key x vs) (\<lambda>r s. valid_vars s r)" if "x \<in> set e" for x e vs
  proof -
    obtain k v where x: "x = (k, v)" by force
    show ?thesis
      unfolding load_variable_def x prod.case
      by (intro vcg triple_bind [OF triple_reads [OF triple_variable_value]])
        (use that x in \<open>auto simp: dict_get_def Let_def intro!: stables
          intro: valid_vars_update valid_vars_entry valid_vars_lookup split: option.splits\<close>)
  qed
  have fold: "triple J P' (cfold (load_variable d key) e vs) (\<lambda>r s. valid_vars s r)"
    if "\<And>s. P' s \<Longrightarrow> valid_vars s vs \<and> valid_vars s d \<and> valid_vars s e" for P' e
    by (rule triple_pre [OF triple_fold [where P = "\<lambda>s. valid_vars s d \<and> valid_vars s e", OF step]])
      (use that in \<open>auto intro!: stables\<close>)
  show ?thesis
    unfolding LoadVariablesFromVariablesDict_def
    by (intro vcg fold) (auto dest: assms(1) intro!: stables assms(2))
qed

lemma triple_reload:
  assumes "\<And>s. P s \<Longrightarrow> valid_vars s vs" and "persistent P"
  shows "triple J P (reload_variables vs key a) (\<lambda>r s. valid_vars s r)"
  unfolding reload_variables_def
  by (intro vcg triple_bind [OF triple_automatic] triple_variables)
    (auto dest: assms(1) intro!: stables assms(2))

lemma fold_update_valid:
  "valid_vars s vs \<Longrightarrow> valid_vars s d \<Longrightarrow> valid_vars s (fold (\<lambda>(key, value). AList.update key value) d vs)"
proof -
  have "\<forall>(k, v) \<in> set e. valid s v \<Longrightarrow> valid_vars s vs \<Longrightarrow>
      valid_vars s (fold (\<lambda>(key, value). AList.update key value) e vs)" for e
    by (induction e arbitrary: vs) auto
  then show "valid_vars s vs \<Longrightarrow> valid_vars s d \<Longrightarrow> ?thesis" using valid_vars_entry by blast
qed

lemma triple_variables_dict:
  assumes "\<And>s. P s \<Longrightarrow> valid_vars s vs" and "persistent P"
  shows "triple J P (process_variables_dict C phase vs bf a) (\<lambda>r s. valid_vars s r)"
  unfolding process_variables_dict_def
  by (intro vcg call_begin) (auto dest: assms(1) intro: fold_update_valid intro!: stables assms(2))

lemma triple_for_items:
  assumes "\<And>k v. triple J (\<lambda>s. P s \<and> valid s v) (f k v) (\<lambda>u s. True)" and "persistent P"
  shows "triple J P (for_items f a) (\<lambda>u s. True)"
  unfolding for_items_def
  by (intro vcg triple_for triple_pre [OF assms(1)])
    (auto intro: valid_vars_lookup intro!: stables assms(2))

lemma triple_conditions:
  assumes "\<And>s. P s \<Longrightarrow> valid_vars s vs" and "persistent P"
  shows "triple J P (ProcessConditionsInDict E C phase vs bf a) (\<lambda>u s. True)"
proof -
  have choose: "triple J P' (choose_dict E vs bf parts e) (\<lambda>r s. True)" for P' parts e
    by (rule triple_reads) (auto simp: choose_dict_def intro!: reads_bind reads_leaf reads_values
      split: hval.split sum.split py_error.split bool.split)
  have cond: "triple J P' (process_condition E C phase vs bf a key c) (\<lambda>u s. True)"
    if "\<And>s. P' s \<Longrightarrow> valid_vars s vs" "persistent P'" for P' key c
    unfolding process_condition_def
    by (intro vcg call_begin triple_bind [OF choose] triple_cond_merge)
      (auto dest: that(1) intro!: stables that(2))
  have iter: "reads (hiter v)" for v
    unfolding hiter_def
    by (cases v) (auto intro!: reads_bind reads_leaf reads_values split: obj.split)
  show ?thesis
    unfolding ProcessConditionsInDict_def
    by (intro vcg triple_writes triple_bind [OF triple_reads [OF iter]] triple_for cond)
      (auto dest: assms(1) intro!: stables assms(2))
qed

lemma triple_dict:
  "triple J (\<lambda>s. valid_vars s vs) (ProcessVariablesAndConditionsInDict E C phase vs bf key v) (\<lambda>u s. True)"
proof -
  have expand_entry: "triple J P (expand_entry C phase vs bf a k v) (\<lambda>u s. True)"
    if "\<And>s. P s \<Longrightarrow> valid_vars s vs" "persistent P" for P vs a k v
    unfolding expand_entry_def
    by (intro vcg call_begin triple_update_dict) (auto dest: that(1) intro!: stables that(2))
  have process_entry: "triple J P (process_entry C phase vs bf k v) (\<lambda>u s. True)"
    if "\<And>s. P s \<Longrightarrow> valid_vars s vs" "persistent P" for P vs k v
    unfolding process_entry_def
    by (intro vcg call_triples) (auto dest: that(1) intro!: stables that(2))
  show ?thesis
    unfolding ProcessVariablesAndConditionsInDict_def
    by (intro vcg triple_bind [OF triple_automatic] triple_bind [OF triple_variables_dict]
        triple_bind [OF triple_variables] triple_bind [OF triple_for_items] triple_bind [OF triple_reload]
        triple_bind [OF triple_conditions] triple_for_items expand_entry process_entry)
      (auto intro!: stables)
qed

end

lemma kept_calls_upto:
  assumes "kept E J"
  shows "kept_calls E J (calls_upto E n)"
proof (induction n)
  case 0
  from assms show ?case by (simp add: kept_calls_def kept_calls_axioms_def triple_raise)
next
  case (Suc n)
  from assms show ?case
    by (simp add: kept_calls_def kept_calls_axioms_def kept_calls.triple_ExpandVariables [OF Suc]
        kept_calls.triple_list_loop [OF Suc] kept_calls.triple_dict [OF Suc])
qed

text \<open>The heap alone.\<close>

interpretation heap: kept E "\<lambda>s. True"
  by unfold_locales simp_all

interpretation heap_calls: kept_calls E "\<lambda>s. True" "calls_upto E n"
  by (rule kept_calls_upto) unfold_locales

text \<open>
  The log of commands: no cache key has been run twice, and the cache has for it what that run gave
  after the commands before it.
\<close>

definition commands_once :: "expand_env \<Rightarrow> estate \<Rightarrow> bool" where
  "commands_once E s \<longleftrightarrow>
     distinct (map fst (commands s))
     \<and> (\<forall>i < length (commands s). let (key, c) = commands s ! i
          in map_of (cached_command_results s) key = outcome E (take i (commands s)) c \<and> outcome E (take i (commands s)) c \<noteq> None)"

lemma commands_once_run:
  assumes "commands_once E s" and "run_command E bf m contents s = Inr (x, t)"
  shows "commands_once E t"
  using assms(2)
proof (cases rule: run_command_Inr)
  case (run key c)
  have "key \<notin> fst ` set (commands s)"
  proof
    assume "key \<in> fst ` set (commands s)"
    then obtain i d where "i < length (commands s)" "commands s ! i = (key, d)"
      by (auto simp: in_set_conv_nth)
    with assms(1) run(1) show False by (auto simp: commands_once_def)
  qed
  with assms(1) run show ?thesis
    by (auto simp: commands_once_def nth_append less_Suc_eq map_of_update in_set_conv_nth image_iff
        split: prod.splits)
qed (use assms(1) in simp)

lemma commands_once_frame [simp]:
  "commands_once E (s\<lparr>cells := h\<rparr>) \<longleftrightarrow> commands_once E s"
  "commands_once E (s\<lparr>written := w\<rparr>) \<longleftrightarrow> commands_once E s"
  by (simp_all add: commands_once_def)

interpretation log: kept E "commands_once E"
  by unfold_locales (simp, simp, rule commands_once_run)

interpretation log_calls: kept_calls E "commands_once E" "calls_upto E n"
  by (rule kept_calls_upto) unfold_locales

end
