(* ===== verification/Gyp_Expand_Facts.thy ===== *)
theory Gyp_Expand_Facts
  imports Gyp_Expand_Logic
begin

text \<open>
  The properties of variable expansion: what every run keeps, what a string of references expands
  to, and how the dictionary of variables is filled.
\<close>

section \<open>What every run keeps\<close>

text \<open>
  Expanding a string and processing a list or a dictionary, with any commands, conditions and
  nested calls on the way, keeps the heap well formed: an object keeps its class, the addresses in
  an object and the result are those of objects, and the keys of every dictionary stay distinct.
\<close>

theorem expansion_keeps_heap:
  assumes "wf_heap s" and "valid_vars s variables"
  shows "(\<forall>r t. ExpandVariables E (calls_upto E n) phase variables bf v s = Inr (r, t)
        \<longrightarrow> wf_heap t \<and> extends s t \<and> valid t r)
    \<and> (\<forall>t. ProcessVariablesAndConditionsInList (calls_upto E n) phase variables bf a i s = Inr ((), t)
        \<longrightarrow> wf_heap t \<and> extends s t)
    \<and> (\<forall>t. ProcessVariablesAndConditionsInDict E (calls_upto E n) phase variables bf k v s = Inr ((), t)
        \<longrightarrow> wf_heap t \<and> extends s t)"
  by (intro conjI allI impI;
      drule tripleD [OF heap_calls.triple_ExpandVariables assms(1) TrueI assms(2)] tripleD [OF heap_calls.triple_list_loop assms(1) TrueI assms(2)]
        tripleD [OF heap_calls.triple_dict assms(1) TrueI assms(2)]; simp)

definition ex_nested :: estate where
  "ex_nested =
     \<lparr>cells = [OList [HStr ''<!(d)''], ODict [(''c'', HStr ''<!(d)''), (''s'', HRef 0)]],
      cached_command_results = [], commands = [], written = []\<rparr>"

definition ex_nested_end :: estate where
  "ex_nested_end =
     \<lparr>cells = [OList [HInt 0], ODict [(''c'', HInt 0), (''s'', HRef 0)]],
      cached_command_results = [(''d'', ''0'')],
      commands = [(''d'', Process (GStr ''d'') True None)], written = []\<rparr>"

lemma ex_nested_run:
  "ProcessVariablesAndConditionsInDict ex_expand (calls_upto ex_expand 3) PHASE_EARLY [] ''a.gyp'' None
     (HRef 1) ex_nested = Inr ((), ex_nested_end)"
  by code_simp

lemma ex_nested_wf: "wf_heap ex_nested" "valid_vars ex_nested []"
  by (simp_all add: wf_heap_def ex_nested_def valid_vars_def ex_variables_def valid_def wf_dict_def)

theorem expansion_keeps_heap_witness: "wf_heap ex_nested_end \<and> extends ex_nested ex_nested_end"
  using expansion_keeps_heap [OF ex_nested_wf, of ex_expand 3 PHASE_EARLY "''a.gyp''" "HRef 1" 0 0 None] ex_nested_run
  by blast

text \<open>
  C14: no command is run twice. Through expanding a string and processing a list or a dictionary the
  log of started commands has each cache key once, and the cache has for that key what the command
  printed when it was run, after the commands before it.
\<close>

theorem commands_run_once:
  assumes "wf_heap s" and "valid_vars s variables" and "commands_once E s"
  shows "(\<forall>r t. ExpandVariables E (calls_upto E n) phase variables bf v s = Inr (r, t) \<longrightarrow> commands_once E t)
    \<and> (\<forall>t. ProcessVariablesAndConditionsInList (calls_upto E n) phase variables bf a i s = Inr ((), t)
        \<longrightarrow> commands_once E t)
    \<and> (\<forall>t. ProcessVariablesAndConditionsInDict E (calls_upto E n) phase variables bf k v s = Inr ((), t)
        \<longrightarrow> commands_once E t)"
  by (intro conjI allI impI;
      drule tripleD [OF log_calls.triple_ExpandVariables assms(1,3,2)] tripleD [OF log_calls.triple_list_loop assms(1,3,2)]
        tripleD [OF log_calls.triple_dict assms(1,3,2)]; simp)

theorem commands_run_once_witness: "commands_once ex_expand ex_nested_end"
proof -
  have "commands_once ex_expand ex_nested" by (simp add: commands_once_def ex_nested_def)
  from commands_run_once [OF ex_nested_wf this, of 3 PHASE_EARLY "''a.gyp''" "HRef 1" 0 0 None] ex_nested_run
  show ?thesis by blast
qed

end
