(* ===== verification/Gyp_Template.thy ===== *)
theory Gyp_Template
  imports Gyp_Expand_Fuel
begin

text \<open>
  What \<open>ExpandVariables\<close> computes on a string of literal text and references to variables: one pass
  replaces every reference, from right to left, and the result is expanded again.
\<close>

section \<open>A string of references\<close>

text \<open>
  The text of literal parts, each followed by a reference to a variable, and what it becomes when
  every reference is replaced by the text of a string or an integer.
\<close>

definition reference :: "phase \<Rightarrow> string \<Rightarrow> string" where
  "reference phase name = expansion_symbol phase # CHR ''('' # name @ '')''"

lemma length_reference: "length (reference phase name) = length name + 3"
  by (simp add: reference_def)

definition template :: "phase \<Rightarrow> (string \<times> string) list \<Rightarrow> string \<Rightarrow> string" where
  "template phase parts end = concat (map (\<lambda>(lit, name). lit @ reference phase name) parts) @ end"

definition value_text :: "hdict \<Rightarrow> string \<Rightarrow> string" where
  "value_text variables name =
     (case map_of variables name of Some (HStr x) \<Rightarrow> x | Some (HInt i) \<Rightarrow> show_int i | _ \<Rightarrow> [])"

definition substituted :: "hdict \<Rightarrow> (string \<times> string) list \<Rightarrow> string \<Rightarrow> string" where
  "substituted variables parts end = concat (map (\<lambda>(lit, name). lit @ value_text variables name) parts) @ end"

text \<open>A name is a word that is not the text of an integer.\<close>

definition plain_name :: "string \<Rightarrow> bool" where
  "plain_name name \<longleftrightarrow> name \<noteq> [] \<and> list_all command_char name \<and> \<not> IsStrCanonicalInt name"

definition plain_parts :: "phase \<Rightarrow> (string \<times> string) list \<Rightarrow> bool" where
  "plain_parts phase parts \<longleftrightarrow>
     list_all (\<lambda>(lit, name). expansion_symbol phase \<notin> set lit \<and> plain_name name) parts"

lemma command_char_plain:
  assumes "command_char c"
  shows "\<not> is_bracket c" "\<not> is_space c" "c \<noteq> expansion_symbol phase" "c \<noteq> CHR '')''" "c \<noteq> CHR 0x0A" "c \<noteq> CHR ''[''"
    "c \<noteq> CHR ''!''" "c \<noteq> CHR ''/''"
  using assms
  by (cases phase; auto simp: command_char_def between_def is_digit_def is_bracket_def LBRACKETS_def BRACKETS_def is_space_def less_eq_char_def
      split: if_splits)+

lemma symbol_plain:
  "\<not> is_bracket (expansion_symbol phase)" "expansion_symbol phase \<noteq> CHR ''-''" "\<not> is_digit (expansion_symbol phase)"
  "expansion_symbol phase \<noteq> CHR 0x0A" "expansion_symbol phase \<notin> {CHR ''!'', CHR ''|'', CHR ''@''}"
  by (cases phase; simp add: is_bracket_def LBRACKETS_def BRACKETS_def is_digit_code)+

subsection \<open>Finding the references\<close>

definition match_at :: "phase \<Rightarrow> nat \<Rightarrow> var_match" where
  "match_at phase pos =
     \<lparr>match_start = pos, match_type = [expansion_symbol phase], command_string = [], is_array = False\<rparr>"

fun matches_of :: "phase \<Rightarrow> nat \<Rightarrow> (string \<times> string) list \<Rightarrow> var_match list" where
  "matches_of phase pos [] = []"
| "matches_of phase pos ((lit, name) # parts) =
     match_at phase (pos + length lit) # matches_of phase (pos + length lit + length name + 3) parts"

lemma match_here_other: "c \<noteq> symbol \<Longrightarrow> match_here symbol pos (c # s) = None"
  by (simp add: match_here_def)

lemma find_matches_literal:
  "symbol \<notin> set lit \<Longrightarrow> find_matches symbol pos (lit @ s) = find_matches symbol (pos + length lit) s"
proof (induction lit arbitrary: pos)
  case (Cons c lit)
  have "find_matches symbol pos (c # lit @ s) = find_matches symbol (pos + 1) (lit @ s)"
    using Cons.prems by (subst find_matches.simps) (auto simp: match_here_other)
  with Cons show ?case by simp
qed simp

lemma match_here_reference:
  assumes "plain_name name"
  shows "match_here (expansion_symbol phase) pos (reference phase name @ s) = Some (match_at phase pos, s)"
proof -
  from assms obtain c cs where name: "name = c # cs" "command_char c" "\<forall>x \<in> set name. command_char x"
    by (cases name) (auto simp: plain_name_def list_all_iff)
  have "dropWhile (\<lambda>c. c \<noteq> CHR '')'' \<and> c \<noteq> CHR 0x0A) (name @ CHR '')'' # s) = CHR '')'' # s"
    using name(3) command_char_plain by (subst dropWhile_append2) auto
  moreover have "\<not> command_char CHR ''(''" by (simp add: command_char_def between_def is_digit_def less_eq_char_def)
  ultimately show ?thesis
    using command_char_plain [OF name(2)]
    by (simp add: match_here_def reference_def match_type_of_def optional_def match_at_def name(1))
qed

lemma find_matches_template:
  "plain_parts phase parts \<Longrightarrow> expansion_symbol phase \<notin> set end \<Longrightarrow>
   find_matches (expansion_symbol phase) pos (template phase parts end) = matches_of phase pos parts"
proof (induction parts arbitrary: pos)
  case Nil
  then show ?case
    using find_matches_literal [of _ "end" pos "[]"] by (simp add: template_def find_matches.simps)
next
  case (Cons p parts)
  obtain lit name where p: "p = (lit, name)" by force
  with Cons.prems have lit: "expansion_symbol phase \<notin> set lit" "plain_name name" by (simp_all add: plain_parts_def)
  have "reference phase name @ template phase parts end \<noteq> []" by (simp add: reference_def)
  then have "find_matches (expansion_symbol phase) q (reference phase name @ template phase parts end)
      = match_at phase q # find_matches (expansion_symbol phase) (q + length (reference phase name)) (template phase parts end)" for q
    by (subst find_matches.simps) (simp add: match_here_reference [OF lit(2)])
  with Cons p lit show ?case
    by (simp add: template_def find_matches_literal plain_parts_def) (simp add: reference_def eval_nat_numeral)
qed

subsection \<open>Replacing one reference\<close>

lemma enclosing_reference:
  assumes "plain_name name"
  shows "FindEnclosingBracketGroup (reference phase name @ s) = (1, int (length name) + 3)"
proof -
  have pair: "bracket_pair CHR ''('' CHR '')''" by (simp add: bracket_pair_def BRACKETS_def)
  have "nested xs" if "list_all command_char xs" for xs
    using that command_char_plain(1) by (induction xs) (auto intro: nested.intros)
  with assms have name: "nested name" by (simp add: plain_name_def)
  show ?thesis
    by (simp add: FindEnclosingBracketGroup_def reference_def bracket_plain [OF symbol_plain(1)]
        bracket_open [OF pair] bracket_nested [OF name] bracket_close [OF pair])
qed

lemma expand_plain:
  "expansion_symbol phase \<notin> set x \<Longrightarrow> \<not> IsStrCanonicalInt x \<Longrightarrow>
   ExpandVariables E C phase vs bf (HStr x) s = Inr (HStr x, s)"
  by (simp add: ExpandVariables_def str_of_def cbind_def read_tree_def clift_def creturn_def)

lemma name_facts:
  assumes "plain_name name"
  shows "expansion_symbol phase \<notin> set name" "strip name = name" "last name \<notin> {CHR ''!'', CHR ''/''}"
    "name \<noteq> []" "\<not> IsStrCanonicalInt name"
proof -
  from assms have c: "\<forall>c \<in> set name. command_char c" "name \<noteq> []" "\<not> IsStrCanonicalInt name"
    by (auto simp: plain_name_def list_all_iff)
  with command_char_plain(2,3) show "expansion_symbol phase \<notin> set name" "strip name = name" "name \<noteq> []"
    "\<not> IsStrCanonicalInt name" by (auto intro: strip_id)
  from c have "command_char (last name)" by simp
  with command_char_plain(7,8) show "last name \<notin> {CHR ''!'', CHR ''/''}" by blast
qed

lemma expand_match_reference:
  assumes "plain_name name" and "\<And>v. map_of vs name = Some v \<Longrightarrow> hscalar v"
  shows "expand_match E (calls_upto E (Suc n)) phase vs bf (match_at phase (length pre)) (pre @ reference phase name @ post) s
    = (if map_of vs name = None then Inl (GypError (''Undefined variable '' @ name @ '' in '' @ bf))
       else Inr (HStr (pre @ value_text vs name @ post), s))"
proof -
  let ?text = "pre @ reference phase name @ post"
  have slice: "py_slice ?text (2 + int (length pre)) (2 + (int (length pre) + int (length name))) = name"
    "slice_index ?text (int (length pre) + (int (length name) + 3)) = length pre + (length name + 3)"
    by (auto simp: py_slice_def slice_index_def reference_def nat_add_distrib)
  have type: "CHR ''!'' \<notin> set (match_type (match_at phase p))" "CHR ''|'' \<notin> set (match_type (match_at phase p))"
    "CHR ''@'' \<notin> set (match_type (match_at phase p))" "match_start (match_at phase p) = p" for p
    using symbol_plain(5) [of phase] by (auto simp: match_at_def)
  have until: "expand_match E (calls_upto E (Suc n)) phase vs bf (match_at phase (length pre)) ?text s
    = cbind (lookup_variable vs bf name) (\<lambda>replacement.
      cbind (process_replacement (calls_upto E (Suc n)) phase vs bf name replacement) (\<lambda>_.
      cbind (object_of replacement) (expand_string_context ?text (length pre) (int (length pre) + (int (length name) + 3)) replacement))) s"
    using name_facts(1) [OF assms(1), of phase] name_facts(2-5) [OF assms(1)]
    by (simp add: expand_match_def type enclosing_reference [OF assms(1)] slice Let_def cbind_def creturn_def expand_plain
        strip_contents_def)
  show ?thesis
  proof (cases "map_of vs name")
    case None
    with name_facts(3,4) [OF assms(1)] show ?thesis
      by (simp add: until lookup_variable_def cbind_def clift_def)
  next
    case (Some v)
    with assms(2) have "hscalar v" by simp
    with Some show ?thesis
      unfolding until
      by (cases v) (simp_all add: lookup_variable_def cbind_def creturn_def process_replacement_def object_of_def
          expand_string_context_def str_of_def read_tree_def clift_def value_text_def slice length_reference)
  qed
qed

subsection \<open>Replacing all of them\<close>

text \<open>A template up to its last reference, the rest already replaced.\<close>

lemma template_snoc: "template phase (parts @ [(lit, name)]) end = template phase parts (lit @ reference phase name @ end)"
  by (simp add: template_def)

lemma matches_snoc:
  "matches_of phase pos (parts @ [(lit, name)]) =
     matches_of phase pos parts @ [match_at phase (pos + length (template phase parts lit))]"
  by (induction parts arbitrary: pos) (auto simp: template_def reference_def eval_nat_numeral ac_simps)

lemma expand_matches_template:
  assumes "plain_parts phase parts" and "\<forall>(lit, name) \<in> set parts. \<exists>v. map_of vs name = Some v \<and> hscalar v"
  shows "expand_matches E (calls_upto E (Suc n)) phase vs bf (rev (matches_of phase 0 parts))
      (HStr (template phase parts end)) s = Inr (HStr (substituted vs parts end), s)"
  using assms
proof (induction parts arbitrary: "end" rule: rev_induct)
  case Nil
  then show ?case by (simp add: template_def substituted_def creturn_def)
next
  case (snoc p parts)
  obtain lit name where p: "p = (lit, name)" by force
  with snoc.prems have name: "plain_name name" "\<exists>v. map_of vs name = Some v \<and> hscalar v" by (auto simp: plain_parts_def)
  have t: "template phase (parts @ [(lit, name)]) end = template phase parts lit @ reference phase name @ end"
    "template phase parts (lit @ x) = template phase parts lit @ x" for x
    by (simp_all add: template_def)
  have step: "expand_match E (calls_upto E (Suc n)) phase vs bf (match_at phase (length (template phase parts lit)))
      (template phase parts lit @ reference phase name @ end) s
    = Inr (HStr (template phase parts lit @ value_text vs name @ end), s)"
    using name by (subst expand_match_reference) auto
  from snoc.IH [of "lit @ value_text vs name @ end"] snoc.prems show ?case
    by (simp add: p t matches_snoc cbind_def step plain_parts_def substituted_def)
qed

lemma template_text:
  assumes "plain_parts phase parts" and "parts \<noteq> []"
  shows "expansion_symbol phase \<in> set (template phase parts end)" "\<not> IsStrCanonicalInt (template phase parts end)"
    "matches_of phase pos parts \<noteq> []"
proof -
  obtain lit name ps where parts: "parts = (lit, name) # ps" using assms(2) by (cases parts) auto
  then show sym: "expansion_symbol phase \<in> set (template phase parts end)" "matches_of phase pos parts \<noteq> []"
    by (simp_all add: template_def reference_def)
  have "expansion_symbol phase \<notin> set x" if "IsStrCanonicalInt x" for x
    using canonical_chars [OF that] symbol_plain(2-4) [of phase] by blast
  with sym(1) show "\<not> IsStrCanonicalInt (template phase parts end)" by blast
qed

text \<open>What \<open>ExpandVariables\<close> returns has no canonical integer left in it as a string.\<close>

lemma canonical_value_twice: "canonical_value v = Inr w \<Longrightarrow> canonical_value w = Inr w"
  by (auto simp: canonical_value_def canonical_int_def split: hval.splits if_splits option.splits)

lemma canonical_value_ref: "canonical_value v = Inr (HRef a) \<Longrightarrow> v = HRef a"
  by (auto simp: canonical_value_def canonical_int_def split: hval.splits if_splits option.splits)

lemma canonical_list_twice: "rmap canonical_value l = Inr xs \<Longrightarrow> rmap canonical_value xs = Inr xs"
  by (induction l arbitrary: xs) (auto dest: canonical_value_twice)

lemma convert_output_twice: "convert_output v s = Inr (r, t) \<Longrightarrow> convert_output r t = Inr (r, t)"
proof (cases v)
  case (HRef a)
  assume run: "convert_output v s = Inr (r, t)"
  show ?thesis
  proof (cases "a < length (cells s)")
    case True
    with run HRef show ?thesis
      by (cases "cells s ! a")
        (auto simp: convert_output_def object_at_def set_object_def cbind_def creturn_def clift_def canonical_list_twice
          split: if_splits sum.splits)
  qed (use run HRef in \<open>simp add: convert_output_def object_at_def cbind_def\<close>)
qed (auto simp: convert_output_def dest: canonical_value_twice canonical_value_ref split: hval.splits)

lemma expanded_converted:
  assumes "ExpandVariables E C phase vs bf v s = Inr (r, t)"
  shows "convert_output r t = Inr (r, t)"
proof -
  from assms consider "\<exists>x. r = HStr x \<and> \<not> IsStrCanonicalInt x" | "\<exists>i. r = HInt i"
    | w u where "convert_output w u = Inr (r, t)"
    by (auto simp: ExpandVariables_def canonical_int_def Let_def split: if_splits option.splits)
  then show ?thesis
  proof cases
    case (3 w u)
    then show ?thesis by (rule convert_output_twice)
  qed (auto simp: convert_output_def canonical_value_def clift_def)
qed

text \<open>
  C5: a string of literal text and references to variables whose values are strings or integers
  expands as the string in which every reference has been replaced by the text of its value; this
  holds for every result, exceptions included, so values may contain references in their turn.
\<close>

theorem ExpandVariables_template:
  assumes "plain_parts phase parts" and "parts \<noteq> []" and "expansion_symbol phase \<notin> set end"
    and "\<forall>(lit, name) \<in> set parts. \<exists>v. map_of variables name = Some v \<and> hscalar v"
  shows "ExpandVariables E (calls_upto E (Suc n)) phase variables bf (HStr (template phase parts end)) s
    = ExpandVariables E (calls_upto E n) phase variables bf (HStr (substituted variables parts end)) s"
proof -
  have again: "expand_again (calls_upto E (Suc n)) phase variables bf (HStr x) s
      = ExpandVariables E (calls_upto E n) phase variables bf (HStr x) s" for x
    by (simp add: expand_again_def object_of_def cbind_def creturn_def)
  have "ExpandVariables E (calls_upto E (Suc n)) phase variables bf (HStr (template phase parts end)) s
    = rbind (ExpandVariables E (calls_upto E n) phase variables bf (HStr (substituted variables parts end)) s)
        (\<lambda>(r, t). convert_output r t)"
    using template_text(1,2) [OF assms(1,2), of "end"] template_text(3) [OF assms(1,2), of 0] find_matches_template [OF assms(1,3), of 0]
      expand_matches_template [OF assms(1,4), of E n bf "end" s] again
    by (simp add: ExpandVariables_def [of E "calls_upto E (Suc n)"] str_of_def read_tree_def clift_def cbind_def)
  also have "\<dots> = ExpandVariables E (calls_upto E n) phase variables bf (HStr (substituted variables parts end)) s"
    by (cases "ExpandVariables E (calls_upto E n) phase variables bf (HStr (substituted variables parts end)) s")
      (auto dest: expanded_converted)
  finally show ?thesis .
qed

lemma ex_template: "template PHASE_EARLY [(''lib'', ''os''), (''-'', ''os'')] ''.c'' = ''lib<(os)-<(os).c''"
  "substituted ex_variables [(''lib'', ''os''), (''-'', ''os'')] ''.c'' = ''liblinux-linux.c''"
  "plain_parts PHASE_EARLY [(''lib'', ''os''), (''-'', ''os'')]"
  by code_simp+

theorem ExpandVariables_template_witness:
  "ExpandVariables ex_expand (calls_upto ex_expand 1) PHASE_EARLY ex_variables ''a.gyp'' (HStr ''lib<(os)-<(os).c'') ex_state
    = Inr (HStr ''liblinux-linux.c'', ex_state)"
proof -
  have "ExpandVariables ex_expand (calls_upto ex_expand 0) PHASE_EARLY ex_variables ''a.gyp'' (HStr ''liblinux-linux.c'') ex_state
      = Inr (HStr ''liblinux-linux.c'', ex_state)" by code_simp
  then show ?thesis
    using ExpandVariables_template [OF ex_template(3), of "''.c''" ex_variables ex_expand 0 "''a.gyp''" ex_state]
    unfolding ex_template by (simp add: ex_variables_def)
qed

text \<open>
  If the rightmost reference of a string names no variable, expansion ends with the error that
  names the variable and the build file, whatever stands before it.
\<close>

theorem ExpandVariables_undefined:
  assumes "plain_parts phase parts" and "plain_name name"
    and "expansion_symbol phase \<notin> set lit" and "expansion_symbol phase \<notin> set end"
    and "map_of variables name = None"
  shows "ExpandVariables E (calls_upto E (Suc n)) phase variables bf
      (HStr (template phase (parts @ [(lit, name)]) end)) s
    = Inl (GypError (''Undefined variable '' @ name @ '' in '' @ bf))"
proof -
  have parts: "plain_parts phase (parts @ [(lit, name)])" using assms(1-3) by (simp add: plain_parts_def)
  have t: "template phase (parts @ [(lit, name)]) end = template phase parts lit @ reference phase name @ end"
    by (simp add: template_def)
  have "expand_match E (calls_upto E (Suc n)) phase variables bf (match_at phase (length (template phase parts lit)))
      (template phase (parts @ [(lit, name)]) end) s = Inl (GypError (''Undefined variable '' @ name @ '' in '' @ bf))"
    unfolding t using assms(2,5) by (subst expand_match_reference) auto
  then show ?thesis
    using template_text(1,2) [OF parts, of "end"] find_matches_template [OF parts assms(4), of 0]
    by (simp add: ExpandVariables_def [of E "calls_upto E (Suc n)"] str_of_def read_tree_def clift_def cbind_def
        matches_snoc Let_def)
qed

theorem ExpandVariables_undefined_witness:
  "ExpandVariables ex_expand (calls_upto ex_expand 1) PHASE_EARLY ex_variables ''a.gyp'' (HStr ''<(os)-<(cpu)'') ex_state
    = Inl (GypError ''Undefined variable cpu in a.gyp'')"
proof -
  have t: "template PHASE_EARLY ([([], ''os'')] @ [(''-'', ''cpu'')]) [] = ''<(os)-<(cpu)''"
    "plain_parts PHASE_EARLY [([], ''os'')]" "plain_name ''cpu''" by code_simp+
  show ?thesis
    using ExpandVariables_undefined [OF t(2,3), of "''-''" "[]" ex_variables ex_expand 0 "''a.gyp''" ex_state]
    unfolding t(1) by (simp add: ex_variables_def)
qed

end
