(* ===== verification/Gyp_Variables.thy ===== *)
theory Gyp_Variables
  imports Gyp_Expand
begin

text \<open>
  What \<open>LoadVariablesFromVariablesDict\<close> leaves in the dictionary of variables, stated without its
  loop: the order in which it meets the keys does not matter.
\<close>

definition is_variable :: "estate \<Rightarrow> hval \<Rightarrow> bool" where
  "is_variable s v \<longleftrightarrow> variable_value v s = Inr (True, s)"

definition default_key :: "string \<Rightarrow> bool" where
  "default_key k \<longleftrightarrow> k \<noteq> [] \<and> last k = CHR ''%''"

text \<open>The value of \<open>x\<close>: its own entry, else what it had, else its default.\<close>

definition loaded_value ::
  "estate \<Rightarrow> hdict \<Rightarrow> string option \<Rightarrow> hdict \<Rightarrow> hdict \<Rightarrow> string \<Rightarrow> hval option" where
  "loaded_value s the_dict the_dict_key d variables x =
     (if \<not> default_key x \<and> (\<exists>v. map_of d x = Some v \<and> is_variable s v) then map_of d x
      else if map_of variables x \<noteq> None then map_of variables x
      else case map_of d (x @ ''%'') of
        None \<Rightarrow> None
      | Some v \<Rightarrow>
          if \<not> is_variable s v then None
          else if the_dict_key = Some ''variables'' then Some (dict_get the_dict x v) else Some v)"

lemma variable_value_reads: "variable_value v s = Inr (b, t) \<Longrightarrow> t = s \<and> b = is_variable s v"
  by (auto simp: variable_value_def is_variable_def hclass_def object_at_def split: hval.splits if_splits)

lemma load_variable_step:
  assumes "load_variable the_dict key (k, v) vs s = Inr (vs', t)"
  shows "t = s \<and> map_of vs' =
    (if \<not> is_variable s v then map_of vs
     else if default_key k
     then (if map_of vs (butlast k) \<noteq> None then map_of vs
           else (map_of vs)(butlast k \<mapsto> (if key = Some ''variables'' then dict_get the_dict (butlast k) v else v)))
     else (map_of vs)(k \<mapsto> v))"
  using assms variable_value_reads [of v s]
  by (auto simp: load_variable_def default_key_def has_key_iff map_of_update Let_def)

lemma default_key_append: "k = x @ ''%'' \<longleftrightarrow> default_key k \<and> butlast k = x"
  by (auto simp: default_key_def) (metis append_butlast_last_id)

lemma load_variables_loop:
  assumes "cfold (load_variable the_dict key) d vs s = Inr (vs', t)" and "wf_dict d"
  shows "t = s \<and> map_of vs' x = loaded_value s the_dict key d vs x"
  using assms
proof (induction d arbitrary: vs)
  case (Cons p d)
  obtain k v where p: "p = (k, v)" by force
  with Cons.prems obtain vs1 s1 where run: "load_variable the_dict key (k, v) vs s = Inr (vs1, s1)"
    "cfold (load_variable the_dict key) d vs1 s1 = Inr (vs', t)"
    by auto
  with load_variable_step [OF run(1)] have step: "load_variable the_dict key (k, v) vs s = Inr (vs1, s)"
    and rest: "cfold (load_variable the_dict key) d vs1 s = Inr (vs', t)" by simp_all
  from Cons.prems p have d: "wf_dict d" "map_of d k = None" by (auto simp: wf_dict_def map_of_eq_None_iff)
  note vs1 = load_variable_step [OF step, THEN conjunct2]
  have "loaded_value s the_dict key d vs1 x = loaded_value s the_dict key ((k, v) # d) vs x"
  proof (cases "is_variable s v")
    case False
    with vs1 d(2) show ?thesis by (auto simp: loaded_value_def)
  next
    case v: True
    show ?thesis
    proof (cases "default_key k")
      case False
      then have "x @ ''%'' \<noteq> k" using default_key_append [of k x] by auto
      with False v vs1 d(2) show ?thesis by (cases "x = k") (auto simp: loaded_value_def)
    next
      case True
      then obtain y where k: "k = y @ ''%''" using default_key_append [of k "butlast k"] by blast
      with True v vs1 d(2) show ?thesis
        by (cases "x = y"; cases "map_of vs y"; cases "x = k") (auto simp: loaded_value_def)
    qed
  qed
  with Cons.IH [OF rest d(1)] show ?case by (simp add: p)
qed (simp add: loaded_value_def)

text \<open>
  C21: a variable takes the value of its own entry in the variables dictionary; one without an entry
  keeps the value it had; one that had none takes its default, the entry with a percent sign, or
  inside a variables dictionary the value set there. The order of the entries does not matter.
\<close>

theorem LoadVariables_values:
  assumes "LoadVariablesFromVariablesDict variables the_dict the_dict_key s = Inr (variables', t)"
    and "map_of the_dict ''variables'' = Some (HRef b)" and "b < length (cells s)"
    and "cells s ! b = ODict d" and "wf_dict d"
  shows "t = s \<and> map_of variables' = loaded_value s the_dict the_dict_key d variables"
proof -
  from assms(1-4) have "cfold (load_variable the_dict the_dict_key) d variables s = Inr (variables', t)"
    by (auto simp: LoadVariablesFromVariablesDict_def address_of_def dict_at_def object_at_def)
  from load_variables_loop [OF this assms(5)] show ?thesis by (simp add: fun_eq_iff)
qed

definition ex_defaults :: estate where
  "ex_defaults =
     \<lparr>cells = [ODict [(''os%'', HStr ''mac''), (''cpu%'', HStr ''ia32''), (''os'', HStr ''win''), (''d'', HRef 0)]],
      cached_command_results = [], commands = [], written = []\<rparr>"

theorem LoadVariables_values_witness:
  "map_of [(''cpu'', HStr ''arm''), (''os'', HStr ''win'')]
    = loaded_value ex_defaults [(''variables'', HRef 0)] None
        [(''os%'', HStr ''mac''), (''cpu%'', HStr ''ia32''), (''os'', HStr ''win''), (''d'', HRef 0)] [(''cpu'', HStr ''arm'')]"
proof -
  have run: "LoadVariablesFromVariablesDict [(''cpu'', HStr ''arm'')] [(''variables'', HRef 0)] None ex_defaults
      = Inr ([(''cpu'', HStr ''arm''), (''os'', HStr ''win'')], ex_defaults)"
    by code_simp
  have b: "0 < length (cells ex_defaults)" "cells ex_defaults ! 0
      = ODict [(''os%'', HStr ''mac''), (''cpu%'', HStr ''ia32''), (''os'', HStr ''win''), (''d'', HRef 0)]"
    by (simp_all add: ex_defaults_def)
  show ?thesis using LoadVariables_values [OF run _ b] by (simp add: wf_dict_def)
qed

end
