(* ===== verification/Gyp_Options.thy ===== *)
theory Gyp_Options
  imports Gyp_Common Gyp_Value Py_Shlex Py_Int
begin

text \<open>
  \<open>tools/gyp/pylib/gyp/__init__.py\<close>: the options of the command line, and the flags that a generator
  writes into a build file so that \<open>gyp\<close> can be run again with the same options. Parsing is
  \<open>optparse\<close>'s; the flags are read back here by its rules for one flag. Warnings are left out.
\<close>

section \<open>Values on the command line\<close>

text \<open>\<open>s.split(c, 1)\<close>, where it has two parts.\<close>

definition split_first :: "char \<Rightarrow> string \<Rightarrow> (string \<times> string) option" where
  "split_first c s =
     (if c \<in> set s then Some (takeWhile (\<lambda>x. x \<noteq> c) s, tl (dropWhile (\<lambda>x. x \<noteq> c) s)) else None)"

text \<open>\<open>True\<close> is \<open>GOther ''bool'' True\<close>.\<close>

definition name_value :: "string \<Rightarrow> string \<times> gval" where
  "name_value item =
     (case split_first CHR ''='' item of
        Some (name, v) \<Rightarrow> (name, case parse_int v of Some i \<Rightarrow> GInt i | None \<Rightarrow> GStr v)
      | None \<Rightarrow> (item, GOther ''bool'' True))"

definition NameValueListToDict :: "string list \<Rightarrow> gdict" where
  "NameValueListToDict name_value_list =
     fold (\<lambda>item result. let (name, v) = name_value item in AList.update name v result) name_value_list []"

type_synonym environment = "string \<Rightarrow> string option"

definition ShlexEnv :: "environment \<Rightarrow> string \<Rightarrow> string list result" where
  "ShlexEnv environ env_name =
     (case environ env_name of None \<Rightarrow> Inr [] | Some flags \<Rightarrow> if flags = [] then Inr [] else shlex_split flags)"

definition FormatOpt :: "string \<Rightarrow> string \<Rightarrow> string" where
  "FormatOpt opt v = (if prefix ''--'' opt then opt @ ''='' @ v else opt @ v)"

section \<open>Options\<close>

text \<open>
  What \<open>parse_args\<close> returns. A list option that was not given is \<open>[]\<close>, which the code treats like
  \<open>None\<close>, and a switch that was not given is \<open>False\<close>.
\<close>

record gyp_options =
  opt_defines :: "string list"
  opt_formats :: "string list"
  opt_msvs_version :: "string option"
  opt_includes :: "string list"
  opt_depth :: "string option"
  opt_debug :: "string list"
  opt_suffix :: string
  opt_generator_flags :: "string list"
  opt_generator_output :: "string option"
  opt_use_environment :: bool
  opt_check :: bool
  opt_parallel :: bool
  opt_toplevel_dir :: "string option"
  opt_configs :: "string list"
  opt_circular_check :: bool

datatype opt_value = ONone | OStr string | OList "string list" | OBool bool

definition opt_str :: "string option \<Rightarrow> opt_value" where
  "opt_str v = (case v of None \<Rightarrow> ONone | Some s \<Rightarrow> OStr s)"

text \<open>\<open>getattr(options, name)\<close>\<close>

definition option_values :: "gyp_options \<Rightarrow> (string \<times> opt_value) list" where
  "option_values opts =
     [(''defines'', OList (opt_defines opts)), (''formats'', OList (opt_formats opts)),
      (''msvs_version'', opt_str (opt_msvs_version opts)), (''includes'', OList (opt_includes opts)),
      (''depth'', opt_str (opt_depth opts)), (''debug'', OList (opt_debug opts)),
      (''suffix'', OStr (opt_suffix opts)), (''generator_flags'', OList (opt_generator_flags opts)),
      (''generator_output'', opt_str (opt_generator_output opts)),
      (''use_environment'', OBool (opt_use_environment opts)), (''check'', OBool (opt_check opts)),
      (''parallel'', OBool (opt_parallel opts)), (''toplevel_dir'', opt_str (opt_toplevel_dir opts)),
      (''configs'', OList (opt_configs opts)), (''circular_check'', OBool (opt_circular_check opts))]"

definition option_value :: "gyp_options \<Rightarrow> string \<Rightarrow> opt_value result" where
  "option_value opts name =
     (case map_of (option_values opts) name of None \<Rightarrow> Inl (AttributeError name) | Some v \<Rightarrow> Inr v)"

datatype opt_action = Append | Store | StoreTrue | StoreFalse

record option_metadata =
  opt_action :: opt_action
  opt_is_path :: bool
  opt_env_name :: "string option"
  opt_flag :: string

text \<open>The arguments of \<open>add_option\<close>: the first flag, \<open>dest\<close>, \<open>regenerate\<close> and the rest of the metadata.\<close>

type_synonym option_spec = "string option \<times> bool \<times> option_metadata"

definition add_option :: "option_spec \<Rightarrow> (string \<times> option_metadata) list \<Rightarrow> (string \<times> option_metadata) list" where
  "add_option = (\<lambda>(dest, regenerate, metadata) options.
     case dest of Some d \<Rightarrow> if regenerate then AList.update d metadata options else options | None \<Rightarrow> options)"

definition the_options :: "option_spec list" where
  "the_options =
     [(Some ''defines'', True, \<lparr>opt_action = Append, opt_is_path = False, opt_env_name = Some ''GYP_DEFINES'', opt_flag = ''-D''\<rparr>),
      (Some ''formats'', False, \<lparr>opt_action = Append, opt_is_path = False, opt_env_name = Some ''GYP_GENERATORS'', opt_flag = ''-f''\<rparr>),
      (Some ''msvs_version'', False, \<lparr>opt_action = Store, opt_is_path = False, opt_env_name = None, opt_flag = ''--msvs-version''\<rparr>),
      (Some ''includes'', True, \<lparr>opt_action = Append, opt_is_path = True, opt_env_name = None, opt_flag = ''-I''\<rparr>),
      (Some ''depth'', True, \<lparr>opt_action = Store, opt_is_path = True, opt_env_name = None, opt_flag = ''--depth''\<rparr>),
      (Some ''debug'', True, \<lparr>opt_action = Append, opt_is_path = False, opt_env_name = None, opt_flag = ''-d''\<rparr>),
      (Some ''suffix'', True, \<lparr>opt_action = Store, opt_is_path = False, opt_env_name = None, opt_flag = ''-S''\<rparr>),
      (Some ''generator_flags'', True, \<lparr>opt_action = Append, opt_is_path = False, opt_env_name = Some ''GYP_GENERATOR_FLAGS'', opt_flag = ''-G''\<rparr>),
      (Some ''generator_output'', True, \<lparr>opt_action = Store, opt_is_path = True, opt_env_name = Some ''GYP_GENERATOR_OUTPUT'', opt_flag = ''--generator-output''\<rparr>),
      (Some ''use_environment'', False, \<lparr>opt_action = StoreFalse, opt_is_path = False, opt_env_name = None, opt_flag = ''--ignore-environment''\<rparr>),
      (Some ''check'', True, \<lparr>opt_action = StoreTrue, opt_is_path = False, opt_env_name = None, opt_flag = ''--check''\<rparr>),
      (None, True, \<lparr>opt_action = StoreTrue, opt_is_path = False, opt_env_name = Some ''GYP_PARALLEL'', opt_flag = ''--parallel''\<rparr>),
      (Some ''toplevel_dir'', True, \<lparr>opt_action = Store, opt_is_path = True, opt_env_name = None, opt_flag = ''--toplevel-dir''\<rparr>),
      (Some ''configs'', True, \<lparr>opt_action = Append, opt_is_path = False, opt_env_name = None, opt_flag = ''--build''\<rparr>),
      (Some ''circular_check'', False, \<lparr>opt_action = StoreFalse, opt_is_path = False, opt_env_name = None, opt_flag = ''--no-circular-check''\<rparr>)]"

definition regeneratable_options :: "(string \<times> option_metadata) list" where
  "regeneratable_options = fold add_option the_options []"

section \<open>RegenerateFlags\<close>

definition FixPath :: "(string \<Rightarrow> string) \<Rightarrow> string option \<Rightarrow> string \<Rightarrow> string result" where
  "FixPath rp depth path =
     rbind (if isabs path then Inr path
            else case depth of
                   None \<Rightarrow> Inl (AttributeError ''startswith'')
                 | Some d \<Rightarrow> Inr (FixIfRelativePath rp path d))
       (\<lambda>path. Inr (if path = [] then ''.'' else path))"

text \<open>\<open>options.use_environment and env_name\<close>; no \<open>env_name\<close> is empty.\<close>

definition environment_name :: "bool \<Rightarrow> string option \<Rightarrow> string option" where
  "environment_name use_environment env_name = (if use_environment then env_name else None)"

definition RegenerateAppendFlag ::
  "environment \<Rightarrow> string \<Rightarrow> string list \<Rightarrow> (string \<Rightarrow> string result) \<Rightarrow> string option \<Rightarrow> bool \<Rightarrow> string list result" where
  "RegenerateAppendFlag environ flag values_given predicate env_name use_environment =
     rbind (case environment_name use_environment env_name of None \<Rightarrow> Inr [] | Some e \<Rightarrow> ShlexEnv environ e)
       (\<lambda>env_values.
     rbind (rfold (\<lambda>flag_value flags.
              rbind (predicate flag_value) (\<lambda>v.
              Inr (remove1 (FormatOpt flag v) flags @ [FormatOpt flag v]))) env_values []) (\<lambda>flags.
     rbind (rmap (\<lambda>flag_value. rbind (predicate flag_value) (\<lambda>v. Inr (FormatOpt flag v))) values_given) (\<lambda>more_flags.
     Inr (flags @ more_flags))))"

text \<open>\<open>for flag_value in values\<close>, for values that are true.\<close>

definition iterated :: "opt_value \<Rightarrow> string list result" where
  "iterated v =
     (case v of
        ONone \<Rightarrow> Inr []
      | OStr s \<Rightarrow> Inr (map (\<lambda>c. [c]) s)
      | OList l \<Rightarrow> Inr l
      | OBool b \<Rightarrow> if b then Inl (TypeError ''bool object is not iterable'') else Inr [])"

text \<open>A value that is stored is \<open>None\<close> or a string.\<close>

definition stored_value :: "opt_value \<Rightarrow> string option result" where
  "stored_value v =
     (case v of
        ONone \<Rightarrow> Inr None
      | OStr s \<Rightarrow> Inr (if s = [] then None else Some s)
      | _ \<Rightarrow> Inl (NotModelled ''stored value that is not a string''))"

definition opt_true :: "opt_value \<Rightarrow> bool" where
  "opt_true v = (case v of ONone \<Rightarrow> False | OStr s \<Rightarrow> s \<noteq> [] | OList l \<Rightarrow> l \<noteq> [] | OBool b \<Rightarrow> b)"

definition regenerate_option ::
  "environment \<Rightarrow> (string \<Rightarrow> string) \<Rightarrow> gyp_options \<Rightarrow> string \<times> option_metadata \<Rightarrow> string list result" where
  "regenerate_option environ rp opts = (\<lambda>(name, metadata).
     let opt = opt_flag metadata;
         predicate = (if opt_is_path metadata then FixPath rp (opt_depth opts) else Inr);
         env = environment_name (opt_use_environment opts) (opt_env_name metadata)
     in rbind (option_value opts name) (\<lambda>v.
        case opt_action metadata of
          Append \<Rightarrow>
            rbind (iterated v) (\<lambda>values_given.
            RegenerateAppendFlag environ opt values_given predicate (opt_env_name metadata) (opt_use_environment opts))
        | Store \<Rightarrow>
            rbind (stored_value v) (\<lambda>s.
            case s of
              Some s \<Rightarrow> rbind (predicate s) (\<lambda>p. Inr [FormatOpt opt p])
            | None \<Rightarrow>
                (case Option.bind env environ of
                   None \<Rightarrow> Inr []
                 | Some s \<Rightarrow> if s = [] then Inr [] else rbind (predicate s) (\<lambda>p. Inr [FormatOpt opt p])))
        | StoreTrue \<Rightarrow> Inr (if opt_true v then [opt] else [])
        | StoreFalse \<Rightarrow> Inr (if opt_true v then [] else [opt])))"

definition RegenerateFlags ::
  "environment \<Rightarrow> (string \<Rightarrow> string) \<Rightarrow> gyp_options \<Rightarrow> (string \<times> option_metadata) list \<Rightarrow> string list result" where
  "RegenerateFlags environ rp opts metadata =
     rfold (\<lambda>entry flags. rbind (regenerate_option environ rp opts entry) (\<lambda>more_flags. Inr (flags @ more_flags)))
       metadata [''--ignore-environment'']"

section \<open>Reading flags back\<close>

text \<open>One flag, by \<open>optparse\<close>'s rules: a long option ends at the first \<open>=\<close>, a short one has two characters.\<close>

definition split_flag :: "string \<Rightarrow> string \<times> string option" where
  "split_flag flag =
     (if prefix ''--'' flag
      then (case split_first CHR ''='' flag of Some (opt, v) \<Rightarrow> (opt, Some v) | None \<Rightarrow> (flag, None))
      else (take 2 flag, if drop 2 flag = [] then None else Some (drop 2 flag)))"

definition read_flag :: "(string \<times> option_metadata) list \<Rightarrow> string \<Rightarrow> (string \<times> string option) option" where
  "read_flag options flag =
     (let (opt, v) = split_flag flag
      in case find (\<lambda>(name, m). opt_flag m = opt) options of
           None \<Rightarrow> None
         | Some (name, m) \<Rightarrow>
             if (opt_action m \<in> {Append, Store}) = (v \<noteq> None) then Some (name, v) else None)"

text \<open>The values that the flags of an option give, with paths as they are seen from \<open>depth\<close>.\<close>

definition fixed_value :: "(string \<Rightarrow> string) \<Rightarrow> string \<Rightarrow> option_metadata \<Rightarrow> string \<Rightarrow> string" where
  "fixed_value rp d m s =
     (if opt_is_path m then (let p = FixIfRelativePath rp s d in if p = [] then ''.'' else p) else s)"

text \<open>
  The values an option takes from its environment variable, when the environment is used. Of an append
  option these come first, each where it occurs last; a store option takes its one value from there only
  if none was given.
\<close>

definition env_values :: "environment \<Rightarrow> gyp_options \<Rightarrow> option_metadata \<Rightarrow> string list" where
  "env_values environ opts m =
     (case environment_name (opt_use_environment opts) (opt_env_name m) of
        None \<Rightarrow> []
      | Some e \<Rightarrow> (case ShlexEnv environ e of Inr l \<Rightarrow> l | Inl _ \<Rightarrow> []))"

definition env_value :: "environment \<Rightarrow> gyp_options \<Rightarrow> option_metadata \<Rightarrow> string" where
  "env_value environ opts m =
     (case Option.bind (environment_name (opt_use_environment opts) (opt_env_name m)) environ of
        None \<Rightarrow> [] | Some s \<Rightarrow> s)"

definition kept_values ::
  "environment \<Rightarrow> (string \<Rightarrow> string) \<Rightarrow> string \<Rightarrow> gyp_options \<Rightarrow> option_metadata \<Rightarrow> opt_value \<Rightarrow> string option list" where
  "kept_values environ rp d opts m v =
     (case opt_action m of
        Append \<Rightarrow> map Some (remdups (map (fixed_value rp d m) (env_values environ opts m))
                    @ (case v of OList l \<Rightarrow> map (fixed_value rp d m) l | _ \<Rightarrow> []))
      | Store \<Rightarrow>
          (let s = (case v of OStr s \<Rightarrow> s | _ \<Rightarrow> []);
               s = (if s = [] then env_value environ opts m else s)
           in if s = [] then [] else [Some (fixed_value rp d m s)])
      | StoreTrue \<Rightarrow> if opt_true v then [None] else []
      | StoreFalse \<Rightarrow> if opt_true v then [] else [None])"

definition short_option :: "string \<Rightarrow> bool" where
  "short_option opt \<longleftrightarrow> length opt = 2 \<and> hd opt = CHR ''-'' \<and> last opt \<noteq> CHR ''-''"

definition long_option :: "string \<Rightarrow> bool" where
  "long_option opt \<longleftrightarrow> prefix ''--'' opt \<and> CHR ''='' \<notin> set opt"

definition flag_ok :: "option_metadata \<Rightarrow> bool" where
  "flag_ok m \<longleftrightarrow> long_option (opt_flag m)
     \<or> short_option (opt_flag m) \<and> opt_action m \<in> {Append, Store}"

definition value_ok :: "option_metadata \<Rightarrow> opt_value \<Rightarrow> bool" where
  "value_ok m v \<longleftrightarrow>
     (case opt_action m of
        Append \<Rightarrow> (\<exists>l. v = OList l \<and> (short_option (opt_flag m) \<longrightarrow> [] \<notin> set l))
      | Store \<Rightarrow> v = ONone \<or> (\<exists>s. v = OStr s)
      | _ \<Rightarrow> True)"

text \<open>
  What an append option needs of its environment variable, when that is used: it can be split, and for a
  short flag there is no empty value in it.
\<close>

definition env_ok :: "environment \<Rightarrow> gyp_options \<Rightarrow> option_metadata \<Rightarrow> bool" where
  "env_ok environ opts m \<longleftrightarrow>
     (\<forall>e. opt_action m = Append \<and> environment_name (opt_use_environment opts) (opt_env_name m) = Some e \<longrightarrow>
        (\<exists>l. ShlexEnv environ e = Inr l \<and> (short_option (opt_flag m) \<longrightarrow> [] \<notin> set l)))"

definition render_flag :: "option_metadata \<Rightarrow> string option \<Rightarrow> string" where
  "render_flag m v = (case v of None \<Rightarrow> opt_flag m | Some s \<Rightarrow> FormatOpt (opt_flag m) s)"

lemma FixPath_fixed:
  "opt_is_path m \<Longrightarrow> FixPath rp (Some d) s = Inr (fixed_value rp d m s)"
  "\<not> opt_is_path m \<Longrightarrow> fixed_value rp d m s = s"
  by (cases "isabs s") (auto simp: FixPath_def fixed_value_def FixIfRelativePath_def Let_def isabs_def)

lemma rmap_Inr: "rmap (\<lambda>x. Inr (f x)) xs = Inr (map f xs)"
  by (induction xs) auto

lemma FormatOpt_inj: "FormatOpt opt a = FormatOpt opt b \<longleftrightarrow> a = b"
  by (simp add: FormatOpt_def)

lemma remdups_snoc: "remdups (xs @ [x]) = remove1 x (remdups xs) @ [x]"
  by (induction xs) (auto simp: remove1_append remove1_idem)

lemma env_flags:
  "rfold (\<lambda>flag_value flags. rbind (Inr (f flag_value)) (\<lambda>v.
        Inr (remove1 (FormatOpt opt v) flags @ [FormatOpt opt v]))) xs (map (FormatOpt opt) (remdups ys))
     = Inr (map (FormatOpt opt) (remdups (ys @ map f xs)))"
proof (induction xs arbitrary: ys)
  case (Cons x xs)
  have "remove1 (FormatOpt opt y) (map (FormatOpt opt) zs) = map (FormatOpt opt) (remove1 y zs)" for y zs
    by (induction zs) (auto simp: FormatOpt_inj)
  then have "remove1 (FormatOpt opt (f x)) (map (FormatOpt opt) (remdups ys)) @ [FormatOpt opt (f x)]
      = map (FormatOpt opt) (remdups (ys @ [f x]))" by (simp add: remdups_snoc)
  with Cons.IH [of "ys @ [f x]"] show ?case by simp
qed simp

lemma RegenerateAppendFlag_kept:
  assumes "env_ok environ opts m" "opt_action m = Append" and "\<And>s. predicate s = Inr (f s)"
  shows "RegenerateAppendFlag environ (opt_flag m) l predicate (opt_env_name m) (opt_use_environment opts)
    = Inr (map (FormatOpt (opt_flag m)) (remdups (map f (env_values environ opts m)) @ map f l))"
proof -
  have pred: "predicate = (\<lambda>s. Inr (f s))" using assms(3) by (rule ext)
  obtain vs where vs: "(case environment_name (opt_use_environment opts) (opt_env_name m) of
      None \<Rightarrow> Inr [] | Some e \<Rightarrow> ShlexEnv environ e) = Inr vs" "env_values environ opts m = vs"
    using assms(1,2)
    by (cases "environment_name (opt_use_environment opts) (opt_env_name m)") (auto simp: env_ok_def env_values_def)
  have "rmap (\<lambda>s. rbind (Inr (f s)) (\<lambda>v. Inr (FormatOpt (opt_flag m) v))) l = Inr (map (FormatOpt (opt_flag m)) (map f l))"
    by (simp add: rmap_Inr)
  with env_flags [of f "opt_flag m" vs "[]"] vs show ?thesis
    by (simp add: RegenerateAppendFlag_def pred)
qed

lemma regenerate_option_kept:
  assumes d: "opt_depth opts = Some d" and v: "option_value opts name = Inr v" "value_ok m v"
    and env: "env_ok environ opts m"
  shows "regenerate_option environ rp opts (name, m) = Inr (map (render_flag m) (kept_values environ rp d opts m v))"
proof -
  let ?f = "fixed_value rp d m"
  have pred: "(if opt_is_path m then FixPath rp (opt_depth opts) else Inr) s = Inr (?f s)" for s
    by (simp add: d FixPath_fixed)
  show ?thesis
  proof (cases "opt_action m")
    case Append
    with v(2) obtain l where "v = OList l" by (auto simp: value_ok_def)
    with Append v(1) RegenerateAppendFlag_kept [OF env Append pred] show ?thesis
      by (simp add: regenerate_option_def Let_def iterated_def kept_values_def render_flag_def comp_def)
  next
    case Store
    with v(2) have "v = ONone \<or> (\<exists>s. v = OStr s)" by (simp add: value_ok_def)
    with Store v(1) show ?thesis
      by (auto simp: regenerate_option_def Let_def kept_values_def render_flag_def stored_value_def env_value_def
          d FixPath_fixed split: option.splits)
  qed (use v(1) in \<open>simp_all add: regenerate_option_def Let_def kept_values_def render_flag_def\<close>)
qed

lemma split_flag_render:
  assumes "flag_ok m" "x = None \<longleftrightarrow> opt_action m \<notin> {Append, Store}" "short_option (opt_flag m) \<longrightarrow> x \<noteq> Some []"
  shows "split_flag (render_flag m x) = (opt_flag m, x)"
proof (cases "long_option (opt_flag m)")
  case True
  have "prefix ''--'' (opt_flag m @ s)" for s using True by (auto simp: long_option_def prefix_def)
  with True show ?thesis
    by (cases x)
      (auto simp: split_flag_def render_flag_def FormatOpt_def split_first_def long_option_def
        takeWhile_append dropWhile_append)
next
  case False
  with assms have short: "short_option (opt_flag m)" "x \<noteq> None" "x \<noteq> Some []" by (auto simp: flag_ok_def)
  then obtain c where c: "opt_flag m = [CHR ''-'', c]" "c \<noteq> CHR ''-''"
    by (auto simp: short_option_def numeral_2_eq_2 length_Suc_conv)
  with short show ?thesis by (cases x) (auto simp: split_flag_def render_flag_def FormatOpt_def)
qed

lemma find_option:
  "distinct (map (\<lambda>(name, m). opt_flag m) options) \<Longrightarrow> (name, m) \<in> set options \<Longrightarrow>
   find (\<lambda>(n, m'). opt_flag m' = opt_flag m) options = Some (name, m)"
  by (induction options) (auto simp: image_iff split: prod.splits)

lemma fixed_value_empty: "fixed_value rp d m s = [] \<Longrightarrow> s = []"
  by (auto simp: fixed_value_def Let_def split: if_splits)

lemma kept_value_empty:
  assumes "value_ok m v" "env_ok environ opts m" "Some [] \<in> set (kept_values environ rp d opts m v)"
  shows "\<not> short_option (opt_flag m)"
proof (cases "opt_action m")
  case Append
  have "[] \<notin> set (env_values environ opts m)" if "short_option (opt_flag m)"
    using Append assms(2) that
    by (cases "environment_name (opt_use_environment opts) (opt_env_name m)") (auto simp: env_ok_def env_values_def)
  with Append assms(1,3) show ?thesis
    by (auto simp: kept_values_def value_ok_def dest!: fixed_value_empty [OF sym])
next
  case Store
  with assms(3) show ?thesis
    by (auto simp: kept_values_def Let_def dest!: fixed_value_empty [OF sym] split: if_splits)
qed (use assms(3) in \<open>simp_all add: kept_values_def split: if_splits\<close>)

lemma read_flag_render:
  assumes "distinct (map (\<lambda>(name, m). opt_flag m) options)" "(name, m) \<in> set options" "flag_ok m" "value_ok m v"
    "x \<in> set (kept_values environ rp d opts m v)" "short_option (opt_flag m) \<longrightarrow> x \<noteq> Some []"
  shows "read_flag options (render_flag m x) = Some (name, x)"
proof -
  from assms(5) have x: "x = None \<longleftrightarrow> opt_action m \<notin> {Append, Store}"
    by (cases "opt_action m") (auto simp: kept_values_def Let_def split: if_splits)
  show ?thesis
    using x by (simp add: read_flag_def split_flag_render [OF assms(3) x assms(6)] find_option [OF assms(1,2)])
qed

text \<open>Each short option that takes several values has no empty one.\<close>

definition no_empty_values :: "gyp_options \<Rightarrow> bool" where
  "no_empty_values opts \<longleftrightarrow>
     [] \<notin> set (opt_defines opts) \<and> [] \<notin> set (opt_includes opts) \<and> [] \<notin> set (opt_debug opts)
     \<and> [] \<notin> set (opt_generator_flags opts)"

lemma regeneratable_kinds:
  "map (\<lambda>(name, m). (name, opt_action m, short_option (opt_flag m))) regeneratable_options =
     [(''defines'', Append, True), (''includes'', Append, True), (''depth'', Store, False),
      (''debug'', Append, True), (''suffix'', Store, True), (''generator_flags'', Append, True),
      (''generator_output'', Store, False), (''check'', StoreTrue, False), (''toplevel_dir'', Store, False),
      (''configs'', Append, False)]"
  by code_simp

lemma regeneratable_flags:
  "distinct (map (\<lambda>(name, m). opt_flag m) regeneratable_options)"
  "list_all (\<lambda>(name, m). flag_ok m) regeneratable_options"
  unfolding flag_ok_def long_option_def short_option_def by code_simp+

lemma option_value_simps [simp]:
  "option_value opts ''defines'' = Inr (OList (opt_defines opts))"
  "option_value opts ''includes'' = Inr (OList (opt_includes opts))"
  "option_value opts ''depth'' = Inr (opt_str (opt_depth opts))"
  "option_value opts ''debug'' = Inr (OList (opt_debug opts))"
  "option_value opts ''suffix'' = Inr (OStr (opt_suffix opts))"
  "option_value opts ''generator_flags'' = Inr (OList (opt_generator_flags opts))"
  "option_value opts ''generator_output'' = Inr (opt_str (opt_generator_output opts))"
  "option_value opts ''check'' = Inr (OBool (opt_check opts))"
  "option_value opts ''toplevel_dir'' = Inr (opt_str (opt_toplevel_dir opts))"
  "option_value opts ''configs'' = Inr (OList (opt_configs opts))"
  by (simp_all add: option_value_def option_values_def)

lemma regeneratable_option_ok:
  assumes "(name, m) \<in> set regeneratable_options"
  shows "flag_ok m \<and> (\<exists>v. option_value opts name = Inr v \<and> (no_empty_values opts \<longrightarrow> value_ok m v))"
proof -
  have "(name, opt_action m, short_option (opt_flag m))
      \<in> set (map (\<lambda>(name, m). (name, opt_action m, short_option (opt_flag m))) regeneratable_options)"
    using assms by force
  then have "\<exists>v. option_value opts name = Inr v \<and> (no_empty_values opts \<longrightarrow> value_ok m v)"
    unfolding regeneratable_kinds
    by (auto simp: value_ok_def no_empty_values_def opt_str_def split: option.splits)
  with regeneratable_flags(2) assms show ?thesis by (auto simp: list_all_iff)
qed

lemma filter_events:
  assumes "distinct (map fst entries)" "(name, m) \<in> set entries"
  shows "map snd (filter (\<lambda>e. fst e = name) (concat (map (\<lambda>(n, m). map (Pair n) (f n m)) entries))) = f name m"
proof -
  have none: "filter (\<lambda>e. fst e = name) (concat (map (\<lambda>(n, m). map (Pair n) (f n m)) es)) = []"
    if "name \<notin> fst ` set es" for es
    using that by (induction es) (auto simp: filter_map comp_def)
  from assms show ?thesis
  proof (induction entries)
    case (Cons e es)
    show ?case
    proof (cases "e = (name, m)")
      case True
      with Cons.prems(1) have "name \<notin> fst ` set es" by auto
      with True show ?thesis by (simp add: none filter_map comp_def)
    next
      case False
      with Cons.prems have "fst e \<noteq> name" "(name, m) \<in> set es" "distinct (map fst es)" by (force simp: image_iff)+
      with Cons.IH show ?thesis by (cases e) (simp add: filter_map comp_def)
    qed
  qed simp
qed

lemma regenerated_flags:
  "(\<And>name m. (name, m) \<in> set entries \<Longrightarrow> regenerate_option environ rp opts (name, m) = Inr (f name m)) \<Longrightarrow>
   rfold (\<lambda>entry flags. rbind (regenerate_option environ rp opts entry) (\<lambda>more_flags. Inr (flags @ more_flags)))
     entries flags = Inr (flags @ concat (map (\<lambda>(name, m). f name m) entries))"
  by (induction entries arbitrary: flags) auto

text \<open>
  C12: the flags that \<open>RegenerateFlags\<close> writes switch off the environment and otherwise read back as the
  options they are written for, those registered with \<open>dest\<close> and not exempt from regeneration: each flag is a
  flag of one of them, and the flags of an option carry its values in their order, with paths as they are seen from
  \<open>depth\<close>. If the environment is used, the values of an append option are those of its environment variable,
  each once, where it occurs last, followed by those given; a store option without a value takes that of
  its variable. The options may be visited in any order. A list option with a short flag has no empty value,
  which would take the flag after it, and the variables can be split into words. (The format, \<open>--parallel\<close>
  and the other options that are not registered are lost.)
\<close>

theorem RegenerateFlags_reads_back:
  assumes "set entries \<subseteq> set regeneratable_options" "distinct (map fst entries)"
    "opt_depth opts = Some d" "no_empty_values opts" "\<forall>(name, m) \<in> set entries. env_ok environ opts m"
  shows "\<exists>flags events. RegenerateFlags environ rp opts entries = Inr (''--ignore-environment'' # flags)
    \<and> map (read_flag regeneratable_options) flags = map Some events
    \<and> (\<forall>(name, m) \<in> set entries. \<exists>v. option_value opts name = Inr v
         \<and> map snd (filter (\<lambda>e. fst e = name) events) = kept_values environ rp d opts m v)"
proof -
  define v where "v name = (case option_value opts name of Inr v \<Rightarrow> v | _ \<Rightarrow> ONone)" for name
  have entry: "option_value opts name = Inr (v name)" "flag_ok m" "value_ok m (v name)" "env_ok environ opts m"
    if "(name, m) \<in> set entries" for name m
    using regeneratable_option_ok [of name m opts] assms(4,5) that subsetD [OF assms(1) that] by (auto simp: v_def)
  let ?kept = "\<lambda>name m. kept_values environ rp d opts m (v name)"
  define events where "events = concat (map (\<lambda>(name, m). map (Pair name) (?kept name m)) entries)"
  let ?flags = "concat (map (\<lambda>(name, m). map (render_flag m) (?kept name m)) entries)"
  have "regenerate_option environ rp opts (name, m) = Inr (map (render_flag m) (?kept name m))"
    if "(name, m) \<in> set entries" for name m
    using regenerate_option_kept [OF assms(3)] entry [OF that] by blast
  from regenerated_flags [OF this] have "RegenerateFlags environ rp opts entries = Inr (''--ignore-environment'' # ?flags)"
    by (simp add: RegenerateFlags_def)
  moreover have "read_flag regeneratable_options (render_flag m x) = Some (name, x)"
    if "(name, m) \<in> set entries" "x \<in> set (?kept name m)" for name m x
  proof (rule read_flag_render [OF regeneratable_flags(1)])
    show "short_option (opt_flag m) \<longrightarrow> x \<noteq> Some []"
      using kept_value_empty [OF entry(3,4) [OF that(1)]] that(2) by blast
  qed (use that assms(1) entry in auto)
  then have "map (read_flag regeneratable_options) ?flags = map Some events"
    unfolding events_def map_concat by (intro arg_cong [of _ _ concat]) auto
  moreover have "map snd (filter (\<lambda>e. fst e = name) events) = ?kept name m" if "(name, m) \<in> set entries" for name m
    unfolding events_def using assms(2) that by (rule filter_events)
  ultimately show ?thesis using entry(1) by blast
qed

definition ex_options :: gyp_options where
  "ex_options =
     \<lparr>opt_defines = [''a=1'', ''b''], opt_formats = [], opt_msvs_version = None, opt_includes = [''x.gypi''],
      opt_depth = Some ''/r'', opt_debug = [], opt_suffix = [], opt_generator_flags = [],
      opt_generator_output = None, opt_use_environment = False, opt_check = True, opt_parallel = False,
      opt_toplevel_dir = None, opt_configs = [], opt_circular_check = True\<rparr>"

definition ex_flag_options :: gyp_options where
  "ex_flag_options = ex_options\<lparr>opt_use_environment := True\<rparr>"

definition ex_environment :: environment where
  "ex_environment e =
     (if e = ''GYP_DEFINES'' then Some ''c=2 d=3 c=2'' else if e = ''GYP_GENERATOR_OUTPUT'' then Some ''out'' else None)"

theorem RegenerateFlags_witness:
  "\<exists>flags events. RegenerateFlags ex_environment (\<lambda>p. ''/r/'' @ p) ex_flag_options regeneratable_options
       = Inr (''--ignore-environment'' # flags)
     \<and> map (read_flag regeneratable_options) flags = map Some events
     \<and> map snd (filter (\<lambda>e. fst e = ''defines'') events) = map Some [''d=3'', ''c=2'', ''a=1'', ''b'']"
proof -
  let ?m = "\<lparr>opt_action = Append, opt_is_path = False, opt_env_name = Some ''GYP_DEFINES'', opt_flag = ''-D''\<rparr>"
  have "distinct (map fst regeneratable_options)" "(''defines'', ?m) \<in> set regeneratable_options"
    "opt_depth ex_flag_options = Some ''/r''" by code_simp+
  moreover have "no_empty_values ex_flag_options" by (simp add: no_empty_values_def ex_flag_options_def ex_options_def)
  moreover have "\<forall>(name, m) \<in> set regeneratable_options. env_ok ex_environment ex_flag_options m"
  proof -
    have "ShlexEnv ex_environment ''GYP_DEFINES'' = Inr [''c=2'', ''d=3'', ''c=2'']"
      "ShlexEnv ex_environment ''GYP_GENERATOR_FLAGS'' = Inr []" by code_simp+
    moreover have "list_all (\<lambda>(name, m). opt_action m = Append \<longrightarrow>
        opt_env_name m \<in> {None, Some ''GYP_DEFINES'', Some ''GYP_GENERATOR_FLAGS''}) regeneratable_options"
      by code_simp
    ultimately show ?thesis
      by (fastforce simp: list_all_iff env_ok_def environment_name_def split: if_splits)
  qed
  ultimately obtain flags events where
    "RegenerateFlags ex_environment (\<lambda>p. ''/r/'' @ p) ex_flag_options regeneratable_options = Inr (''--ignore-environment'' # flags)"
    "map (read_flag regeneratable_options) flags = map Some events"
    "map snd (filter (\<lambda>e. fst e = ''defines'') events)
      = kept_values ex_environment (\<lambda>p. ''/r/'' @ p) ''/r'' ex_flag_options ?m (OList (opt_defines ex_flag_options))"
    using RegenerateFlags_reads_back [OF subset_refl, of ex_flag_options "''/r''" ex_environment "\<lambda>p. ''/r/'' @ p"]
    by fastforce
  moreover have "kept_values ex_environment (\<lambda>p. ''/r/'' @ p) ''/r'' ex_flag_options ?m (OList (opt_defines ex_flag_options))
      = map Some [''d=3'', ''c=2'', ''a=1'', ''b'']" by code_simp
  ultimately show ?thesis by metis
qed

text \<open>
  An empty value is written as the bare short flag, which is then read together with the next flag.
\<close>

lemma empty_value_flag: "FormatOpt ''-D'' [] = ''-D'' \<and> read_flag regeneratable_options (FormatOpt ''-D'' []) = None"
  by code_simp

lemma parallel_not_regenerated: "''parallel'' \<notin> set (map fst regeneratable_options)"
  by code_simp

section \<open>Names and values\<close>

text \<open>
  The value of a name is what the last item for it gives. So defines on the command line override
  those of the environment, which come first.
\<close>

lemma NameValueListToDict_last:
  "map_of (NameValueListToDict items) name = map_option snd (find (\<lambda>(n, v). n = name) (map name_value (rev items)))"
  unfolding NameValueListToDict_def
  by (induction items rule: rev_induct) (auto simp: map_of_update Let_def split: prod.splits)

end
