(* ===== verification/Gyp_Target_File.thy ===== *)
theory Gyp_Target_File
  imports Gyp_Load Gyp_Toolsets Gyp_Expand
begin

text \<open>
  \<open>input.py\<close>: \<open>LoadTargetBuildFile\<close>, which loads a build file with targets, expands its variables
  and conditions, merges the defaults into its targets and then loads the files that its targets
  depend on.

  The state is what the recursive calls share: the loaded files with their contents, the set
  \<open>target_build_files\<close> of \<open>data\<close>, the dictionary \<open>variables\<close> of the caller, in which \<open>DEPTH\<close> is set
  for each file, and the objects and caches of variable expansion. The contents of a file are a
  tree; for the expansion they are stored in the heap and read back. A list that is in two places
  of the tree, or in a variable as well, would stay shared in Python: it leaves the model.
\<close>

section \<open>State\<close>

record file_state =
  files :: load_state
  target_build_files :: "string list"
  variables :: hdict
  objects :: estate

text \<open>
  \<open>order\<close> is the order in which a set of strings is iterated; \<open>pick_target\<close> and \<open>pick_file\<close> are
  \<open>pop\<close> of a set, for the flat lists of the targets and of the files.
\<close>

record load_env =
  file_access :: file_io
  expansion :: expand_env
  order :: "string list \<Rightarrow> string list"
  pick_target :: "string list \<Rightarrow> string"
  pick_file :: "string option list \<Rightarrow> string option"

abbreviation globals :: "load_env \<Rightarrow> gyp_env" where
  "globals L \<equiv> genv (expansion L)"

abbreviation contents_of :: "file_state \<Rightarrow> string \<Rightarrow> gdict option" where
  "contents_of st \<equiv> map_of (data (files st))"

section \<open>Trees through the heap\<close>

text \<open>The objects below a value, one for each path to them.\<close>

fun value_refs :: "nat \<Rightarrow> obj list \<Rightarrow> hval \<Rightarrow> nat list" where
  "value_refs (Suc n) h (HRef a) =
     a # (if a < length h
          then case h ! a of
                 OList l \<Rightarrow> concat (map (value_refs n h) l)
               | ODict d \<Rightarrow> concat (map (\<lambda>(k, v). value_refs n h v) d)
          else [])"
| "value_refs n h v = []"

definition variable_refs :: "obj list \<Rightarrow> hdict \<Rightarrow> nat list" where
  "variable_refs h vs = concat (map (\<lambda>(k, v). value_refs (length h) h v) vs)"

definition read_unshared :: "hdict \<Rightarrow> hval \<Rightarrow> gdict cmd" where
  "read_unshared vs v =
     cbind (read_tree v) (\<lambda>t.
     cbind (cstate cells) (\<lambda>h.
     let refs = value_refs (length h) h v
     in if distinct refs \<and> set refs \<inter> set (variable_refs h vs) = {} then clift (as_dict t)
        else craise (NotModelled ''shared list'')))"

text \<open>\<open>ProcessVariablesAndConditionsInDict\<close> on the contents of a file or of a target.\<close>

definition process_tree ::
  "expand_env \<Rightarrow> nat \<Rightarrow> phase \<Rightarrow> hdict \<Rightarrow> string \<Rightarrow> gdict \<Rightarrow> gdict cmd" where
  "process_tree E n phase vs build_file d =
     cbind (new_tree (GDict d)) (\<lambda>v.
     cbind (ProcessVariablesAndConditionsInDict E (calls_upto E n) phase vs build_file None v) (\<lambda>_.
     read_unshared vs v))"

section \<open>One file\<close>

definition abspath :: "string \<Rightarrow> string \<Rightarrow> string" where
  "abspath cwd path = normpath (if isabs path then path else path_join cwd path)"

definition set_depth :: "load_env \<Rightarrow> string \<Rightarrow> string \<Rightarrow> file_state \<Rightarrow> file_state" where
  "set_depth L depth build_file_path st =
     (if depth = [] then st
      else let d = RelativePath (realpath (globals L)) depth (dirname build_file_path)
           in st\<lparr>variables := AList.update ''DEPTH''
                   (HStr (if d = [] then ''.'' else replace_char CHR 0x5C CHR ''/'' d)) (variables st)\<rparr>)"

definition file_key :: "load_env \<Rightarrow> string \<Rightarrow> string" where
  "file_key L build_file_path =
     (if absolute_build_file_paths (globals L) then abspath (getcwd (file_access L)) build_file_path else build_file_path)"

text \<open>\<open>_DEPTH\<close> and \<open>included_files\<close>, the latter relative to the directory of the file.\<close>

definition note_files ::
  "gyp_env \<Rightarrow> nat \<Rightarrow> aux_data \<Rightarrow> string \<Rightarrow> string \<Rightarrow> gdict \<Rightarrow> gdict result" where
  "note_files env n aux depth build_file_path d =
     (let d = AList.update ''_DEPTH'' (GStr depth) d
      in if has_key ''included_files'' d
         then Inl (GypError (build_file_path @ '' must not contain included_files key''))
         else rbind (GetIncludedBuildFiles n aux build_file_path []) (\<lambda>included.
              Inr (AList.update ''included_files''
                     (GList (map (\<lambda>included_file.
                        GStr (RelativePath (realpath env) included_file (dirname build_file_path))) included)) d)))"

text \<open>
  \<open>targets\<close> is a list by now, since \<open>ProcessToolsetsInDict\<close> has built it; defaults that are no
  dictionary leave the model.
\<close>

definition merge_defaults :: "gyp_env \<Rightarrow> string \<Rightarrow> gdict \<Rightarrow> gdict result" where
  "merge_defaults env build_file_path d =
     (case map_of d ''target_defaults'' of
        None \<Rightarrow> Inr d
      | Some defaults \<Rightarrow>
          (case map_of d ''targets'' of
             None \<Rightarrow> Inl (GypError (''Unable to find targets in build file '' @ build_file_path))
           | Some ts \<Rightarrow>
               rbind (as_list ts) (\<lambda>ts.
               rbind (rmap (\<lambda>old_target.
                  rbind (as_dict old_target) (\<lambda>old_target_dict.
                  case defaults of
                    GDict new_target_dict \<Rightarrow>
                      rbind (MergeDicts env new_target_dict old_target_dict build_file_path build_file_path) (\<lambda>d.
                      Inr (GDict d))
                  | _ \<Rightarrow> Inl (NotModelled ''target_defaults is not a dictionary''))) ts) (\<lambda>ts.
               Inr (AList.delete ''target_defaults'' (AList.update ''targets'' (GList ts) d))))))"

text \<open>The files of the targets that the targets of a file depend on.\<close>

definition dependency_file :: "gyp_env \<Rightarrow> string \<Rightarrow> gval \<Rightarrow> string list \<Rightarrow> string list result" where
  "dependency_file env build_file_path dependency dependencies =
     (case dependency of
        GStr s \<Rightarrow>
          (case ResolveTarget (realpath env) (Some build_file_path) s None of
             (Some f, _) \<Rightarrow> Inr (dependencies @ [f])
           | (None, _) \<Rightarrow> Inr dependencies)
      | v \<Rightarrow> Inl (AttributeError (class_name v @ '' object has no attribute rsplit'')))"

definition target_dependency_files :: "gyp_env \<Rightarrow> string \<Rightarrow> gval \<Rightarrow> string list \<Rightarrow> string list result" where
  "target_dependency_files env build_file_path target dependencies =
     rbind (py_in ''dependencies'' target) (\<lambda>listed.
     if \<not> listed then Inr dependencies
     else rbind (dict_index target (GStr ''dependencies'')) (\<lambda>v.
          rbind (py_iter v) (\<lambda>l. rfold (dependency_file env build_file_path) l dependencies)))"

definition file_dependencies :: "gyp_env \<Rightarrow> string \<Rightarrow> gdict \<Rightarrow> string list result" where
  "file_dependencies env build_file_path d =
     rbind (get_iter d ''targets'') (\<lambda>ts. rfold (target_dependency_files env build_file_path) ts [])"

text \<open>The contents of a file from what was read: toolsets, early expansion, toolsets again, defaults.\<close>

definition process_file ::
  "load_env \<Rightarrow> nat \<Rightarrow> hdict \<Rightarrow> string \<Rightarrow> gdict \<Rightarrow> gdict cmd" where
  "process_file L n vs build_file_path d =
     cbind (clift (rbind (ProcessToolsetsInDict (globals L) (GDict d)) as_dict)) (\<lambda>d.
     cbind (process_tree (expansion L) n PHASE_EARLY vs build_file_path d) (\<lambda>d.
     cbind (clift (rbind (ProcessToolsetsInDict (globals L) (GDict d)) as_dict)) (\<lambda>d.
     clift (merge_defaults (globals L) build_file_path d))))"

definition load_file ::
  "load_env \<Rightarrow> nat \<Rightarrow> string list option \<Rightarrow> string \<Rightarrow> bool \<Rightarrow> string \<Rightarrow> file_state
   \<Rightarrow> (string list \<times> file_state) result" where
  "load_file L n includes depth check build_file_path st =
     rbind (LoadOneBuildFile n (globals L) (file_access L) check includes build_file_path (files st)) (\<lambda>(d, fs).
     rbind (note_files (globals L) n (aux_data fs) depth build_file_path d) (\<lambda>d.
     rbind (process_file L n (variables st) build_file_path d (objects st)) (\<lambda>(d, obs).
     rbind (file_dependencies (globals L) build_file_path d) (\<lambda>dependencies.
     Inr (dependencies,
          st\<lparr>files := fs\<lparr>data := AList.update build_file_path d (data fs)\<rparr>, objects := obs\<rparr>)))))"

section \<open>LoadTargetBuildFile\<close>

text \<open>
  The result is \<open>False\<close> for a file that is already loaded, the file and the files it depends on if
  these are not to be loaded, and otherwise nothing. The first argument is the nesting depth left,
  the second bounds the includes and the calls of the expansion.
\<close>

datatype load_return = RFalse | RNone | RFile string "string list"

fun LoadTargetBuildFile ::
  "nat \<Rightarrow> nat \<Rightarrow> load_env \<Rightarrow> string list option \<Rightarrow> string \<Rightarrow> bool \<Rightarrow> bool \<Rightarrow> string \<Rightarrow> file_state
   \<Rightarrow> (load_return \<times> file_state) result" where
  "LoadTargetBuildFile 0 n L includes depth check load_dependencies build_file_path st = Inl RecursionLimit"
| "LoadTargetBuildFile (Suc k) n L includes depth check load_dependencies build_file_path st =
     (let st = set_depth L depth build_file_path st;
          build_file_path = file_key L build_file_path
      in if build_file_path \<in> set (target_build_files st) then Inr (RFalse, st)
         else rbind (load_file L n includes depth check build_file_path
                       (st\<lparr>target_build_files := target_build_files st @ [build_file_path]\<rparr>)) (\<lambda>(dependencies, st).
              if load_dependencies
              then rbind (rfold (\<lambda>dependency st.
                        on_error (append_error (''while loading dependencies of '' @ build_file_path))
                          (rbind (LoadTargetBuildFile k n L includes depth check load_dependencies dependency st)
                             (\<lambda>(r, st). Inr st))) dependencies st) (\<lambda>st. Inr (RNone, st))
              else Inr (RFile build_file_path dependencies, st)))"

declare LoadTargetBuildFile.simps(2) [simp del]

end
