(* ===== verification/Gyp_Pipeline.thy ===== *)
theory Gyp_Pipeline
  imports Gyp_Target_File Gyp_Targets Gyp_Settings Gyp_Config Gyp_Validate
begin

text \<open>
  \<open>input.py\<close>: \<open>Load\<close>, which loads the build files and runs every pass over their targets, in order.

  The targets that the passes change are the dictionaries that \<open>data\<close> holds. Here they are copied
  out by \<open>BuildTargetsDict\<close> and put back at the end; in between, \<open>data\<close> is read for the names and
  toolsets of targets only, which no pass changes. Loading in parallel is the step relation of
  \<open>Gyp_Parallel\<close>, so \<open>parallel\<close> leaves this model.
\<close>

section \<open>Globals and files\<close>

record generator_info =
  generator_path_sections :: "string list"
  generator_non_configuration_keys :: "string list"
  generator_wants_absolute_build_file_paths :: bool
  generator_supports_multiple_toolsets :: bool
  generator_wants_static_library_dependencies_adjusted :: bool
  generator_wants_sorted_dependencies :: bool
  extra_sources_for_rules :: "string list"

definition set_globals :: "generator_info \<Rightarrow> load_env \<Rightarrow> load_env" where
  "set_globals gii L =
     L\<lparr>expansion := (expansion L)\<lparr>genv :=
       gyp_globals (realpath (globals L)) (generator_path_sections gii) (generator_non_configuration_keys gii)
         (generator_wants_absolute_build_file_paths gii) (generator_supports_multiple_toolsets gii)\<rparr>\<rparr>"

definition start_state :: "hdict \<Rightarrow> estate \<Rightarrow> file_state" where
  "start_state vs obs =
     \<lparr>files = \<lparr>data = [], aux_data = [], open_files = []\<rparr>, target_build_files = [], variables = vs, objects = obs\<rparr>"

definition load_build_files ::
  "nat \<Rightarrow> nat \<Rightarrow> load_env \<Rightarrow> string list option \<Rightarrow> string \<Rightarrow> bool \<Rightarrow> bool \<Rightarrow> string list \<Rightarrow> file_state
   \<Rightarrow> file_state result" where
  "load_build_files k n L includes depth check in_parallel =
     rfold (\<lambda>build_file st.
       let build_file = normpath build_file
       in on_error (append_error (''while trying to load '' @ build_file))
            (if in_parallel then Inl (NotModelled ''parallel'')
             else rbind (LoadTargetBuildFile k n L includes depth check True build_file st) (\<lambda>(r, st). Inr st)))"

section \<open>Dependencies\<close>

text \<open>The filters of one target's dependency sections, applied in a dictionary of their own.\<close>

definition filter_dependencies :: "re_compile \<Rightarrow> string \<times> gdict \<Rightarrow> (string \<times> gdict) result" where
  "filter_dependencies compile = (\<lambda>(target_name, target_dict).
     let tmp_dict = concat (map (\<lambda>key.
           case map_of target_dict key of None \<Rightarrow> [] | Some v \<Rightarrow> [(key, v)]) all_dependency_sections);
         target_dict = fold (\<lambda>(key, v). AList.delete key) tmp_dict target_dict
     in rbind (ProcessListFiltersInDict compile target_name tmp_dict) (\<lambda>tmp_dict.
        Inr (target_name, fold (\<lambda>(key, v). AList.update key v) tmp_dict target_dict)))"

definition load_targets :: "load_env \<Rightarrow> file_state \<Rightarrow> gtargets result" where
  "load_targets L st =
     rbind (BuildTargetsDict (order L (target_build_files st)) (data (files st))) (\<lambda>targets.
     rbind (QualifyDependencies (globals L) targets) (\<lambda>targets.
     rbind (RemoveSelfDependencies targets) (\<lambda>targets.
     rbind (ExpandWildcardDependencies targets (data (files st))) (\<lambda>targets.
     rbind (rmap (filter_dependencies (compile_re (expansion L))) targets) RemoveDuplicateDependencies))))"

text \<open>A loop that does not end, which \<open>BuildDependencyList\<close> and the check of the files never are.\<close>

definition returned :: "'a result option \<Rightarrow> 'a result" where
  "returned r = (case r of None \<Rightarrow> Inl (NotModelled ''no end'') | Some r \<Rightarrow> r)"

definition sort_targets ::
  "load_env \<Rightarrow> bool \<Rightarrow> gtargets \<Rightarrow> (string dep_nodes \<times> string list) result" where
  "sort_targets L circular_check targets =
     rbind (if circular_check then returned (VerifyNoGYPFileCircularDependencies (pick_file L) targets) else Inr ())
       (\<lambda>_.
     rbind (returned (BuildDependencyList (pick_target L) targets)) (\<lambda>(dependency_nodes, flat_list).
     rbind (VerifyNoCollidingTargets flat_list) (\<lambda>_.
     Inr (dependency_nodes, flat_list))))"

section \<open>Settings\<close>

definition publish_settings ::
  "gyp_env \<Rightarrow> nat \<Rightarrow> string list \<Rightarrow> string dep_nodes \<Rightarrow> string \<Rightarrow> gtargets \<Rightarrow> gtargets result" where
  "publish_settings env n flat_list dependency_nodes settings_type targets =
     rbind (DoDependentSettings env n settings_type flat_list targets dependency_nodes) (\<lambda>targets.
     Inr (fold (\<lambda>target. AList.map_entry target (AList.delete settings_type)) flat_list targets))"

definition settings_types :: "string list" where
  "settings_types = [''all_dependent_settings'', ''direct_dependent_settings'', ''link_settings'']"

definition link_targets ::
  "gyp_env \<Rightarrow> nat \<Rightarrow> generator_info \<Rightarrow> string list \<Rightarrow> string dep_nodes \<Rightarrow> gtargets \<Rightarrow> gtargets result" where
  "link_targets env n gii flat_list dependency_nodes targets =
     rbind (rfold (publish_settings env n flat_list dependency_nodes) settings_types targets) (\<lambda>targets.
     if generator_wants_static_library_dependencies_adjusted gii
     then AdjustStaticLibraryDependencies n flat_list targets dependency_nodes
            (generator_wants_sorted_dependencies gii)
     else Inr targets)"

section \<open>Late passes\<close>

definition process_targets ::
  "load_env \<Rightarrow> nat \<Rightarrow> phase \<Rightarrow> hdict \<Rightarrow> string list \<Rightarrow> gtargets \<Rightarrow> gtargets cmd" where
  "process_targets L n phase vs flat_list =
     cfold (\<lambda>target targets.
       cbind (clift (dict_read targets target)) (\<lambda>target_dict.
       cbind (clift (file_of target)) (\<lambda>build_file.
       cbind (process_tree (expansion L) n phase vs build_file target_dict) (\<lambda>target_dict.
       creturn (AList.update target target_dict targets))))) flat_list"

text \<open>\<open>for target in flat_list\<close>, with the dictionary of the target.\<close>

definition each_target ::
  "(string \<Rightarrow> gdict \<Rightarrow> gdict result) \<Rightarrow> string list \<Rightarrow> gtargets \<Rightarrow> gtargets result" where
  "each_target f =
     rfold (\<lambda>target targets.
       rbind (dict_read targets target) (\<lambda>target_dict.
       rbind (f target target_dict) (\<lambda>target_dict.
       Inr (AList.update target target_dict targets))))"

definition validate_target :: "generator_info \<Rightarrow> gval \<Rightarrow> string \<Rightarrow> gdict \<Rightarrow> gdict result" where
  "validate_target gii target_arch target target_dict =
     rbind (file_of target) (\<lambda>build_file.
     rbind (ValidateTargetType target target_dict) (\<lambda>_.
     rbind (py_in ''arm'' target_arch) (\<lambda>arm.
     rbind (if arm then Inr () else ValidateSourcesInTarget target target_dict build_file) (\<lambda>_.
     rbind (ValidateRulesInTarget target target_dict (extra_sources_for_rules gii)) (\<lambda>target_dict.
     rbind (ValidateRunAsInTarget target target_dict build_file) (\<lambda>_.
     rbind (ValidateActionsInTarget target target_dict build_file) (\<lambda>_.
     Inr target_dict)))))))"

definition finish_targets ::
  "load_env \<Rightarrow> nat \<Rightarrow> generator_info \<Rightarrow> hdict \<Rightarrow> string list \<Rightarrow> gtargets \<Rightarrow> gtargets cmd" where
  "finish_targets L n gii vs flat_list targets =
     cbind (process_targets L n PHASE_LATE vs flat_list targets) (\<lambda>targets.
     cbind (clift (each_target (SetUpConfigurations (globals L)) flat_list targets)) (\<lambda>targets.
     cbind (clift (each_target (ProcessListFiltersInDict (compile_re (expansion L))) flat_list targets)) (\<lambda>targets.
     cbind (process_targets L n PHASE_LATELATE vs flat_list targets) (\<lambda>targets.
     cbind (case map_of vs ''target_arch'' of None \<Rightarrow> creturn (GStr []) | Some v \<Rightarrow> read_tree v) (\<lambda>target_arch.
     clift (each_target (validate_target gii target_arch) flat_list targets))))))"

section \<open>Load\<close>

text \<open>
  In Python the dictionaries of \<open>targets\<close> are the very objects in the lists \<open>targets\<close> of the loaded contents
  (\<open>BuildTargetsDict\<close> puts them into the dictionary without a copy), so what the passes do to a target is
  done to \<open>data\<close> as well. Here they are values, and \<open>put_targets\<close> does what the shared objects do without
  a line of code: before the last pass over \<open>data\<close> it puts the targets back into the contents they come
  from. That the two agree at the end is therefore no theorem.
\<close>

definition put_target :: "gtargets \<Rightarrow> string \<Rightarrow> gval \<Rightarrow> gval" where
  "put_target targets build_file target =
     (case target of
        GDict d \<Rightarrow>
          (case (map_of d ''target_name'', map_of d ''toolset'') of
             (Some (GStr name), Some (GStr toolset)) \<Rightarrow>
               GDict (dict_get targets (QualifiedTarget build_file name (Some toolset)) d)
           | _ \<Rightarrow> target)
      | _ \<Rightarrow> target)"

definition put_targets :: "string list \<Rightarrow> gtargets \<Rightarrow> gdata \<Rightarrow> gdata" where
  "put_targets target_files targets =
     map (\<lambda>(build_file, contents).
       (build_file,
        if build_file \<in> set target_files
        then AList.map_entry ''targets''
               (\<lambda>ts. case ts of GList l \<Rightarrow> GList (map (put_target targets build_file) l) | _ \<Rightarrow> ts) contents
        else contents))"

text \<open>\<open>TurnIntIntoStrInDict(data)\<close>, on \<open>data\<close> with the targets in it.\<close>

definition finish_data :: "gtargets \<Rightarrow> file_state \<Rightarrow> file_state" where
  "finish_data targets st =
     st\<lparr>files := (files st)\<lparr>data :=
       map (\<lambda>(build_file, contents). (build_file, TurnIntIntoStrInDict contents))
         (put_targets (target_build_files st) targets (data (files st)))\<rparr>\<rparr>"

definition Load ::
  "nat \<Rightarrow> nat \<Rightarrow> load_env \<Rightarrow> generator_info \<Rightarrow> string list \<Rightarrow> gdict \<Rightarrow> string list option \<Rightarrow> string \<Rightarrow> bool
   \<Rightarrow> bool \<Rightarrow> bool \<Rightarrow> estate \<Rightarrow> ((string list \<times> gtargets) \<times> file_state) result" where
  "Load k n L gii given_files vs includes depth check circular_check in_parallel obs =
     (let L = set_globals gii L
      in rbind (new_dict vs obs) (\<lambda>(vs, obs).
         rbind (load_build_files k n L includes depth check in_parallel given_files (start_state vs obs)) (\<lambda>st.
         rbind (load_targets L st) (\<lambda>targets.
         rbind (sort_targets L circular_check targets) (\<lambda>(dependency_nodes, flat_list).
         rbind (link_targets (globals L) n gii flat_list dependency_nodes targets) (\<lambda>targets.
         rbind (finish_targets L n gii (variables st) flat_list targets (objects st)) (\<lambda>(targets, obs).
         Inr ((flat_list, map (\<lambda>(target, d). (target, TurnIntIntoStrInDict d)) targets),
              finish_data targets (st\<lparr>objects := obs\<rparr>)))))))))"

end
