(* ===== verification/Gyp_Main.thy ===== *)
theory Gyp_Main
  imports Gyp_Options Gyp_Pipeline
begin

text \<open>
  \<open>tools/gyp/pylib/gyp/__init__.py\<close>: the program itself. \<open>gyp_main\<close> is modelled from the point at which
  \<open>optparse\<close> has returned the options and the names of build files. A generator is a module that is
  not modelled: its attributes are data, its functions are parameters that may change what they are
  given and their module's attributes. Debug output is left out.
\<close>

section \<open>The surroundings\<close>

record system =
  environ :: environment
  sys_platform :: string
  path_exists :: "string \<Rightarrow> bool"
  cwd_files :: "string list"

definition FindBuildFiles :: "system \<Rightarrow> string list" where
  "FindBuildFiles S = filter (\<lambda>file. suffix ''.gyp'' file) (cwd_files S)"

section \<open>Generators\<close>

text \<open>The attributes that \<open>Load\<close> looks up with \<open>getattr\<close>; \<open>None\<close> for those a module does not have.\<close>

record generator_attrs =
  generator_default_variables :: gdict
  wants_absolute_build_file_paths :: "bool option"
  additional_non_configuration_keys :: "string list option"
  additional_path_sections :: "string list option"
  generator_extra_sources_for_rules :: "string list option"
  supports_multiple_toolsets :: "bool option"
  wants_static_library_dependencies_adjusted :: "bool option"
  wants_sorted_dependencies :: "bool option"

record gen_params =
  param_options :: gyp_options
  param_build_files :: "string list"
  param_generator_flags :: gdict
  param_cwd :: string
  param_build_files_arg :: "string list"
  param_gyp_binary :: string
  param_home_dot_gyp :: "string option"
  param_parallel :: bool
  param_flavor :: "string option"

type_synonym generated = "string list \<times> gtargets \<times> gdata"

record generator_code =
  CalculateVariables :: "(gdict \<Rightarrow> gen_params \<Rightarrow> generator_attrs \<Rightarrow> (gdict \<times> gen_params \<times> generator_attrs) result) option"
  CalculateGeneratorInputInfo :: "(gen_params \<Rightarrow> generator_attrs \<Rightarrow> (gen_params \<times> generator_attrs) result) option"
  GenerateOutput :: "generated \<Rightarrow> gen_params \<Rightarrow> generated result"
  PerformBuild :: "gdata \<Rightarrow> string list \<Rightarrow> gen_params \<Rightarrow> unit result"

text \<open>
  \<open>import_module\<close> is \<open>__import__\<close> with the paths of \<open>sys.path\<close>; a module that has been imported before
  keeps the attributes that it has now.
\<close>

record main_env =
  system :: system
  load_in :: load_env
  import_module :: "string list \<Rightarrow> string \<Rightarrow> (generator_code \<times> generator_attrs) result"
  gyp_binary :: string

record main_state =
  sys_path :: "string list"
  modules :: "(string \<times> generator_attrs) list"
  main_objects :: estate

abbreviation main_cwd :: "main_env \<Rightarrow> string" where
  "main_cwd M \<equiv> getcwd (file_access (load_in M))"

text \<open>\<open>getattr\<close> with a default. \<open>generator_handles_variants\<close> is not read by anything and left out.\<close>

definition generator_input_info :: "generator_attrs \<Rightarrow> generator_info" where
  "generator_input_info a =
     (let getattr = (\<lambda>v d. case v of None \<Rightarrow> d | Some b \<Rightarrow> b)
      in \<lparr>generator_path_sections = case additional_path_sections a of None \<Rightarrow> [] | Some l \<Rightarrow> l,
          generator_non_configuration_keys = case additional_non_configuration_keys a of None \<Rightarrow> [] | Some l \<Rightarrow> l,
          generator_wants_absolute_build_file_paths = getattr (wants_absolute_build_file_paths a) False,
          generator_supports_multiple_toolsets = getattr (supports_multiple_toolsets a) False,
          generator_wants_static_library_dependencies_adjusted =
            getattr (wants_static_library_dependencies_adjusted a) True,
          generator_wants_sorted_dependencies = getattr (wants_sorted_dependencies a) False,
          extra_sources_for_rules = case generator_extra_sources_for_rules a of None \<Rightarrow> [] | Some l \<Rightarrow> l\<rparr>)"

text \<open>The format without its flavor; the name of the module; the path that is added for it.\<close>

definition split_format :: "string \<Rightarrow> string \<times> string option" where
  "split_format format =
     (case split_first CHR ''-'' format of None \<Rightarrow> (format, None) | Some (f, flavor) \<Rightarrow> (f, Some flavor))"

definition generator_module :: "string \<Rightarrow> string \<Rightarrow> string list \<Rightarrow> string \<times> string list" where
  "generator_module cwd format paths =
     (if suffix ''.py'' format
      then let (path, generator_name) = path_split (fst (splitext format));
               path = abspath cwd path
           in (generator_name, if path \<in> set paths then paths else path # paths)
      else (''gyp.generator.'' @ format, paths))"

text \<open>\<open>setdefault\<close> for every variable of the generator, after \<open>GENERATOR\<close> has been set.\<close>

definition initial_variables :: "string \<Rightarrow> gdict \<Rightarrow> generator_attrs \<Rightarrow> gdict" where
  "initial_variables format default_variables attrs =
     fold (\<lambda>(key, val) d. if has_key key d then d else AList.update key val d)
       (generator_default_variables attrs) (AList.update ''GENERATOR'' (GStr format) default_variables)"

definition LoadFormat ::
  "nat \<Rightarrow> nat \<Rightarrow> main_env \<Rightarrow> string list \<Rightarrow> string \<Rightarrow> gdict \<Rightarrow> string list \<Rightarrow> string \<Rightarrow> gen_params \<Rightarrow> bool \<Rightarrow> bool
   \<Rightarrow> main_state \<Rightarrow> ((generator_code \<times> gen_params \<times> generated) \<times> main_state) result" where
  "LoadFormat k n M given_files format default_variables includes depth params check circular_check st =
     (let (format, flavor) = split_format format;
          params = (case flavor of None \<Rightarrow> params | Some f \<Rightarrow> params\<lparr>param_flavor := Some f\<rparr>);
          (generator_name, paths) = generator_module (main_cwd M) format (sys_path st)
      in rbind (import_module M paths generator_name) (\<lambda>(generator, attrs).
         let attrs = dict_get (modules st) generator_name attrs;
             default_variables = initial_variables format default_variables attrs
         in rbind (case CalculateVariables generator of
                     None \<Rightarrow> Inr (default_variables, params, attrs)
                   | Some f \<Rightarrow> f default_variables params attrs) (\<lambda>(default_variables, params, attrs).
            rbind (case CalculateGeneratorInputInfo generator of
                     None \<Rightarrow> Inr (params, attrs)
                   | Some f \<Rightarrow> f params attrs) (\<lambda>(params, attrs).
            rbind (Load k n (load_in M) (generator_input_info attrs) given_files default_variables (Some includes) depth
                     check circular_check (param_parallel params) (main_objects st)) (\<lambda>((flat_list, targets), loaded).
            Inr ((generator, params, (flat_list, targets, data (files loaded))),
                 \<lparr>sys_path = paths, modules = AList.update generator_name attrs (modules st),
                  main_objects = objects loaded\<rparr>))))))"

section \<open>Options that the environment completes\<close>

definition home_dot_gyp :: "system \<Rightarrow> string option" where
  "home_dot_gyp S =
     (let home_vars = [''HOME''] @ (if sys_platform S \<in> {''cygwin'', ''win32''} then [''USERPROFILE''] else []);
          dirs = concat (map (\<lambda>v. case environ S v of None \<Rightarrow> [] | Some home \<Rightarrow> [path_join home ''.gyp'']) home_vars)
      in find (path_exists S) dirs)"

text \<open>\<open>re.split('[\s,]', s)\<close>\<close>

fun split_formats :: "string \<Rightarrow> string list" where
  "split_formats [] = [[]]"
| "split_formats (c # s) =
     (if is_space c \<or> c = CHR '','' then [] # split_formats s
      else case split_formats s of [] \<Rightarrow> [[c]] | w # ws \<Rightarrow> (c # w) # ws)"

definition default_format :: "string \<Rightarrow> string" where
  "default_format system_name =
     (if system_name = ''darwin'' then ''xcode''
      else if system_name \<in> {''win32'', ''cygwin''} then ''msvs'' else ''make'')"

definition environment_value :: "system \<Rightarrow> gyp_options \<Rightarrow> string \<Rightarrow> string" where
  "environment_value S opts name =
     (if opt_use_environment opts then case environ S name of None \<Rightarrow> [] | Some v \<Rightarrow> v else [])"

definition complete_options :: "system \<Rightarrow> gyp_options \<Rightarrow> gyp_options" where
  "complete_options S opts =
     (let formats = environment_value S opts ''GYP_GENERATORS'';
          opts = (if opt_formats opts \<noteq> [] then opts
                  else opts\<lparr>opt_formats :=
                    if formats \<noteq> [] then split_formats formats else [default_format (sys_platform S)]\<rparr>);
          g_o = environment_value S opts ''GYP_GENERATOR_OUTPUT'';
          opts = (if opt_generator_output opts \<notin> {None, Some []} \<or> g_o = [] then opts
                  else opts\<lparr>opt_generator_output := Some g_o\<rparr>);
          p = environment_value S opts ''GYP_PARALLEL''
      in if opt_parallel opts \<or> \<not> opt_use_environment opts then opts
         else opts\<lparr>opt_parallel := p \<noteq> [] \<and> p \<noteq> ''0''\<rparr>)"

text \<open>The part of a file's directory up to its last component \<open>src\<close>, for the first file that has one.\<close>

definition src_directory :: "string \<Rightarrow> string \<Rightarrow> string option" where
  "src_directory cwd build_file =
     (case dropWhile (\<lambda>c. c \<noteq> ''src'') (rev (split_on CHR ''/'' (abspath cwd (dirname build_file)))) of
        [] \<Rightarrow> None
      | cs \<Rightarrow> Some (join ''/'' (rev cs)))"

fun choose_depth :: "string \<Rightarrow> string list \<Rightarrow> string option" where
  "choose_depth cwd [] = None"
| "choose_depth cwd (f # fs) =
     (case src_directory cwd f of Some d \<Rightarrow> Some d | None \<Rightarrow> choose_depth cwd fs)"

definition set_depth_option :: "string \<Rightarrow> string list \<Rightarrow> gyp_options \<Rightarrow> (string \<times> gyp_options) result" where
  "set_depth_option cwd given_files opts =
     rbind (case opt_depth opts of
              Some (c # cs) \<Rightarrow> Inr (c # cs)
            | _ \<Rightarrow> (case choose_depth cwd given_files of
                      Some d \<Rightarrow> Inr d
                    | None \<Rightarrow> Inl (GypError ''Could not automatically locate src directory.''))) (\<lambda>depth.
     let opts = opts\<lparr>opt_depth := Some depth\<rparr>
     in Inr (depth, if opt_toplevel_dir opts \<in> {None, Some []} then opts\<lparr>opt_toplevel_dir := Some depth\<rparr> else opts))"

definition from_environment :: "system \<Rightarrow> gyp_options \<Rightarrow> string \<Rightarrow> string list result" where
  "from_environment S opts name = (if opt_use_environment opts then ShlexEnv (environ S) name else Inr [])"

definition all_includes :: "system \<Rightarrow> gyp_options \<Rightarrow> string list" where
  "all_includes S opts =
     (case home_dot_gyp S of
        None \<Rightarrow> []
      | Some d \<Rightarrow> let default_include = path_join d ''include.gypi''
                 in if path_exists S default_include then [default_include] else []) @ opt_includes opts"

section \<open>gyp\_main\<close>

text \<open>\<open>targets[flat_list[0]]['configurations'].keys()\<close>, and the check of \<open>--build\<close>.\<close>

definition build_configs :: "generator_code \<Rightarrow> gen_params \<Rightarrow> string list \<Rightarrow> generated \<Rightarrow> unit result" where
  "build_configs generator params configs = (\<lambda>(flat_list, targets, data).
     if configs = [] then Inr ()
     else case flat_list of
            [] \<Rightarrow> Inl IndexError
          | target # _ \<Rightarrow>
              rbind (dict_read targets target) (\<lambda>d.
              rbind (dict_read d ''configurations'') (\<lambda>v.
              rbind (as_dict v) (\<lambda>valid_configs.
              rbind (rfold (\<lambda>conf _. if has_key conf valid_configs then Inr ()
                                   else Inl (GypError (''Invalid config specified via --build: '' @ conf))) configs ())
                (\<lambda>_. PerformBuild generator data configs params)))))"

definition generate_format ::
  "nat \<Rightarrow> nat \<Rightarrow> main_env \<Rightarrow> string list \<Rightarrow> string list \<Rightarrow> gyp_options \<Rightarrow> string \<Rightarrow> gdict \<Rightarrow> gdict \<Rightarrow> string
   \<Rightarrow> (string \<times> generated) list \<times> main_state \<Rightarrow> ((string \<times> generated) list \<times> main_state) result" where
  "generate_format k n M given_files build_files_arg opts depth cmdline_default_variables generator_flags format =
     (\<lambda>(outputs, st).
     let params =
       \<lparr>param_options = opts, param_build_files = given_files, param_generator_flags = generator_flags,
        param_cwd = main_cwd M, param_build_files_arg = build_files_arg, param_gyp_binary = gyp_binary M,
        param_home_dot_gyp = home_dot_gyp (system M), param_parallel = opt_parallel opts, param_flavor = None\<rparr>
     in rbind (LoadFormat k n M given_files format cmdline_default_variables (all_includes (system M) opts) depth
                 params (opt_check opts) (opt_circular_check opts) st) (\<lambda>((generator, params, loaded), st).
        rbind (GenerateOutput generator loaded params) (\<lambda>left.
        rbind (build_configs generator params (opt_configs opts) left) (\<lambda>_.
        Inr (outputs @ [(format, loaded)], st)))))"

text \<open>
  The result has, for each format, what its generator was given. \<open>set(options.formats)\<close> is visited in
  the order of \<open>load_env\<close>.
\<close>

definition gyp_main ::
  "nat \<Rightarrow> nat \<Rightarrow> main_env \<Rightarrow> gyp_options \<Rightarrow> string list \<Rightarrow> main_state
   \<Rightarrow> ((string \<times> generated) list \<times> main_state) result" where
  "gyp_main k n M opts build_files_arg st =
     (let S = system M;
          opts = complete_options S opts;
          given_files = (if build_files_arg = [] then FindBuildFiles S else build_files_arg)
      in if given_files = [] then Inl (GypError ''error: no build_file'')
         else
           rbind (set_depth_option (main_cwd M) given_files opts) (\<lambda>(depth, opts).
           rbind (from_environment S opts ''GYP_DEFINES'') (\<lambda>defines.
           rbind (from_environment S opts ''GYP_GENERATOR_FLAGS'') (\<lambda>gen_flags.
           let cmdline_default_variables = NameValueListToDict (defines @ opt_defines opts);
               generator_flags = NameValueListToDict (gen_flags @ opt_generator_flags opts);
               generator_flags =
                 (case opt_msvs_version opts of
                    Some (c # cs) \<Rightarrow> AList.update ''msvs_version'' (GStr (c # cs)) generator_flags
                  | _ \<Rightarrow> generator_flags)
           in rfold (generate_format k n M given_files build_files_arg opts depth cmdline_default_variables generator_flags)
                (order (load_in M) (remdups (opt_formats opts))) ([], st)))))"

text \<open>The exit code, or the exception that ends the program.\<close>

definition main :: "nat \<Rightarrow> nat \<Rightarrow> main_env \<Rightarrow> gyp_options \<Rightarrow> string list \<Rightarrow> main_state \<Rightarrow> nat result" where
  "main k n M opts build_files_arg st =
     (case gyp_main k n M opts build_files_arg st of
        Inr _ \<Rightarrow> Inr 0
      | Inl (GypError e) \<Rightarrow> Inr 1
      | Inl e \<Rightarrow> Inl e)"

end
