(* ===== verification/Gyp_Target_Facts.thy ===== *)
theory Gyp_Target_Facts
  imports Gyp_Target_File Gyp_Expand_Fuel
begin

text \<open>
  What loading a build file with everything it depends on leaves: every file is loaded once, the
  files that the loaded targets depend on are loaded too, and no others.
\<close>

section \<open>Loading a file keeps what is loaded\<close>

definition data_kept :: "load_state \<Rightarrow> load_state \<Rightarrow> bool" where
  "data_kept st st' \<longleftrightarrow> map_of (data st) \<subseteq>\<^sub>m map_of (data st')"

lemma data_kept_refl: "data_kept st st"
  by (simp add: data_kept_def)

lemma data_kept_trans: "data_kept a b \<Longrightarrow> data_kept b c \<Longrightarrow> data_kept a c"
  unfolding data_kept_def by (rule map_le_trans)

lemma data_kept_note: "data_kept (note_included p f st) st' \<longleftrightarrow> data_kept st st'"
  by (simp add: data_kept_def note_included_def)

definition one_kept :: "nat \<Rightarrow> bool" where
  "one_kept n \<longleftrightarrow> (\<forall>env io check extra path st c st'.
     LoadOneBuildFile n env io check extra path st = Inr (c, st') \<longrightarrow> data_kept st st')"

definition dict_kept :: "nat \<Rightarrow> bool" where
  "dict_kept n \<longleftrightarrow> (\<forall>env io check extra path d st d' st'.
     LoadBuildFileIncludesIntoDict n env io check extra path d st = Inr (d', st') \<longrightarrow> data_kept st st')"

definition list_kept :: "nat \<Rightarrow> bool" where
  "list_kept n \<longleftrightarrow> (\<forall>env io check path l st l' st'.
     LoadBuildFileIncludesIntoList n env io check path l st = Inr (l', st') \<longrightarrow> data_kept st st')"

lemmas one_keptD = one_kept_def [THEN iffD1, rule_format]
lemmas dict_keptD = dict_kept_def [THEN iffD1, rule_format]
lemmas list_keptD = list_kept_def [THEN iffD1, rule_format]

lemma one_kept_Suc: "dict_kept n \<Longrightarrow> one_kept (Suc n)"
  unfolding one_kept_def
proof (intro allI impI)
  fix env io check extra path st c st'
  assume dict: "dict_kept n" and run: "LoadOneBuildFile (Suc n) env io check extra path st = Inr (c, st')"
  show "data_kept st st'"
  proof (cases "map_of (data st) path")
    case None
    with run obtain c0 st1 where
      1: "LoadBuildFileIncludesIntoDict n env io check extra path c0 (start_file path c0 st) = Inr (c, st1)"
        "st' = finish_file path c st1" by (auto simp: LoadOneBuildFile.simps)
    from dict_keptD [OF dict 1(1)] None show ?thesis
      by (auto simp: data_kept_def map_le_def 1(2) finish_file_def start_file_def map_of_update dom_def split: if_splits)
  next
    case (Some d)
    with run show ?thesis by (auto simp: LoadOneBuildFile.simps data_kept_refl split: if_splits)
  qed
qed

lemma dict_kept_Suc:
  assumes one: "one_kept n" and dict: "dict_kept n" and list: "list_kept n"
  shows "dict_kept (Suc n)"
  unfolding dict_kept_def
proof (intro allI impI)
  fix env io check extra path d st d' st'
  let ?ok = "\<lambda>(x, s). data_kept st s"
  assume run: "LoadBuildFileIncludesIntoDict (Suc n) env io check extra path d st = Inr (d', st')"
  then obtain incs x where
    1: "rfold (\<lambda>include (subdict, st).
          rbind (LoadOneBuildFile n env io check None include (note_included path include st))
            (\<lambda>(fro, st). rbind (MergeDicts env subdict fro path include) (\<lambda>subdict. Inr (subdict, st))))
        incs (AList.delete ''includes'' d, st) = Inr x"
    and 2: "(case x of (subdict, st) \<Rightarrow> rfold (\<lambda>(k, v) (seen, st).
        case v of
          GDict d \<Rightarrow> rbind (LoadBuildFileIncludesIntoDict n env io check None path d st) (\<lambda>(d, st).
            Inr (seen @ [(k, GDict d)], st))
        | GList l \<Rightarrow> rbind (LoadBuildFileIncludesIntoList n env io check path l st) (\<lambda>(l, st).
            Inr (seen @ [(k, GList l)], st))
        | v \<Rightarrow> Inr (seen @ [(k, v)], st)) subdict ([], st)) = Inr (d', st')"
    unfolding LoadBuildFileIncludesIntoDict.simps rbind_Inr_iff by (elim exE conjE) (rule that)
  have "?ok x"
  proof (rule rfold_invariant [OF 1])
    show "?ok (AList.delete ''includes'' d, st)" by (simp add: data_kept_refl)
  qed (auto simp: data_kept_note dest!: one_keptD [OF one], rule data_kept_trans)
  then obtain d1 st1 where x: "x = (d1, st1)" and st1: "data_kept st st1" by (cases x) simp
  have "?ok (d', st')"
  proof (rule rfold_invariant [OF 2 [unfolded x prod.case]])
    show "?ok ([], st1)" using st1 by simp
  qed (auto split: gval.splits dest!: dict_keptD [OF dict] list_keptD [OF list] dest: data_kept_trans)
  then show "data_kept st st'" by simp
qed

lemma list_kept_Suc:
  assumes dict: "dict_kept n" and list: "list_kept n"
  shows "list_kept (Suc n)"
  unfolding list_kept_def
proof (intro allI impI)
  fix env io check path l st l' st'
  let ?ok = "\<lambda>(x, s). data_kept st s"
  assume run: "LoadBuildFileIncludesIntoList (Suc n) env io check path l st = Inr (l', st')"
  have "?ok (l', st')"
  proof (rule rfold_invariant [OF run [unfolded LoadBuildFileIncludesIntoList.simps]])
    show "?ok ([], st)" by (simp add: data_kept_refl)
  qed (auto split: gval.splits dest!: dict_keptD [OF dict] list_keptD [OF list] dest: data_kept_trans)
  then show "data_kept st st'" by simp
qed

lemma load_kept: "one_kept n \<and> dict_kept n \<and> list_kept n"
proof (induction n)
  case 0
  show ?case by (simp add: one_kept_def dict_kept_def list_kept_def)
qed (simp add: one_kept_Suc dict_kept_Suc list_kept_Suc)

lemma LoadOneBuildFile_kept:
  "LoadOneBuildFile n env io check extra path st = Inr (c, st') \<Longrightarrow> map_of (data st) f = Some d \<Longrightarrow> map_of (data st') f = Some d"
  using one_keptD [OF load_kept [THEN conjunct1], of n env io check extra path st c st']
  by (auto simp: data_kept_def map_le_def dom_def)

section \<open>The files that a file depends on\<close>

definition links_of :: "load_env \<Rightarrow> file_state \<Rightarrow> string \<Rightarrow> string list option" where
  "links_of L st f =
     (case contents_of st f of
        None \<Rightarrow> None
      | Some d \<Rightarrow>
          (case file_dependencies (globals L) f d of
             Inl e \<Rightarrow> None
           | Inr ds \<Rightarrow> Some (map (file_key L) ds)))"

text \<open>A loaded file and one that its targets depend on.\<close>

definition file_link :: "load_env \<Rightarrow> file_state \<Rightarrow> string \<Rightarrow> string \<Rightarrow> bool" where
  "file_link L st f g \<longleftrightarrow> f \<in> set (target_build_files st) \<and> (\<exists>gs. links_of L st f = Some gs \<and> g \<in> set gs)"

text \<open>The dependencies of every file are loaded, except perhaps those of the files in \<open>P\<close>, which are being loaded.\<close>

definition settled :: "load_env \<Rightarrow> string set \<Rightarrow> file_state \<Rightarrow> bool" where
  "settled L P st \<longleftrightarrow> distinct (target_build_files st)
     \<and> (\<forall>f \<in> set (target_build_files st) - P.
          \<exists>gs. links_of L st f = Some gs \<and> set gs \<subseteq> set (target_build_files st))"

definition more_files :: "load_env \<Rightarrow> file_state \<Rightarrow> file_state \<Rightarrow> bool" where
  "more_files L st st' \<longleftrightarrow> (\<exists>fs. target_build_files st' = target_build_files st @ fs)
     \<and> (\<forall>f \<in> set (target_build_files st). contents_of st f \<noteq> None \<longrightarrow> contents_of st' f = contents_of st f)"

lemma more_files_refl: "more_files L st st"
  by (simp add: more_files_def)

lemma more_files_trans: "more_files L a b \<Longrightarrow> more_files L b c \<Longrightarrow> more_files L a c"
  by (fastforce simp: more_files_def)

lemma more_files_set: "more_files L st st' \<Longrightarrow> set (target_build_files st) \<subseteq> set (target_build_files st')"
  by (auto simp: more_files_def)

lemma more_files_links:
  assumes "more_files L st st'" and "f \<in> set (target_build_files st)" and "links_of L st f = Some gs"
  shows "links_of L st' f = Some gs"
proof -
  from assms(3) have "contents_of st f \<noteq> None" by (auto simp: links_of_def split: option.splits)
  with assms(1,2) have "contents_of st' f = contents_of st f" by (auto simp: more_files_def)
  with assms(3) show ?thesis by (simp add: links_of_def)
qed

lemma file_link_mono: "more_files L st st' \<Longrightarrow> file_link L st f g \<Longrightarrow> file_link L st' f g"
  using more_files_links more_files_set by (fastforce simp: file_link_def)

lemma file_links_mono: "more_files L st st' \<Longrightarrow> (file_link L st)\<^sup>*\<^sup>* f g \<Longrightarrow> (file_link L st')\<^sup>*\<^sup>* f g"
  by (metis file_link_mono mono_rtranclp)

section \<open>One file\<close>

lemma set_depth_same [simp]:
  "files (set_depth L depth p st) = files st" "target_build_files (set_depth L depth p st) = target_build_files st"
  by (simp_all add: set_depth_def Let_def)

lemma links_of_same: "files st = files st' \<Longrightarrow> links_of L st = links_of L st'"
  by (simp add: links_of_def fun_eq_iff)

lemma settled_same:
  "files st = files st' \<Longrightarrow> target_build_files st = target_build_files st' \<Longrightarrow> settled L P st = settled L P st'"
  using links_of_same [of st st' L] by (simp add: settled_def)

lemma more_files_same:
  "files st = files st' \<Longrightarrow> target_build_files st = target_build_files st' \<Longrightarrow> more_files L st = more_files L st'"
  by (simp add: more_files_def fun_eq_iff)

text \<open>Loading the file itself, before the files that it depends on.\<close>

lemma load_file_more:
  assumes run: "load_file L n includes depth check p (st\<lparr>target_build_files := target_build_files st @ [p]\<rparr>) = Inr (ds, st')"
    and p: "p \<notin> set (target_build_files st)"
  shows "target_build_files st' = target_build_files st @ [p]" "more_files L st st'"
    "links_of L st' p = Some (map (file_key L) ds)"
proof -
  from run obtain d fs d' where
    load: "LoadOneBuildFile n (globals L) (file_access L) check includes p (files st) = Inr (d, fs)"
    and deps: "file_dependencies (globals L) p d' = Inr ds"
    and st': "target_build_files st' = target_build_files st @ [p]" "data (files st') = AList.update p d' (data fs)"
    by (auto simp: load_file_def)
  have "contents_of st' f = contents_of st f" if "f \<in> set (target_build_files st)" "contents_of st f \<noteq> None" for f
    using that p LoadOneBuildFile_kept [OF load] by (auto simp: st'(2) map_of_update)
  with st' show "more_files L st st'" by (auto simp: more_files_def)
  show "links_of L st' p = Some (map (file_key L) ds)"
    by (simp add: links_of_def st'(2) map_of_update deps)
qed (use run in \<open>auto simp: load_file_def\<close>)

section \<open>A file with everything it depends on\<close>

text \<open>From \<open>st\<close> to \<open>st'\<close> the file \<open>p\<close> is loaded, with the files that it reaches.\<close>

definition loads :: "load_env \<Rightarrow> string set \<Rightarrow> string \<Rightarrow> file_state \<Rightarrow> file_state \<Rightarrow> bool" where
  "loads L P p st st' \<longleftrightarrow> settled L P st' \<and> more_files L st st' \<and> p \<in> set (target_build_files st')
     \<and> (\<forall>g \<in> set (target_build_files st') - set (target_build_files st). (file_link L st')\<^sup>*\<^sup>* p g)"

definition file_loads :: "nat \<Rightarrow> bool" where
  "file_loads k \<longleftrightarrow> (\<forall>n L includes depth check path st r st' P.
     LoadTargetBuildFile k n L includes depth check True path st = Inr (r, st')
     \<longrightarrow> settled L P st \<longrightarrow> P \<subseteq> set (target_build_files st) \<longrightarrow> loads L P (file_key L path) st st')"

lemmas file_loadsD = file_loads_def [THEN iffD1, rule_format]

text \<open>The loop over the dependencies of \<open>p\<close>.\<close>

lemma dependencies_load:
  assumes IH: "file_loads k"
    and run: "rfold (\<lambda>dependency st. on_error e (rbind (LoadTargetBuildFile k n L includes depth check True dependency st)
        (\<lambda>(r, st). Inr st))) ds st = Inr st'"
    and st: "settled L P st" "P \<subseteq> set (target_build_files st)" "p \<in> set (target_build_files st)"
      "links_of L st p = Some gs" "file_key L ` set ds \<subseteq> set gs"
  shows "settled L P st' \<and> more_files L st st' \<and> file_key L ` set ds \<subseteq> set (target_build_files st')
    \<and> (\<forall>g \<in> set (target_build_files st') - set (target_build_files st). (file_link L st')\<^sup>*\<^sup>* p g)"
  using run st
proof (induction ds arbitrary: st)
  case Nil
  then show ?case by (simp add: more_files_refl)
next
  case (Cons d ds)
  from Cons.prems(1) obtain r st1 where
    1: "LoadTargetBuildFile k n L includes depth check True d st = Inr (r, st1)"
    and 2: "rfold (\<lambda>dependency st. on_error e (rbind (LoadTargetBuildFile k n L includes depth check True dependency st)
        (\<lambda>(r, st). Inr st))) ds st1 = Inr st'"
    by auto
  from file_loadsD [OF IH 1 Cons.prems(2,3)]
  have st1: "settled L P st1" "more_files L st st1" "file_key L d \<in> set (target_build_files st1)"
    and new1: "\<forall>g \<in> set (target_build_files st1) - set (target_build_files st). (file_link L st1)\<^sup>*\<^sup>* (file_key L d) g"
    by (simp_all add: loads_def)
  note sub = more_files_set [OF st1(2)]
  from Cons.IH [OF 2 st1(1)] Cons.prems(3-6) sub more_files_links [OF st1(2) Cons.prems(4,5)]
  have st': "settled L P st'" "more_files L st1 st'" "file_key L ` set ds \<subseteq> set (target_build_files st')"
    and new2: "\<forall>g \<in> set (target_build_files st') - set (target_build_files st1). (file_link L st')\<^sup>*\<^sup>* p g"
    by auto
  have "file_link L st p (file_key L d)" using Cons.prems(4-6) by (simp add: file_link_def)
  then have pd: "file_link L st' p (file_key L d)"
    using file_link_mono more_files_trans [OF st1(2) st'(2)] by blast
  have "(file_link L st')\<^sup>*\<^sup>* p g" if "g \<in> set (target_build_files st') - set (target_build_files st)" for g
  proof (cases "g \<in> set (target_build_files st1)")
    case True
    with that new1 have "(file_link L st1)\<^sup>*\<^sup>* (file_key L d) g" by blast
    from converse_rtranclp_into_rtranclp [OF pd file_links_mono [OF st'(2) this]] show ?thesis .
  qed (use that new2 in blast)
  moreover have "file_key L d \<in> set (target_build_files st')"
    using st1(3) more_files_set [OF st'(2)] by blast
  ultimately show ?case using st'(1,3) more_files_trans [OF st1(2) st'(2)] by simp
qed

lemma file_loads_Suc:
  assumes IH: "file_loads k"
  shows "file_loads (Suc k)"
  unfolding file_loads_def
proof (intro allI impI)
  fix n L "includes" depth check path st r st' P
  assume run: "LoadTargetBuildFile (Suc k) n L includes depth check True path st = Inr (r, st')"
    and st: "settled L P st" "P \<subseteq> set (target_build_files st)"
  let ?s = "set_depth L depth path st" and ?p = "file_key L path"
  have s: "settled L P ?s" using st(1) settled_same [of ?s st L P] by simp
  show "loads L P ?p st st'"
  proof (cases "?p \<in> set (target_build_files st)")
    case True
    with run have "st' = ?s" by (simp add: LoadTargetBuildFile.simps(2) Let_def)
    with s True more_files_same [of st ?s L] more_files_refl [of L ?s] show ?thesis by (simp add: loads_def)
  next
    case False
    with run obtain ds st1 where
      1: "load_file L n includes depth check ?p (?s\<lparr>target_build_files := target_build_files ?s @ [?p]\<rparr>) = Inr (ds, st1)"
      and 2: "rfold (\<lambda>dependency st. on_error (append_error (''while loading dependencies of '' @ ?p))
          (rbind (LoadTargetBuildFile k n L includes depth check True dependency st) (\<lambda>(r, st). Inr st))) ds st1 = Inr st'"
      by (auto simp: LoadTargetBuildFile.simps(2) Let_def)
    from False have "?p \<notin> set (target_build_files ?s)" by simp
    note st1 = load_file_more [OF 1 this]
    have more: "more_files L st st1" using st1(2) more_files_same [of st ?s L] by simp
    have "settled L (insert ?p P) st1"
      unfolding settled_def
    proof (intro conjI ballI)
      show "distinct (target_build_files st1)" using st(1) False by (simp add: st1(1) settled_def)
      fix f assume "f \<in> set (target_build_files st1) - insert ?p P"
      then have f: "f \<in> set (target_build_files st)" "f \<notin> P" by (auto simp: st1(1))
      with st(1) obtain gs where "links_of L st f = Some gs" "set gs \<subseteq> set (target_build_files st)"
        by (auto simp: settled_def)
      with more_files_links [OF more f(1)]
      show "\<exists>gs. links_of L st1 f = Some gs \<and> set gs \<subseteq> set (target_build_files st1)" by (auto simp: st1(1))
    qed
    from dependencies_load [OF IH 2 this _ _ st1(3)] st(2) st1(1)
    have st': "settled L (insert ?p P) st'" "more_files L st1 st'" "file_key L ` set ds \<subseteq> set (target_build_files st')"
      and new: "\<forall>g \<in> set (target_build_files st') - set (target_build_files st1). (file_link L st')\<^sup>*\<^sup>* ?p g"
      by auto
    have links: "links_of L st' ?p = Some (map (file_key L) ds)"
      using more_files_links [OF st'(2) _ st1(3)] by (simp add: st1(1))
    have "settled L P st'"
      using st'(1,3) links unfolding settled_def by (metis DiffE DiffI image_set insertE)
    moreover have "?p \<in> set (target_build_files st')" using more_files_set [OF st'(2)] by (simp add: st1(1))
    moreover have "(file_link L st')\<^sup>*\<^sup>* ?p g" if "g \<in> set (target_build_files st') - set (target_build_files st)" for g
      using that new by (cases "g = ?p") (auto simp: st1(1))
    ultimately show ?thesis using more_files_trans [OF more st'(2)] by (simp add: loads_def)
  qed
qed

lemma file_loads_all: "file_loads k"
proof (induction k)
  case 0
  show ?case by (simp add: file_loads_def)
qed (rule file_loads_Suc)

text \<open>
  C8: loading a build file with its dependencies, from a state in which the dependencies of all loaded
  files are loaded, leaves such a state again, in which every file is loaded once, and loads exactly
  the files that the given one reaches through the dependencies of targets, as they are after
  includes, conditions, toolsets and defaults.
\<close>

theorem target_files_closed:
  assumes "LoadTargetBuildFile k n L includes depth check True path st = Inr (r, st')" and "settled L {} st"
  shows "settled L {} st' \<and> set (target_build_files st') =
    set (target_build_files st) \<union> {f. (file_link L st')\<^sup>*\<^sup>* (file_key L path) f}"
proof -
  from file_loadsD [OF file_loads_all assms]
  have st': "settled L {} st'" "set (target_build_files st) \<subseteq> set (target_build_files st')"
      "file_key L path \<in> set (target_build_files st')"
    and new: "\<forall>g \<in> set (target_build_files st') - set (target_build_files st). (file_link L st')\<^sup>*\<^sup>* (file_key L path) g"
    by (auto simp: loads_def dest: more_files_set)
  have "f \<in> set (target_build_files st')" if "(file_link L st')\<^sup>*\<^sup>* (file_key L path) f" for f
    using that
  proof (induction rule: rtranclp_induct)
    case (step f g)
    with st'(1) show ?case by (fastforce simp: settled_def file_link_def)
  qed (rule st'(3))
  with st' new show ?thesis by blast
qed

section \<open>Example\<close>

definition ex_load :: load_env where
  "ex_load =
     \<lparr>file_access =
        \<lparr>read_file = Some, parse_module = (\<lambda>s. Inl (SyntaxError s)), py_eval = (\<lambda>s. Inr (GDict [])), getcwd = ''/r''\<rparr>,
      expansion = ex_expand\<lparr>genv := ex_globals\<rparr>,
      order = (\<lambda>l. l), pick_target = hd, pick_file = hd\<rparr>"

text \<open>The file \<open>a\<close> has a target that depends on one in \<open>c\<close>; both are loaded.\<close>

definition ex_files :: file_state where
  "ex_files =
     \<lparr>files =
        \<lparr>data = [(''a'', [(''targets'', GList [GDict [(''dependencies'', GList [GStr ''c:y''])]])]), (''c'', [])],
         aux_data = [(''a'', []), (''c'', [])], open_files = []\<rparr>,
      target_build_files = [''a'', ''c''], variables = [],
      objects = \<lparr>cells = [], cached_command_results = [], commands = [], written = []\<rparr>\<rparr>"

lemma ex_files_run:
  "rbind (LoadTargetBuildFile 1 3 ex_load None [] False True ''b'' ex_files) (\<lambda>(r, st). Inr (target_build_files st))
   = Inr [''a'', ''c'', ''b'']"
  by code_simp

lemma ex_files_settled: "settled ex_load {} ex_files"
proof -
  have "links_of ex_load ex_files ''a'' = Some [''c'']" "links_of ex_load ex_files ''c'' = Some []"
    by code_simp+
  then show ?thesis by (simp add: settled_def) (simp add: ex_files_def)
qed

theorem target_files_witness:
  "\<exists>st. settled ex_load {} st \<and> set (target_build_files st) = {''a'', ''c'', ''b''}
    \<and> {f. (file_link ex_load st)\<^sup>*\<^sup>* ''b'' f} \<subseteq> {''a'', ''c'', ''b''}"
proof -
  obtain r st where run: "LoadTargetBuildFile 1 3 ex_load None [] False True ''b'' ex_files = Inr (r, st)"
    and st: "target_build_files st = [''a'', ''c'', ''b'']"
    using ex_files_run by auto
  have "file_key ex_load ''b'' = ''b''" by code_simp
  with target_files_closed [OF run ex_files_settled] st show ?thesis by (metis list.set(1,2) sup_ge2)
qed

end
