(* ===== verification/Gyp_Load_Facts.thy ===== *)
theory Gyp_Load_Facts
  imports Gyp_Pipeline Gyp_Target_Facts
begin

text \<open>
  What a run of \<open>Load\<close> gives: which files and targets are loaded, in which order the targets are
  returned, and what the passes guarantee for each.
\<close>

section \<open>The passes keep the names of the targets\<close>

lemma rmap_keys:
  "rmap f targets = Inr ts \<Longrightarrow> (\<And>p q. f p = Inr q \<Longrightarrow> fst q = fst p) \<Longrightarrow> map fst ts = map fst targets"
  by (induction targets arbitrary: ts) auto

lemma QualifyDependencies_keys: "QualifyDependencies env a = Inr b \<Longrightarrow> map fst b = map fst a"
  unfolding QualifyDependencies_def by (erule rmap_keys) (auto simp: qualify_target_def)

lemma RemoveSelfDependencies_keys: "RemoveSelfDependencies a = Inr b \<Longrightarrow> map fst b = map fst a"
  unfolding RemoveSelfDependencies_def by (erule rmap_keys) auto

lemma ExpandWildcardDependencies_keys: "ExpandWildcardDependencies a d = Inr b \<Longrightarrow> map fst b = map fst a"
  unfolding ExpandWildcardDependencies_def by (erule rmap_keys) auto

lemma RemoveDuplicateDependencies_keys: "RemoveDuplicateDependencies a = Inr b \<Longrightarrow> map fst b = map fst a"
  unfolding RemoveDuplicateDependencies_def by (erule rmap_keys) auto

lemma filter_dependencies_keys: "rmap (filter_dependencies c) a = Inr b \<Longrightarrow> map fst b = map fst a"
  by (erule rmap_keys) (auto simp: filter_dependencies_def Let_def)

lemma load_targets_Inr:
  assumes "load_targets L st = Inr ts"
  shows "\<exists>ts0. BuildTargetsDict (order L (target_build_files st)) (data (files st)) = Inr ts0 \<and> map fst ts = map fst ts0"
proof -
  from assms obtain a b c d e where
    "BuildTargetsDict (order L (target_build_files st)) (data (files st)) = Inr a"
    "QualifyDependencies (globals L) a = Inr b" "RemoveSelfDependencies b = Inr c"
    "ExpandWildcardDependencies c (data (files st)) = Inr d"
    "rmap (filter_dependencies (compile_re (expansion L))) d = Inr e" "RemoveDuplicateDependencies e = Inr ts"
    unfolding load_targets_def rbind_Inr_iff by blast
  then show ?thesis
    using QualifyDependencies_keys RemoveSelfDependencies_keys ExpandWildcardDependencies_keys
      filter_dependencies_keys RemoveDuplicateDependencies_keys by metis
qed

lemma map_entry_keys: "map fst (AList.map_entry k f d) = map fst d"
  by (induction d) auto

lemma publish_settings_keys:
  "publish_settings env n flat nodes key a = Inr b \<Longrightarrow> map fst b = map fst a"
proof -
  have "map fst (fold (\<lambda>target. AList.map_entry target (AList.delete key)) xs d) = map fst d" for xs and d :: gtargets
    by (induction xs arbitrary: d) (simp_all add: map_entry_keys)
  then show "publish_settings env n flat nodes key a = Inr b \<Longrightarrow> map fst b = map fst a"
    by (auto simp: publish_settings_def only_updates_def dest: DoDependentSettings_only)
qed

lemma link_targets_keys:
  assumes "link_targets env n gii flat nodes a = Inr b"
  shows "map fst b = map fst a"
proof -
  from assms obtain c where c: "rfold (publish_settings env n flat nodes) settings_types a = Inr c"
    and b: "b = c \<or> AdjustStaticLibraryDependencies n flat c nodes (generator_wants_sorted_dependencies gii) = Inr b"
    by (auto simp: link_targets_def split: if_splits)
  have "map fst c = map fst a"
    by (rule rfold_invariant [OF c, where P = "\<lambda>ts. map fst ts = map fst a"]) (simp_all add: publish_settings_keys)
  moreover have "map fst b = map fst c"
    using b AdjustStaticLibraryDependencies_only by (auto simp: only_updates_def)
  ultimately show ?thesis by simp
qed

lemma update_known_keys: "map_of d k = Some v \<Longrightarrow> map fst (AList.update k w d) = map fst d"
  by (simp add: update_keys map_of_key)

lemma process_targets_keys:
  "process_targets L n phase vs flat a s = Inr (b, t) \<Longrightarrow> map fst b = map fst a"
  unfolding process_targets_def
proof (induction flat arbitrary: a s)
  case (Cons x flat)
  then obtain d d' t1 where "map_of a x = Some d"
    "cfold (\<lambda>target targets.
       cbind (clift (dict_read targets target)) (\<lambda>target_dict.
       cbind (clift (file_of target)) (\<lambda>build_file.
       cbind (process_tree (expansion L) n phase vs build_file target_dict) (\<lambda>target_dict.
       creturn (AList.update target target_dict targets))))) flat (AList.update x d' a) t1 = Inr (b, t)"
    by auto
  with Cons.IH [OF this(2)] show ?case by (simp add: update_known_keys)
qed simp

lemma each_target_step:
  "rbind (dict_read a x) (\<lambda>d. rbind (f x d) (\<lambda>d. Inr (AList.update x d a))) = Inr b \<Longrightarrow> only_updates {x} a b"
  by (auto intro: only_updates_update)

lemma each_target_only: "each_target f flat a = Inr b \<Longrightarrow> only_updates (set flat) a b"
  unfolding each_target_def by (erule rfold_only_updates [rotated]) (rule each_target_step)

lemma each_target_keys: "each_target f flat a = Inr b \<Longrightarrow> map fst b = map fst a"
  using each_target_only [of f flat a b] by (simp add: only_updates_def)

text \<open>In such a loop every target has its turn once, and has its value from it.\<close>

lemma each_target_value:
  assumes "each_target f flat a = Inr b" and "distinct flat" and "t \<in> set flat"
  shows "\<exists>d d'. map_of a t = Some d \<and> f t d = Inr d' \<and> map_of b t = Some d'"
proof -
  from rfold_turn [OF assms(1) [unfolded each_target_def] assms(2,3) each_target_step [where f = f]]
  obtain as bs a1 a2 where "flat = as @ t # bs"
    and turn: "rbind (dict_read a1 t) (\<lambda>d. rbind (f t d) (\<lambda>d. Inr (AList.update t d a1))) = Inr a2"
    and a1: "\<forall>x. x \<notin> set as \<longrightarrow> map_of a1 x = map_of a x" and a2: "map_of a2 t = map_of b t" by blast
  with assms(2) have "map_of a1 t = map_of a t" by simp
  with turn a2 show ?thesis by (auto simp: map_of_update)
qed

lemma finish_targets_Inr:
  assumes "finish_targets L n gii vs flat a s = Inr (b, t)"
  shows "map fst b = map fst a \<and> (\<exists>c arch. map fst c = map fst a \<and> each_target (validate_target gii arch) flat c = Inr b)"
proof -
  from assms obtain a1 a2 a3 a4 s1 s2 arch where
    "process_targets L n PHASE_LATE vs flat a s = Inr (a1, s1)"
    "each_target (SetUpConfigurations (globals L)) flat a1 = Inr a2"
    "each_target (ProcessListFiltersInDict (compile_re (expansion L))) flat a2 = Inr a3"
    "process_targets L n PHASE_LATELATE vs flat a3 s1 = Inr (a4, s2)"
    and b: "each_target (validate_target gii arch) flat a4 = Inr b"
    unfolding finish_targets_def cbind_Inr clift_Inr by blast
  then have "map fst a4 = map fst a" by (metis process_targets_keys each_target_keys)
  with b each_target_keys [OF b] show ?thesis by auto
qed

section \<open>A run of Load\<close>

lemma Load_Inr:
  assumes "Load k n L gii fs vs includes depth check circular_check in_parallel obs = Inr ((flat, targets), st')"
  shows "\<exists>ws obs0 st ts nodes ts1 ts2 obs1. let L' = set_globals gii L in
    new_dict vs obs = Inr (ws, obs0) \<and> load_build_files k n L' includes depth check in_parallel fs (start_state ws obs0) = Inr st
    \<and> load_targets L' st = Inr ts \<and> sort_targets L' circular_check ts = Inr (nodes, flat)
    \<and> link_targets (globals L') n gii flat nodes ts = Inr ts1
    \<and> finish_targets L' n gii (variables st) flat ts1 (objects st) = Inr (ts2, obs1)
    \<and> targets = map (\<lambda>(target, d). (target, TurnIntIntoStrInDict d)) ts2
    \<and> st' = finish_data ts2 (st\<lparr>objects := obs1\<rparr>)"
proof -
  from assms obtain ws obs0 where start: "new_dict vs obs = Inr (ws, obs0)"
    by (cases "new_dict vs obs") (auto simp: Load_def)
  from assms show ?thesis
    unfolding Load_def Let_def start rbind.simps prod.case
    by (clarsimp simp: split_beta)
qed

lemma BuildTargetsDict_wf: "BuildTargetsDict fs contents = Inr targets \<Longrightarrow> wf_dict targets"
  using BuildTargetsDict_entries by blast

text \<open>The loop over the files that are given.\<close>

lemma load_build_files_closed:
  assumes "load_build_files k n L includes depth check in_parallel fs st = Inr st'" and "settled L {} st"
  shows "settled L {} st' \<and> more_files L st st' \<and> set (target_build_files st') =
    set (target_build_files st) \<union> {f. \<exists>b \<in> set fs. (file_link L st')\<^sup>*\<^sup>* (file_key L (normpath b)) f}"
  using assms
proof (induction fs arbitrary: st)
  case (Cons b fs)
  from Cons.prems(1) obtain r st1 where
    1: "LoadTargetBuildFile k n L includes depth check True (normpath b) st = Inr (r, st1)"
    and 2: "load_build_files k n L includes depth check in_parallel fs st1 = Inr st'"
    by (auto simp: load_build_files_def Let_def split: if_splits)
  from file_loadsD [OF file_loads_all 1 Cons.prems(2)]
  have st1: "settled L {} st1" "more_files L st st1" "file_key L (normpath b) \<in> set (target_build_files st1)"
    and new: "\<forall>g \<in> set (target_build_files st1) - set (target_build_files st).
        (file_link L st1)\<^sup>*\<^sup>* (file_key L (normpath b)) g"
    by (simp_all add: loads_def)
  from Cons.IH [OF 2 st1(1)] have st': "settled L {} st'" "more_files L st1 st'"
    and files: "set (target_build_files st') =
      set (target_build_files st1) \<union> {f. \<exists>b \<in> set fs. (file_link L st')\<^sup>*\<^sup>* (file_key L (normpath b)) f}"
    by simp_all
  have "g \<in> set (target_build_files st')" if "(file_link L st')\<^sup>*\<^sup>* (file_key L (normpath b)) g" for g
    using that
  proof (induction rule: rtranclp_induct)
    case base
    show ?case using st1(3) more_files_set [OF st'(2)] by blast
  next
    case (step g h)
    with st'(1) show ?case by (fastforce simp: settled_def file_link_def)
  qed
  moreover have "(file_link L st')\<^sup>*\<^sup>* (file_key L (normpath b)) g"
    if "g \<in> set (target_build_files st1) - set (target_build_files st)" for g
    using file_links_mono [OF st'(2)] new that by blast
  moreover note more_files_trans [OF st1(2) st'(2)]
  ultimately show ?case using st'(1) files more_files_set [OF st1(2)] more_files_set [OF st'(2)] by auto
qed (simp add: load_build_files_def more_files_refl)

lemma start_settled: "settled L {} (start_state vs obs)"
  by (simp add: settled_def start_state_def)

lemma finish_data_files [simp]: "target_build_files (finish_data ts st) = target_build_files st"
  by (simp add: finish_data_def)

text \<open>The state in which the given files and everything they depend on have been loaded.\<close>

definition loaded_state ::
  "nat \<Rightarrow> nat \<Rightarrow> load_env \<Rightarrow> generator_info \<Rightarrow> string list \<Rightarrow> gdict \<Rightarrow> string list option \<Rightarrow> string \<Rightarrow> bool \<Rightarrow> bool
   \<Rightarrow> estate \<Rightarrow> file_state result" where
  "loaded_state k n L gii fs vs includes depth check in_parallel obs =
     rbind (new_dict vs obs) (\<lambda>(vs, obs).
     load_build_files k n (set_globals gii L) includes depth check in_parallel fs (start_state vs obs))"

text \<open>
  C3: \<open>Load\<close> first comes to a state \<open>st\<close> in which it has loaded, each once, exactly the build files
  that the given files reach through the dependencies of the targets in the contents that were
  loaded (\<open>data\<close> of \<open>st\<close>); all of these dependencies are loaded. These are the files of the result. (Parallel
  loading is \<open>Gyp_Parallel\<close>; here a run with it does not succeed.)
\<close>

theorem Load_files:
  assumes "Load k n L gii fs vs includes depth check circular_check in_parallel obs = Inr ((flat, targets), st')"
  shows "\<exists>st. loaded_state k n L gii fs vs includes depth check in_parallel obs = Inr st
    \<and> target_build_files st' = target_build_files st \<and> settled (set_globals gii L) {} st
    \<and> set (target_build_files st) =
        {f. \<exists>b \<in> set fs. (file_link (set_globals gii L) st)\<^sup>*\<^sup>* (file_key (set_globals gii L) (normpath b)) f}"
proof -
  from Load_Inr [OF assms] obtain ws obs0 st ts2 obs1 where start: "new_dict vs obs = Inr (ws, obs0)" and
    st: "load_build_files k n (set_globals gii L) includes depth check in_parallel fs (start_state ws obs0) = Inr st"
    and st': "st' = finish_data ts2 (st\<lparr>objects := obs1\<rparr>)" by (auto simp: Let_def)
  from load_build_files_closed [OF st start_settled] start st st' show ?thesis
    by (intro exI [of _ st]) (simp add: start_state_def loaded_state_def)
qed

text \<open>What the order of the targets rests on.\<close>

lemma sort_targets_Inr:
  assumes "sort_targets L circular_check ts = Inr (nodes, flat)" and "wf_dict ts"
    and "\<And>xs. xs \<noteq> [] \<Longrightarrow> pick_target L xs \<in> set xs"
  shows "distinct flat \<and> set flat = set (map fst ts) \<and> deps_known ts \<and> deps_first (target_deps ts) flat
    \<and> VerifyNoCollidingTargets flat = Inr ()"
proof -
  from assms(1) have "BuildDependencyList (pick_target L) ts = Some (Inr (nodes, flat))"
    and v: "VerifyNoCollidingTargets flat = Inr ()"
    by (auto simp: sort_targets_def returned_def split: if_splits option.splits)
  with dependency_list_correct [OF assms(2), of "pick_target L"] assms(3) show ?thesis by auto
qed

text \<open>The qualified names of the targets in the loaded files.\<close>

definition target_names :: "file_state \<Rightarrow> string set" where
  "target_names st =
     {t. \<exists>f \<in> set (target_build_files st). \<exists>contents items x d. contents_of st f = Some contents
        \<and> get_iter contents ''targets'' = Inr items \<and> x \<in> set items \<and> target_entry f x (t, d)}"

lemma BuildTargetsDict_names:
  assumes "BuildTargetsDict fs (data (files st)) = Inr ts" and "set fs = set (target_build_files st)"
  shows "set (map fst ts) = target_names st"
proof -
  let ?P = "\<lambda>f es. \<exists>contents items. contents_of st f = Some contents \<and> get_iter contents ''targets'' = Inr items
        \<and> list_all2 (target_entry f) items es"
  from BuildTargetsDict_entries [OF assms(1)] obtain ess where
    ess: "ts = concat ess" "list_all2 ?P fs ess" by blast
  have names: "(\<exists>e \<in> set es. t = fst e) \<longleftrightarrow> (\<exists>contents items x d. contents_of st f = Some contents
        \<and> get_iter contents ''targets'' = Inr items \<and> x \<in> set items \<and> target_entry f x (t, d))"
    if P: "?P f es" for f es t
  proof -
    from P obtain contents items where c: "contents_of st f = Some contents" "get_iter contents ''targets'' = Inr items"
      and es: "list_all2 (target_entry f) items es" by blast
    have "(\<exists>e \<in> set es. t = fst e) \<longleftrightarrow> (\<exists>x d. x \<in> set items \<and> target_entry f x (t, d))"
    proof
      assume "\<exists>e \<in> set es. t = fst e"
      then obtain i where "i < length es" "t = fst (es ! i)" by (metis in_set_conv_nth)
      with es show "\<exists>x d. x \<in> set items \<and> target_entry f x (t, d)"
        by (metis list_all2_conv_all_nth nth_mem prod.collapse)
    next
      assume "\<exists>x d. x \<in> set items \<and> target_entry f x (t, d)"
      then obtain i d where i: "i < length items" "target_entry f (items ! i) (t, d)" by (metis in_set_conv_nth)
      with es have "target_entry f (items ! i) (es ! i)" "i < length es" by (simp_all add: list_all2_conv_all_nth)
      with i(2) show "\<exists>e \<in> set es. t = fst e" by (intro bexI [of _ "es ! i"]) (auto simp: target_entry_def)
    qed
    with c show ?thesis by auto
  qed
  have "t \<in> set (map fst ts) \<longleftrightarrow> t \<in> target_names st" for t
  proof -
    have len: "length ess = length fs" using ess(2) by (simp add: list_all2_lengthD)
    note step = names [OF list_all2_nthD [OF ess(2)]]
    have "t \<in> set (map fst ts) \<longleftrightarrow> (\<exists>i < length ess. \<exists>e \<in> set (ess ! i). t = fst e)"
      by (auto simp: ess(1) set_conv_nth [of ess])
    also have "\<dots> \<longleftrightarrow> (\<exists>i < length fs. \<exists>contents items x d. contents_of st (fs ! i) = Some contents
        \<and> get_iter contents ''targets'' = Inr items \<and> x \<in> set items \<and> target_entry (fs ! i) x (t, d))"
      by (simp add: len step cong: conj_cong)
    also have "\<dots> \<longleftrightarrow> t \<in> target_names st"
      unfolding target_names_def mem_Collect_eq assms(2) [symmetric] by (metis in_set_conv_nth)
    finally show ?thesis .
  qed
  then show ?thesis by blast
qed

text \<open>A run that succeeds: its targets, sorted, and the last passes over them.\<close>

lemma Load_passes:
  assumes "Load k n L gii fs vs includes depth check circular_check in_parallel obs = Inr ((flat, targets), st')"
    and "\<And>xs. xs \<noteq> [] \<Longrightarrow> pick_target L xs \<in> set xs" and "\<And>xs. set (order L xs) = set xs"
  obtains st ts ts1 ts2 obs1 where "loaded_state k n L gii fs vs includes depth check in_parallel obs = Inr st"
    "load_targets (set_globals gii L) st = Inr ts"
    "finish_targets (set_globals gii L) n gii (variables st) flat ts1 (objects st) = Inr (ts2, obs1)"
    "targets = map (\<lambda>(target, d). (target, TurnIntIntoStrInDict d)) ts2"
    "st' = finish_data ts2 (st\<lparr>objects := obs1\<rparr>)"
    "distinct flat" "set flat = target_names st" "map fst targets = map fst ts"
    "deps_known ts" "deps_first (target_deps ts) flat" "distinct (map collision_key flat)"
proof -
  let ?L = "set_globals gii L"
  have L: "pick_target ?L = pick_target L" "order ?L = order L" by (simp_all add: set_globals_def)
  from Load_Inr [OF assms(1)] obtain ws obs0 st ts nodes ts1 ts2 obs1 where
    start: "new_dict vs obs = Inr (ws, obs0)"
      "load_build_files k n ?L includes depth check in_parallel fs (start_state ws obs0) = Inr st" and
    ts: "load_targets ?L st = Inr ts" and flat: "sort_targets ?L circular_check ts = Inr (nodes, flat)"
    and passes: "link_targets (globals ?L) n gii flat nodes ts = Inr ts1"
      "finish_targets ?L n gii (variables st) flat ts1 (objects st) = Inr (ts2, obs1)"
    and res: "targets = map (\<lambda>(target, d). (target, TurnIntIntoStrInDict d)) ts2"
      "st' = finish_data ts2 (st\<lparr>objects := obs1\<rparr>)" by (auto simp: Let_def)
  from load_targets_Inr [OF ts] obtain ts0 where
    ts0: "BuildTargetsDict (order L (target_build_files st)) (data (files st)) = Inr ts0" "map fst ts = map fst ts0"
    by (auto simp: L)
  have "wf_dict ts" using BuildTargetsDict_wf [OF ts0(1)] ts0(2) by (simp add: wf_dict_def)
  from sort_targets_Inr [OF flat this] assms(2) have
    ok: "distinct flat" "set flat = set (map fst ts)" "deps_known ts" "deps_first (target_deps ts) flat"
      "VerifyNoCollidingTargets flat = Inr ()" by (auto simp: L)
  have "map fst targets = map fst ts"
    using finish_targets_Inr [OF passes(2)] link_targets_keys [OF passes(1)] by (simp add: res(1) comp_def split_beta)
  moreover have "set flat = target_names st"
    using BuildTargetsDict_names [OF ts0(1)] assms(3) ts0(2) ok(2) by simp
  moreover have "distinct (map collision_key flat)" using ok(5) VerifyNoCollidingTargets_iff by blast
  moreover have "loaded_state k n L gii fs vs includes depth check in_parallel obs = Inr st"
    using start by (simp add: loaded_state_def)
  ultimately show ?thesis using that ts passes(2) res ok by blast
qed

text \<open>
  C2: \<open>Load\<close> first comes to a state \<open>st\<close> with the loaded files, whose targets, once the passes over
  dependencies are done, are \<open>ts\<close>. The list that it returns has every target of these files, each
  once, and each after the targets that it depends on in \<open>ts\<close>; no two of them have the same
  directory and name. This is so for every choice of \<open>set.pop()\<close> and every order of the set of files.
\<close>

theorem Load_order:
  assumes "Load k n L gii fs vs includes depth check circular_check in_parallel obs = Inr ((flat, targets), st')"
    and "\<And>xs. xs \<noteq> [] \<Longrightarrow> pick_target L xs \<in> set xs" and "\<And>xs. set (order L xs) = set xs"
  shows "distinct flat \<and> distinct (map collision_key flat)
    \<and> (\<exists>st ts. loaded_state k n L gii fs vs includes depth check in_parallel obs = Inr st
        \<and> load_targets (set_globals gii L) st = Inr ts \<and> set flat = target_names st
        \<and> map fst ts = map fst targets \<and> deps_known ts \<and> deps_first (target_deps ts) flat)"
proof -
  obtain st ts ts1 ts2 obs1 where "loaded_state k n L gii fs vs includes depth check in_parallel obs = Inr st"
    "load_targets (set_globals gii L) st = Inr ts" "distinct flat" "set flat = target_names st"
    "map fst targets = map fst ts" "deps_known ts" "deps_first (target_deps ts) flat"
    "distinct (map collision_key flat)"
    by (rule Load_passes [OF assms])
  then show ?thesis by (intro conjI exI [of _ st] exI [of _ ts]) simp_all
qed

section \<open>The targets and the data that are returned\<close>

lemma map_of_map_pair: "map_of (map (\<lambda>(k, v). (k, g k v)) xs) k = map_option (g k) (map_of xs k)"
  by (induction xs) auto

lemma validate_target_type:
  assumes "validate_target gii arch t d = Inr d'"
  shows "\<exists>ty \<in> set VALID_TARGET_TYPES. map_of d' ''type'' = Some (GStr ty)"
proof -
  from assms have ty: "ValidateTargetType t d = Inr ()"
    and rules: "ValidateRulesInTarget t d (extra_sources_for_rules gii) = Inr d'"
    by (auto simp: validate_target_def)
  from rules have "map_of d' ''type'' = map_of d ''type''"
    by (auto simp: ValidateRulesInTarget_def map_of_update)
  with ty show ?thesis by (simp add: ValidateTargetType_iff) blast
qed

lemma map_of_TurnInt: "map_of (TurnIntIntoStrInDict d) k = map_option TurnIntIntoStr (map_of d k)"
  by (simp add: TurnIntIntoStrInDict_def map_of_map_pair)

text \<open>What \<open>Load\<close> returns, from the targets that the last pass has left.\<close>

lemma Load_returned:
  assumes "Load k n L gii fs vs includes depth check circular_check in_parallel obs = Inr ((flat, targets), st')"
    and "\<And>xs. xs \<noteq> [] \<Longrightarrow> pick_target L xs \<in> set xs" and "\<And>xs. set (order L xs) = set xs"
  shows "\<exists>st ts. st' = finish_data ts st \<and> set flat = target_names st
    \<and> targets = map (\<lambda>(target, d). (target, TurnIntIntoStrInDict d)) ts
    \<and> (\<forall>t \<in> set flat. \<exists>d. map_of ts t = Some d \<and> (\<exists>ty \<in> set VALID_TARGET_TYPES. map_of d ''type'' = Some (GStr ty)))"
proof -
  obtain st ts ts1 ts2 obs1 where
    finish: "finish_targets (set_globals gii L) n gii (variables st) flat ts1 (objects st) = Inr (ts2, obs1)"
    and res: "targets = map (\<lambda>(target, d). (target, TurnIntIntoStrInDict d)) ts2"
      "st' = finish_data ts2 (st\<lparr>objects := obs1\<rparr>)" "distinct flat" "set flat = target_names st"
    by (rule Load_passes [OF assms])
  from finish_targets_Inr [OF finish] obtain c arch where
    last: "each_target (validate_target gii arch) flat c = Inr ts2" by blast
  have "\<exists>d. map_of ts2 t = Some d \<and> (\<exists>ty \<in> set VALID_TARGET_TYPES. map_of d ''type'' = Some (GStr ty))"
    if "t \<in> set flat" for t
    using each_target_value [OF last res(3) that] validate_target_type by metis
  moreover have "set flat = target_names (st\<lparr>objects := obs1\<rparr>)" using res(4) by (simp add: target_names_def)
  ultimately show ?thesis using res(1,2) by blast
qed

text \<open>
  C7: every target that \<open>Load\<close> returns has one of the valid types, and no integer is left in it or in
  the contents of a file.
\<close>

theorem Load_targets_valid:
  assumes "Load k n L gii fs vs includes depth check circular_check in_parallel obs = Inr ((flat, targets), st')"
    and "\<And>xs. xs \<noteq> [] \<Longrightarrow> pick_target L xs \<in> set xs" and "\<And>xs. set (order L xs) = set xs"
  shows "(\<forall>t \<in> set flat. \<exists>d. map_of targets t = Some d \<and> no_int (GDict d)
          \<and> (\<exists>ty \<in> set VALID_TARGET_TYPES. map_of d ''type'' = Some (GStr ty)))
    \<and> (\<forall>(f, contents) \<in> set (data (files st')). no_int (GDict contents))"
proof -
  from Load_returned [OF assms] obtain st ts where
    st': "st' = finish_data ts st" and targets: "targets = map (\<lambda>(target, d). (target, TurnIntIntoStrInDict d)) ts"
    and valid: "\<forall>t \<in> set flat. \<exists>d. map_of ts t = Some d
        \<and> (\<exists>ty \<in> set VALID_TARGET_TYPES. map_of d ''type'' = Some (GStr ty))" by blast
  have "\<exists>d. map_of targets t = Some d \<and> no_int (GDict d)
      \<and> (\<exists>ty \<in> set VALID_TARGET_TYPES. map_of d ''type'' = Some (GStr ty))" if "t \<in> set flat" for t
  proof -
    from valid that obtain d ty where d: "map_of ts t = Some d" "ty \<in> set VALID_TARGET_TYPES"
      "map_of d ''type'' = Some (GStr ty)" by blast
    then show ?thesis
      using TurnIntIntoStrInDict_done [of d]
      by (intro exI [of _ "TurnIntIntoStrInDict d"]) (auto simp: targets map_of_map_pair map_of_TurnInt)
  qed
  moreover have "no_int (GDict contents)" if "(f, contents) \<in> set (data (files st'))" for f contents
    using that TurnIntIntoStrInDict_done by (auto simp: st' finish_data_def)
  ultimately show ?thesis by blast
qed

end
