(* ===== verification/Gyp_Plain.thy ===== *)
theory Gyp_Plain
  imports Gyp_Target_File Gyp_Expand_Logic
begin

text \<open>
  Trees through the heap: what is stored is read back, and the expansion leaves a tree without
  references, conditions and variables as it is.
\<close>

section \<open>Storing and reading back\<close>

text \<open>The addresses that storing a tree adds are its own; \<open>rest\<close> is what the heap gets later.\<close>

definition stored :: "gval \<Rightarrow> hval \<Rightarrow> obj list \<Rightarrow> obj list \<Rightarrow> bool" where
  "stored t v h h' \<longleftrightarrow> length h \<le> length h'
     \<and> (\<forall>n rest. length h' - length h \<le> n \<longrightarrow> load_value n (h' @ rest) v = Inr t)
     \<and> (\<forall>n rest. distinct (value_refs n (h' @ rest) v)
          \<and> set (value_refs n (h' @ rest) v) \<subseteq> {length h..<length h'})"

definition stored_list :: "gval list \<Rightarrow> hval list \<Rightarrow> obj list \<Rightarrow> obj list \<Rightarrow> bool" where
  "stored_list l vs h h' \<longleftrightarrow> length h \<le> length h'
     \<and> (\<forall>n rest. length h' - length h \<le> n \<longrightarrow> rmap (load_value n (h' @ rest)) vs = Inr l)
     \<and> (\<forall>n rest. distinct (concat (map (value_refs n (h' @ rest)) vs))
          \<and> set (concat (map (value_refs n (h' @ rest)) vs)) \<subseteq> {length h..<length h'})"

lemma stored_Cons:
  assumes x: "stored x v h h1" and xs: "stored_list l vs h1 h2" and h2: "h2 = h1 @ obs"
  shows "stored_list (x # l) (v # vs) h h2"
  unfolding stored_list_def
proof (intro conjI allI impI)
  show "length h \<le> length h2" using x xs by (simp add: stored_def stored_list_def)
next
  fix n rest assume "length h2 - length h \<le> n"
  moreover from x xs have "length h \<le> length h1" "length h1 \<le> length h2" by (simp_all add: stored_def stored_list_def)
  ultimately have "length h1 - length h \<le> n" "length h2 - length h1 \<le> n" by simp_all
  with x xs show "rmap (load_value n (h2 @ rest)) (v # vs) = Inr (x # l)"
    by (simp add: stored_def stored_list_def h2)
next
  fix n rest
  from x have "distinct (value_refs n (h2 @ rest) v)" "set (value_refs n (h2 @ rest) v) \<subseteq> {length h..<length h1}"
    by (simp_all add: stored_def h2)
  moreover from xs have "distinct (concat (map (value_refs n (h2 @ rest)) vs))"
    "set (concat (map (value_refs n (h2 @ rest)) vs)) \<subseteq> {length h1..<length h2}"
    by (simp_all add: stored_list_def)
  moreover from x xs have "length h \<le> length h1" "length h1 \<le> length h2" by (simp_all add: stored_def stored_list_def)
  ultimately show "distinct (concat (map (value_refs n (h2 @ rest)) (v # vs)))"
    "set (concat (map (value_refs n (h2 @ rest)) (v # vs))) \<subseteq> {length h..<length h2}"
    by (fastforce simp: subset_iff)+
qed

lemma stored_object:
  assumes vs: "stored_list l (values_of ob) h h1"
    and read: "\<And>n rest. load_value (Suc n) (h1 @ ob # rest) (HRef (length h1))
        = rbind (rmap (load_value n (h1 @ ob # rest)) (values_of ob)) (\<lambda>l. Inr (tree l))"
    and refs: "\<And>n rest. value_refs (Suc n) (h1 @ ob # rest) (HRef (length h1))
        = length h1 # concat (map (value_refs n (h1 @ ob # rest)) (values_of ob))"
  shows "stored (tree l) (HRef (length h1)) h (h1 @ [ob])"
  unfolding stored_def
proof (intro conjI allI impI)
  show "length h \<le> length (h1 @ [ob])" using vs by (simp add: stored_list_def)
next
  fix n rest assume "length (h1 @ [ob]) - length h \<le> n"
  with vs obtain m where "n = Suc m" "length h1 - length h \<le> m"
    by (cases n) (auto simp: stored_list_def)
  with vs show "load_value n ((h1 @ [ob]) @ rest) (HRef (length h1)) = Inr (tree l)"
    by (simp add: read stored_list_def del: load_value.simps)
next
  fix n rest
  show "distinct (value_refs n ((h1 @ [ob]) @ rest) (HRef (length h1)))"
    "set (value_refs n ((h1 @ [ob]) @ rest) (HRef (length h1))) \<subseteq> {length h..<length (h1 @ [ob])}"
    using vs by (cases n; fastforce simp: refs stored_list_def simp del: value_refs.simps(1))+
qed

lemma rmap_snd:
  "rmap (\<lambda>p. rbind (f (snd p)) (\<lambda>x. Inr (fst p, x))) e
   = rbind (rmap f (map snd e)) (\<lambda>xs. Inr (zip (map fst e) xs))"
  by (induction e) (auto simp: rbind_assoc intro!: rbind_cong)

lemma store_stored:
  "store t h = (v, h') \<Longrightarrow> stored t v h h'"
  "store_list l h = (vs, h') \<Longrightarrow> stored_list l vs h h'"
  "store_dict d h = (e, h') \<Longrightarrow> stored_list (map snd d) (map snd e) h h' \<and> map fst e = map fst d"
proof (induction t h and l h and d h arbitrary: v h' and vs h' and e h' rule: store_store_list_store_dict.induct)
  case (4 l h)
  obtain vs h1 where s: "store_list l h = (vs, h1)" by force
  with 4(2) have "v = HRef (length h1)" "h' = h1 @ [OList vs]" by auto
  with stored_object [where ob = "OList vs" and tree = GList] 4(1) [OF s] show ?case by (simp add: nth_append)
next
  case (5 d h)
  obtain e h1 where s: "store_dict d h = (e, h1)" by force
  with 5(2) have v: "v = HRef (length h1)" "h' = h1 @ [ODict e]" by auto
  from 5(1) [OF s] have e: "stored_list (map snd d) (map snd e) h h1" "map fst e = map fst d" by simp_all
  have "stored (GDict (zip (map fst e) (map snd d))) (HRef (length h1)) h (h1 @ [ODict e])"
    by (rule stored_object [where ob = "ODict e" and tree = "\<lambda>l. GDict (zip (map fst e) l)"])
      (simp_all add: e(1) nth_append rmap_snd rbind_assoc comp_def case_prod_unfold)
  with v e(2) show ?case by (simp add: zip_map_fst_snd)
next
  case (7 x xs h)
  from 7(3) obtain v1 h1 vs1 where s: "store x h = (v1, h1)" "store_list xs h1 = (vs1, h')" "vs = v1 # vs1"
    by (auto split: prod.splits)
  with stored_Cons [OF 7(1) [OF s(1)] 7(2) [OF s(1) [symmetric] _ s(2)]] store_values(2) [OF s(2)] show ?case by auto
next
  case (9 k x d h)
  from 9(3) obtain v1 h1 e1 where s: "store x h = (v1, h1)" "store_dict d h1 = (e1, h')" "e = (k, v1) # e1"
    by (auto split: prod.splits)
  with stored_Cons [OF 9(1) [OF s(1)]] 9(2) [OF s(1) [symmetric] _ s(2)] store_values(3) [OF s(2)] show ?case by auto
qed (simp_all add: stored_def stored_list_def)

section \<open>Plain trees\<close>

definition plain_text :: "phase \<Rightarrow> string \<Rightarrow> bool" where
  "plain_text phase s \<longleftrightarrow> expansion_symbol phase \<notin> set s \<and> \<not> IsStrCanonicalInt s"

text \<open>Text without references that is not the text of an integer, and none of the special keys.\<close>

fun plain_tree :: "phase \<Rightarrow> gval \<Rightarrow> bool" where
  "plain_tree phase (GStr s) = plain_text phase s"
| "plain_tree phase (GInt i) = True"
| "plain_tree phase (GList l) = list_all (plain_tree phase) l"
| "plain_tree phase (GDict d) =
     (wf_dict d \<and> list_all (\<lambda>(k, v). k \<notin> {''variables'', ''conditions'', ''target_conditions''} \<and> plain_tree phase v) d)"
| "plain_tree phase (GOther c b) = False"

text \<open>The nesting of calls, in which each step of the loop over a list counts.\<close>

fun calls_needed :: "gval \<Rightarrow> nat" where
  "calls_needed (GList l) = foldr (\<lambda>x n. Suc (max (calls_needed x) n)) l 1"
| "calls_needed (GDict d) = Suc (foldr (\<lambda>(k, v) n. max (calls_needed v) n) d 0)"
| "calls_needed v = 1"

lemma calls_needed_pos: "0 < calls_needed v"
proof (cases v)
  case (GList l)
  then show ?thesis by (cases l) simp_all
qed simp_all

lemma calls_needed_entry: "(k, v) \<in> set d \<Longrightarrow> calls_needed v < calls_needed (GDict d)"
  by (induction d) auto

lemma calls_needed_item:
  "i < length l \<Longrightarrow>
   calls_needed (l ! i) < calls_needed (GList (drop i l)) \<and> calls_needed (GList (drop (Suc i) l)) < calls_needed (GList (drop i l))"
  by (simp add: Cons_nth_drop_Suc [symmetric] less_Suc_eq_le)

subsection \<open>Steps that change nothing\<close>

text \<open>A command that returns without a change of state.\<close>

definition quiet :: "'a cmd \<Rightarrow> estate \<Rightarrow> 'a \<Rightarrow> bool" where
  "quiet m s x \<longleftrightarrow> m s = Inr (x, s)"

lemma quiet_bind: "quiet m s x \<Longrightarrow> quiet (f x) s y \<Longrightarrow> quiet (cbind m f) s y"
  by (simp add: quiet_def cbind_def)

lemma quiet_bind_iff: "quiet m s x \<Longrightarrow> quiet (cbind m f) s y \<longleftrightarrow> quiet (f x) s y"
  by (simp add: quiet_def cbind_def)

lemma quiet_return: "quiet (creturn x) s y \<longleftrightarrow> y = x"
  by (auto simp: quiet_def creturn_def)

lemma quiet_fold: "\<forall>x \<in> set xs. \<forall>y. \<exists>z. quiet (f x y) s z \<Longrightarrow> \<exists>z. quiet (cfold f xs y) s z"
proof (induction xs arbitrary: y)
  case (Cons x xs)
  then obtain z w where "quiet (f x y) s z" "quiet (cfold f xs z) s w" by fastforce
  then show ?case by (auto intro: quiet_bind)
qed (metis cfold.simps(1) quiet_return)

lemma quiet_for:
  assumes "\<forall>x \<in> set xs. quiet (f x) s ()"
  shows "quiet (cfor f xs) s ()"
proof -
  obtain u where "quiet (cfold (\<lambda>x u. f x) xs ()) s u"
    using quiet_fold [of xs "\<lambda>x u. f x" s "()"] assms by blast
  then show ?thesis by (simp add: cfor_def)
qed

lemma quiet_object: "a < length (cells s) \<Longrightarrow> quiet (object_at a) s (cells s ! a)"
  by (simp add: quiet_def object_at_def)

lemma quiet_list: "a < length (cells s) \<Longrightarrow> cells s ! a = OList l \<Longrightarrow> quiet (list_at a) s l"
  unfolding list_at_def by (rule quiet_bind [OF quiet_object]) (simp_all add: quiet_return)

lemma quiet_dict: "a < length (cells s) \<Longrightarrow> cells s ! a = ODict d \<Longrightarrow> quiet (dict_at a) s d"
  unfolding dict_at_def by (rule quiet_bind [OF quiet_object]) (simp_all add: quiet_return)

lemma quiet_set_object: "a < length (cells s) \<Longrightarrow> cells s ! a = ob \<Longrightarrow> quiet (set_object a ob) s ()"
  by (auto simp: quiet_def set_object_def)

lemma quiet_update_dict:
  "a < length (cells s) \<Longrightarrow> cells s ! a = ODict d \<Longrightarrow> map_of d k = Some v \<Longrightarrow> quiet (update_dict a k v) s ()"
  unfolding update_dict_def by (rule quiet_bind [OF quiet_dict [where d = d]]) (simp_all add: update_same quiet_set_object)

subsection \<open>Values of a stored tree\<close>

lemma load_list:
  assumes "load_value m h (HRef a) = Inr (GList l)"
  shows "\<exists>m' vs. a < length h \<and> h ! a = OList vs \<and> rmap (load_value m' h) vs = Inr l"
  using assms by (cases m) (auto split: obj.splits if_splits)

lemma load_dict:
  assumes "load_value m h v = Inr (GDict d)"
  shows "\<exists>a m' e. v = HRef a \<and> a < length h \<and> h ! a = ODict e
    \<and> list_all2 (\<lambda>p q. fst p = fst q \<and> load_value m' h (snd p) = Inr (snd q)) e d"
proof (cases v)
  case (HRef a)
  with assms obtain m' e where "a < length h" "h ! a = ODict e"
    "rmap (\<lambda>(k, v). rbind (load_value m' h v) (\<lambda>x. Inr (k, x))) e = Inr d"
    by (cases m) (auto split: obj.splits if_splits)
  with HRef show ?thesis by (auto simp: rmap_Inr_iff split_beta elim!: list_all2_mono)
qed (use assms in auto)

lemma load_object:
  "load_value m h (HRef a) = Inr t \<Longrightarrow> a < length h \<and> (case h ! a of OList l \<Rightarrow> \<exists>l. t = GList l | ODict e \<Rightarrow> \<exists>d. t = GDict d)"
  by (cases m) (auto split: obj.splits if_splits)

lemma quiet_class: "load_value m (cells s) v = Inr t \<Longrightarrow> quiet (hclass v) s (class_name t)"
  by (cases m; cases v)
    (auto simp: quiet_def hclass_def object_at_def split: obj.splits if_splits)

lemma quiet_variable: "load_value m (cells s) v = Inr t \<Longrightarrow> \<exists>b. quiet (variable_value v) s b"
  unfolding variable_value_def by (rule exI, rule quiet_bind, erule quiet_class, rule quiet_return [THEN iffD2, OF refl])

lemma quiet_automatic:
  assumes "\<forall>(k, v) \<in> set e. \<exists>m t. load_value m (cells s) v = Inr t"
  shows "\<exists>vs. quiet (LoadAutomaticVariablesFromDict vs0 e) s vs"
  unfolding LoadAutomaticVariablesFromDict_def
proof (rule quiet_fold, intro ballI allI)
  fix p vs assume "p \<in> set e"
  with assms obtain k v m t where p: "p = (k, v)" "load_value m (cells s) v = Inr t" by (cases p) blast
  from quiet_variable [OF p(2)] obtain b where b: "quiet (variable_value v) s b" by blast
  from p(1) show "\<exists>z. quiet ((case p of (key, value) \<Rightarrow> \<lambda>vs.
      cbind (variable_value value) (\<lambda>ok. creturn (if ok then AList.update (CHR ''_'' # key) value vs else vs))) vs) s z"
    by (simp add: quiet_bind_iff [OF b] quiet_return)
qed

subsection \<open>Expansion changes nothing\<close>

lemma quiet_text:
  assumes "plain_text phase x" and "0 < n"
  shows "quiet (call_expand (calls_upto E n) phase vs bf (HStr x)) s (HStr x)"
proof -
  obtain n' where "n = Suc n'" using assms(2) by (cases n) auto
  with assms(1) show ?thesis
    by (simp add: quiet_def ExpandVariables_def str_of_def read_tree_def cbind_def clift_def creturn_def plain_text_def py_str_def)
qed

definition dict_quiet :: "expand_env \<Rightarrow> phase \<Rightarrow> nat \<Rightarrow> bool" where
  "dict_quiet E phase n \<longleftrightarrow> (\<forall>m v d s vs bf key.
     load_value m (cells s) v = Inr (GDict d) \<longrightarrow> plain_tree phase (GDict d) \<longrightarrow> calls_needed (GDict d) \<le> n
     \<longrightarrow> quiet (call_dict (calls_upto E n) phase vs bf key v) s ())"

definition list_quiet :: "expand_env \<Rightarrow> phase \<Rightarrow> nat \<Rightarrow> bool" where
  "list_quiet E phase n \<longleftrightarrow> (\<forall>m a l i s vs bf.
     load_value m (cells s) (HRef a) = Inr (GList l) \<longrightarrow> plain_tree phase (GList l)
     \<longrightarrow> calls_needed (GList (drop i l)) \<le> n
     \<longrightarrow> quiet (call_list (calls_upto E n) phase vs bf a i) s ())"

lemmas dict_quietD = dict_quiet_def [THEN iffD1, rule_format]
lemmas list_quietD = list_quiet_def [THEN iffD1, rule_format]

lemma list_quiet_Suc:
  assumes dict: "dict_quiet E phase n" and list: "list_quiet E phase n"
  shows "list_quiet E phase (Suc n)"
  unfolding list_quiet_def
proof (intro allI impI)
  fix m a l i vs bf and s :: estate
  assume load: "load_value m (cells s) (HRef a) = Inr (GList l)" and plain: "plain_tree phase (GList l)"
    and n: "calls_needed (GList (drop i l)) \<le> Suc n"
  from load_list [OF load] obtain m' xs where
    a: "a < length (cells s)" "cells s ! a = OList xs" and xs: "list_all2 (\<lambda>x y. load_value m' (cells s) x = Inr y) xs l"
    by (auto simp: rmap_Inr_iff)
  note step = quiet_bind_iff [OF quiet_list [OF a]]
  show "quiet (call_list (calls_upto E (Suc n)) phase vs bf a i) s ()"
  proof (cases "i < length xs")
    case False
    then show ?thesis
      by (simp add: ProcessVariablesAndConditionsInList_def step quiet_return)
  next
    case True
    with xs have i: "i < length l" and item: "load_value m' (cells s) (xs ! i) = Inr (l ! i)"
      using list_all2_nthD [OF xs True] by (simp_all add: list_all2_lengthD)
    from calls_needed_item [OF i] n have need: "calls_needed (l ! i) \<le> n" "calls_needed (GList (drop (Suc i) l)) \<le> n"
      by linarith+
    from plain i have plain_i: "plain_tree phase (l ! i)" by (simp add: list_all_length)
    have rest: "quiet (call_list (calls_upto E n) phase vs bf a (i + 1)) s ()"
      using list_quietD [OF list load plain] need(2) by simp
    show ?thesis
    proof (cases "xs ! i")
      case (HStr x)
      with item have "l ! i = GStr x" by simp
      with plain_i have x: "plain_text phase x" by simp
      have "0 < n" using need(1) calls_needed_pos [of "l ! i"] by simp
      have "quiet (set_object a (OList (xs[i := HStr x]))) s ()"
        using a HStr by (simp add: quiet_set_object list_update_id [of xs i, unfolded HStr])
      moreover have "quiet (object_of (HStr x)) s None" by (simp add: object_of_def quiet_return)
      ultimately show ?thesis
        using True HStr rest
        by (simp add: ProcessVariablesAndConditionsInList_def step Let_def quiet_bind_iff [OF quiet_text [OF x \<open>0 < n\<close>]]
            quiet_bind_iff)
    next
      case (HInt k)
      with rest True show ?thesis
        by (simp add: ProcessVariablesAndConditionsInList_def step Let_def)
    next
      case (HRef b)
      note obj = load_object [OF item [unfolded HRef]]
      then have "b < length (cells s)" by simp
      note ob = quiet_bind_iff [OF quiet_object [OF this]]
      have "quiet (case cells s ! b of ODict d \<Rightarrow> call_dict (calls_upto E n) phase vs bf None (HRef b)
          | OList l \<Rightarrow> call_list (calls_upto E n) phase vs bf b 0) s ()" (is "quiet ?item s ()")
      proof (cases "cells s ! b")
        case (OList ys)
        with obj obtain l' where "l ! i = GList l'" by auto
        with list_quietD [OF list, of m' s b l' 0] item HRef plain_i need(1) OList show ?thesis by simp
      next
        case (ODict e)
        with obj obtain d where "l ! i = GDict d" by auto
        with dict_quietD [OF dict, of m' s "HRef b" d] item HRef plain_i need(1) ODict show ?thesis by simp
      qed
      note item_quiet = quiet_bind_iff [OF this]
      from True HRef rest show ?thesis
        by (simp add: ProcessVariablesAndConditionsInList_def step ob Let_def item_quiet)
    next
      case (HOther c b)
      with item have "l ! i = GOther c b" by simp
      with plain_i show ?thesis by simp
    qed
  qed
qed

lemma quiet_items:
  assumes a: "a < length (cells s)" "cells s ! a = ODict e" and "wf_dict e"
    and "\<forall>(k, v) \<in> set e. quiet (f k v) s ()"
  shows "quiet (for_items f a) s ()"
proof -
  note step = quiet_bind_iff [OF quiet_dict [OF a]]
  have "quiet (case map_of e k of None \<Rightarrow> craise (NotModelled ''dictionary changed size during iteration'')
      | Some value \<Rightarrow> f k value) s ()" if "k \<in> fst ` set e" for k
  proof -
    from that obtain v where "map_of e k = Some v" by (metis map_of_eq_None_iff not_Some_eq)
    with assms(4) map_of_SomeD [OF this] show ?thesis by auto
  qed
  then show ?thesis unfolding for_items_def step by (intro quiet_for ballI) (auto simp: step)
qed

lemma dict_quiet_Suc:
  assumes dict: "dict_quiet E phase n" and list: "list_quiet E phase n"
  shows "dict_quiet E phase (Suc n)"
  unfolding dict_quiet_def
proof (intro allI impI)
  fix m v d vs bf key and s :: estate
  assume load: "load_value m (cells s) v = Inr (GDict d)" and plain: "plain_tree phase (GDict d)"
    and n: "calls_needed (GDict d) \<le> Suc n"
  from load_dict [OF load] obtain a m' e where
    v: "v = HRef a" and a: "a < length (cells s)" "cells s ! a = ODict e"
    and e: "list_all2 (\<lambda>p q. fst p = fst q \<and> load_value m' (cells s) (snd p) = Inr (snd q)) e d" by blast
  have keys: "map fst e = map fst d" using e by (auto simp: list_all2_conv_all_nth intro: nth_equalityI)
  have entry: "\<exists>t. (k, t) \<in> set d \<and> load_value m' (cells s) x = Inr t" if "(k, x) \<in> set e" for k x
  proof -
    from that obtain i where "i < length e" "e ! i = (k, x)" by (metis in_set_conv_nth)
    with list_all2_nthD [OF e, of i] list_all2_lengthD [OF e] show ?thesis
      by (intro exI [of _ "snd (d ! i)"]) (auto simp: in_set_conv_nth)
  qed
  have wf: "wf_dict e" using plain keys by (simp add: wf_dict_def)
  have special: "map_of e k = None" if "k \<in> {''variables'', ''conditions'', ''target_conditions''}" for k
  proof -
    have "fst ` set e = fst ` set d" using arg_cong [OF keys, of set] by simp
    moreover have "k \<notin> fst ` set d" using that plain by (auto simp: list_all_iff)
    ultimately show ?thesis by (simp add: map_of_eq_None_iff)
  qed
  have auto_vars: "\<exists>ws. quiet (LoadAutomaticVariablesFromDict us e) s ws" for us
    using entry by (intro quiet_automatic) blast
  have loaded: "quiet (LoadVariablesFromVariablesDict us e key) s us" for us
    by (simp add: LoadVariablesFromVariablesDict_def special quiet_return)
  note step = quiet_bind_iff [OF quiet_dict [OF a]]
  have vars: "quiet (process_variables_dict (calls_upto E n) phase us bf a) s us" for us
    by (simp add: process_variables_dict_def step special quiet_return)
  have conds: "quiet (ProcessConditionsInDict E (calls_upto E n) phase us bf a) s ()" for us
    by (cases phase) (simp_all add: ProcessConditionsInDict_def step special quiet_return)
  have texts: "quiet (for_items (expand_entry (calls_upto E n) phase us bf a) a) s ()" for us
  proof (rule quiet_items [OF a wf], clarify)
    fix k x assume kx: "(k, x) \<in> set e"
    then obtain t where t: "(k, t) \<in> set d" "load_value m' (cells s) x = Inr t" using entry by blast
    with plain have k: "plain_tree phase t" "k \<noteq> ''variables''" by (auto simp: list_all_iff)
    show "quiet (expand_entry (calls_upto E n) phase us bf a k x) s ()"
    proof (cases x)
      case (HStr y)
      with t k have y: "plain_text phase y" by auto
      have "0 < n" using calls_needed_entry [OF t(1)] n calls_needed_pos [of t] by linarith
      moreover have "map_of e k = Some x" using kx wf by (simp add: wf_dict_def)
      ultimately show ?thesis
        using k(2) HStr quiet_update_dict [OF a] by (simp add: expand_entry_def quiet_bind_iff [OF quiet_text [OF y]])
    qed (simp_all add: expand_entry_def quiet_return)
  qed
  have nested: "quiet (for_items (process_entry (calls_upto E n) phase us bf) a) s ()" for us
  proof (rule quiet_items [OF a wf], clarify)
    fix k x assume kx: "(k, x) \<in> set e"
    then obtain t where t: "(k, t) \<in> set d" "load_value m' (cells s) x = Inr t" using entry by blast
    with plain have k: "plain_tree phase t" "k \<noteq> ''variables''" by (auto simp: list_all_iff)
    have need: "calls_needed t \<le> n" using calls_needed_entry [OF t(1)] n by linarith
    show "quiet (process_entry (calls_upto E n) phase us bf k x) s ()"
    proof (cases x)
      case (HRef b)
      note obj = load_object [OF t(2) [unfolded HRef]]
      then have "b < length (cells s)" by simp
      note ob = quiet_bind_iff [OF quiet_object [OF this]]
      show ?thesis
      proof (cases "cells s ! b")
        case (OList ys)
        with obj obtain l where "t = GList l" by auto
        with list_quietD [OF list, of m' s b l 0] t(2) HRef k need OList show ?thesis
          by (simp add: process_entry_def ob)
      next
        case (ODict ys)
        with obj obtain d where "t = GDict d" by auto
        with dict_quietD [OF dict, of m' s x d] t(2) HRef k need ODict show ?thesis
          by (simp add: process_entry_def ob)
      qed
    qed (use t k in \<open>auto simp: process_entry_def quiet_return\<close>)
  qed
  obtain ws where ws: "quiet (LoadAutomaticVariablesFromDict vs e) s ws" using auto_vars by blast
  have again: "quiet (reload_variables vs key a) s ws"
    by (simp add: reload_variables_def step quiet_bind_iff [OF ws] loaded)
  have address: "quiet (address_of v) s a" by (simp add: v address_of_def quiet_return)
  show "quiet (call_dict (calls_upto E (Suc n)) phase vs bf key v) s ()"
    by (simp add: ProcessVariablesAndConditionsInDict_def quiet_bind_iff [OF address]
        step quiet_bind_iff [OF ws] quiet_bind_iff [OF vars] quiet_bind_iff [OF loaded] quiet_bind_iff [OF texts]
        quiet_bind_iff [OF again] quiet_bind_iff [OF conds] nested)
qed

lemma plain_quiet: "dict_quiet E phase n \<and> list_quiet E phase n"
proof (induction n)
  case 0
  show ?case
    by (simp add: dict_quiet_def list_quiet_def calls_needed_pos [THEN gr_implies_not0] del: calls_needed.simps)
qed (simp add: dict_quiet_Suc list_quiet_Suc)

lemma scalar_refs: "list_all (\<lambda>(k, v). hscalar v) vs \<Longrightarrow> variable_refs h vs = []"
proof -
  have "value_refs n h v = []" if "hscalar v" for n v using that by (cases v; cases n) auto
  then show "list_all (\<lambda>(k, v). hscalar v) vs \<Longrightarrow> variable_refs h vs = []"
    by (auto simp: variable_refs_def list_all_iff)
qed

lemma plain_process_tree:
  assumes "plain_tree phase (GDict d)" and "calls_needed (GDict d) \<le> Suc n" and "list_all (\<lambda>(k, v). hscalar v) vs"
  shows "process_tree E n phase vs bf d s = Inr (d, s\<lparr>cells := snd (store (GDict d) (cells s))\<rparr>)"
proof -
  obtain v h where st: "store (GDict d) (cells s) = (v, h)" by force
  let ?s = "s\<lparr>cells := h\<rparr>"
  have v: "load_value (length h) h v = Inr (GDict d)" "distinct (value_refs (length h) h v)"
    using store_stored(1) [OF st, unfolded stored_def] by (metis append_Nil2 diff_le_self)+
  have "load_value (length h) (cells ?s) v = Inr (GDict d)" using v(1) by simp
  from dict_quietD [OF plain_quiet [THEN conjunct1] this assms(1,2)]
  have "quiet (call_dict (calls_upto E (Suc n)) phase vs bf None v) ?s ()" .
  then have "ProcessVariablesAndConditionsInDict E (calls_upto E n) phase vs bf None v ?s = Inr ((), ?s)"
    by (simp add: quiet_def)
  with v st show ?thesis
    by (simp add: process_tree_def new_tree_def read_unshared_def read_tree_def cbind_def cstate_def clift_def
        creturn_def scalar_refs [OF assms(3)] del: store.simps)
qed

text \<open>The same as a code equation, so that runs on such contents are cheap to evaluate.\<close>

lemma process_tree_code [code]:
  "process_tree E n phase vs build_file d =
     (\<lambda>s. if plain_tree phase (GDict d) \<and> calls_needed (GDict d) \<le> Suc n \<and> list_all (\<lambda>(k, v). hscalar v) vs
          then Inr (d, s\<lparr>cells := snd (store (GDict d) (cells s))\<rparr>)
          else cbind (new_tree (GDict d)) (\<lambda>v.
               cbind (ProcessVariablesAndConditionsInDict E (calls_upto E n) phase vs build_file None v) (\<lambda>_.
               read_unshared vs v)) s)"
  using plain_process_tree [of phase d n vs E build_file]
  by (auto simp: fun_eq_iff process_tree_def)

text \<open>
  Contents without references, conditions, variables and texts of integers are what they were
  after variables and conditions have been processed, whatever the variables are; the heap has got
  the copy that was processed, and no command has been run.
\<close>

theorem process_tree_plain:
  assumes "plain_tree phase (GDict d)" and "calls_needed (GDict d) \<le> Suc n" and "list_all (\<lambda>(k, v). hscalar v) vs"
  shows "process_tree E n phase vs bf d s = Inr (d, s\<lparr>cells := snd (store (GDict d) (cells s))\<rparr>)"
  by (rule plain_process_tree [OF assms])

text \<open>Two targets, one of which depends on the other.\<close>

definition ex_contents :: gdict where
  "ex_contents =
     [(''targets'',
       GList [GDict [(''target_name'', GStr ''app''), (''dependencies'', GList [GStr ''lib'', GInt 7])],
              GDict [(''target_name'', GStr ''lib'')]])]"

theorem process_tree_plain_witness:
  "process_tree ex_expand 9 PHASE_EARLY [(''OS'', HStr ''linux'')] ''a.gyp'' ex_contents ex_state
   = Inr (ex_contents, ex_state\<lparr>cells := snd (store (GDict ex_contents) (cells ex_state))\<rparr>)"
proof (rule process_tree_plain)
  show "plain_tree PHASE_EARLY (GDict ex_contents)" by code_simp
  show "calls_needed (GDict ex_contents) \<le> Suc 9" by code_simp
qed simp

end
