(* ===== verification/Gyp_Load_Example.thy ===== *)
theory Gyp_Load_Example
  imports Gyp_Load_Facts Gyp_Plain
begin

text \<open>
  A run of \<open>Load\<close> on a project of one file with one target, pass by pass, and the theorems about
  \<open>Load\<close> on it.
\<close>

section \<open>Contents without filters\<close>

fun no_filters :: "gval \<Rightarrow> bool" where
  "no_filters (GList l) = list_all no_filters l"
| "no_filters (GDict d) =
     list_all (\<lambda>(k, v). k \<noteq> [] \<and> last k \<notin> {CHR ''!'', CHR ''/''} \<and> no_filters v) d"
| "no_filters v = True"

lemma filter_lists_none:
  assumes "no_filters (GDict d)"
  shows "filter_lists compile name d = Inr d"
proof -
  have "no_filters (GDict e) \<Longrightarrow> rfold (collect_filter name d) e acc = Inr acc" for e acc
    by (induction e) (auto simp: collect_filter_def Let_def split: prod.splits)
  with assms show ?thesis by (simp add: filter_lists_def del: no_filters.simps)
qed

lemma rmap_id: "(\<And>x. x \<in> set xs \<Longrightarrow> f x = Inr x) \<Longrightarrow> rmap f xs = Inr xs"
  by (induction xs) simp_all

lemma ProcessListFilters_none:
  "no_filters (GDict d) \<Longrightarrow> ProcessListFiltersInDict compile name d = Inr d"
  "no_filters (GList l) \<Longrightarrow> ProcessListFiltersInList compile name l = Inr l"
proof (induction compile name d and compile name l rule: ProcessListFiltersInDict_ProcessListFiltersInList.induct)
  case (1 compile name d)
  note e = filter_lists_none [OF 1(3), of compile name]
  have "(case (k, v) of (key, v) \<Rightarrow>
      case v of
        GDict d \<Rightarrow> rbind (ProcessListFiltersInDict compile key d) (\<lambda>d. Inr (key, GDict d))
      | GList l \<Rightarrow> rbind (ProcessListFiltersInList compile key l) (\<lambda>l. Inr (key, GList l))
      | v \<Rightarrow> Inr (key, v)) = Inr (k, v)" if kv: "(k, v) \<in> set d" for k v
  proof -
    from 1(3) kv have "no_filters v" by (auto simp: list_all_iff)
    then show ?thesis using 1(1) [OF e kv refl] 1(2) [OF e kv refl] by (cases v) auto
  qed
  then show ?case
    by (subst ProcessListFiltersInDict.simps) (simp only: e rbind.simps, rule rmap_id, clarify)
next
  case (2 compile name l)
  have "(case x of
      GDict d \<Rightarrow> rbind (ProcessListFiltersInDict compile name d) (\<lambda>d. Inr (GDict d))
    | GList l \<Rightarrow> rbind (ProcessListFiltersInList compile name l) (\<lambda>l. Inr (GList l))
    | item \<Rightarrow> Inr item) = Inr x" if x: "x \<in> set l" for x
  proof -
    from 2(3) x have "no_filters x" by (auto simp: list_all_iff)
    then show ?thesis using 2(1) [OF x] 2(2) [OF x] by (cases x) auto
  qed
  then show ?case by (subst ProcessListFiltersInList.simps) (rule rmap_id)
qed

section \<open>The project\<close>

definition ex_gii :: generator_info where
  "ex_gii =
     \<lparr>generator_path_sections = [], generator_non_configuration_keys = [],
      generator_wants_absolute_build_file_paths = False, generator_supports_multiple_toolsets = False,
      generator_wants_static_library_dependencies_adjusted = False, generator_wants_sorted_dependencies = False,
      extra_sources_for_rules = []\<rparr>"

definition ex_project :: load_env where
  "ex_project =
     ex_load\<lparr>file_access :=
        \<lparr>read_file = Some, parse_module = (\<lambda>s. Inl (SyntaxError s)),
         py_eval = (\<lambda>s. Inr (GDict [(''targets'', GList [GDict [(''target_name'', GStr ''x''), (''type'', GStr ''none'')]])])),
         getcwd = ''/r''\<rparr>\<rparr>"

lemma ex_project_globals: "set_globals ex_gii ex_project = ex_project"
  by (simp add: set_globals_def ex_gii_def ex_project_def ex_load_def ex_globals_def gyp_globals_def ex_expand_def)

definition ex_target :: gdict where
  "ex_target = [(''target_name'', GStr ''x''), (''type'', GStr ''none''), (''toolset'', GStr ''target'')]"

definition ex_configured :: gdict where
  "ex_configured = ex_target @ [(''configurations'', GDict [(''Default'', GDict [])]), (''default_configuration'', GStr ''Default'')]"

abbreviation ex_name :: string where
  "ex_name \<equiv> ''a:x#target''"

definition ex_objects :: estate where
  "ex_objects = \<lparr>cells = [], cached_command_results = [], commands = [], written = []\<rparr>"

text \<open>After the file has been loaded, with the depth \<open>d\<close>.\<close>

definition ex_data :: "string \<Rightarrow> gdata" where
  "ex_data d = [(''a'', [(''targets'', GList [GDict ex_target]), (''_DEPTH'', GStr d), (''included_files'', GList [GStr ''a''])])]"

definition ex_read :: file_state where
  "ex_read =
     \<lparr>files =
        \<lparr>data = ex_data [],
         aux_data = [(''a'', [])], open_files = []\<rparr>,
      target_build_files = [''a''], variables = [],
      objects = ex_objects\<lparr>cells :=
        [ODict [(''target_name'', HStr ''x''), (''type'', HStr ''none''), (''toolset'', HStr ''target'')],
         OList [HRef 0], OList [HStr ''a''],
         ODict [(''targets'', HRef 1), (''_DEPTH'', HStr []), (''included_files'', HRef 2)]]\<rparr>\<rparr>"

lemma ex_load_files:
  "load_build_files 3 7 ex_project None [] False False [''a''] (start_state [] ex_objects) = Inr ex_read"
  by code_simp

lemma ex_load_targets:
  assumes "target_build_files st = [''a'']" and "data (files st) = ex_data d"
  shows "load_targets ex_project st = Inr [(ex_name, ex_target)]"
proof -
  have "BuildTargetsDict (order ex_project [''a'']) (ex_data d) = Inr [(ex_name, ex_target)]"
    by code_simp
  moreover have "QualifyDependencies (globals ex_project) [(ex_name, ex_target)] = Inr [(ex_name, ex_target)]"
    by code_simp
  moreover have "RemoveSelfDependencies [(ex_name, ex_target)] = Inr [(ex_name, ex_target)]"
    by code_simp
  moreover have "ExpandWildcardDependencies [(ex_name, ex_target)] (ex_data d) = Inr [(ex_name, ex_target)]"
    by code_simp
  moreover have "rmap (filter_dependencies (compile_re (expansion ex_project))) [(ex_name, ex_target)] = Inr [(ex_name, ex_target)]"
    by (simp add: filter_dependencies_def ex_target_def all_dependency_sections_def dependency_sections_def
        ProcessListFilters_none(1))
  moreover have "RemoveDuplicateDependencies [(ex_name, ex_target)] = Inr [(ex_name, ex_target)]"
    by code_simp
  ultimately show ?thesis by (simp add: load_targets_def assms)
qed

text \<open>The graph of one target without dependencies.\<close>

definition ex_graph :: "string dep_nodes" where
  "ex_graph = add_root_link ex_name (\<lambda>_. new_node)"

lemma list_graph:
  "BuildDependencyList pick ts = Some (Inr (nodes, flat)) \<Longrightarrow> rfold (link_target ts) ts (\<lambda>_. new_node) = Inr nodes"
  by (simp add: BuildDependencyList_def split: sum.splits option.splits if_splits)

lemma ex_sorted: "sort_targets ex_project False [(ex_name, ex_target)] = Inr (ex_graph, [ex_name])"
proof -
  let ?ts = "[(ex_name, ex_target)]"
  have known: "deps_known ?ts" "target_deps ?ts ex_name = []"
    by (simp_all add: deps_known_def target_items_def get_iter_def dict_get_def get_truthy_def ex_target_def)
  moreover have "dep_acyclic (map fst ?ts) (target_deps ?ts)"
    by (rule dep_acyclic_rank [where rank = "\<lambda>t. 0"]) (simp add: known(2))
  moreover have "wf_dict ?ts" by (simp add: wf_dict_def)
  ultimately obtain nodes flat where
    run: "BuildDependencyList hd ?ts = Some (Inr (nodes, flat))" and flat: "distinct flat" "set flat = {ex_name}"
    using dependency_list_correct [of ?ts hd, OF _ hd_in_set] by auto
  have link: "rfold (link_target ?ts) ?ts (\<lambda>_. new_node) = Inr ex_graph"
    by (simp add: ex_target_def ex_graph_def link_target_def get_truthy_def has_key_def)
  have "Inr nodes = (Inr ex_graph :: string dep_nodes result)" using list_graph [OF run] link by (rule trans [OF sym])
  then have "nodes = ex_graph" by simp
  have "length flat = 1" using distinct_card [OF flat(1)] flat(2) by simp
  then obtain y where "flat = [y]" by (cases flat) auto
  with flat(2) have "flat = [ex_name]" by simp
  moreover note \<open>nodes = ex_graph\<close>
  moreover have "VerifyNoCollidingTargets [ex_name] = Inr ()" by code_simp
  moreover have "pick_target ex_project = hd" by (simp add: ex_project_def ex_load_def)
  ultimately show ?thesis using run by (simp add: sort_targets_def returned_def)
qed

lemma ex_linked: "link_targets (globals ex_project) 7 ex_gii [ex_name] ex_graph [(ex_name, ex_target)] = Inr [(ex_name, ex_target)]"
proof -
  have "publish_settings (globals ex_project) 7 [ex_name] ex_graph k [(ex_name, ex_target)] = Inr [(ex_name, ex_target)]"
    if "k \<in> set settings_types" for k
  proof -
    have "publish_settings (globals ex_project) 7 [ex_name] ex_graph ''all_dependent_settings'' [(ex_name, ex_target)] = Inr [(ex_name, ex_target)]"
      by code_simp
    moreover have "publish_settings (globals ex_project) 7 [ex_name] ex_graph ''direct_dependent_settings'' [(ex_name, ex_target)] = Inr [(ex_name, ex_target)]"
      by code_simp
    moreover have "publish_settings (globals ex_project) 7 [ex_name] ex_graph ''link_settings'' [(ex_name, ex_target)] = Inr [(ex_name, ex_target)]"
      by code_simp
    ultimately show ?thesis using that by (auto simp: settings_types_def)
  qed
  then show ?thesis by (simp add: link_targets_def settings_types_def ex_gii_def)
qed

lemma ex_processed:
  assumes "plain_tree phase (GDict d)" and "calls_needed (GDict d) \<le> 8" and "list_all (\<lambda>(k, v). hscalar v) vs"
  shows "\<exists>s'. process_targets ex_project 7 phase vs [ex_name] [(ex_name, d)] s = Inr ([(ex_name, d)], s')"
proof -
  have "file_of ex_name = Inr ''a''" by code_simp
  with plain_process_tree [of phase d 7 vs "expansion ex_project" "''a''" s] assms show ?thesis
    by (simp add: process_targets_def cbind_def clift_def creturn_def)
qed

lemma ex_configured_run:
  "each_target (SetUpConfigurations (globals ex_project)) [ex_name] [(ex_name, ex_target)] = Inr [(ex_name, ex_configured)]"
  by code_simp

lemma ex_filtered_run:
  "each_target (ProcessListFiltersInDict c) [ex_name] [(ex_name, ex_configured)] = Inr [(ex_name, ex_configured)]"
  by (simp add: each_target_def ex_configured_def ex_target_def ProcessListFilters_none(1))

lemma ex_validated:
  "each_target (validate_target ex_gii (GStr [])) [ex_name] [(ex_name, ex_configured)] = Inr [(ex_name, ex_configured)]"
  by code_simp

lemma ex_finished:
  assumes "list_all (\<lambda>(k, v). hscalar v) vs" and "map_of vs ''target_arch'' = None"
  shows "\<exists>s'. finish_targets ex_project 7 ex_gii vs [ex_name] [(ex_name, ex_target)] s = Inr ([(ex_name, ex_configured)], s')"
proof -
  have "plain_tree PHASE_LATE (GDict ex_target)" "calls_needed (GDict ex_target) \<le> 8"
    "plain_tree PHASE_LATELATE (GDict ex_configured)" "calls_needed (GDict ex_configured) \<le> 8"
    by code_simp+
  from ex_processed [OF this(1,2) assms(1), of s] obtain s1 where
    1: "process_targets ex_project 7 PHASE_LATE vs [ex_name] [(ex_name, ex_target)] s = Inr ([(ex_name, ex_target)], s1)" by blast
  from ex_processed [OF \<open>plain_tree PHASE_LATELATE _\<close> \<open>calls_needed (GDict ex_configured) \<le> 8\<close> assms(1), of s1] obtain s2 where
    2: "process_targets ex_project 7 PHASE_LATELATE vs [ex_name] [(ex_name, ex_configured)] s1
        = Inr ([(ex_name, ex_configured)], s2)" by blast
  show ?thesis
    by (simp add: finish_targets_def cbind_def clift_def creturn_def assms(2) 1 2 ex_configured_run ex_filtered_run ex_validated)
qed

lemma ex_run:
  "\<exists>st. Load 3 7 ex_project ex_gii [''a''] [] None [] False False False ex_objects
     = Inr (([ex_name], [(ex_name, TurnIntIntoStrInDict ex_configured)]), st)"
proof -
  from ex_finished [of "[]"] obtain obs where
    "finish_targets ex_project 7 ex_gii [] [ex_name] [(ex_name, ex_target)] (objects ex_read) = Inr ([(ex_name, ex_configured)], obs)" by auto
  moreover have "new_dict [] ex_objects = Inr ([], ex_objects)" by (simp add: new_dict_def ex_objects_def)
  moreover have "variables ex_read = []" by (simp add: ex_read_def)
  moreover have "load_targets ex_project ex_read = Inr [(ex_name, ex_target)]"
    by (rule ex_load_targets [of _ "[]"]) (simp_all add: ex_read_def)
  ultimately show ?thesis
    by (simp add: Load_def ex_project_globals ex_sorted ex_load_files ex_linked)
qed

section \<open>The theorems on this run\<close>

lemma ex_pick: "xs \<noteq> [] \<Longrightarrow> pick_target ex_project xs \<in> set xs" "set (order ex_project ys) = set ys"
  by (simp_all add: ex_project_def ex_load_def)

lemma ex_loaded_state: "loaded_state 3 7 ex_project ex_gii [''a''] [] None [] False False ex_objects = Inr ex_read"
proof -
  have "new_dict [] ex_objects = Inr ([], ex_objects)" by (simp add: new_dict_def ex_objects_def)
  then show ?thesis by (simp add: loaded_state_def ex_project_globals ex_load_files)
qed

theorem Load_files_witness:
  "settled ex_project {} ex_read \<and> {f. (file_link ex_project ex_read)\<^sup>*\<^sup>* ''a'' f} = {''a''}"
proof -
  have key: "file_key ex_project (normpath ''a'') = ''a''" by code_simp
  from ex_run obtain st where
    "Load 3 7 ex_project ex_gii [''a''] [] None [] False False False ex_objects
     = Inr (([ex_name], [(ex_name, TurnIntIntoStrInDict ex_configured)]), st)" ..
  from Load_files [OF this] have "settled ex_project {} ex_read
      \<and> set (target_build_files ex_read) = {f. (file_link ex_project ex_read)\<^sup>*\<^sup>* ''a'' f}"
    by (simp add: ex_project_globals key ex_loaded_state)
  then show ?thesis by (simp add: ex_read_def)
qed

theorem Load_order_witness: "target_names ex_read = {ex_name} \<and> deps_first (target_deps [(ex_name, ex_target)]) [ex_name]"
proof -
  from ex_run obtain st where
    "Load 3 7 ex_project ex_gii [''a''] [] None [] False False False ex_objects
     = Inr (([ex_name], [(ex_name, TurnIntIntoStrInDict ex_configured)]), st)" ..
  note sorted = Load_order [OF this ex_pick, unfolded ex_project_globals ex_loaded_state]
  have "load_targets ex_project ex_read = Inr [(ex_name, ex_target)]"
    by (rule ex_load_targets [of _ "[]"]) (simp_all add: ex_read_def)
  with sorted show ?thesis by auto
qed

theorem Load_targets_valid_witness: "\<exists>d. no_int (GDict d) \<and> d = TurnIntIntoStrInDict ex_configured"
proof -
  from ex_run obtain st where
    "Load 3 7 ex_project ex_gii [''a''] [] None [] False False False ex_objects
     = Inr (([ex_name], [(ex_name, TurnIntIntoStrInDict ex_configured)]), st)" ..
  from Load_targets_valid [OF this ex_pick] show ?thesis by auto
qed

end
