(* ===== verification/Gyp_Main_Facts.thy ===== *)
theory Gyp_Main_Facts
  imports Gyp_Main Gyp_Load_Example
begin

text \<open>
  What a run of \<open>gyp\<close> does: the depth that it finds, the formats that it generates and what the
  generators are given, with a run on the project of \<open>Gyp_Load_Example\<close>.
\<close>

section \<open>The depth\<close>

abbreviation directory_parts :: "string \<Rightarrow> string \<Rightarrow> string list" where
  "directory_parts cwd f \<equiv> split_on CHR ''/'' (abspath cwd (dirname f))"

lemma last_occurrence:
  "dropWhile (\<lambda>c. c \<noteq> x) (rev xs) = x # ys \<longleftrightarrow> (\<exists>rest. xs = rev ys @ x # rest \<and> x \<notin> set rest)"
proof
  assume eq: "dropWhile (\<lambda>c. c \<noteq> x) (rev xs) = x # ys"
  have "rev xs = takeWhile (\<lambda>c. c \<noteq> x) (rev xs) @ x # ys" by (metis eq takeWhile_dropWhile_id)
  then have "xs = rev ys @ x # rev (takeWhile (\<lambda>c. c \<noteq> x) (rev xs))" by (metis rev_append rev_rev_ident rev.simps(2) append.assoc append_Cons append_Nil)
  moreover have "x \<notin> set (rev (takeWhile (\<lambda>c. c \<noteq> x) (rev xs)))" by (auto dest: set_takeWhileD)
  ultimately show "\<exists>rest. xs = rev ys @ x # rest \<and> x \<notin> set rest" by blast
next
  assume "\<exists>rest. xs = rev ys @ x # rest \<and> x \<notin> set rest"
  then obtain rest where xs: "xs = rev ys @ x # rest" "x \<notin> set rest" by blast
  have "dropWhile (\<lambda>c. c \<noteq> x) (rev rest @ x # ys) = x # ys"
    using xs(2) by (subst dropWhile_append2) auto
  then show "dropWhile (\<lambda>c. c \<noteq> x) (rev xs) = x # ys" by (simp add: xs(1))
qed

lemma src_directory_None: "src_directory cwd f = None \<longleftrightarrow> ''src'' \<notin> set (directory_parts cwd f)"
proof -
  have "src_directory cwd f = None \<longleftrightarrow> dropWhile (\<lambda>c. c \<noteq> ''src'') (rev (directory_parts cwd f)) = []"
    by (auto simp: src_directory_def simp del: dropWhile_eq_Nil_conv split: list.splits)
  then show ?thesis unfolding dropWhile_eq_Nil_conv by auto
qed

lemma src_directory_Some:
  "src_directory cwd f = Some d \<longleftrightarrow>
     (\<exists>cs rest. directory_parts cwd f = cs @ ''src'' # rest \<and> ''src'' \<notin> set rest \<and> d = join ''/'' (cs @ [''src'']))"
proof (cases "dropWhile (\<lambda>c. c \<noteq> ''src'') (rev (directory_parts cwd f))")
  case Nil
  then have "''src'' \<notin> set (directory_parts cwd f)" unfolding dropWhile_eq_Nil_conv by auto
  then show ?thesis by (auto simp: src_directory_def Nil)
next
  case (Cons c ys)
  then have "c = ''src''" using hd_dropWhile [of "\<lambda>c. c \<noteq> ''src''" "rev (directory_parts cwd f)"] by simp
  with Cons have eq: "dropWhile (\<lambda>c. c \<noteq> ''src'') (rev (directory_parts cwd f)) = ''src'' # ys" by simp
  have "(\<exists>rest. directory_parts cwd f = cs @ ''src'' # rest \<and> ''src'' \<notin> set rest) \<longleftrightarrow> cs = rev ys" for cs
    using last_occurrence [of "''src''" "directory_parts cwd f" "rev cs"] eq by auto
  then have "(\<exists>cs rest. directory_parts cwd f = cs @ ''src'' # rest \<and> ''src'' \<notin> set rest \<and> d = join ''/'' (cs @ [''src'']))
      \<longleftrightarrow> (\<exists>cs. cs = rev ys \<and> d = join ''/'' (cs @ [''src'']))" by blast
  then show ?thesis by (auto simp: src_directory_def eq)
qed

lemma split_Cons:
  "(\<exists>as g bs. f # fs = as @ g # bs \<and> P as g) \<longleftrightarrow> P [] f \<or> (\<exists>as g bs. fs = as @ g # bs \<and> P (f # as) g)"
  by (auto simp: Cons_eq_append_conv)

text \<open>
  Without \<open>--depth\<close> the depth is the part of a build file's directory up to its last component
  \<open>src\<close>, for the first build file whose directory has one, and there is none only if no build file
  has such a directory.
\<close>

lemma choose_depth_first:
  "choose_depth cwd fs = Some d \<longleftrightarrow>
     (\<exists>as f bs cs rest. fs = as @ f # bs \<and> (\<forall>g \<in> set as. ''src'' \<notin> set (directory_parts cwd g))
        \<and> directory_parts cwd f = cs @ ''src'' # rest \<and> ''src'' \<notin> set rest \<and> d = join ''/'' (cs @ [''src'']))"
proof -
  have "choose_depth cwd fs = Some d \<longleftrightarrow>
      (\<exists>as f bs. fs = as @ f # bs \<and> (\<forall>g \<in> set as. src_directory cwd g = None) \<and> src_directory cwd f = Some d)"
  proof (induction fs)
    case (Cons f fs)
    then show ?case
      using split_Cons [of f fs "\<lambda>as h. (\<forall>g \<in> set as. src_directory cwd g = None) \<and> src_directory cwd h = Some d"]
      by (cases "src_directory cwd f") simp_all
  qed simp
  then show ?thesis unfolding src_directory_None src_directory_Some by blast
qed

lemma choose_depth_example:
  "choose_depth ''/r'' [''x.gyp'', ''a/src/b/src/c/y.gyp''] = Some ''/r/a/src/b/src''"
proof -
  have "directory_parts ''/r'' ''x.gyp'' = ['''', ''r'']"
    "directory_parts ''/r'' ''a/src/b/src/c/y.gyp'' = ['''', ''r'', ''a'', ''src'', ''b'', ''src'', ''c'']"
    "''/r/a/src/b/src'' = join ''/'' (['''', ''r'', ''a'', ''src'', ''b''] @ [''src''])"
    by code_simp+
  then show ?thesis
    by (intro choose_depth_first [THEN iffD2] exI [of _ "[''x.gyp'']"] exI [of _ "''a/src/b/src/c/y.gyp''"]
        exI [of _ "[]"] exI [of _ "['''', ''r'', ''a'', ''src'', ''b'']"] exI [of _ "[''c'']"]) simp
qed

section \<open>What the generators are given\<close>

lemma LoadFormat_Inr:
  assumes "LoadFormat k n M fs format vs incs depth params check circular_check st = Inr ((g, params', flat, targets, contents), st')"
  shows "\<exists>gii vs par obs loaded. Load k n (load_in M) gii fs vs (Some incs) depth check circular_check par obs
      = Inr ((flat, targets), loaded)"
  using assms by (auto simp: LoadFormat_def Let_def split: prod.splits) blast

lemma generate_formats_Inr:
  assumes "rfold (generate_format k n M fs args opts depth vs flags) formats (outputs, st) = Inr (outputs', st')"
  shows "\<exists>more_outputs. outputs' = outputs @ more_outputs \<and> map fst more_outputs = formats
    \<and> (\<forall>(format, flat, targets, contents) \<in> set more_outputs. \<exists>gii vs incs par obs loaded.
        Load k n (load_in M) gii fs vs incs depth (opt_check opts) (opt_circular_check opts) par obs
          = Inr ((flat, targets), loaded))"
  using assms
proof (induction formats arbitrary: outputs st)
  case (Cons f formats)
  then obtain outputs1 st1 where 1: "generate_format k n M fs args opts depth vs flags f (outputs, st) = Inr (outputs1, st1)"
    and rest: "rfold (generate_format k n M fs args opts depth vs flags) formats (outputs1, st1) = Inr (outputs', st')"
    by auto
  from 1 obtain g params' params'' flat targets contents where
    out: "outputs1 = outputs @ [(f, flat, targets, contents)]" and
    load: "LoadFormat k n M fs f vs (all_includes (system M) opts) depth params' (opt_check opts) (opt_circular_check opts) st
      = Inr ((g, params'', flat, targets, contents), st1)"
    by (auto simp: generate_format_def Let_def)
  from Cons.IH [OF rest] out LoadFormat_Inr [OF load] show ?case by fastforce
qed simp

text \<open>
  C9: a run of \<open>gyp\<close> that succeeds generates every requested format once. Each generator is given a
  list of targets without repetition or two of the same directory and name, and a dictionary that
  has each of them, with a valid type.
\<close>

theorem gyp_main_generates:
  assumes "gyp_main k n M opts args st = Inr (outputs, st')"
    and "\<And>xs. xs \<noteq> [] \<Longrightarrow> pick_target (load_in M) xs \<in> set xs"
    and "\<And>xs. set (order (load_in M) xs) = set xs" and "\<And>xs. distinct xs \<Longrightarrow> distinct (order (load_in M) xs)"
  shows "distinct (map fst outputs) \<and> set (map fst outputs) = set (opt_formats (complete_options (system M) opts))
    \<and> (\<forall>(format, flat, targets, contents) \<in> set outputs. distinct flat \<and> distinct (map collision_key flat)
        \<and> (\<forall>t \<in> set flat. \<exists>d. map_of targets t = Some d
             \<and> (\<exists>ty \<in> set VALID_TARGET_TYPES. map_of d ''type'' = Some (GStr ty))))"
proof -
  let ?opts = "complete_options (system M) opts"
  from assms(1) obtain fs depth opts' vs flags where
    depth: "set_depth_option (main_cwd M) fs ?opts = Inr (depth, opts')" and
    run: "rfold (generate_format k n M fs args opts' depth vs flags)
      (order (load_in M) (remdups (opt_formats opts'))) ([], st) = Inr (outputs, st')"
    by (auto simp: gyp_main_def Let_def split: if_splits)
  have formats: "opt_formats opts' = opt_formats ?opts"
    using depth by (auto simp: set_depth_option_def Let_def split: if_splits)
  from generate_formats_Inr [OF run] have names: "map fst outputs = order (load_in M) (remdups (opt_formats ?opts))"
    and loads: "\<forall>(format, flat, targets, contents) \<in> set outputs. \<exists>gii vs incs par obs loaded.
        Load k n (load_in M) gii fs vs incs depth (opt_check opts') (opt_circular_check opts') par obs
          = Inr ((flat, targets), loaded)"
    by (auto simp: formats)
  have "distinct flat \<and> distinct (map collision_key flat)
        \<and> (\<forall>t \<in> set flat. \<exists>d. map_of targets t = Some d
             \<and> (\<exists>ty \<in> set VALID_TARGET_TYPES. map_of d ''type'' = Some (GStr ty)))"
    if "Load k n (load_in M) gii fs vs incs depth check circular par obs = Inr ((flat, targets), loaded)"
    for gii vs incs check circular par obs flat targets loaded
  proof -
    have sorted: "distinct flat" "distinct (map collision_key flat)"
      using that assms(2,3) by (elim Load_passes; simp)+
    from Load_returned [OF that assms(2,3)] show ?thesis using sorted
      by (fastforce simp: map_of_map_pair map_of_TurnInt)
  qed
  with loads have "\<forall>(format, flat, targets, contents) \<in> set outputs. distinct flat \<and> distinct (map collision_key flat)
        \<and> (\<forall>t \<in> set flat. \<exists>d. map_of targets t = Some d
             \<and> (\<exists>ty \<in> set VALID_TARGET_TYPES. map_of d ''type'' = Some (GStr ty)))"
    by blast
  with names assms(3,4) show ?thesis by simp
qed

section \<open>A run\<close>

definition ex_attrs :: generator_attrs where
  "ex_attrs =
     \<lparr>generator_default_variables = [], wants_absolute_build_file_paths = None,
      additional_non_configuration_keys = None, additional_path_sections = None,
      generator_extra_sources_for_rules = None, supports_multiple_toolsets = None,
      wants_static_library_dependencies_adjusted = Some False, wants_sorted_dependencies = None\<rparr>"

definition ex_generator :: generator_code where
  "ex_generator =
     \<lparr>CalculateVariables = None, CalculateGeneratorInputInfo = None,
      GenerateOutput = (\<lambda>loaded params. Inr loaded), PerformBuild = (\<lambda>data configs params. Inr ())\<rparr>"

definition ex_main :: main_env where
  "ex_main =
     \<lparr>system = \<lparr>environ = (\<lambda>_. None), sys_platform = ''linux'', path_exists = (\<lambda>_. False), cwd_files = []\<rparr>,
      load_in = ex_project, import_module = (\<lambda>paths name. Inr (ex_generator, ex_attrs)), gyp_binary = ''gyp''\<rparr>"

definition ex_given :: gyp_options where
  "ex_given = ex_options\<lparr>opt_defines := [], opt_includes := [], opt_check := False, opt_circular_check := False\<rparr>"

definition ex_start :: main_state where
  "ex_start = \<lparr>sys_path = [], modules = [], main_objects = ex_objects\<rparr>"

definition ex_main_read :: file_state where
  "ex_main_read = ex_read
     \<lparr>files := \<lparr>data = ex_data ''/r'', aux_data = [(''a'', [])], open_files = []\<rparr>,
      variables := [(''GENERATOR'', HStr ''make''), (''DEPTH'', HStr ''.'')],
      objects := ex_objects\<lparr>cells :=
        [ODict [(''target_name'', HStr ''x''), (''type'', HStr ''none''), (''toolset'', HStr ''target'')],
         Gyp_Heap.OList [HRef 0], Gyp_Heap.OList [HStr ''a''],
         ODict [(''targets'', HRef 1), (''_DEPTH'', HStr ''/r''), (''included_files'', HRef 2)]]\<rparr>\<rparr>"

lemma ex_main_load_files:
  "load_build_files 3 7 ex_project (Some []) ''/r'' False False [''a''] (start_state [(''GENERATOR'', HStr ''make'')] ex_objects)
     = Inr ex_main_read"
  by code_simp

lemma ex_main_load:
  "\<exists>st. Load 3 7 ex_project ex_gii [''a''] [(''GENERATOR'', GStr ''make'')] (Some []) ''/r'' False False False ex_objects
     = Inr (([ex_name], [(ex_name, TurnIntIntoStrInDict ex_configured)]), st)"
proof -
  from ex_finished [of "[(''GENERATOR'', HStr ''make''), (''DEPTH'', HStr ''.'')]"] obtain obs where
    "finish_targets ex_project 7 ex_gii (variables ex_main_read) [ex_name] [(ex_name, ex_target)] (objects ex_main_read)
       = Inr ([(ex_name, ex_configured)], obs)" by (auto simp: ex_main_read_def)
  moreover have "new_dict [(''GENERATOR'', GStr ''make'')] ex_objects = Inr ([(''GENERATOR'', HStr ''make'')], ex_objects)"
    by (simp add: new_dict_def ex_objects_def)
  moreover have "load_targets ex_project ex_main_read = Inr [(ex_name, ex_target)]"
    by (rule ex_load_targets [of _ "''/r''"]) (simp_all add: ex_main_read_def ex_read_def)
  ultimately show ?thesis
    by (simp add: Load_def ex_project_globals ex_sorted ex_main_load_files ex_linked)
qed

text \<open>The options as they are completed.\<close>

definition ex_final :: gyp_options where
  "ex_final = ex_given\<lparr>opt_formats := [''make''], opt_toplevel_dir := Some ''/r''\<rparr>"

lemma ex_final_values:
  "opt_formats ex_final = [''make'']" "opt_defines ex_final = []" "opt_generator_flags ex_final = []"
  "opt_msvs_version ex_final = None" "opt_parallel ex_final = False" "opt_check ex_final = False"
  "opt_circular_check ex_final = False" "opt_configs ex_final = []"
  by (simp_all add: ex_final_def ex_given_def ex_options_def)

lemma ex_main_prepared:
  "complete_options (system ex_main) ex_given = ex_given\<lparr>opt_formats := [''make'']\<rparr>"
  "set_depth_option cwd [''a''] (ex_given\<lparr>opt_formats := [''make'']\<rparr>) = Inr (''/r'', ex_final)"
  "all_includes (system ex_main) ex_final = []"
  "from_environment (system ex_main) ex_final name = Inr []"
  by (simp_all add: complete_options_def environment_value_def default_format_def set_depth_option_def
      all_includes_def home_dot_gyp_def from_environment_def ex_final_def ex_given_def ex_options_def ex_main_def)

lemma ex_main_run:
  "\<exists>contents st. gyp_main 3 7 ex_main ex_given [''a''] ex_start
     = Inr ([(''make'', [ex_name], [(ex_name, TurnIntIntoStrInDict ex_configured)], contents)], st)"
proof -
  have "generator_input_info ex_attrs = ex_gii"
    by (simp add: generator_input_info_def ex_attrs_def ex_gii_def)
  moreover from ex_main_load obtain loaded where
    "Load 3 7 ex_project ex_gii [''a''] [(''GENERATOR'', GStr ''make'')] (Some []) ''/r'' False False False ex_objects
     = Inr (([ex_name], [(ex_name, TurnIntIntoStrInDict ex_configured)]), loaded)" ..
  moreover have "initial_variables ''make'' [] ex_attrs = [(''GENERATOR'', GStr ''make'')]"
    by (simp add: initial_variables_def ex_attrs_def)
  moreover have "split_format ''make'' = (''make'', None)" "NameValueListToDict [] = []"
    "generator_module cwd ''make'' paths = (''gyp.generator.make'', paths)" for cwd paths
    by (simp_all add: split_format_def split_first_def NameValueListToDict_def generator_module_def suffix_def)
  moreover have env: "import_module ex_main = (\<lambda>paths name. Inr (ex_generator, ex_attrs))" "load_in ex_main = ex_project"
    "order ex_project = (\<lambda>l. l)"
    by (simp_all add: ex_main_def ex_project_def ex_load_def)
  ultimately obtain contents st where "generate_format 3 7 ex_main [''a''] [''a''] ex_final ''/r'' [] [] ''make'' ([], ex_start)
      = Inr ([(''make'', [ex_name], [(ex_name, TurnIntIntoStrInDict ex_configured)], contents)], st)"
    by (auto simp: generate_format_def LoadFormat_def ex_main_prepared ex_final_values ex_start_def
        dict_get_def ex_generator_def build_configs_def)
  then show ?thesis
    by (simp add: gyp_main_def ex_main_prepared ex_final_values env NameValueListToDict_def Let_def)
qed

theorem gyp_main_witness:
  "\<exists>outputs st. gyp_main 3 7 ex_main ex_given [''a''] ex_start = Inr (outputs, st)
     \<and> set (map fst outputs) = {''make''} \<and> main 3 7 ex_main ex_given [''a''] ex_start = Inr 0"
proof -
  obtain outputs st where run: "gyp_main 3 7 ex_main ex_given [''a''] ex_start = Inr (outputs, st)"
    using ex_main_run by blast
  have L: "load_in ex_main = ex_project" "order ex_project = (\<lambda>l. l)" by (simp_all add: ex_main_def ex_project_def ex_load_def)
  from gyp_main_generates [OF run] ex_pick(1) L
  have "set (map fst outputs) = set (opt_formats (complete_options (system ex_main) ex_given))" by simp
  with run show ?thesis by (simp add: ex_main_prepared main_def)
qed

end
