(* ===== verification/Easy_Xml.thy ===== *)
theory Easy_Xml
  imports Gyp_Value "HOL-Library.List_Lexorder"
begin

text \<open>
  \<open>tools/gyp/pylib/gyp/easy_xml.py\<close>: printing a nested list as an XML document. A specification is a
  Python value as in \<open>Gyp_Value\<close>: a list of the element's name, perhaps a dictionary of attributes,
  and the content, where a string is text and anything else the specification of an element.
\<close>

section \<open>Escaping\<close>

definition xml_escape_map :: "(char \<times> string) list" where
  "xml_escape_map =
     [(CHR 0x22, ''&quot;''), (CHR 0x27, ''&apos;''), (CHR ''<'', ''&lt;''), (CHR ''>'', ''&gt;''),
      (CHR ''&'', ''&amp;''), (CHR 0x0A, ''&#xA;''), (CHR 0x0D, ''&#xD;'')]"

definition XmlEscape_char :: "bool \<Rightarrow> char \<Rightarrow> string" where
  "XmlEscape_char attr c =
     (case map_of xml_escape_map c of
        None \<Rightarrow> [c]
      | Some e \<Rightarrow> if attr \<and> c = CHR 0x27 then [c] else e)"

text \<open>\<open>re.sub\<close> takes strings only.\<close>

definition XmlEscape :: "gval \<Rightarrow> bool \<Rightarrow> string result" where
  "XmlEscape v attr =
     (case v of
        GStr s \<Rightarrow> Inr (concat (map (XmlEscape_char attr) s))
      | v \<Rightarrow> Inl (TypeError (''expected string or buffer, found '' @ class_name v)))"

section \<open>XmlToString\<close>

text \<open>\<open>specification[0]\<close> and \<open>specification[1:]\<close>\<close>

definition split_specification :: "gval \<Rightarrow> (gval \<times> gval list) result" where
  "split_specification specification =
     (case specification of
        GList (x # rest) \<Rightarrow> Inr (x, rest)
      | GStr (c # cs) \<Rightarrow> Inr (GStr [c], map (\<lambda>c. GStr [c]) cs)
      | GList [] \<Rightarrow> Inl IndexError
      | GStr [] \<Rightarrow> Inl IndexError
      | GDict d \<Rightarrow> Inl (KeyError ''0'')
      | v \<Rightarrow> Inl (TypeError (class_name v @ '' object has no attribute __getitem__'')))"

definition attribute_text :: "string \<times> gval \<Rightarrow> string result" where
  "attribute_text = (\<lambda>(at, val).
     rbind (XmlEscape val True) (\<lambda>e. Inr ('' '' @ at @ ''='' @ [CHR 0x22] @ e @ [CHR 0x22])))"

text \<open>The text after the name, and what is left of the specification.\<close>

definition attributes_text :: "gval list \<Rightarrow> (string \<times> gval list) result" where
  "attributes_text rest =
     (case rest of
        GDict d # rest \<Rightarrow>
          rbind (rmap attribute_text (sort_key fst d)) (\<lambda>parts. Inr (concat parts, rest))
      | _ \<Rightarrow> Inr ([], rest))"

fun is_str :: "gval \<Rightarrow> bool" where
  "is_str (GStr s) = True"
| "is_str v = False"

definition spaces :: "nat \<Rightarrow> string" where
  "spaces n = replicate n CHR '' ''"

text \<open>
  What \<open>_ConstructContentList\<close> appends to \<open>xml_parts\<close>, joined. \<open>str(specification)\<close> is left out of
  the message.
\<close>

lemma split_specification_size:
  "split_specification v = Inr (x, rest) \<Longrightarrow> size_list size rest < size v \<or> (\<forall>y \<in> set rest. is_str y)"
  by (auto simp: split_specification_def split: gval.splits list.splits)

lemma attributes_rest: "attributes_text rest = Inr (a, rest') \<Longrightarrow> rest' = rest \<or> rest' = tl rest"
  by (auto simp: attributes_text_def split: list.splits gval.splits)

lemma content_size:
  assumes "split_specification v = Inr (x, rest)" and "attributes_text rest = Inr (a, rest')"
    and "y \<in> set rest'" and "\<not> is_str y"
  shows "size y < size v"
proof -
  have y: "y \<in> set rest" using attributes_rest [OF assms(2)] assms(3) by (cases rest) auto
  with split_specification_size [OF assms(1)] assms(4) have "size_list size rest < size v" by blast
  moreover have "size y \<le> size_list size rest" by (rule size_list_estimation' [OF y order_refl])
  ultimately show ?thesis by simp
qed

function ConstructContentList :: "bool \<Rightarrow> nat \<Rightarrow> gval \<Rightarrow> string result" where
  "ConstructContentList pretty level specification =
     (let indentation = (if pretty then spaces (2 * level) else []);
          new_line = (if pretty then [CHR 0x0A] else [])
      in rbind (split_specification specification) (\<lambda>(name, rest).
         case name of
           GStr name \<Rightarrow>
             rbind (attributes_text rest) (\<lambda>(attributes, rest).
             if rest = [] then Inr (indentation @ ''<'' @ name @ attributes @ ''/>'' @ new_line)
             else let multi_line = (\<not> list_all is_str rest)
                  in rbind (rmap (\<lambda>child_spec.
                       if is_str child_spec then XmlEscape child_spec False
                       else ConstructContentList pretty (level + 1) child_spec) rest) (\<lambda>parts.
                     Inr (indentation @ ''<'' @ name @ attributes @ ''>''
                          @ (if multi_line then new_line else []) @ concat parts
                          @ (if multi_line then indentation else []) @ ''</'' @ name @ ''>'' @ new_line)))
         | _ \<Rightarrow> Inl (PlainException ''The first item of an EasyXml specification should be a string.'')))"
  by pat_completeness auto
termination
  by (relation "measure (\<lambda>(pretty, level, v). size v)") (auto intro: content_size)

declare ConstructContentList.simps [simp del]

definition XmlToString :: "gval \<Rightarrow> string \<Rightarrow> bool \<Rightarrow> string result" where
  "XmlToString content encoding pretty =
     rbind (ConstructContentList pretty 0 content) (\<lambda>parts.
     Inr (''<?xml version='' @ [CHR 0x22] @ ''1.0'' @ [CHR 0x22] @ '' encoding='' @ [CHR 0x22] @ encoding @ [CHR 0x22]
          @ ''?>'' @ (if pretty then [CHR 0x0A] else []) @ parts))"

section \<open>WriteXmlIfChanged\<close>

text \<open>
  A file that cannot be read has no contents. The result says whether the file was written. Files
  are read and written as they are, so \<open>os.linesep\<close> is a newline or the translation is disabled.
\<close>

type_synonym file_contents = "string \<Rightarrow> string option"

definition crlf :: "string \<Rightarrow> string" where
  "crlf s = concat (map (\<lambda>c. if c = CHR 0x0A then [CHR 0x0D, CHR 0x0A] else [c]) s)"

definition WriteXmlIfChanged ::
  "gval \<Rightarrow> string \<Rightarrow> string \<Rightarrow> bool \<Rightarrow> bool \<Rightarrow> string \<Rightarrow> file_contents \<Rightarrow> (bool \<times> file_contents) result" where
  "WriteXmlIfChanged content path encoding pretty win32 linesep fs =
     rbind (XmlToString content encoding pretty) (\<lambda>xml_string.
     let xml_string = (if win32 \<and> linesep \<noteq> [CHR 0x0D, CHR 0x0A] then crlf xml_string else xml_string)
     in if fs path \<noteq> Some xml_string then Inr (True, fs(path \<mapsto> xml_string)) else Inr (False, fs))"

section \<open>Reading a document back\<close>

text \<open>
  A specification of reading, after XML 1.0 (the program has no reader): documents of elements, attributes
  and text, with the character references that occur. A document holds no control characters but
  tab, newline and carriage return. Line ends are normalised before anything else (2.11): a carriage
  return, with the newline after it, is a newline. In a literal attribute value white space is a
  space (3.3.3), which does not hold of a character reference. What has a bare ampersand, a bare \<open><\<close> in
  an attribute, \<open>]]>\<close> in text or an attribute twice is not well formed.
\<close>

datatype xml = XText string | XElem string "(string \<times> string) list" "xml list"

definition xml_char :: "char \<Rightarrow> bool" where
  "xml_char c \<longleftrightarrow> c \<in> {CHR 0x09, CHR 0x0A, CHR 0x0D} \<or> 32 \<le> (of_char c :: nat)"

fun line_ends :: "bool \<Rightarrow> string \<Rightarrow> string" where
  "line_ends after_return [] = []"
| "line_ends after_return (c # s) =
     (if c = CHR 0x0D then CHR 0x0A # line_ends True s
      else if c = CHR 0x0A \<and> after_return then line_ends False s
      else c # line_ends False s)"

definition entities :: "(string \<times> char) list" where
  "entities =
     [(''&lt;'', CHR ''<''), (''&gt;'', CHR ''>''), (''&amp;'', CHR ''&''), (''&quot;'', CHR 0x22),
      (''&apos;'', CHR 0x27), (''&#xA;'', CHR 0x0A), (''&#xD;'', CHR 0x0D)]"

function unescape :: "string \<Rightarrow> string option" where
  "unescape [] = Some []"
| "unescape (c # cs) =
     (if c \<noteq> CHR ''&'' then map_option ((#) c) (unescape cs)
      else case find (\<lambda>(e, d). prefix e (c # cs)) entities of
             None \<Rightarrow> None
           | Some (e, d) \<Rightarrow> map_option ((#) d) (unescape (drop (length e - 1) cs)))"
  by pat_completeness auto
termination by (relation "measure length") auto

definition xml_white :: "char \<Rightarrow> bool" where
  "xml_white c \<longleftrightarrow> c \<in> {CHR '' '', CHR 0x09, CHR 0x0A, CHR 0x0D}"

definition attribute_value :: "string \<Rightarrow> string option" where
  "attribute_value v =
     (if CHR ''<'' \<in> set v then None else unescape (map (\<lambda>c. if xml_white c then CHR '' '' else c) v))"

definition text_value :: "string \<Rightarrow> string option" where
  "text_value t = (if sublist '']]>'' t then None else unescape t)"

definition name_char :: "char \<Rightarrow> bool" where
  "name_char c \<longleftrightarrow> xml_char c \<and> \<not> xml_white c
     \<and> c \<notin> {CHR ''/'', CHR ''<'', CHR ''>'', CHR ''='', CHR ''&'', CHR 0x22, CHR 0x27}"

fun read_attributes :: "nat \<Rightarrow> string \<Rightarrow> ((string \<times> string) list \<times> string) option" where
  "read_attributes 0 s = None"
| "read_attributes (Suc n) s =
     (if s = [] \<or> hd s \<noteq> CHR '' '' then Some ([], s)
      else let k = takeWhile name_char (tl s);
               r = dropWhile name_char (tl s)
           in if \<not> prefix [CHR ''='', CHR 0x22] r then None
              else let v = takeWhile (\<lambda>c. c \<noteq> CHR 0x22) (drop 2 r);
                       r = dropWhile (\<lambda>c. c \<noteq> CHR 0x22) (drop 2 r)
                   in if r = [] then None
                      else case attribute_value v of
                             None \<Rightarrow> None
                           | Some v \<Rightarrow> map_option (\<lambda>(as, t). ((k, v) # as, t)) (read_attributes n (tl r)))"

fun read_element :: "nat \<Rightarrow> string \<Rightarrow> (xml \<times> string) option"
  and read_nodes :: "nat \<Rightarrow> string \<Rightarrow> (xml list \<times> string) option" where
  "read_element 0 s = None"
| "read_element (Suc n) s =
     (if s = [] \<or> hd s \<noteq> CHR ''<'' then None
      else let name = takeWhile name_char (tl s);
               r = dropWhile name_char (tl s)
           in case read_attributes (length s) r of
                None \<Rightarrow> None
              | Some (as, r) \<Rightarrow>
                  if name = [] \<or> \<not> distinct (map fst as) then None
                  else if prefix ''/>'' r then Some (XElem name as [], drop 2 r)
                  else if \<not> prefix ''>'' r then None
                  else case read_nodes n (tl r) of
                         None \<Rightarrow> None
                       | Some (cs, r) \<Rightarrow>
                           if prefix (''</'' @ name @ ''>'') r
                           then Some (XElem name as cs, drop (length name + 3) r) else None)"
| "read_nodes 0 s = None"
| "read_nodes (Suc n) s =
     (if s = [] \<or> prefix ''</'' s then Some ([], s)
      else if hd s = CHR ''<''
      then case read_element n s of
             None \<Rightarrow> None
           | Some (x, r) \<Rightarrow> map_option (\<lambda>(xs, r). (x # xs, r)) (read_nodes n r)
      else let t = takeWhile (\<lambda>c. c \<noteq> CHR ''<'') s;
               r = dropWhile (\<lambda>c. c \<noteq> CHR ''<'') s
           in case text_value t of
                None \<Rightarrow> None
              | Some t \<Rightarrow> map_option (\<lambda>(xs, r). (XText t # xs, r)) (read_nodes n r))"

text \<open>A document is the declaration, up to the first \<open>>\<close>, and one element, with white space around it.\<close>

definition read_document :: "string \<Rightarrow> xml option" where
  "read_document s =
     (if \<not> list_all xml_char s \<or> \<not> prefix ''<?xml '' s then None
      else let r = dropWhile xml_white (tl (dropWhile (\<lambda>c. c \<noteq> CHR ''>'') (line_ends False s)))
           in case read_element (length r) r of
                None \<Rightarrow> None
              | Some (x, t) \<Rightarrow> if list_all xml_white t then Some x else None)"

subsection \<open>Trees that can be told apart\<close>

text \<open>
  The specification of a tree, and the trees that are their own reading: names are made of name characters,
  attributes are in the order of their names, no text is empty or next to another text, and no
  value has a control character, an attribute's no tab either. In an \<open>unmixed\<close> tree each
  element holds only texts or only elements.
\<close>

fun node_spec :: "xml \<Rightarrow> gval" where
  "node_spec (XText s) = GStr s"
| "node_spec (XElem n as cs) =
     GList (GStr n # GDict (map (\<lambda>(k, v). (k, GStr v)) as) # map node_spec cs)"

fun is_text :: "xml \<Rightarrow> bool" where
  "is_text (XText s) = True"
| "is_text (XElem n as cs) = False"

fun texts_apart :: "xml list \<Rightarrow> bool" where
  "texts_apart (x # y # xs) \<longleftrightarrow> \<not> (is_text x \<and> is_text y) \<and> texts_apart (y # xs)"
| "texts_apart xs \<longleftrightarrow> True"

definition good_attributes :: "(string \<times> string) list \<Rightarrow> bool" where
  "good_attributes as \<longleftrightarrow> sorted (map fst as) \<and> distinct (map fst as)
     \<and> list_all (\<lambda>(k, v). list_all name_char k \<and> list_all xml_char v \<and> CHR 0x09 \<notin> set v) as"

fun good_node :: "xml \<Rightarrow> bool" where
  "good_node (XText s) \<longleftrightarrow> s \<noteq> [] \<and> list_all xml_char s"
| "good_node (XElem n as cs) \<longleftrightarrow>
     n \<noteq> [] \<and> list_all name_char n \<and> good_attributes as \<and> texts_apart cs \<and> list_all good_node cs"

fun unmixed :: "xml \<Rightarrow> bool" where
  "unmixed (XText s) \<longleftrightarrow> True"
| "unmixed (XElem n as cs) \<longleftrightarrow> (list_all is_text cs \<or> list_all (\<lambda>c. \<not> is_text c) cs) \<and> list_all unmixed cs"

text \<open>A reader that does not want the layout drops white space between elements.\<close>

fun layout_text :: "xml \<Rightarrow> bool" where
  "layout_text (XText s) \<longleftrightarrow> list_all xml_white s"
| "layout_text (XElem n as cs) \<longleftrightarrow> False"

fun drop_layout :: "xml \<Rightarrow> xml" where
  "drop_layout (XText s) = XText s"
| "drop_layout (XElem n as cs) =
     XElem n as ((if list_all is_text cs then map drop_layout cs
       else filter (\<lambda>c. \<not> layout_text c) (map drop_layout cs)))"

subsection \<open>Escaped text\<close>

definition escaped :: "bool \<Rightarrow> string \<Rightarrow> string" where
  "escaped attr s = concat (map (XmlEscape_char attr) s)"

lemma XmlEscape_char_cases:
  obtains (special) e where "(c, e) \<in> set xml_escape_map" | (plain) "XmlEscape_char attr c = [c]" "c \<notin> fst ` set xml_escape_map"
  by (cases "map_of xml_escape_map c") (auto simp: XmlEscape_char_def map_of_eq_None_iff dest: map_of_SomeD)

lemma unescape_char: "unescape (XmlEscape_char attr c @ s) = map_option ((#) c) (unescape s)"
proof (cases rule: XmlEscape_char_cases [where c = c and attr = attr])
  case (special e)
  then show ?thesis by (auto simp: xml_escape_map_def XmlEscape_char_def entities_def)
next
  case plain
  then show ?thesis by (simp add: xml_escape_map_def)
qed

lemma unescape_escaped: "unescape (escaped attr s) = Some s"
  by (induction s) (simp_all add: escaped_def unescape_char)

lemma XmlEscape_char_plain:
  "XmlEscape_char attr c \<noteq> []
    \<and> set (XmlEscape_char attr c) \<inter> {CHR ''<'', CHR ''>'', CHR 0x22, CHR 0x0A, CHR 0x0D} = {}
    \<and> (CHR 0x09 \<in> set (XmlEscape_char attr c) \<longrightarrow> c = CHR 0x09)
    \<and> (xml_char c \<longrightarrow> list_all xml_char (XmlEscape_char attr c))"
proof (cases rule: XmlEscape_char_cases [where c = c and attr = attr])
  case (special e)
  then show ?thesis by (auto simp: xml_escape_map_def XmlEscape_char_def xml_char_def)
next
  case plain
  then show ?thesis by (auto simp: xml_escape_map_def)
qed

lemma escaped_plain:
  "set (escaped attr s) \<inter> {CHR ''<'', CHR ''>'', CHR 0x22, CHR 0x0A, CHR 0x0D} = {}"
  "CHR 0x09 \<in> set (escaped attr s) \<Longrightarrow> CHR 0x09 \<in> set s"
  "list_all xml_char s \<Longrightarrow> list_all xml_char (escaped attr s)"
  using XmlEscape_char_plain by (fastforce simp: escaped_def list_all_iff)+

lemma escaped_Nil: "escaped attr s = [] \<longleftrightarrow> s = []"
  using XmlEscape_char_plain by (cases s) (simp_all add: escaped_def)

lemma sublist_gt: "sublist '']]>'' w \<Longrightarrow> CHR ''>'' \<in> set w"
  by (auto simp: sublist_def)

lemma text_value_escaped: "text_value (escaped False s) = Some s"
proof -
  have "\<not> sublist '']]>'' (escaped False s)"
    using escaped_plain(1) [of False s] sublist_gt by blast
  then show ?thesis by (simp add: text_value_def unescape_escaped)
qed

lemma attribute_value_escaped:
  assumes "CHR 0x09 \<notin> set s"
  shows "attribute_value (escaped True s) = Some s"
proof -
  have "map (\<lambda>c. if xml_white c then CHR '' '' else c) (escaped True s) = escaped True s"
    using escaped_plain(1) [of True s] escaped_plain(2) [of True s] assms by (intro map_idI) (auto simp: xml_white_def)
  then show ?thesis using escaped_plain(1) [of True s] by (auto simp: attribute_value_def unescape_escaped)
qed

subsection \<open>What is printed\<close>

text \<open>
  The document as it stands on paper: a tree whose texts are as they are printed, layout included.
\<close>

datatype paper = PText string | PElem string "(string \<times> string) list" "paper list"

definition attribute_string :: "string \<times> string \<Rightarrow> string" where
  "attribute_string = (\<lambda>(k, v). '' '' @ k @ ''='' @ [CHR 0x22] @ escaped True v @ [CHR 0x22])"

fun render :: "paper \<Rightarrow> string" where
  "render (PText s) = s"
| "render (PElem n as cs) =
     ''<'' @ n @ concat (map attribute_string as)
     @ (if cs = [] then ''/>'' else ''>'' @ concat (map render cs) @ ''</'' @ n @ ''>'')"

fun printed :: "xml \<Rightarrow> paper" where
  "printed (XText s) = PText (escaped False s)"
| "printed (XElem n as cs) = PElem n as (map printed cs)"

definition new_row :: "nat \<Rightarrow> paper" where
  "new_row level = PText (CHR 0x0A # spaces (2 * level))"

fun laid_out :: "nat \<Rightarrow> xml \<Rightarrow> paper" where
  "laid_out level (XText s) = PText (escaped False s)"
| "laid_out level (XElem n as cs) =
     PElem n as (if list_all is_text cs then map printed cs
                 else concat (map (\<lambda>c. [new_row (level + 1), laid_out (level + 1) c]) cs) @ [new_row level])"

lemma XmlEscape_str: "XmlEscape (GStr s) attr = Inr (escaped attr s)"
  by (simp add: XmlEscape_def escaped_def)

lemma attributes_text_spec:
  assumes "sorted (map fst as)"
  shows "attributes_text (GDict (map (\<lambda>(k, v). (k, GStr v)) as) # rest)
    = Inr (concat (map attribute_string as), rest)"
proof -
  have "fst \<circ> (\<lambda>(k, v). (k, GStr v)) = (fst :: string \<times> string \<Rightarrow> string)" by auto
  with assms have "sort_key fst (map (\<lambda>(k, v). (k, GStr v)) as) = map (\<lambda>(k, v). (k, GStr v)) as"
    by (intro sort_key_id_if_sorted) simp
  moreover have "rmap attribute_text (map (\<lambda>(k, v). (k, GStr v)) as) = Inr (map attribute_string as)"
    by (induction as) (auto simp: attribute_text_def attribute_string_def XmlEscape_str)
  ultimately show ?thesis by (simp add: attributes_text_def)
qed

lemma rmap_spec:
  "(\<And>c. c \<in> set cs \<Longrightarrow> f (g c) = Inr (h c)) \<Longrightarrow> rmap f (map g cs) = Inr (map h cs)"
  by (induction cs) simp_all

lemma Construct_plain:
  "good_node x \<Longrightarrow> \<not> is_text x \<Longrightarrow> ConstructContentList False level (node_spec x) = Inr (render (printed x))"
proof (induction x arbitrary: level)
  case (XElem n as cs)
  have child: "(if is_str (node_spec c) then XmlEscape (node_spec c) False
      else ConstructContentList False (level + 1) (node_spec c)) = Inr (render (printed c))" if "c \<in> set cs" for c
  proof (cases c)
    case (XElem n' as' cs')
    with XElem.IH [OF that] XElem.prems(1) that show ?thesis by (auto simp: list_all_iff)
  qed (simp add: XmlEscape_str)
  from XElem.prems have "sorted (map fst as)" by (simp add: good_attributes_def)
  note attrs = attributes_text_spec [OF this]
  show ?case
    by (subst ConstructContentList.simps)
      (simp add: split_specification_def attrs comp_def
        rmap_spec [where g = node_spec and h = "\<lambda>c. render (printed c)", OF child])
qed simp

lemma is_str_spec: "is_str (node_spec c) \<longleftrightarrow> is_text c"
  by (cases c) simp_all

lemma rows:
  "CHR 0x0A # concat (map (\<lambda>c. i @ f c @ [CHR 0x0A]) cs) @ j = concat (map (\<lambda>c. CHR 0x0A # i @ f c) cs) @ CHR 0x0A # j"
  by (induction cs) simp_all

lemma Construct_pretty:
  "good_node x \<Longrightarrow> unmixed x \<Longrightarrow> \<not> is_text x \<Longrightarrow>
   ConstructContentList True level (node_spec x) = Inr (spaces (2 * level) @ render (laid_out level x) @ [CHR 0x0A])"
proof (induction x arbitrary: level)
  case (XElem n as cs)
  from XElem.prems have "sorted (map fst as)" by (simp add: good_attributes_def)
  note attrs = attributes_text_spec [OF this]
  let ?part = "\<lambda>c. if is_str c then XmlEscape c False else ConstructContentList True (level + 1) c"
  show ?case
  proof (cases "list_all is_text cs")
    case True
    have "?part (node_spec c) = Inr (render (printed c))" if "c \<in> set cs" for c
      using True that by (cases c) (auto simp: list_all_iff XmlEscape_str)
    note child = rmap_spec [where g = node_spec and h = "\<lambda>c. render (printed c)", OF this]
    show ?thesis using True
      by (subst ConstructContentList.simps)
        (simp add: split_specification_def attrs comp_def child is_str_spec list.pred_map)
  next
    case False
    with XElem.prems(2) have elems: "list_all (\<lambda>c. \<not> is_text c) cs" by simp
    have "?part (node_spec c) = Inr (spaces (2 * (level + 1)) @ render (laid_out (level + 1) c) @ [CHR 0x0A])"
      if "c \<in> set cs" for c
      using XElem.IH [OF that] XElem.prems(1,2) elems that by (auto simp: list_all_iff is_str_spec)
    note child = rmap_spec [where g = node_spec
        and h = "\<lambda>c. spaces (2 * (level + 1)) @ render (laid_out (level + 1) c) @ [CHR 0x0A]", OF this]
    have "cs \<noteq> []" using False by auto
    moreover have "concat (map render (concat (map (\<lambda>c. [new_row (level + 1), laid_out (level + 1) c]) cs)))
        = concat (map (\<lambda>c. CHR 0x0A # spaces (2 * (level + 1)) @ render (laid_out (level + 1) c)) cs)"
      by (induction cs) (simp_all add: new_row_def)
    ultimately show ?thesis using False
      by (subst ConstructContentList.simps)
        (simp add: split_specification_def attrs comp_def child is_str_spec list.pred_map new_row_def Let_def
          rows [of "spaces (2 * Suc level)" "\<lambda>c. render (laid_out (Suc level) c)"] del: mult_Suc_right)
  qed
qed simp

subsection \<open>Reading what is printed\<close>

text \<open>The tree that a reader sees, and what the reader needs of the paper.\<close>

fun seen :: "paper \<Rightarrow> xml" where
  "seen (PText w) = XText (the (text_value w))"
| "seen (PElem n as ps) = XElem n as (map seen ps)"

fun is_raw :: "paper \<Rightarrow> bool" where
  "is_raw (PText w) = True"
| "is_raw (PElem n as ps) = False"

fun raw_apart :: "paper list \<Rightarrow> bool" where
  "raw_apart (p # q # ps) \<longleftrightarrow> \<not> (is_raw p \<and> is_raw q) \<and> raw_apart (q # ps)"
| "raw_apart ps \<longleftrightarrow> True"

fun good_paper :: "paper \<Rightarrow> bool" where
  "good_paper (PText w) \<longleftrightarrow> w \<noteq> [] \<and> CHR ''<'' \<notin> set w \<and> text_value w \<noteq> None \<and> list_all xml_char w \<and> CHR 0x0D \<notin> set w"
| "good_paper (PElem n as ps) \<longleftrightarrow>
     n \<noteq> [] \<and> list_all name_char n \<and> good_attributes as \<and> raw_apart ps \<and> list_all good_paper ps"

lemma name_span:
  assumes "list_all name_char n" and "r = [] \<or> \<not> name_char (hd r)"
  shows "takeWhile name_char (n @ r) = n" "dropWhile name_char (n @ r) = r"
  using assms by (induction n) (cases r; simp)+

lemma text_span:
  assumes "c \<notin> set t" and "r = [] \<or> hd r = c"
  shows "takeWhile (\<lambda>x. x \<noteq> c) (t @ r) = t" "dropWhile (\<lambda>x. x \<noteq> c) (t @ r) = r"
proof -
  have t: "\<And>x. x \<in> set t \<Longrightarrow> x \<noteq> c" using assms(1) by blast
  have "takeWhile (\<lambda>x. x \<noteq> c) r = []" "dropWhile (\<lambda>x. x \<noteq> c) r = r"
    using assms(2) by (cases r; auto)+
  with t show "takeWhile (\<lambda>x. x \<noteq> c) (t @ r) = t" "dropWhile (\<lambda>x. x \<noteq> c) (t @ r) = r"
    by (simp_all add: takeWhile_append2 dropWhile_append2)
qed

lemma read_attributes_string:
  assumes "list_all (\<lambda>(k, v). list_all name_char k \<and> list_all xml_char v \<and> CHR 0x09 \<notin> set v) as"
    and "length as < n" and "r = [] \<or> hd r \<noteq> CHR '' ''"
  shows "read_attributes n (concat (map attribute_string as) @ r) = Some (as, r)"
  using assms
proof (induction as arbitrary: n)
  case Nil
  then show ?case by (cases n) auto
next
  case (Cons p as)
  obtain k v where p: "p = (k, v)" by force
  from Cons.prems obtain m where n: "n = Suc m" "length as < m" by (cases n) auto
  let ?t = "concat (map attribute_string as) @ r"
  let ?r = "[CHR ''='', CHR 0x22] @ escaped True v @ CHR 0x22 # ?t"
  have "list_all name_char k" and tab: "CHR 0x09 \<notin> set v" using Cons.prems(1) p by simp_all
  note k = name_span [OF this(1), of ?r]
  have "?r = [] \<or> \<not> name_char (hd ?r)" by (simp add: name_char_def)
  note k = k [OF this]
  have v: "takeWhile (\<lambda>c. c \<noteq> CHR 0x22) (escaped True v @ CHR 0x22 # ?t) = escaped True v"
    "dropWhile (\<lambda>c. c \<noteq> CHR 0x22) (escaped True v @ CHR 0x22 # ?t) = CHR 0x22 # ?t"
    using escaped_plain(1) [of True v] by (subst takeWhile_append2 dropWhile_append2; auto)+
  have "read_attributes m ?t = Some (as, r)" using Cons n by simp
  then show ?case
    using k v by (simp add: p n attribute_string_def attribute_value_escaped [OF tab])
qed

declare read_attributes.simps(2) [simp del]

definition elem_reads :: "nat \<Rightarrow> bool" where
  "elem_reads n \<longleftrightarrow> (\<forall>p r. good_paper p \<longrightarrow> \<not> is_raw p \<longrightarrow> size p < n \<longrightarrow> read_element n (render p @ r) = Some (seen p, r))"

definition nodes_read :: "nat \<Rightarrow> bool" where
  "nodes_read n \<longleftrightarrow> (\<forall>ps r. list_all good_paper ps \<longrightarrow> raw_apart ps \<longrightarrow> size_list size ps < n
     \<longrightarrow> (r = [] \<or> prefix ''</'' r) \<longrightarrow> read_nodes n (concat (map render ps) @ r) = Some (map seen ps, r))"

lemmas elem_readsD = elem_reads_def [THEN iffD1, rule_format]
lemmas nodes_readD = nodes_read_def [THEN iffD1, rule_format]

lemma elem_reads_Suc:
  assumes nodes: "nodes_read n"
  shows "elem_reads (Suc n)"
  unfolding elem_reads_def
proof (intro allI impI)
  fix p r assume p: "good_paper p" "\<not> is_raw p" "size p < Suc n"
  then obtain name as ps where P: "p = PElem name as ps" by (cases p) auto
  from p P have name: "list_all name_char name" "name \<noteq> []" and good: "good_attributes as"
    and ps: "list_all good_paper ps" "raw_apart ps" "size_list size ps < n" by simp_all
  define t where "t = (if ps = [] then ''/>'' else ''>'' @ concat (map render ps) @ ''</'' @ name @ ''>'') @ r"
  define u where "u = concat (map attribute_string as) @ t"
  have s: "render p @ r = CHR ''<'' # name @ u" by (simp add: P t_def u_def)
  have "u = [] \<or> \<not> name_char (hd u)"
    by (cases as) (auto simp: u_def t_def name_char_def attribute_string_def xml_white_def)
  note span = name_span [OF name(1) this]
  have "length (concat (map attribute_string as)) \<ge> length as"
    by (induction as) (auto simp: attribute_string_def)
  then have "length as < Suc (length name + length u)" by (simp add: u_def)
  moreover have "t = [] \<or> hd t \<noteq> CHR '' ''" by (simp add: t_def)
  ultimately have attrs: "read_attributes (Suc (length name + length u)) u = Some (as, t)"
    using read_attributes_string [of as] good by (simp add: u_def good_attributes_def)
  have once: "distinct (map fst as)" using good by (simp add: good_attributes_def)
  show "read_element (Suc n) (render p @ r) = Some (seen p, r)"
  proof (cases "ps = []")
    case True
    then have "t = ''/>'' @ r" by (simp add: t_def)
    with attrs True name(2) once show ?thesis unfolding s by (simp add: span P)
  next
    case False
    then have t: "t = CHR ''>'' # concat (map render ps) @ ''</'' @ name @ ''>'' @ r" by (simp add: t_def)
    have "read_nodes n (concat (map render ps) @ ''</'' @ name @ ''>'' @ r) = Some (map seen ps, ''</'' @ name @ ''>'' @ r)"
      by (rule nodes_readD [OF nodes ps]) simp
    moreover have "drop (length name + 3) (''</'' @ name @ ''>'' @ r) = r" by (simp add: numeral_eq_Suc)
    ultimately show ?thesis using attrs name(2) once unfolding s by (simp add: span P t)
  qed
qed

lemma nodes_read_Suc:
  assumes elem: "elem_reads n" and nodes: "nodes_read n"
  shows "nodes_read (Suc n)"
  unfolding nodes_read_def
proof (intro allI impI)
  fix ps r assume ps: "list_all good_paper ps" "raw_apart ps" "size_list size ps < Suc n"
    and r: "r = [] \<or> prefix ''</'' r"
  show "read_nodes (Suc n) (concat (map render ps) @ r) = Some (map seen ps, r)"
  proof (cases ps)
    case Nil
    with r show ?thesis by auto
  next
    case (Cons p qs)
    with ps have good: "good_paper p" "list_all good_paper qs" "raw_apart qs" "size p < n" "size_list size qs < n"
      by (cases qs; simp)+
    let ?t = "concat (map render qs) @ r"
    note rest = nodes_readD [OF nodes good(2,3,5) r]
    show ?thesis
    proof (cases p)
      case (PElem name as ys)
      with good(1) obtain c name' where "name = c # name'" "name_char c" by (cases name) auto
      then have "\<not> prefix ''</'' (render p @ ?t)" by (auto simp: PElem name_char_def)
      moreover have "render p @ ?t \<noteq> []" "hd (render p @ ?t) = CHR ''<''" by (simp_all add: PElem)
      moreover have "read_element n (render p @ ?t) = Some (seen p, ?t)"
        using elem_readsD [OF elem good(1) _ good(4)] PElem by simp
      ultimately show ?thesis using rest by (simp add: Cons)
    next
      case (PText w)
      have "?t = [] \<or> hd ?t = CHR ''<''"
      proof (cases qs)
        case Nil
        with r show ?thesis by (auto simp: prefix_def)
      next
        case (Cons q ys)
        with ps(2) PText \<open>ps = p # qs\<close> have "\<not> is_raw q" by simp
        then show ?thesis by (cases q) (simp_all add: Cons)
      qed
      moreover from good(1) PText obtain v where w: "CHR ''<'' \<notin> set w" "w \<noteq> []" "text_value w = Some v" by auto
      ultimately have span: "takeWhile (\<lambda>c. c \<noteq> CHR ''<'') (w @ ?t) = w" "dropWhile (\<lambda>c. c \<noteq> CHR ''<'') (w @ ?t) = ?t"
        using text_span [of "CHR ''<''" w ?t] by blast+
      obtain c e where e: "w = c # e" "c \<noteq> CHR ''<''" using w(1,2) by (cases w) auto
      have "render p @ ?t \<noteq> []" "\<not> prefix ''</'' (render p @ ?t)" "hd (render p @ ?t) \<noteq> CHR ''<''"
        using e by (simp_all add: PText)
      then show ?thesis using rest span w(3) by (simp add: Cons PText)
    qed
  qed
qed

lemma reads_back: "elem_reads n \<and> nodes_read n"
proof (induction n)
  case 0
  show ?case by (simp add: elem_reads_def nodes_read_def)
qed (simp add: elem_reads_Suc nodes_read_Suc)

lemma render_length: "good_paper p \<Longrightarrow> size p < length (render p)"
proof (induction p)
  case (PElem n as ps)
  have le: "list_all good_paper ps \<Longrightarrow> (\<And>p. p \<in> set ps \<Longrightarrow> size p < length (render p)) \<Longrightarrow>
      size_list size ps \<le> length (concat (map render ps))" for ps
    by (induction ps) (auto simp: Suc_le_eq intro: add_le_mono, fastforce)
  have "size_list size ps \<le> length (concat (map render ps))"
    using PElem le [of ps] by (simp add: list_all_iff)
  then show ?case by auto
qed simp

definition safe_char :: "char \<Rightarrow> bool" where
  "safe_char c \<longleftrightarrow> xml_char c \<and> c \<noteq> CHR 0x0D"

lemma safe_chars: "list_all safe_char s \<longleftrightarrow> list_all xml_char s \<and> CHR 0x0D \<notin> set s"
  by (auto simp: list_all_iff safe_char_def)

lemma safe_name: "list_all name_char s \<Longrightarrow> list_all safe_char s"
  by (auto simp: list_all_iff safe_char_def name_char_def xml_white_def)

lemma safe_escaped: "list_all xml_char s \<Longrightarrow> list_all safe_char (escaped attr s)"
  using escaped_plain(1) [of attr s] escaped_plain(3) [of s attr] by (auto simp: safe_chars)

lemma safe_marks [simp]:
  "list_all safe_char [CHR '' '', CHR ''='', CHR 0x22, CHR ''<'', CHR ''/'', CHR ''>'', CHR ''?'', CHR 0x0A]"
  by code_simp

lemma safe_attributes:
  assumes "good_attributes as"
  shows "list_all safe_char (concat (map attribute_string as))"
proof -
  have "list_all safe_char (attribute_string (k, v))" if "(k, v) \<in> set as" for k v
  proof -
    from assms that have "list_all name_char k" "list_all xml_char v" by (auto simp: good_attributes_def list_all_iff)
    with safe_name safe_escaped safe_marks show ?thesis by (simp add: attribute_string_def)
  qed
  then show ?thesis by (auto simp: list_all_iff)
qed

lemma safe_render: "good_paper p \<Longrightarrow> list_all safe_char (render p)"
proof (induction p)
  case (PElem n as ps)
  have "list_all safe_char n" using PElem.prems by (simp add: safe_name)
  moreover have "list_all safe_char (concat (map render ps))"
    using PElem by (auto simp: list_all_iff)
  ultimately show ?case using safe_attributes [of as] PElem.prems safe_marks by simp
qed (simp add: safe_chars)

lemma line_ends_none: "CHR 0x0D \<notin> set s \<Longrightarrow> line_ends False s = s"
  by (induction s) auto

definition xml_head :: "string \<Rightarrow> string" where
  "xml_head encoding =
     ''<?xml version='' @ [CHR 0x22] @ ''1.0'' @ [CHR 0x22] @ '' encoding='' @ [CHR 0x22] @ encoding @ [CHR 0x22] @ ''?''"

lemma xml_head_chars:
  assumes "list_all name_char encoding"
  shows "list_all safe_char (xml_head encoding)" "CHR ''>'' \<notin> set (xml_head encoding)"
    "prefix ''<?xml '' (xml_head encoding @ s)"
proof -
  have "list_all safe_char (''<?xml version='' @ [CHR 0x22] @ ''1.0'' @ [CHR 0x22] @ '' encoding='' @ [CHR 0x22])"
    by code_simp
  with safe_name [OF assms] safe_marks show "list_all safe_char (xml_head encoding)"
    by (simp add: xml_head_def)
  show "CHR ''>'' \<notin> set (xml_head encoding)" using assms by (auto simp: xml_head_def list_all_iff name_char_def)
  show "prefix ''<?xml '' (xml_head encoding @ s)" by (simp add: xml_head_def)
qed

lemma document_reads:
  assumes p: "good_paper p" "\<not> is_raw p" and encoding: "list_all name_char encoding"
    and w: "set w \<subseteq> {CHR 0x0A}" "set w' \<subseteq> {CHR 0x0A}"
  shows "read_document (xml_head encoding @ CHR ''>'' # w @ render p @ w') = Some (seen p)"
proof -
  let ?doc = "xml_head encoding @ CHR ''>'' # w @ render p @ w'"
  have white: "list_all xml_white w" "list_all xml_white w'" and safe: "list_all safe_char w" "list_all safe_char w'"
    using w safe_marks by (auto simp: list_all_iff xml_white_def)
  have "list_all safe_char ?doc"
    using safe_render [OF p(1)] xml_head_chars(1) [OF encoding] safe safe_marks by simp
  then have chars: "list_all xml_char ?doc" "CHR 0x0D \<notin> set ?doc" unfolding safe_chars by blast+
  note same = line_ends_none [OF chars(2)]
  have "dropWhile (\<lambda>c. c \<noteq> CHR ''>'') ?doc = CHR ''>'' # w @ render p @ w'"
    using xml_head_chars(2) [OF encoding] by (subst dropWhile_append2) auto
  then have tail: "tl (dropWhile (\<lambda>c. c \<noteq> CHR ''>'') ?doc) = w @ render p @ w'" by simp
  obtain name as ps where "p = PElem name as ps" using p(2) by (cases p) auto
  then have "\<exists>t. render p = CHR ''<'' # t" by simp
  then have body: "dropWhile xml_white (w @ render p @ w') = render p @ w'"
    using white(1) by (induction w) (auto simp: xml_white_def)
  have "size p < length (render p @ w')" using render_length [OF p(1)] by simp
  from elem_readsD [OF reads_back [THEN conjunct1] p this, of w']
  have elem: "read_element (length (render p @ w')) (render p @ w') = Some (seen p, w')" .
  have "read_document ?doc = (if \<not> list_all xml_char ?doc \<or> \<not> prefix ''<?xml '' ?doc then None
      else case read_element (length (render p @ w')) (render p @ w') of
             None \<Rightarrow> None | Some (x, t) \<Rightarrow> if list_all xml_white t then Some x else None)"
    unfolding read_document_def same tail body Let_def ..
  with elem chars(1) xml_head_chars(3) [OF encoding] white(2) show ?thesis by simp
qed

lemma printed_good: "good_node x \<Longrightarrow> good_paper (printed x) \<and> seen (printed x) = x"
proof (induction x)
  case (XText s)
  then show ?case
    using escaped_plain(1) [of False s] escaped_plain(3) [of s False] by (auto simp: text_value_escaped escaped_Nil)
next
  case (XElem n as cs)
  have "texts_apart cs \<Longrightarrow> raw_apart (map printed cs)" for cs
  proof (induction cs rule: texts_apart.induct)
    case (1 x y xs)
    then show ?case by (cases x; cases y) auto
  qed auto
  with XElem show ?case by (auto simp: list_all_iff map_idI)
qed

lemma new_row_good: "good_paper (new_row level) \<and> is_raw (new_row level) \<and> layout_text (seen (new_row level))"
proof -
  have "\<not> sublist '']]>'' (CHR 0x0A # spaces (2 * level))"
    using sublist_gt [of "CHR 0x0A # spaces (2 * level)"] by (auto simp: spaces_def)
  moreover have "unescape (CHR 0x0A # spaces n) = Some (CHR 0x0A # spaces n)" for n
    by (induction n) (simp_all add: spaces_def)
  ultimately show ?thesis
    by (auto simp: new_row_def text_value_def spaces_def list_all_iff xml_char_def xml_white_def)
qed

lemma laid_out_good:
  "good_node x \<Longrightarrow> unmixed x \<Longrightarrow>
   good_paper (laid_out level x) \<and> (is_raw (laid_out level x) \<longleftrightarrow> is_text x) \<and> drop_layout (seen (laid_out level x)) = x"
proof (induction x arbitrary: level)
  case (XText s)
  then show ?case using printed_good [of "XText s"] by simp
next
  case (XElem n as cs)
  show ?case
  proof (cases "list_all is_text cs")
    case True
    have "good_paper (printed (XElem n as cs))" "seen (printed (XElem n as cs)) = XElem n as cs"
      using printed_good XElem.prems(1) by blast+
    moreover have "map drop_layout cs = cs"
    proof (rule map_idI)
      fix c assume "c \<in> set cs"
      with True show "drop_layout c = c" by (cases c) (auto simp: list_all_iff)
    qed
    ultimately show ?thesis using True by simp
  next
    case False
    with XElem.prems(2) have elems: "list_all (\<lambda>c. \<not> is_text c) cs" by simp
    let ?row = "new_row (level + 1)" and ?child = "laid_out (level + 1)"
    let ?ps = "concat (map (\<lambda>c. [?row, ?child c]) cs) @ [new_row level]"
    have child: "good_paper (?child c)" "\<not> is_raw (?child c)" "drop_layout (seen (?child c)) = c" if "c \<in> set cs" for c
      using XElem.IH [OF that, of "level + 1"] XElem.prems elems that by (auto simp: list_all_iff)
    have apart: "raw_apart (concat (map (\<lambda>c. [?row, ?child c]) ds) @ [new_row level])" if "set ds \<subseteq> set cs" for ds
      using that
    proof (induction ds)
      case (Cons d ds)
      then have "\<not> is_raw (?child d)" using child(2) by simp
      with Cons show ?case by (cases ds) auto
    qed simp
    have good: "list_all good_paper ?ps" using child(1) new_row_good by (auto simp: list_all_iff)
    have kept: "filter (\<lambda>c. \<not> layout_text c) (map drop_layout (map seen (concat (map (\<lambda>c. [?row, ?child c]) ds)))) = ds"
      if "set ds \<subseteq> set cs" for ds
      using that
    proof (induction ds)
      case (Cons d ds)
      then have "drop_layout (seen (?child d)) = d" "\<not> is_text d" using child(3) elems by (auto simp: list_all_iff)
      moreover from this(2) have "\<not> layout_text d" by (cases d) simp_all
      moreover have "layout_text (drop_layout (seen ?row))" using new_row_good [of "level + 1"] by (simp add: new_row_def)
      ultimately show ?case using Cons by simp
    qed simp
    have last_row: "layout_text (drop_layout (seen (new_row level)))" using new_row_good [of level] by (simp add: new_row_def)
    have mixed: "\<not> list_all is_text (map seen ?ps)"
    proof -
      from False obtain c where "c \<in> set cs" by (auto simp: list_all_iff)
      moreover from child(2) [OF this] have "\<not> is_text (seen (?child c))" by (cases "?child c") auto
      ultimately show ?thesis by (auto simp: list_all_iff)
    qed
    have paper: "laid_out level (XElem n as cs) = PElem n as ?ps" using False by simp
    have "filter (\<lambda>c. \<not> layout_text c) (map drop_layout (map seen ?ps)) = cs"
      using kept [OF subset_refl] last_row by simp
    then have "drop_layout (seen (PElem n as ?ps)) = XElem n as cs" using mixed by (simp only: seen.simps drop_layout.simps if_False)
    moreover have "good_paper (PElem n as ?ps)" using XElem.prems(1) good apart [OF subset_refl] by simp
    ultimately show ?thesis unfolding paper by simp
  qed
qed

text \<open>
  C13: what \<open>XmlToString\<close> prints is read back, by the rules of XML, as the tree that was specified, for every tree
  whose names are made of name characters, whose attributes are sorted, in which no text is empty or next
  to another, and whose values have no control characters: text may hold newlines, tabs and carriage returns,
  attribute values newlines and carriage returns (a tab is not escaped and would be read as a space).
  With \<open>pretty\<close> the same holds of a tree whose elements hold only texts or only elements, for a
  reader that drops the white space between elements.
\<close>

theorem XmlToString_reads_back:
  assumes "good_node x" and "\<not> is_text x" and "list_all name_char encoding"
  shows "(\<exists>s. XmlToString (node_spec x) encoding False = Inr s \<and> read_document s = Some x)
    \<and> (unmixed x \<longrightarrow> (\<exists>s t. XmlToString (node_spec x) encoding True = Inr s \<and> read_document s = Some t \<and> drop_layout t = x))"
proof (intro conjI impI)
  have "good_paper (printed x)" "\<not> is_raw (printed x)" and seen: "seen (printed x) = x"
    using printed_good [OF assms(1)] assms(2) by (cases x; auto)+
  note reads = document_reads [OF this(1,2) assms(3), of "[]" "[]", unfolded seen]
  have "XmlToString (node_spec x) encoding False = Inr (xml_head encoding @ CHR ''>'' # render (printed x))"
    by (simp add: XmlToString_def xml_head_def Construct_plain [OF assms(1,2)])
  with reads show "\<exists>s. XmlToString (node_spec x) encoding False = Inr s \<and> read_document s = Some x" by simp
  assume unmixed: "unmixed x"
  let ?p = "laid_out 0 x"
  have "good_paper ?p" "\<not> is_raw ?p" and seen: "drop_layout (seen ?p) = x"
    using laid_out_good [OF assms(1) unmixed, of 0] assms(2) by auto
  note reads = document_reads [OF this(1,2) assms(3), of "[CHR 0x0A]" "[CHR 0x0A]"]
  have "XmlToString (node_spec x) encoding True
      = Inr (xml_head encoding @ CHR ''>'' # [CHR 0x0A] @ render ?p @ [CHR 0x0A])"
    by (simp add: XmlToString_def xml_head_def Construct_pretty [OF assms(1) unmixed assms(2)] spaces_def)
  with reads seen
  show "\<exists>s t. XmlToString (node_spec x) encoding True = Inr s \<and> read_document s = Some t \<and> drop_layout t = x" by simp
qed

definition ex_tree :: xml where
  "ex_tree = XElem ''a'' [(''k'', ''1<2 & '' @ [CHR 0x22, CHR 0x0A])] [XText (''<x>'' @ [CHR 0x0D]), XElem ''b'' [] [], XText ''&'']"

theorem XmlToString_witness:
  "(\<exists>s. XmlToString (node_spec ex_tree) ''utf-8'' False = Inr s \<and> read_document s = Some ex_tree)
   \<and> (\<exists>s t. XmlToString (node_spec (XElem ''p'' [] [XElem ''b'' [] [XText ''x'']])) ''utf-8'' True = Inr s
        \<and> read_document s = Some t \<and> drop_layout t = XElem ''p'' [] [XElem ''b'' [] [XText ''x'']])"
proof
  have "good_node ex_tree" "\<not> is_text ex_tree" "list_all name_char ''utf-8''"
    "good_node (XElem ''p'' [] [XElem ''b'' [] [XText ''x'']])" "unmixed (XElem ''p'' [] [XElem ''b'' [] [XText ''x'']])"
    by code_simp+
  note ok = this
  from XmlToString_reads_back [OF ok(1-3)]
  show "\<exists>s. XmlToString (node_spec ex_tree) ''utf-8'' False = Inr s \<and> read_document s = Some ex_tree" by blast
  from XmlToString_reads_back [OF ok(4) _ ok(3)] ok(5)
  show "\<exists>s t. XmlToString (node_spec (XElem ''p'' [] [XElem ''b'' [] [XText ''x'']])) ''utf-8'' True = Inr s
        \<and> read_document s = Some t \<and> drop_layout t = XElem ''p'' [] [XElem ''b'' [] [XText ''x'']]"
    by simp
qed

text \<open>A tab in an attribute value, which is not escaped, is read as a space.\<close>

lemma tab_becomes_space:
  "\<exists>s. XmlToString (node_spec (XElem ''a'' [(''k'', [CHR 0x09])] [])) ''utf-8'' False = Inr s
    \<and> read_document s = Some (XElem ''a'' [(''k'', '' '')] [])"
  by (rule exI, rule conjI, code_simp, code_simp)

text \<open>
  After \<open>WriteXmlIfChanged\<close> the text is in the file and all other files are as they were; it says
  that it wrote exactly if the file had another text or none, and does not write a second time.
\<close>

theorem WriteXmlIfChanged_once:
  assumes "WriteXmlIfChanged content path encoding pretty win32 linesep fs = Inr (written, fs')"
  shows "\<exists>s. XmlToString content encoding pretty = Inr s
    \<and> fs' = fs(path \<mapsto> (if win32 \<and> linesep \<noteq> [CHR 0x0D, CHR 0x0A] then crlf s else s))
    \<and> (written \<longleftrightarrow> fs path \<noteq> fs' path)
    \<and> WriteXmlIfChanged content path encoding pretty win32 linesep fs' = Inr (False, fs')"
proof -
  from assms obtain s where s: "XmlToString content encoding pretty = Inr s" by (auto simp: WriteXmlIfChanged_def)
  with assms show ?thesis by (auto simp: WriteXmlIfChanged_def Let_def split: if_splits)
qed

theorem WriteXmlIfChanged_witness:
  "\<exists>fs. WriteXmlIfChanged (GList [GStr ''a'']) ''f'' ''utf-8'' False False [CHR 0x0A] (Map.empty(''f'' \<mapsto> ''b''))
       = Inr (True, fs)
     \<and> WriteXmlIfChanged (GList [GStr ''a'']) ''f'' ''utf-8'' False False [CHR 0x0A] fs = Inr (False, fs)"
proof -
  have "\<exists>fs. WriteXmlIfChanged (GList [GStr ''a'']) ''f'' ''utf-8'' False False [CHR 0x0A] (Map.empty(''f'' \<mapsto> ''b''))
       = Inr (True, fs)"
    by (simp add: WriteXmlIfChanged_def XmlToString_def ConstructContentList.simps split_specification_def attributes_text_def)
  with WriteXmlIfChanged_once show ?thesis by blast
qed

end
