(* ===== verification/Ninja_Syntax.thy ===== *)
theory Ninja_Syntax
  imports Py_Prelude
begin

text \<open>
  \<open>tools/gyp/pylib/gyp/ninja_syntax.py\<close>: the statements of a ninja file. Each method of \<open>Writer\<close> is
  the text that it writes, as a function of its arguments and the width; \<open>comment\<close>, which wraps with
  \<open>textwrap\<close>, is left out. An argument that may be \<open>None\<close>, a string or a list is a \<open>ninja_arg\<close>.
\<close>

section \<open>Escaping\<close>

text \<open>\<open>s.replace(old, new)\<close> for a text \<open>old\<close> that is not empty.\<close>

function replace_text :: "string \<Rightarrow> string \<Rightarrow> string \<Rightarrow> string" where
  "replace_text old new s =
     (if s = [] then []
      else if old \<noteq> [] \<and> prefix old s then new @ replace_text old new (drop (length old) s)
      else hd s # replace_text old new (tl s))"
  by pat_completeness auto
termination
  by (relation "measure (\<lambda>(old, new, s). length s)") auto

declare replace_text.simps [simp del]

definition escape_path :: "string \<Rightarrow> string" where
  "escape_path word = replace_text '':'' ''$:'' (replace_text '' '' ''$ '' (replace_text ''$ '' ''$$ '' word))"

definition ninja_escape :: "string \<Rightarrow> string result" where
  "ninja_escape s = (if CHR 0x0A \<in> set s then Inl AssertionError else Inr (replace_text ''$'' ''$$'' s))"

section \<open>Lines\<close>

text \<open>\<open>_count_dollars_before_index\<close>; the first character of the text is never counted.\<close>

fun count_dollars_from :: "string \<Rightarrow> nat \<Rightarrow> nat" where
  "count_dollars_from s 0 = 0"
| "count_dollars_from s (Suc i) = (if s ! Suc i = CHR ''$'' then Suc (count_dollars_from s i) else 0)"

definition count_dollars_before_index :: "string \<Rightarrow> nat \<Rightarrow> nat" where
  "count_dollars_before_index s i = count_dollars_from s (i - 1)"

definition unescaped_space :: "string \<Rightarrow> nat \<Rightarrow> bool" where
  "unescaped_space s i \<longleftrightarrow> s ! i = CHR '' '' \<and> even (count_dollars_before_index s i)"

text \<open>
  The two loops over \<open>rfind\<close> and \<open>find\<close>: the last unescaped space before \<open>e\<close>, and the first one
  from \<open>b\<close> on.
\<close>

fun rightmost_space :: "string \<Rightarrow> nat \<Rightarrow> nat option" where
  "rightmost_space text 0 = None"
| "rightmost_space text (Suc e) = (if unescaped_space text e then Some e else rightmost_space text e)"

function leftmost_space :: "string \<Rightarrow> nat \<Rightarrow> nat option" where
  "leftmost_space text b =
     (if length text \<le> b then None
      else if unescaped_space text b then Some b else leftmost_space text (b + 1))"
  by pat_completeness auto
termination
  by (relation "measure (\<lambda>(text, b). length text - b)") auto

declare leftmost_space.simps [simp del]

text \<open>A bound of \<open>find\<close> and \<open>rfind\<close>: a negative one counts from the end.\<close>

definition text_index :: "string \<Rightarrow> int \<Rightarrow> nat" where
  "text_index text i = nat (if i < 0 then i + int (length text) else i)"

definition break_point :: "int \<Rightarrow> string \<Rightarrow> string \<Rightarrow> nat option" where
  "break_point width leading_space text =
     (let available_space = width - int (length leading_space) - 2
      in case rightmost_space text (min (text_index text available_space) (length text)) of
           Some space \<Rightarrow> Some space
         | None \<Rightarrow> leftmost_space text (text_index text available_space))"

definition indentation :: "nat \<Rightarrow> string" where
  "indentation n = replicate (2 * n) CHR '' ''"

lemma rightmost_space_Some:
  "rightmost_space s e = Some i \<Longrightarrow> i < e \<and> unescaped_space s i"
  by (induction e) (auto split: if_splits)

lemma rightmost_space_None: "rightmost_space s e = None \<Longrightarrow> i < e \<Longrightarrow> \<not> unescaped_space s i"
  by (induction e) (auto simp: less_Suc_eq split: if_splits)

lemma leftmost_space_Some:
  "leftmost_space s b = Some i \<Longrightarrow> b \<le> i \<and> i < length s \<and> unescaped_space s i
     \<and> (\<forall>j. b \<le> j \<longrightarrow> j < i \<longrightarrow> \<not> unescaped_space s j)"
proof (induction s b rule: leftmost_space.induct)
  case (1 s b)
  show ?case
  proof (cases "unescaped_space s b")
    case False
    with 1 have i: "b + 1 \<le> i" "i < length s" "unescaped_space s i"
      "\<forall>j. b + 1 \<le> j \<longrightarrow> j < i \<longrightarrow> \<not> unescaped_space s j"
      by (auto simp: leftmost_space.simps [of s b] split: if_splits)
    moreover from this False have "\<not> unescaped_space s j" if "b \<le> j" "j < i" for j
      using that by (cases "j = b") auto
    ultimately show ?thesis by simp
  qed (use 1 in \<open>auto simp: leftmost_space.simps [of s b] split: if_splits\<close>)
qed

lemma leftmost_space_None:
  "leftmost_space s b = None \<Longrightarrow> b \<le> i \<Longrightarrow> i < length s \<Longrightarrow> \<not> unescaped_space s i"
proof (induction s b rule: leftmost_space.induct)
  case (1 s b)
  have more: "b < length s" and none: "\<not> unescaped_space s b" "leftmost_space s (b + 1) = None"
    using 1 by (auto simp: leftmost_space.simps [of s b] split: if_splits)
  show ?case
  proof (cases "b = i")
    case False
    with 1 more none show ?thesis by simp
  qed (use none in simp)
qed

lemma break_point_Some:
  assumes "break_point width leading text = Some i"
  shows "i < length text \<and> text ! i = CHR '' ''"
  using assms
  by (auto simp: break_point_def unescaped_space_def Let_def split: option.splits
      dest!: rightmost_space_Some leftmost_space_Some)

text \<open>The lines of a text: the indentation, the text, and whether the next line continues it.\<close>

function line_parts :: "int \<Rightarrow> nat \<Rightarrow> string \<Rightarrow> string \<Rightarrow> (string \<times> string \<times> bool) list" where
  "line_parts width indent leading_space text =
     (if int (length leading_space) + int (length text) \<le> width then [(leading_space, text, False)]
      else case break_point width leading_space text of
             None \<Rightarrow> [(leading_space, text, False)]
           | Some space \<Rightarrow>
               (leading_space, take space text, True)
               # line_parts width indent (indentation (indent + 2)) (drop (space + 1) text))"
  by pat_completeness auto
termination
  by (relation "measure (\<lambda>(width, indent, leading_space, text). length text)") (auto dest: break_point_Some)

declare line_parts.simps [simp del]

definition write_part :: "string \<times> string \<times> bool \<Rightarrow> string" where
  "write_part = (\<lambda>(leading_space, text, continued). leading_space @ text @ (if continued then '' $'' else []) @ [CHR 0x0A])"

definition ninja_line :: "int \<Rightarrow> string \<Rightarrow> nat \<Rightarrow> string" where
  "ninja_line width text indent = concat (map write_part (line_parts width indent (indentation indent) text))"

section \<open>Statements\<close>

datatype ninja_arg = NNone | NStr string | NList "string list"

definition arg_list :: "ninja_arg \<Rightarrow> string list" where
  "arg_list input = (case input of NNone \<Rightarrow> [] | NStr s \<Rightarrow> [s] | NList l \<Rightarrow> l)"

definition given :: "ninja_arg \<Rightarrow> bool" where
  "given v = (case v of NNone \<Rightarrow> False | NStr s \<Rightarrow> s \<noteq> [] | NList l \<Rightarrow> l \<noteq> [])"

definition newline :: string where
  "newline = [CHR 0x0A]"

definition write_variable :: "int \<Rightarrow> string \<Rightarrow> ninja_arg \<Rightarrow> nat \<Rightarrow> string" where
  "write_variable width key v indent =
     (case v of
        NNone \<Rightarrow> []
      | NStr s \<Rightarrow> ninja_line width (key @ '' = '' @ s) indent
      | NList l \<Rightarrow> ninja_line width (key @ '' = '' @ join '' '' (filter (\<lambda>s. s \<noteq> []) l)) indent)"

record ninja_rule =
  description :: ninja_arg
  depfile :: ninja_arg
  generator :: bool
  restat :: bool
  rspfile :: ninja_arg
  rspfile_content :: ninja_arg

definition write_rule :: "int \<Rightarrow> string \<Rightarrow> ninja_arg \<Rightarrow> ninja_rule \<Rightarrow> string" where
  "write_rule width name command r =
     ninja_line width (''rule '' @ name) 0
     @ write_variable width ''command'' command 1
     @ (if given (description r) then write_variable width ''description'' (description r) 1 else [])
     @ (if given (depfile r) then write_variable width ''depfile'' (depfile r) 1 else [])
     @ (if generator r then write_variable width ''generator'' (NStr ''1'') 1 else [])
     @ (if restat r then write_variable width ''restat'' (NStr ''1'') 1 else [])
     @ (if given (rspfile r) then write_variable width ''rspfile'' (rspfile r) 1 else [])
     @ (if given (rspfile_content r) then write_variable width ''rspfile_content'' (rspfile_content r) 1 else [])"

definition all_inputs :: "ninja_arg \<Rightarrow> ninja_arg \<Rightarrow> ninja_arg \<Rightarrow> string list" where
  "all_inputs inputs implicit order_only =
     map escape_path (arg_list inputs)
     @ (if given implicit then ''|'' # map escape_path (arg_list implicit) else [])
     @ (if given order_only then ''||'' # map escape_path (arg_list order_only) else [])"

definition build_text :: "string list \<Rightarrow> string \<Rightarrow> string list \<Rightarrow> string" where
  "build_text out_outputs rule inputs =
     ''build '' @ join '' '' out_outputs @ '': '' @ rule @ '' '' @ join '' '' inputs"

text \<open>The outputs and what is written; \<open>variables\<close> are the items of a dictionary or of a list.\<close>

definition write_build ::
  "int \<Rightarrow> ninja_arg \<Rightarrow> string \<Rightarrow> ninja_arg \<Rightarrow> ninja_arg \<Rightarrow> ninja_arg \<Rightarrow> (string \<times> ninja_arg) list
   \<Rightarrow> string list \<times> string" where
  "write_build width outputs rule inputs implicit order_only vars =
     (arg_list outputs,
      ninja_line width
        (build_text (map escape_path (arg_list outputs)) rule (all_inputs inputs implicit order_only)) 0
      @ concat (map (\<lambda>(key, val). write_variable width key val 1) vars))"

definition write_include :: "int \<Rightarrow> string \<Rightarrow> string" where
  "write_include width path = ninja_line width (''include '' @ path) 0"

definition write_subninja :: "int \<Rightarrow> string \<Rightarrow> string" where
  "write_subninja width path = ninja_line width (''subninja '' @ path) 0"

definition write_default :: "int \<Rightarrow> ninja_arg \<Rightarrow> string" where
  "write_default width paths = ninja_line width (''default '' @ join '' '' (arg_list paths)) 0"

section \<open>What a reader of the file sees\<close>

text \<open>
  Ninja's own reading: \<open>$\<close> and the character after it belong together, and a \<open>$\<close> at the end of a
  line joins it with the next one, whose indentation is skipped.
\<close>

function unwrap :: "string \<Rightarrow> string" where
  "unwrap s =
     (case s of
        c # d # rest \<Rightarrow>
          if c \<noteq> CHR ''$'' then c # unwrap (d # rest)
          else if d = CHR 0x0A then unwrap (dropWhile (\<lambda>c. c = CHR '' '') rest)
          else c # d # unwrap rest
      | _ \<Rightarrow> s)"
  by pat_completeness auto
termination
  by (relation "measure length") (auto simp: le_imp_less_Suc le_SucI length_dropWhile_le)

declare unwrap.simps [simp del]

lemma unwrap_simps [simp]:
  "unwrap [] = []"
  "unwrap [c] = [c]"
  "c \<noteq> CHR ''$'' \<Longrightarrow> unwrap (c # s) = c # unwrap s"
  "unwrap (CHR ''$'' # CHR 0x0A # s) = unwrap (dropWhile (\<lambda>c. c = CHR '' '') s)"
  "d \<noteq> CHR 0x0A \<Longrightarrow> unwrap (CHR ''$'' # d # s) = CHR ''$'' # d # unwrap s"
  by (subst unwrap.simps; cases s; simp add: unwrap.simps [of "[]"] unwrap.simps [of "[c]"])+

text \<open>Every \<open>$\<close> of a text has the character that it escapes.\<close>

fun dollars_closed :: "string \<Rightarrow> bool" where
  "dollars_closed [] = True"
| "dollars_closed (c # s) = (if c = CHR ''$'' then s \<noteq> [] \<and> dollars_closed (tl s) else dollars_closed s)"

fun single_spaces :: "string \<Rightarrow> bool" where
  "single_spaces (c # d # s) \<longleftrightarrow> \<not> (c = CHR '' '' \<and> d = CHR '' '') \<and> single_spaces (d # s)"
| "single_spaces _ = True"

lemma single_spaces_append: "single_spaces (a @ b) \<Longrightarrow> single_spaces a \<and> single_spaces b"
  by (induction a rule: single_spaces.induct) (auto, (cases b; simp)+)

lemma single_spaces_at: "single_spaces (a @ CHR '' '' # b) \<Longrightarrow> b = [] \<or> hd b \<noteq> CHR '' ''"
  using single_spaces_append [of a "CHR '' '' # b"] by (cases b) auto

lemma pair_induct [case_names Nil Other Dollar Pair]:
  assumes "P []" "\<And>c s. c \<noteq> CHR ''$'' \<Longrightarrow> P s \<Longrightarrow> P (c # s)" "P [CHR ''$'']"
    "\<And>d s. P s \<Longrightarrow> P (CHR ''$'' # d # s)"
  shows "P s"
proof (induction s rule: length_induct)
  case (1 s)
  then show ?case
  proof (cases s)
    case (Cons c t)
    with 1 assms show ?thesis by (cases "c = CHR ''$''"; cases t) auto
  qed (use assms in simp)
qed

lemma unwrap_end:
  "CHR 0x0A \<notin> set s \<Longrightarrow> dollars_closed s \<Longrightarrow> unwrap (s @ CHR 0x0A # r) = s @ CHR 0x0A # unwrap r"
  by (induction s rule: pair_induct) auto

lemma unwrap_spaces: "unwrap (replicate n CHR '' '' @ s) = replicate n CHR '' '' @ unwrap s"
  by (induction n) auto

lemma unwrap_break:
  "CHR 0x0A \<notin> set a \<Longrightarrow>
   unwrap (a @ '' $'' @ CHR 0x0A # s) = a @ CHR '' '' # unwrap (dropWhile (\<lambda>c. c = CHR '' '') s)"
  by (induction a rule: pair_induct) auto

lemma dollars_closed_rest: "dollars_closed (a @ CHR '' '' # b) \<Longrightarrow> dollars_closed b"
  by (induction a rule: pair_induct) auto

lemma dropWhile_spaces:
  "dropWhile (\<lambda>c. c = CHR '' '') (replicate n CHR '' '' @ s) = dropWhile (\<lambda>c. c = CHR '' '') s"
  by (induction n) auto

lemma line_parts_start:
  assumes "s = [] \<or> hd s \<noteq> CHR '' ''"
  shows "\<exists>body. concat (map write_part (line_parts width indent leading s)) = leading @ body
    \<and> body \<noteq> [] \<and> hd body \<noteq> CHR '' ''"
proof (cases "int (length leading) + int (length s) \<le> width \<or> break_point width leading s = None")
  case True
  then have "line_parts width indent leading s = [(leading, s, False)]"
    by (auto simp: line_parts.simps [of width indent leading s])
  with assms show ?thesis
    by (intro exI [of _ "s @ [CHR 0x0A]"]) (auto simp: write_part_def hd_append)
next
  case False
  then obtain space where space: "break_point width leading s = Some space" by auto
  then have at: "space < length s" "s ! space = CHR '' ''" by (auto dest: break_point_Some)
  with assms obtain c r where "take space s = c # r" "c \<noteq> CHR '' ''" by (cases s; cases space; auto)
  moreover from False space have "line_parts width indent leading s
      = (leading, take space s, True) # line_parts width indent (indentation (indent + 2)) (drop (space + 1) s)"
    by (auto simp: line_parts.simps [of width indent leading s])
  ultimately show ?thesis by (simp add: write_part_def)
qed

lemma unwrap_lines:
  assumes "CHR 0x0A \<notin> set s" "dollars_closed s" "single_spaces s"
  shows "unwrap (concat (map write_part (line_parts width indent (replicate n CHR '' '') s)) @ r)
     = replicate n CHR '' '' @ s @ CHR 0x0A # unwrap r"
  using assms
proof (induction "length s" arbitrary: s n rule: less_induct)
  case less
  let ?leading = "replicate n CHR '' ''"
  show ?case
  proof (cases "int n + int (length s) \<le> width \<or> break_point width ?leading s = None")
    case True
    then have "line_parts width indent ?leading s = [(?leading, s, False)]"
      by (auto simp: line_parts.simps [of width indent ?leading s])
    with less show ?thesis by (simp add: write_part_def unwrap_spaces unwrap_end)
  next
    case False
    then obtain space where space: "break_point width ?leading s = Some space" by auto
    define a b where "a = take space s" and "b = drop (space + 1) s"
    from space have "space < length s" "s ! space = CHR '' ''" by (auto dest: break_point_Some)
    then have t: "s = a @ CHR '' '' # b" using id_take_nth_drop [of space s] by (simp add: a_def b_def)
    let ?next = "concat (map write_part (line_parts width indent (indentation (indent + 2)) b))"
    from less.prems t have b: "CHR 0x0A \<notin> set b" "dollars_closed b" "single_spaces b" "CHR 0x0A \<notin> set a"
      "b = [] \<or> hd b \<noteq> CHR '' ''"
      using dollars_closed_rest [of a b] single_spaces_append [of "a @ '' ''" b] single_spaces_at [of a b] by auto
    from line_parts_start [OF b(5)] obtain body
      where body: "?next = indentation (indent + 2) @ body" "body \<noteq> []" "hd body \<noteq> CHR '' ''" by blast
    from less.hyps [of b "2 * (indent + 2)"] t b
    have "unwrap (?next @ r) = indentation (indent + 2) @ b @ CHR 0x0A # unwrap r"
      by (simp add: indentation_def del: replicate_Suc)
    with body(1) have "unwrap (body @ r) = b @ CHR 0x0A # unwrap r" by (simp add: indentation_def unwrap_spaces)
    moreover from body have "dropWhile (\<lambda>c. c = CHR '' '') (?next @ r) = body @ r"
      by (cases body) (auto simp: indentation_def dropWhile_spaces)
    ultimately have "unwrap (a @ '' $'' @ CHR 0x0A # ?next @ r) = s @ CHR 0x0A # unwrap r"
      using unwrap_break [OF b(4), of "?next @ r"] t by simp
    moreover from False space have
      "line_parts width indent ?leading s
         = (?leading, a, True) # line_parts width indent (indentation (indent + 2)) b"
      by (auto simp: line_parts.simps [of width indent ?leading s] a_def b_def)
    ultimately show ?thesis by (simp add: write_part_def unwrap_spaces)
  qed
qed

lemma unescaped_space_take:
  assumes "i < k" "k \<le> length s"
  shows "unescaped_space (take k s) i = unescaped_space s i"
proof -
  have "count_dollars_from (take k s) j = count_dollars_from s j" if "j < k" for j
    using that assms(2) by (induction j) auto
  with assms show ?thesis by (simp add: unescaped_space_def count_dollars_before_index_def)
qed

text \<open>Where a line that is too long is broken.\<close>

lemma break_point_room:
  assumes "break_point width leading s = Some space" "int (length leading) + 2 \<le> width"
    "width < int (length leading) + int (length s)"
  shows "int (length leading) + int space + 2 \<le> width \<or> (\<forall>i < space. \<not> unescaped_space s i)"
proof -
  let ?room = "nat (width - int (length leading) - 2)"
  from assms(2,3) have room: "text_index s (width - int (length leading) - 2) = ?room" "?room \<le> length s"
    by (auto simp: text_index_def)
  show ?thesis
  proof (cases "rightmost_space s ?room")
    case None
    with assms(1) room have "leftmost_space s ?room = Some space" by (simp add: break_point_def)
    then have "\<forall>j. ?room \<le> j \<longrightarrow> j < space \<longrightarrow> \<not> unescaped_space s j"
      using leftmost_space_Some by blast
    with rightmost_space_None [OF None] show ?thesis by (meson not_le)
  next
    case (Some i)
    with assms(1) room have "i = space" by (simp add: break_point_def)
    with rightmost_space_Some [OF Some] assms(2) show ?thesis by auto
  qed
qed

lemma break_point_None:
  assumes "break_point width leading s = None" "int (length leading) + 2 \<le> width"
    "width < int (length leading) + int (length s)" "i < length s"
  shows "\<not> unescaped_space s i"
proof -
  let ?room = "nat (width - int (length leading) - 2)"
  from assms(2,3) have "text_index s (width - int (length leading) - 2) = ?room" "?room \<le> length s"
    by (auto simp: text_index_def)
  with assms(1) have "rightmost_space s ?room = None" "leftmost_space s ?room = None"
    by (auto simp: break_point_def Let_def split: option.splits)
  with assms(4) show ?thesis
    using rightmost_space_None [of s ?room i] leftmost_space_None [of s ?room i] by (cases "i < ?room") auto
qed

lemma line_parts_room:
  assumes "int (length start) + 2 \<le> width" "2 * int indent + 6 \<le> width"
    "(leading, part, continued) \<in> set (line_parts width indent start s)"
  shows "int (length leading) + int (length part) + (if continued then 2 else 0) \<le> width
     \<or> (\<forall>i < length part. \<not> unescaped_space part i)"
  using assms
proof (induction "length s" arbitrary: s start rule: less_induct)
  case less
  show ?case
  proof (cases "int (length start) + int (length s) \<le> width \<or> break_point width start s = None")
    case True
    then have "line_parts width indent start s = [(start, s, False)]"
      by (auto simp: line_parts.simps [of width indent start s])
    with less.prems True show ?thesis by (auto dest: break_point_None)
  next
    case False
    then obtain space where space: "break_point width start s = Some space" by auto
    then have less_s: "space < length s" by (auto dest: break_point_Some)
    from False space have "line_parts width indent start s
        = (start, take space s, True)
          # line_parts width indent (indentation (indent + 2)) (drop (space + 1) s)"
      by (auto simp: line_parts.simps [of width indent start s])
    with less.prems(3) consider "(leading, part, continued) = (start, take space s, True)"
      | "(leading, part, continued) \<in> set (line_parts width indent (indentation (indent + 2)) (drop (space + 1) s))"
      by auto
    then show ?thesis
    proof cases
      case 1
      with break_point_room [OF space less.prems(1)] False less_s show ?thesis
        by (auto simp: unescaped_space_take)
    next
      case 2
      with less.hyps [of "drop (space + 1) s" "indentation (indent + 2)"] less.prems(2) less_s show ?thesis
        by (simp add: indentation_def)
    qed
  qed
qed

section \<open>Build statements\<close>

text \<open>A reader of a build statement: what is before the first colon, and the words on either side.\<close>

fun cut_colon :: "string \<Rightarrow> (string \<times> string) option" where
  "cut_colon [] = None"
| "cut_colon (c # s) =
     (if c = CHR ''$''
      then (case s of [] \<Rightarrow> None | d # t \<Rightarrow> map_option (\<lambda>(a, b). (c # d # a, b)) (cut_colon t))
      else if c = CHR '':'' then Some ([], s)
      else map_option (\<lambda>(a, b). (c # a, b)) (cut_colon s))"

fun words_of :: "string \<Rightarrow> string \<Rightarrow> string list" where
  "words_of w [] = (if w = [] then [] else [w])"
| "words_of w (c # s) =
     (if c = CHR ''$'' then (case s of [] \<Rightarrow> [w] | d # t \<Rightarrow> words_of (w @ [d]) t)
      else if c = CHR '' '' then (if w = [] then [] else [w]) @ words_of [] s
      else words_of (w @ [c]) s)"

definition read_build :: "string \<Rightarrow> (string list \<times> string \<times> string list) option" where
  "read_build s =
     (let statement = takeWhile (\<lambda>c. c \<noteq> CHR 0x0A) s
      in if \<not> prefix ''build '' statement then None
         else case cut_colon (drop 6 statement) of
                None \<Rightarrow> None
              | Some (a, b) \<Rightarrow>
                  (case words_of [] b of [] \<Rightarrow> None | rule # ins \<Rightarrow> Some (words_of [] a, rule, ins)))"

definition plain_path :: "string \<Rightarrow> bool" where
  "plain_path p \<longleftrightarrow> p \<noteq> [] \<and> CHR ''$'' \<notin> set p \<and> CHR 0x0A \<notin> set p \<and> last p \<noteq> CHR '' ''"

definition tidy :: "string \<Rightarrow> bool" where
  "tidy s \<longleftrightarrow> CHR 0x0A \<notin> set s \<and> dollars_closed s \<and> single_spaces s"

definition path_escaped :: "string \<Rightarrow> string" where
  "path_escaped w = concat (map (\<lambda>c. if c = CHR '' '' \<or> c = CHR '':'' then [CHR ''$'', c] else [c]) w)"

lemma path_escaped_simps [simp]:
  "path_escaped [] = []"
  "path_escaped (c # w) = (if c = CHR '' '' \<or> c = CHR '':'' then [CHR ''$'', c] else [c]) @ path_escaped w"
  by (simp_all add: path_escaped_def)

lemma replace_text_Nil: "replace_text old new [] = []"
  by (simp add: replace_text.simps [of old])

lemma replace_text_Cons:
  "replace_text old new (c # s) =
     (if old \<noteq> [] \<and> prefix old (c # s) then new @ replace_text old new (drop (length old) (c # s))
      else c # replace_text old new s)"
  by (subst replace_text.simps) simp

lemma replace_text_char:
  "replace_text [d] new s = concat (map (\<lambda>c. if c = d then new else [c]) s)"
  by (induction s) (auto simp: replace_text_Nil replace_text_Cons)

lemma replace_text_none: "hd old \<notin> set s \<Longrightarrow> replace_text old new s = s"
  by (induction s) (cases old; auto simp: replace_text_Nil replace_text_Cons)+

lemma escape_path_plain: "CHR ''$'' \<notin> set w \<Longrightarrow> escape_path w = path_escaped w"
  unfolding escape_path_def replace_text_char
  by (simp add: replace_text_none) (induction w; simp)

lemma words_of_escaped: "CHR ''$'' \<notin> set w \<Longrightarrow> words_of u (path_escaped w @ r) = words_of (u @ w) r"
  by (induction w arbitrary: u) auto

lemma cut_colon_escaped:
  "CHR ''$'' \<notin> set w \<Longrightarrow>
   cut_colon (path_escaped w @ r) = map_option (\<lambda>(a, b). (path_escaped w @ a, b)) (cut_colon r)"
  by (induction w; cases "cut_colon r") auto

lemma words_of_join:
  "\<forall>w \<in> set ws. plain_path w \<Longrightarrow> words_of [] (join '' '' (map path_escaped ws)) = ws"
proof (induction ws)
  case (Cons w ws)
  then show ?case
    using words_of_escaped [of w "[]" "[]"] by (simp add: join_Cons words_of_escaped plain_path_def)
qed simp

lemma cut_colon_join:
  "\<forall>w \<in> set ws. plain_path w \<Longrightarrow>
   cut_colon (join '' '' (map path_escaped ws) @ CHR '':'' # r) = Some (join '' '' (map path_escaped ws), r)"
  by (induction ws) (auto simp: join_Cons cut_colon_escaped plain_path_def)

lemma dollars_closed_append: "dollars_closed a \<Longrightarrow> dollars_closed (a @ b) = dollars_closed b"
  by (induction a rule: pair_induct) auto

lemma single_spaces_join:
  "single_spaces (a @ b) \<longleftrightarrow> single_spaces a \<and> single_spaces b
     \<and> \<not> (a \<noteq> [] \<and> b \<noteq> [] \<and> last a = CHR '' '' \<and> hd b = CHR '' '')"
  by (induction a rule: single_spaces.induct) (cases b; auto)+

lemma tidy_append:
  "tidy a \<Longrightarrow> tidy b \<Longrightarrow> a = [] \<or> b = [] \<or> last a \<noteq> CHR '' '' \<or> hd b \<noteq> CHR '' '' \<Longrightarrow> tidy (a @ b)"
  by (auto simp: tidy_def dollars_closed_append single_spaces_join)

lemma path_escaped_edges:
  "w \<noteq> [] \<Longrightarrow> path_escaped w \<noteq> [] \<and> hd (path_escaped w) \<noteq> CHR '' '' \<and> last (path_escaped w) = last w"
  by (induction w) auto

lemma tidy_escaped:
  "CHR ''$'' \<notin> set w \<Longrightarrow> CHR 0x0A \<notin> set w \<Longrightarrow> tidy (path_escaped w)"
proof (induction w)
  case (Cons c w)
  let ?c = "if c = CHR '' '' \<or> c = CHR '':'' then [CHR ''$'', c] else [c]"
  from Cons have "tidy ?c" "tidy (path_escaped w)" by (auto simp: tidy_def)
  moreover have "path_escaped w = [] \<or> hd (path_escaped w) \<noteq> CHR '' ''"
    using path_escaped_edges [of w] by (cases "w = []") auto
  ultimately have "tidy (?c @ path_escaped w)" by (blast intro: tidy_append)
  then show ?case by simp
qed (simp add: tidy_def)

lemma tidy_join:
  "\<forall>w \<in> set ws. plain_path w \<Longrightarrow> ws \<noteq> [] \<Longrightarrow> s = join '' '' (map path_escaped ws) \<Longrightarrow>
   tidy s \<and> s \<noteq> [] \<and> hd s \<noteq> CHR '' '' \<and> last s \<noteq> CHR '' ''"
proof (induction ws arbitrary: s)
  case (Cons w ws)
  let ?w = "path_escaped w" and ?r = "join '' '' (map path_escaped ws)"
  from Cons.prems have w: "tidy ?w" "?w \<noteq> []" "hd ?w \<noteq> CHR '' ''" "last ?w \<noteq> CHR '' ''"
    using path_escaped_edges [of w] by (auto simp: plain_path_def tidy_escaped)
  show ?case
  proof (cases "ws = []")
    case False
    with Cons have r: "tidy ?r" "?r \<noteq> []" "hd ?r \<noteq> CHR '' ''" "last ?r \<noteq> CHR '' ''" by auto
    have "tidy '' ''" by (simp add: tidy_def)
    with r have "tidy ('' '' @ ?r)" by (blast intro: tidy_append)
    with w have "tidy (?w @ '' '' @ ?r)" by (blast intro: tidy_append)
    with w r False Cons.prems show ?thesis by (simp add: join_Cons)
  qed (use w Cons.prems in simp)
qed simp

lemma build_text_tidy:
  assumes "\<forall>w \<in> set (rule # outs @ ins). plain_path w"
  shows "tidy (build_text (map path_escaped outs) (path_escaped rule) (map path_escaped ins))"
proof -
  let ?r = "path_escaped rule" and ?outs = "join '' '' (map path_escaped outs)"
    and ?ins = "join '' '' (map path_escaped ins)"
  have words: "tidy (join '' '' (map path_escaped ws))
      \<and> (join '' '' (map path_escaped ws) = [] \<or> hd (join '' '' (map path_escaped ws)) \<noteq> CHR '' '')"
    if "\<forall>w \<in> set ws. plain_path w" for ws
    using that tidy_join [of ws] by (cases "ws = []") (auto simp: tidy_def)
  have fixed: "tidy '' ''" "tidy '': ''" "tidy ''build ''" by (simp_all add: tidy_def)
  from assms have r: "tidy ?r" "?r \<noteq> []" "hd ?r \<noteq> CHR '' ''" "last ?r \<noteq> CHR '' ''"
    using path_escaped_edges [of rule] by (auto simp: plain_path_def tidy_escaped)
  from assms words [of ins] have "tidy ?ins" "?ins = [] \<or> hd ?ins \<noteq> CHR '' ''" by auto
  with fixed have "tidy ('' '' @ ?ins)" by (blast intro: tidy_append)
  with r have "tidy (?r @ '' '' @ ?ins)" by (blast intro: tidy_append)
  moreover from r have "hd (?r @ '' '' @ ?ins) \<noteq> CHR '' ''" by simp
  ultimately have "tidy ('': '' @ ?r @ '' '' @ ?ins)" using fixed(2) by (blast intro: tidy_append)
  moreover have "hd ('': '' @ ?r @ '' '' @ ?ins) \<noteq> CHR '' ''" by simp
  moreover from assms words [of outs] have "tidy ?outs" by simp
  ultimately have "tidy (?outs @ '': '' @ ?r @ '' '' @ ?ins)" by (blast intro: tidy_append)
  moreover from assms words [of outs] have "hd (?outs @ '': '' @ ?r @ '' '' @ ?ins) \<noteq> CHR '' ''"
    by (auto simp: hd_append)
  ultimately have "tidy (''build '' @ ?outs @ '': '' @ ?r @ '' '' @ ?ins)"
    using fixed(3) by (blast intro: tidy_append)
  then show ?thesis by (simp add: build_text_def)
qed

lemma read_build_text:
  assumes "\<forall>w \<in> set (rule # outs @ ins). plain_path w" "CHR '' '' \<notin> set rule" "CHR '':'' \<notin> set rule"
  shows "read_build (build_text (map path_escaped outs) rule (map path_escaped ins) @ CHR 0x0A # t)
    = Some (outs, rule, ins)"
proof -
  let ?s = "build_text (map path_escaped outs) rule (map path_escaped ins)"
  have rule: "path_escaped rule = rule" using assms(2,3) by (induction rule) auto
  with build_text_tidy [OF assms(1)] have "CHR 0x0A \<notin> set ?s" by (simp add: tidy_def)
  then have line: "takeWhile (\<lambda>c. c \<noteq> CHR 0x0A) (?s @ CHR 0x0A # t) = ?s"
    by (simp add: takeWhile_append takeWhile_eq_all_conv)
  have "cut_colon (drop 6 ?s)
      = Some (join '' '' (map path_escaped outs), '' '' @ rule @ '' '' @ join '' '' (map path_escaped ins))"
    using assms(1) cut_colon_join [of outs] by (simp add: build_text_def)
  moreover have "words_of [] ('' '' @ rule @ '' '' @ join '' '' (map path_escaped ins)) = rule # ins"
    using assms(1) words_of_escaped [of rule "[]"] words_of_join [of ins] rule by (simp add: plain_path_def)
  ultimately show ?thesis
    using line assms(1) words_of_join [of outs] by (simp add: read_build_def) (simp add: build_text_def)
qed

text \<open>
  A ninja file line that the writer wrapped reads, with its continuations joined, as the text on
  one line, if the text has no line break, no \<open>$\<close> with nothing after it and no two spaces in a row
  (the reader drops a second space where the break falls before it).
\<close>

lemma ninja_line_reads_back:
  assumes "CHR 0x0A \<notin> set s" "dollars_closed s" "single_spaces s"
  shows "unwrap (ninja_line width s indent) = indentation indent @ s @ newline"
  using unwrap_lines [OF assms, of width indent "2 * indent" "[]"]
  by (simp add: ninja_line_def indentation_def newline_def)

definition ex_line :: string where
  "ex_line = ''build a$ long$ name$:1: cxx first.cc second.cc''"

lemma ninja_line_wrapped:
  "length (line_parts 20 0 [] ex_line) = 4
     \<and> unwrap (ninja_line 20 ex_line 1) = indentation 1 @ ex_line @ newline"
proof -
  have "length (line_parts 20 0 [] ex_line) = 4" by code_simp
  moreover have "unwrap (ninja_line 20 ex_line 1) = indentation 1 @ ex_line @ newline"
    by (rule ninja_line_reads_back) (simp_all add: ex_line_def)
  ultimately show ?thesis ..
qed

text \<open>
  C31: With a width that holds two more levels of indentation and a continuation mark, every line fits
  the width, or it has no space that is not escaped and cannot be broken before its end.
\<close>

theorem line_parts_fit:
  assumes "2 * int indent + 6 \<le> width"
    "(leading, part, continued) \<in> set (line_parts width indent (indentation indent) s)"
  shows "int (length leading) + int (length part) + (if continued then 2 else 0) \<le> width
     \<or> (\<forall>i < length part. \<not> unescaped_space part i)"
  using line_parts_room [of "indentation indent" width indent leading part continued s] assms
  by (simp add: indentation_def)

theorem line_parts_fit_witness:
  "(''    '', ''a$ long$ name$:1:'', True) \<in> set (line_parts 20 0 (indentation 0) ex_line)
     \<and> \<not> unescaped_space ''a$ long$ name$:1:'' 8"
proof -
  have part: "(''    '', ''a$ long$ name$:1:'', True) \<in> set (line_parts 20 0 (indentation 0) ex_line)"
    by code_simp
  from line_parts_fit [OF _ part] show ?thesis using part by simp
qed

text \<open>
  C11: A build statement, however it is wrapped and whatever variables follow it, reads back as its
  outputs, its rule and its inputs, with the implicit and order-only ones after their bars. The paths
  have no \<open>$\<close>, no line break and no space at the end; the rule's name has no space and no colon.
\<close>

theorem write_build_reads_back:
  assumes "\<forall>w \<in> set (rule # arg_list outputs @ arg_list inputs @ arg_list implicit @ arg_list order_only).
      plain_path w"
    "CHR '' '' \<notin> set rule" "CHR '':'' \<notin> set rule"
  shows "read_build (unwrap (snd (write_build width outputs rule inputs implicit order_only vars)))
    = Some (arg_list outputs, rule,
        arg_list inputs @ (if given implicit then ''|'' # arg_list implicit else [])
        @ (if given order_only then ''||'' # arg_list order_only else []))"
proof -
  define ins where "ins = arg_list inputs @ (if given implicit then ''|'' # arg_list implicit else [])
        @ (if given order_only then ''||'' # arg_list order_only else [])"
  let ?s = "build_text (map path_escaped (arg_list outputs)) rule (map path_escaped ins)"
  have escape: "map escape_path ws = map path_escaped ws" if "\<forall>w \<in> set ws. plain_path w" for ws
    using that by (auto simp: plain_path_def escape_path_plain)
  have words: "\<forall>w \<in> set (rule # arg_list outputs @ ins). plain_path w"
    using assms(1) by (auto simp: plain_path_def ins_def)
  have "all_inputs inputs implicit order_only = map path_escaped ins"
    using assms(1) by (simp add: all_inputs_def ins_def escape)
  moreover have "map escape_path (arg_list outputs) = map path_escaped (arg_list outputs)"
    using assms(1) by (intro escape) simp
  ultimately have written: "snd (write_build width outputs rule inputs implicit order_only vars)
      = ninja_line width ?s 0 @ concat (map (\<lambda>(key, val). write_variable width key val 1) vars)"
    by (simp only: write_build_def snd_conv)
  have "path_escaped rule = rule" using assms(2,3) by (induction rule) auto
  with build_text_tidy [OF words] have "tidy ?s" by simp
  then have "unwrap (ninja_line width ?s 0 @ r) = ?s @ CHR 0x0A # unwrap r" for r
    using unwrap_lines [of ?s width 0 0 r] by (simp add: tidy_def ninja_line_def indentation_def)
  then show ?thesis
    using read_build_text [OF words assms(2,3)] by (simp only: written ins_def)
qed

theorem write_build_witness:
  "read_build (unwrap (snd (write_build 20 (NStr ''out dir/a.o'') ''cxx'' (NList [''c:/a.cc''])
       (NStr ''a.h'') NNone [(''flags'', NStr ''-O2'')])))
     = Some ([''out dir/a.o''], ''cxx'', [''c:/a.cc'', ''|'', ''a.h''])"
  by (subst write_build_reads_back) (simp_all add: arg_list_def given_def plain_path_def)

text \<open>Two cases at the edge: a dollar before a colon, and a dollar that starts the text.\<close>

lemma escape_path_dollar_colon: "cut_colon (escape_path ''a$:b'' @ '': cxx'') = Some (''a$$'', ''b: cxx'')"
  by (simp add: escape_path_def replace_text_char replace_text_Cons replace_text_Nil)

lemma count_dollars_first: "count_dollars_before_index ''$ '' 1 = 0"
  by (simp add: count_dollars_before_index_def)

end
