(* ===== verification/Test_Output.thy ===== *)
theory Test_Output
  imports Py_Prelude "HOL-Library.Word"
begin

text \<open>
  \<open>tools/utils.py\<close> and the part of \<open>tools/test.py\<close> that judges one run of one test: what a process
  left behind (\<open>CommandOutput\<close>), the methods of \<open>TestCase\<close> that decide about failure, and \<open>TestOutput\<close>.

  What \<open>platform.system()\<close> and \<open>platform.machine()\<close> return are arguments. A test case carries the
  methods that its class may override as fields; \<open>base_case\<close> has those of \<open>TestCase\<close> itself.
\<close>

unbundle bit_operations_syntax

section \<open>utils.py\<close>

definition uncomment :: "string \<Rightarrow> string" where
  "uncomment line = strip (takeWhile (\<lambda>c. c \<noteq> CHR ''#'') line)"

text \<open>The lines of the file, as iterating over it yields them.\<close>

definition ReadLinesFrom :: "string list \<Rightarrow> string list" where
  "ReadLinesFrom contents = filter (\<lambda>line. length line \<noteq> 0) (map uncomment contents)"

definition GuessOS :: "string \<Rightarrow> string option" where
  "GuessOS system =
     (if system = ''Linux'' then Some ''linux''
      else if system = ''Darwin'' then Some ''macos''
      else if sublist ''CYGWIN'' system then Some ''cygwin''
      else if system = ''Windows'' \<or> system = ''Microsoft'' then Some ''win32''
      else if system = ''FreeBSD'' then Some ''freebsd''
      else if system = ''OpenBSD'' then Some ''openbsd''
      else if system = ''SunOS'' then Some ''solaris''
      else if system = ''NetBSD'' then Some ''netbsd''
      else None)"

text \<open>The expression \<open>(x|i[3-6])86$\<close>: \<open>$\<close> also matches before a final line break.\<close>

definition x86_match :: "string \<Rightarrow> bool" where
  "x86_match s \<longleftrightarrow>
     (let s = (if s \<noteq> [] \<and> last s = CHR 0x0A then butlast s else s)
      in s \<in> set [''x86'', ''i386'', ''i486'', ''i586'', ''i686''])"

definition GuessArchitecture :: "string \<Rightarrow> string option" where
  "GuessArchitecture machine =
     (let machine = lower machine
      in if prefix ''arm'' machine then Some ''arm''
         else if machine = [] \<or> x86_match machine then Some ''ia32''
         else if machine = ''i86pc'' then Some ''ia32''
         else if machine = ''x86_64'' then Some ''ia32''
         else if machine = ''amd64'' then Some ''ia32''
         else None)"

definition GuessWordsize :: "string \<Rightarrow> string" where
  "GuessWordsize machine = (if sublist ''64'' machine then ''64'' else ''32'')"

definition IsWindows :: "string \<Rightarrow> bool" where
  "IsWindows system \<longleftrightarrow> GuessOS system = Some ''win32''"

lemma ReadLinesFrom_line:
  assumes "line \<in> set (ReadLinesFrom contents)"
  shows "line \<noteq> []" and "CHR ''#'' \<notin> set line" and "\<not> is_space (hd line)" and "\<not> is_space (last line)"
proof -
  from assms obtain l where l: "line = uncomment l" and ne: "line \<noteq> []" by (auto simp: ReadLinesFrom_def)
  let ?t = "dropWhile is_space (takeWhile (\<lambda>c. c \<noteq> CHR ''#'') l)"
  have line: "line = rev (dropWhile is_space (rev ?t))" by (simp add: l uncomment_def strip_def)
  show "line \<noteq> []" by (rule ne)
  show "CHR ''#'' \<notin> set line"
    by (auto simp: line dest!: set_dropWhileD dest: set_takeWhileD)
  have ends: "\<not> is_space (hd (dropWhile is_space s))" if "dropWhile is_space s \<noteq> []" for s
    using that hd_dropWhile [of is_space s] by (auto simp: dropWhile_eq_Nil_conv)
  show "\<not> is_space (last line)" using ne ends [of "rev ?t"] by (simp add: line last_rev)
  have "prefix line ?t"
    unfolding line by (metis dropWhile_eq_drop rev_rev_ident rev_drop take_is_prefix)
  then have "hd line = hd ?t" using ne by (auto simp: prefix_def)
  moreover have "?t \<noteq> []" using ne unfolding line by (metis dropWhile.simps(1) rev.simps(1))
  ultimately show "\<not> is_space (hd line)" using ends by simp
qed

section \<open>Outputs\<close>

record command_output =
  exit_code :: int
  timed_out :: bool
  out_stdout :: string
  out_stderr :: string
  failed_cache :: "bool option"

definition CommandOutput :: "int \<Rightarrow> bool \<Rightarrow> string \<Rightarrow> string \<Rightarrow> command_output" where
  "CommandOutput code t stdout stderr =
     \<lparr>exit_code = code, timed_out = t, out_stdout = stdout, out_stderr = stderr, failed_cache = None\<rparr>"

record test_case =
  case_path :: "string list"
  case_mode :: string
  case_label :: string
  case_outcomes :: "string list"
  is_negative :: bool
  failure_output :: "command_output \<Rightarrow> bool"

definition IsFailureOutput :: "command_output \<Rightarrow> bool" where
  "IsFailureOutput output \<longleftrightarrow> exit_code output \<noteq> 0"

definition base_case :: "string list \<Rightarrow> string \<Rightarrow> test_case" where
  "base_case path mode =
     \<lparr>case_path = path, case_mode = mode, case_label = [], case_outcomes = [],
      is_negative = False, failure_output = IsFailureOutput\<rparr>"

definition DidFail :: "test_case \<Rightarrow> command_output \<Rightarrow> bool \<times> command_output" where
  "DidFail test output =
     (let output = (case failed_cache output of
                      None \<Rightarrow> output\<lparr>failed_cache := Some (failure_output test output)\<rparr>
                    | Some _ \<Rightarrow> output)
      in (the (failed_cache output), output))"

record test_output =
  out_test :: test_case
  out_command :: "string list"
  command_out :: command_output
  store_unexpected :: bool

text \<open>The signal \<open>SIGABRT\<close> has number 6; \<open>system\<close> is what \<open>platform.system()\<close> returns.\<close>

definition SIGABRT :: int where
  "SIGABRT = 6"

definition HasCrashed :: "string \<Rightarrow> test_output \<Rightarrow> bool" where
  "HasCrashed system t =
     (if IsWindows system
      then 0x80000000 AND exit_code (command_out t) \<noteq> 0 \<and> 0x3FFFFF00 AND exit_code (command_out t) = 0
      else if timed_out (command_out t) then False
      else exit_code (command_out t) < 0 \<and> exit_code (command_out t) \<noteq> - SIGABRT)"

definition HasTimedOut :: "test_output \<Rightarrow> bool" where
  "HasTimedOut t = timed_out (command_out t)"

definition HasFailed :: "test_output \<Rightarrow> bool \<times> test_output" where
  "HasFailed t =
     (let (execution_failed, output) = DidFail (out_test t) (command_out t);
          t = t\<lparr>command_out := output\<rparr>
      in (if is_negative (out_test t) then \<not> execution_failed else execution_failed, t))"

text \<open>The outcome of a run, and whether the status files expect it.\<close>

definition run_outcome :: "string \<Rightarrow> test_output \<Rightarrow> string \<times> test_output" where
  "run_outcome system t =
     (if HasCrashed system t then (''crash'', t)
      else if HasTimedOut t then (''timeout'', t)
      else let (failed, t) = HasFailed t in (if failed then ''fail'' else ''pass'', t))"

definition UnexpectedOutput :: "string \<Rightarrow> test_output \<Rightarrow> bool \<times> test_output" where
  "UnexpectedOutput system t =
     (let (outcome, t) = run_outcome system t
      in (outcome \<notin> set (case_outcomes (out_test t)), t))"

definition HasPreciousOutput :: "string \<Rightarrow> test_output \<Rightarrow> bool \<times> test_output" where
  "HasPreciousOutput system t =
     (let (unexpected, t) = UnexpectedOutput system t in (unexpected \<and> store_unexpected t, t))"

section \<open>What they decide\<close>

text \<open>
  The specification: one outcome for each run, from the exit code, the clock and the failure test
  alone.
\<close>

definition verdict :: "string \<Rightarrow> test_case \<Rightarrow> command_output \<Rightarrow> string" where
  "verdict system c out =
     (if HasCrashed system \<lparr>out_test = c, out_command = [], command_out = out, store_unexpected = False\<rparr> then ''crash''
      else if timed_out out then ''timeout''
      else if failure_output c (out\<lparr>failed_cache := None\<rparr>) \<noteq> is_negative c then ''fail''
      else ''pass'')"

definition unexpected_run :: "string \<Rightarrow> test_output \<Rightarrow> bool" where
  "unexpected_run system t \<longleftrightarrow> verdict system (out_test t) (command_out t) \<notin> set (case_outcomes (out_test t))"

text \<open>The cache of \<open>DidFail\<close> is empty or right.\<close>

definition cache_ok :: "test_output \<Rightarrow> bool" where
  "cache_ok t \<longleftrightarrow> failed_cache (command_out t)
     \<in> {None, Some (failure_output (out_test t) (command_out t\<lparr>failed_cache := None\<rparr>))}"

text \<open>Everything but the cache stays.\<close>

definition same_run :: "test_output \<Rightarrow> test_output \<Rightarrow> bool" where
  "same_run t t' \<longleftrightarrow> t'\<lparr>command_out := command_out t\<rparr> = t
     \<and> command_out t'\<lparr>failed_cache := None\<rparr> = command_out t\<lparr>failed_cache := None\<rparr>"

lemma cache_None: "failed_cache out = None \<Longrightarrow> out\<lparr>failed_cache := None\<rparr> = out"
  by (cases out) simp

lemma DidFail_cached:
  assumes "cache_ok t"
  shows "fst (DidFail (out_test t) (command_out t)) = failure_output (out_test t) (command_out t\<lparr>failed_cache := None\<rparr>)"
    and "snd (DidFail (out_test t) (command_out t)) =
      command_out t\<lparr>failed_cache := Some (failure_output (out_test t) (command_out t\<lparr>failed_cache := None\<rparr>))\<rparr>"
proof -
  have u: "out = out\<lparr>failed_cache := Some b\<rparr>" if "failed_cache out = Some b" for out :: command_output and b
    using that by (cases out) simp
  show "fst (DidFail (out_test t) (command_out t)) = failure_output (out_test t) (command_out t\<lparr>failed_cache := None\<rparr>)"
    using assms by (auto simp: DidFail_def cache_ok_def cache_None Let_def)
  show "snd (DidFail (out_test t) (command_out t)) =
      command_out t\<lparr>failed_cache := Some (failure_output (out_test t) (command_out t\<lparr>failed_cache := None\<rparr>))\<rparr>"
    using assms u [of "command_out t"] by (auto simp: DidFail_def cache_ok_def cache_None Let_def)
qed

lemma same_runD:
  assumes "same_run t t'"
  shows "out_test t' = out_test t" "exit_code (command_out t') = exit_code (command_out t)"
    "timed_out (command_out t') = timed_out (command_out t)" "store_unexpected t' = store_unexpected t"
    "HasCrashed system t' = HasCrashed system t" "verdict system (out_test t) (command_out t') = verdict system (out_test t) (command_out t)"
  using assms by (cases t; cases t'; cases "command_out t"; cases "command_out t'";
      simp add: same_run_def HasCrashed_def verdict_def)+

lemma run_outcome_verdict:
  assumes "cache_ok t"
  shows "fst (run_outcome system t) = verdict system (out_test t) (command_out t)"
    and "same_run t (snd (run_outcome system t))" and "cache_ok (snd (run_outcome system t))"
proof -
  have c: "HasCrashed system \<lparr>out_test = out_test t, out_command = [], command_out = command_out t, store_unexpected = False\<rparr>
    = HasCrashed system t" by (simp add: HasCrashed_def)
  show "fst (run_outcome system t) = verdict system (out_test t) (command_out t)"
    by (auto simp: run_outcome_def HasFailed_def HasTimedOut_def verdict_def c DidFail_cached [OF assms] case_prod_beta Let_def)
  show "same_run t (snd (run_outcome system t))"
    by (auto simp: run_outcome_def HasFailed_def same_run_def DidFail_cached [OF assms] case_prod_beta Let_def)
  show "cache_ok (snd (run_outcome system t))"
    using assms by (auto simp: run_outcome_def HasFailed_def DidFail_cached [OF assms] case_prod_beta Let_def)
      (auto simp: cache_ok_def)
qed

lemma UnexpectedOutput_run:
  assumes "cache_ok t"
  shows "fst (UnexpectedOutput system t) = unexpected_run system t"
    and "same_run t (snd (UnexpectedOutput system t))" and "cache_ok (snd (UnexpectedOutput system t))"
  using run_outcome_verdict [OF assms, of system] same_runD(1) [OF run_outcome_verdict(2) [OF assms], of system]
  by (simp_all add: UnexpectedOutput_def unexpected_run_def case_prod_beta Let_def)

lemma unexpected_same: "same_run t t' \<Longrightarrow> unexpected_run system t' = unexpected_run system t"
  using same_runD(1) same_runD(6) [where system = system] by (simp add: unexpected_run_def)

text \<open>
  A run has one verdict, however often and in whatever order the indicators ask: crashed before
  timed out before failed, a negative test failing when it should not, and \<open>UnexpectedOutput\<close> says
  whether the verdict is among the expected outcomes; asking changes the cache only, and a later
  question has the same answer.
\<close>

theorem UnexpectedOutput_verdict:
  assumes "cache_ok t" and "UnexpectedOutput system t = (b, t')"
  shows "b = (verdict system (out_test t) (command_out t) \<notin> set (case_outcomes (out_test t)))
    \<and> same_run t t' \<and> UnexpectedOutput system t' = (b, t')
    \<and> HasPreciousOutput system t' = (b \<and> store_unexpected t, t')
    \<and> HasCrashed system t' = HasCrashed system t"
proof -
  note u = UnexpectedOutput_run [OF assms(1), of system]
  have b: "b = unexpected_run system t" and s: "same_run t t'" and c: "cache_ok t'" using u assms(2) by simp_all
  have fixed: "snd (run_outcome system t') = t'"
  proof (cases "HasCrashed system t \<or> timed_out (command_out t)")
    case True
    then show ?thesis using same_runD [OF s] by (auto simp: run_outcome_def HasTimedOut_def)
  next
    case False
    then have "t' = t\<lparr>command_out := snd (DidFail (out_test t) (command_out t))\<rparr>"
      using assms(2) by (auto simp: UnexpectedOutput_def run_outcome_def HasTimedOut_def HasFailed_def case_prod_beta Let_def)
    then have "failed_cache (command_out t') \<noteq> None" using DidFail_cached [OF assms(1)] by simp
    then show ?thesis by (auto simp: run_outcome_def HasFailed_def DidFail_def case_prod_beta Let_def)
  qed
  have again: "UnexpectedOutput system t' = (b, t')"
    using UnexpectedOutput_run(1) [OF c, of system] fixed b unexpected_same [OF s]
    by (simp add: UnexpectedOutput_def case_prod_beta Let_def)
  then show ?thesis
    using b s same_runD [OF s] by (simp add: unexpected_run_def HasPreciousOutput_def)
qed

definition ex_output :: test_output where
  "ex_output = \<lparr>out_test = (base_case [''simple'', ''t''] ''release'')\<lparr>case_outcomes := [''pass'']\<rparr>,
     out_command = [''node''], command_out = CommandOutput (- 11) False [] [], store_unexpected = True\<rparr>"

theorem UnexpectedOutput_witness:
  "fst (UnexpectedOutput ''Linux'' ex_output)
   \<and> verdict ''Linux'' (out_test ex_output) (command_out ex_output) = ''crash''
   \<and> same_run ex_output (snd (UnexpectedOutput ''Linux'' ex_output))"
proof -
  have "cache_ok ex_output" by (simp add: cache_ok_def ex_output_def CommandOutput_def)
  moreover have v: "verdict ''Linux'' (out_test ex_output) (command_out ex_output) = ''crash''" by code_simp
  moreover have "case_outcomes (out_test ex_output) = [''pass'']" by (simp add: ex_output_def)
  ultimately show ?thesis
    using UnexpectedOutput_verdict [of ex_output "''Linux''", OF _ surjective_pairing] by simp
qed

end
