(* ===== verification/Test_Process.thy ===== *)
theory Test_Process
  imports Test_Output Complex_Main
begin

text \<open>
  \<open>tools/test.py\<close>: starting a process and waiting for it under a time limit (\<open>RunProcess\<close>, \<open>Execute\<close>,
  \<open>TestCase.Run\<close>), and \<open>Context\<close>.

  The world is a record of what the calls of the operating system return: the clock at each reading,
  the answer to each \<open>poll\<close>, and the exit code \<open>wait\<close> reports after the process has been killed. Times
  are rational numbers. What \<open>RunProcess\<close> does to the world is the list of its calls.
\<close>

section \<open>Context\<close>

record test_context =
  workspace :: string
  buildspace :: string
  verbose :: bool
  vm_root :: string
  time_limit :: int
  processor :: "string list \<Rightarrow> string list"
  suppress_dialogs :: bool
  store_unexpected_output :: bool

definition FLAGS :: "(string \<times> string list) list" where
  "FLAGS = [(''debug'', [''--enable-slow-asserts'', ''--debug-code'', ''--verify-heap'']), (''release'', [])]"

definition TIMEOUT_SCALEFACTOR :: "(string \<times> int) list" where
  "TIMEOUT_SCALEFACTOR = [(''debug'', 4), (''release'', 1)]"

text \<open>
  \<open>out_dir\<close> tells whether the directory \<open>out\<close> exists; \<open>abspath\<close> is \<open>os.path.abspath\<close>.
\<close>

definition GetVm :: "string \<Rightarrow> bool \<Rightarrow> (string \<Rightarrow> string) \<Rightarrow> string \<Rightarrow> string" where
  "GetVm system out_dir abspath mode =
     (let name = (if mode = ''debug'' then ''out/Debug/node'' else ''out/Release/node'')
      in if IsWindows system
         then if \<not> out_dir
              then if mode = ''debug'' then abspath ''Debug/node.exe'' else abspath ''Release/node.exe''
              else abspath (name @ ''.exe'')
         else name)"

definition GetVmFlags :: "string list \<Rightarrow> string \<Rightarrow> string list result" where
  "GetVmFlags variant_flags mode = rbind (dict_read FLAGS mode) (\<lambda>flags. Inr (variant_flags @ flags))"

definition GetVmCommand :: "string \<Rightarrow> bool \<Rightarrow> (string \<Rightarrow> string) \<Rightarrow> string list \<Rightarrow> string \<Rightarrow> string list result" where
  "GetVmCommand system out_dir abspath variant_flags mode =
     rbind (GetVmFlags variant_flags mode) (\<lambda>flags. Inr (GetVm system out_dir abspath mode # flags))"

definition GetTimeout :: "test_context \<Rightarrow> string \<Rightarrow> int result" where
  "GetTimeout ctx mode = rbind (dict_read TIMEOUT_SCALEFACTOR mode) (\<lambda>f. Inr (time_limit ctx * f))"

section \<open>RunProcess\<close>

definition MAX_SLEEP_TIME :: rat where "MAX_SLEEP_TIME = 1 / 10"
definition INITIAL_SLEEP_TIME :: rat where "INITIAL_SLEEP_TIME = 1 / 10000"
definition SLEEP_TIME_FACTOR :: rat where "SLEEP_TIME_FACTOR = 5 / 4"

definition SEM_INVALID_VALUE :: int where "SEM_INVALID_VALUE = - 1"
definition SEM_NOGPFAULTERRORBOX :: int where "SEM_NOGPFAULTERRORBOX = 2"

record world =
  clock :: "nat \<Rightarrow> rat"
  poll :: "nat \<Rightarrow> int option"
  wait_code :: int
  error_mode :: "int option" \<comment> \<open>of Windows; \<open>None\<close> where \<open>ctypes\<close> cannot be imported\<close>

datatype call =
    Print "string list"
  | SetErrorMode int
  | Popen bool "string list" \<comment> \<open>\<open>shell\<close> and the command\<close>
  | Kill
  | Wait
  | Poll
  | Sleep rat

definition Win32SetErrorMode :: "int \<Rightarrow> int option \<Rightarrow> int \<times> int option \<times> call list" where
  "Win32SetErrorMode mode current =
     (case current of
        None \<Rightarrow> (SEM_INVALID_VALUE, None, [])
      | Some old \<Rightarrow> (old, Some mode, [SetErrorMode mode]))"

definition next_sleep :: "rat \<Rightarrow> rat" where
  "next_sleep sleep_time =
     (if sleep_time * SLEEP_TIME_FACTOR > MAX_SLEEP_TIME then MAX_SLEEP_TIME else sleep_time * SLEEP_TIME_FACTOR)"

definition past :: "world \<Rightarrow> rat option \<Rightarrow> nat \<Rightarrow> bool" where
  "past w end_time i \<longleftrightarrow> (case end_time of None \<Rightarrow> False | Some e \<Rightarrow> e \<le> clock w (Suc i))"

text \<open>
  The loop in its \<open>i\<close>-th iteration. The clock was read once before it if there is a limit, so it
  reads the clock for the \<open>i + 1\<close>-st time; without an answer of \<open>poll\<close> and without a limit it does
  not end.
\<close>

partial_function (option) wait_loop ::
  "world \<Rightarrow> rat option \<Rightarrow> nat \<Rightarrow> rat \<Rightarrow> call list \<Rightarrow> (int \<times> bool \<times> call list) option"
where
  "wait_loop w end_time i sleep_time calls =
     (if past w end_time i
      then Some (wait_code w, True, calls @ [Kill, Wait])
      else case poll w i of
             Some code \<Rightarrow> Some (code, False, calls @ [Poll, Sleep sleep_time])
           | None \<Rightarrow> wait_loop w end_time (Suc i) (next_sleep sleep_time) (calls @ [Poll, Sleep sleep_time]))"

declare wait_loop.simps [code]

text \<open>The calls on Windows before and after the process has been started.\<close>

definition suppress_errors :: "int option \<Rightarrow> int \<times> int option \<times> call list" where
  "suppress_errors mode =
     (let (prev, mode, c1) = Win32SetErrorMode SEM_NOGPFAULTERRORBOX mode;
          (_, mode, c2) = Win32SetErrorMode (or SEM_NOGPFAULTERRORBOX prev) mode
      in (prev, mode, c1 @ c2))"

definition start_process :: "string \<Rightarrow> test_context \<Rightarrow> int option \<Rightarrow> string list \<Rightarrow> int option \<times> call list" where
  "start_process system ctx mode args =
     (let printed = (if verbose ctx then [Print (''#'' # args)] else []);
          suppress = IsWindows system \<and> suppress_dialogs ctx;
          (prev, mode, before) = (if suppress then suppress_errors mode else (SEM_INVALID_VALUE, mode, []));
          start = [Popen (IsWindows system) args];
          (mode, after) = (if suppress \<and> prev \<noteq> SEM_INVALID_VALUE then snd (Win32SetErrorMode prev mode)
                           else (mode, []))
      in (mode, printed @ before @ start @ after))"

definition RunProcess ::
  "string \<Rightarrow> test_context \<Rightarrow> world \<Rightarrow> rat option \<Rightarrow> string list \<Rightarrow> (int \<times> bool \<times> int option \<times> call list) option"
where
  "RunProcess system ctx w timeout args =
     (let (mode, calls) = start_process system ctx (error_mode w) args;
          end_time = map_option (\<lambda>t. clock w 0 + t) timeout
      in map_option (\<lambda>(code, late, calls). (code, late, mode, calls))
           (wait_loop w end_time 0 INITIAL_SLEEP_TIME calls))"

text \<open>
  \<open>Execute\<close> reads the two temporary files that the process wrote; \<open>ExecuteNoCapture\<close> has no limit
  unless it is given one, and drops the flag that tells of it.
\<close>

definition Execute ::
  "string \<Rightarrow> world \<Rightarrow> string \<times> string \<Rightarrow> string list \<Rightarrow> test_context \<Rightarrow> rat option \<Rightarrow> command_output option"
where
  "Execute system w files args ctx timeout =
     map_option (\<lambda>(code, late, _). CommandOutput code late (fst files) (snd files))
       (RunProcess system ctx w timeout args)"

definition ExecuteNoCapture :: "string \<Rightarrow> world \<Rightarrow> string list \<Rightarrow> test_context \<Rightarrow> rat option \<Rightarrow> command_output option" where
  "ExecuteNoCapture system w args ctx timeout =
     map_option (\<lambda>(code, _). CommandOutput code False [] []) (RunProcess system ctx w timeout args)"

definition RunCommand ::
  "string \<Rightarrow> world \<Rightarrow> string \<times> string \<Rightarrow> test_context \<Rightarrow> test_case \<Rightarrow> string list \<Rightarrow> test_output option result"
where
  "RunCommand system w files ctx test command =
     rbind (GetTimeout ctx (case_mode test)) (\<lambda>limit.
     Inr (map_option (\<lambda>output.
       \<lparr>out_test = test, out_command = processor ctx command, command_out = output,
        store_unexpected = store_unexpected_output ctx\<rparr>)
       (Execute system w files (processor ctx command) ctx (Some (rat_of_int limit)))))"

definition BuildRequirements ::
  "string \<Rightarrow> world \<Rightarrow> test_context \<Rightarrow> string list \<Rightarrow> string list \<Rightarrow> string list \<Rightarrow> bool option"
where
  "BuildRequirements system w ctx requirements mode scons_flags =
     map_option (\<lambda>output. exit_code output = 0)
       (ExecuteNoCapture system w
         ([''scons'', ''-Y'', workspace ctx, ''mode='' @ join '','' mode] @ requirements @ scons_flags)
         ctx None)"

section \<open>How the wait ends\<close>

definition stops :: "world \<Rightarrow> rat option \<Rightarrow> nat \<Rightarrow> bool" where
  "stops w end_time i \<longleftrightarrow> past w end_time i \<or> poll w i \<noteq> None"

definition sleep_at :: "nat \<Rightarrow> rat \<Rightarrow> rat" where
  "sleep_at i s = (next_sleep ^^ i) s"

definition polled :: "nat \<Rightarrow> rat \<Rightarrow> call list" where
  "polled k s = concat (map (\<lambda>j. [Poll, Sleep (sleep_at j s)]) [0..<k])"

definition wait_result :: "world \<Rightarrow> rat option \<Rightarrow> nat \<Rightarrow> int \<times> bool" where
  "wait_result w end_time k =
     (if past w end_time k then (wait_code w, True) else (the (poll w k), False))"

lemma polled_Suc: "polled (Suc k) s = [Poll, Sleep s] @ polled k (next_sleep s)"
proof -
  have "[0..<Suc k] = 0 # map Suc [0..<k]" by (simp add: upt_conv_Cons map_Suc_upt del: upt_Suc)
  then show ?thesis by (simp add: polled_def sleep_at_def comp_def funpow_swap1 del: upt_Suc)
qed

lemma wait_loop_stops:
  assumes "\<forall>j < k. \<not> stops w e (i + j)" and "stops w e (i + k)"
  shows "wait_loop w e i s calls =
    (case wait_result w e (i + k) of (code, late) \<Rightarrow>
       Some (code, late, calls @ polled k s @ (if late then [Kill, Wait] else [Poll, Sleep (sleep_at k s)])))"
  using assms
proof (induction k arbitrary: i s calls)
  case 0
  then show ?case
    by (subst wait_loop.simps) (auto simp: stops_def wait_result_def polled_def sleep_at_def)
next
  case (Suc k)
  have first: "\<not> past w e i" "poll w i = None" using Suc.prems(1) by (auto simp: stops_def)
  have "\<forall>j < k. \<not> stops w e (Suc i + j)" "stops w e (Suc i + k)" using Suc.prems by auto
  from Suc.IH [OF this] first show ?case
    by (subst wait_loop.simps) (auto simp: polled_Suc sleep_at_def funpow_swap1 split: prod.splits)
qed

lemma wait_loop_Some: "wait_loop w e i s calls = Some r \<Longrightarrow> \<exists>k. stops w e (i + k)"
proof (induction rule: wait_loop.raw_induct [rotated 1, consumes 1, case_names Loop])
  case (Loop f w e i s calls r)
  show ?case
  proof (cases "stops w e i")
    case True
    then show ?thesis by (intro exI [of _ 0]) simp
  next
    case False
    with Loop(2) have "f w e (Suc i) (next_sleep s) (calls @ [Poll, Sleep s]) = Some r" by (simp add: stops_def)
    from Loop(1) [OF this] obtain k where "stops w e (Suc i + k)" ..
    then show ?thesis by (intro exI [of _ "Suc k"]) simp
  qed
qed

lemma polled_calls:
  "Kill \<notin> set (polled k s)" "length (filter (\<lambda>c. c = Poll) (polled k s)) = k"
  by (induction k arbitrary: s) (simp_all add: polled_Suc, simp_all add: polled_def)

text \<open>What comes before the loop.\<close>

lemma start_calls: "filter (\<lambda>c. c = Poll) (snd (start_process system ctx mode args)) = []"
  "Kill \<notin> set (snd (start_process system ctx mode args))"
  by (cases mode; simp add: start_process_def suppress_errors_def Win32SetErrorMode_def Let_def)+

lemma start_mode:
  "mode \<noteq> Some SEM_INVALID_VALUE \<Longrightarrow> fst (start_process system ctx mode args) = mode"
  by (cases mode) (simp_all add: start_process_def suppress_errors_def Win32SetErrorMode_def SEM_INVALID_VALUE_def Let_def)

lemma RunProcess_stops:
  fixes w :: world and timeout :: "rat option"
  defines "e \<equiv> map_option (\<lambda>t. clock w 0 + t) timeout"
  assumes "stops w e k" and "\<forall>j < k. \<not> stops w e j"
  shows "RunProcess system ctx w timeout args =
    (case wait_result w e k of (code, late) \<Rightarrow>
       Some (code, late, fst (start_process system ctx (error_mode w) args),
         snd (start_process system ctx (error_mode w) args) @ polled k INITIAL_SLEEP_TIME
         @ (if late then [Kill, Wait] else [Poll, Sleep (sleep_at k INITIAL_SLEEP_TIME)])))"
  using wait_loop_stops [of k w e 0 INITIAL_SLEEP_TIME] assms(2,3)
  by (simp add: RunProcess_def e_def case_prod_beta Let_def)

text \<open>
  Waiting ends exactly if the process ends or the limit passes, and then at the first moment at
  which one of the two is seen: a process that has not answered when the limit is seen to have passed
  is killed, waited for and reported as timed out, and any other keeps its own exit code. The limit
  is looked at before the process is asked, so a process that ended in the last pause counts as late.
\<close>

theorem RunProcess_first:
  fixes w :: world and timeout :: "rat option"
  defines "e \<equiv> map_option (\<lambda>t. clock w 0 + t) timeout"
  shows "case RunProcess system ctx w timeout args of
      None \<Rightarrow> \<forall>k. \<not> stops w e k
    | Some (code, late, _, calls) \<Rightarrow> \<exists>k. stops w e k \<and> (\<forall>j < k. \<not> stops w e j)
        \<and> (code, late) = wait_result w e k
        \<and> (late \<longleftrightarrow> Kill \<in> set calls) \<and> length (filter (\<lambda>c. c = Poll) calls) = (if late then k else Suc k)"
proof (cases "\<exists>k. stops w e k")
  case True
  then obtain k where k: "stops w e k" "\<forall>j < k. \<not> stops w e j" by (meson exists_least_iff)
  obtain code late where r: "wait_result w e k = (code, late)" by fastforce
  show ?thesis
    unfolding RunProcess_stops [OF k [unfolded e_def], folded e_def] r
    using k r by (auto simp: polled_calls start_calls wait_result_def)
next
  case False
  then have "RunProcess system ctx w timeout args = None"
    using wait_loop_Some [of w e 0] by (cases "RunProcess system ctx w timeout args") (auto simp: RunProcess_def e_def case_prod_beta)
  with False show ?thesis by simp
qed

definition ex_context :: test_context where
  "ex_context = \<lparr>workspace = ''/w'', buildspace = ''/w'', verbose = False, vm_root = ''/w/shell'', time_limit = 60,
     processor = (\<lambda>args. args), suppress_dialogs = True, store_unexpected_output = True\<rparr>"


text \<open>A process that ends before the second question.\<close>

definition ex_quick :: world where
  "ex_quick = \<lparr>clock = (\<lambda>i. rat_of_nat i / 10), poll = (\<lambda>i. if i = 0 then None else Some 3), wait_code = - 15,
     error_mode = None\<rparr>"

theorem RunProcess_first_witness:
  "\<exists>mode calls. RunProcess ''Linux'' ex_context ex_quick (Some 60) [''node''] = Some (3, False, mode, calls)
    \<and> length (filter (\<lambda>c. c = Poll) calls) = 2"
proof -
  let ?e = "map_option (\<lambda>t. clock ex_quick 0 + t) (Some 60)"
  have s: "\<not> stops ex_quick ?e 0" "stops ex_quick ?e 1" "\<not> past ex_quick ?e 1"
    by (simp_all add: stops_def past_def ex_quick_def)
  note first = RunProcess_first [where system = "''Linux''" and ctx = ex_context and w = ex_quick
      and timeout = "Some 60" and args = "[''node'']"]
  show ?thesis
  proof (cases "RunProcess ''Linux'' ex_context ex_quick (Some 60) [''node'']")
    case None
    with first s(2) show ?thesis by simp
  next
    case (Some r)
    obtain code late mode calls where r: "r = (code, late, mode, calls)" by (cases r)
    with first Some obtain k where k: "stops ex_quick ?e k" "\<forall>j < k. \<not> stops ex_quick ?e j"
      "(code, late) = wait_result ex_quick ?e k" "length (filter (\<lambda>c. c = Poll) calls) = (if late then k else Suc k)"
      by auto
    have "k = 1" using k(1,2) s(1,2) by (metis less_one linorder_neqE_nat)
    with k(3,4) s(3) r Some show ?thesis by (simp add: wait_result_def) (simp add: ex_quick_def)
  qed
qed

section \<open>The limit\<close>












end
