(* ===== verification/Test_Progress.thy ===== *)
theory Test_Progress
  imports Test_Process Py_Int "HOL-Library.Multiset"
begin

text \<open>
  \<open>tools/test.py\<close>: \<open>ProgressIndicator\<close>, the queue of test cases that several threads work through.

  The threads are a list of program counters and a step moves one of them. What happens between
  taking and releasing the lock is one step, since all shared state is only touched there; a thread
  that leaves such a part by an exception keeps the lock for ever. What a test case does when it is
  run is the parameter \<open>runs\<close>; the indicator's callbacks may raise, as the parameter \<open>raises\<close> says.
\<close>

section \<open>State and steps\<close>

datatype outcome_event = Finishes test_output | RaisesIOError | RaisesOther

datatype event = AboutToRun test_case | HasRun test_output

text \<open>Where a thread is in \<open>RunSingle\<close>.\<close>

datatype pc =
    AtLoop \<comment> \<open>before \<open>while not self.terminate\<close>\<close>
  | AtGet \<comment> \<open>before \<open>get_nowait\<close>\<close>
  | AtBegin test_case \<comment> \<open>before the first critical section\<close>
  | AtRun test_case
  | AtCheck test_output \<comment> \<open>before the second test of \<open>terminate\<close>\<close>
  | AtReport test_output \<comment> \<open>before the second critical section\<close>
  | Returned
  | Died

record progress =
  queue :: "test_case list"
  succeeded :: int
  remaining :: int
  total :: int
  p_failed :: "test_output list"
  crashed :: int
  terminate :: bool
  locked :: bool
  threads :: "pc list"
  p_log :: "event list"

definition ProgressIndicator :: "test_case list \<Rightarrow> nat \<Rightarrow> progress" where
  "ProgressIndicator cases tasks =
     \<lparr>queue = cases, succeeded = 0, remaining = int (length cases), total = int (length cases), p_failed = [],
      crashed = 0, terminate = False, locked = False, threads = replicate (max 1 tasks) AtLoop, p_log = []\<rparr>"

text \<open>The second critical section.\<close>

definition count_output :: "string \<Rightarrow> test_output \<Rightarrow> progress \<Rightarrow> progress" where
  "count_output system t p =
     (let (unexpected, t) = UnexpectedOutput system t;
          p = (if unexpected
               then let p = p\<lparr>p_failed := p_failed p @ [t]\<rparr>
                    in if HasCrashed system t then p\<lparr>crashed := crashed p + 1\<rparr> else p
               else p\<lparr>succeeded := succeeded p + 1\<rparr>)
      in p\<lparr>remaining := remaining p - 1, p_log := p_log p @ [HasRun t]\<rparr>)"

definition set_pc :: "nat \<Rightarrow> pc \<Rightarrow> progress \<Rightarrow> progress" where
  "set_pc i c p = p\<lparr>threads := (threads p)[i := c]\<rparr>"

text \<open>
  A thread ends with an exception. Thread 0 is the main thread, whose handler sets \<open>terminate\<close> and
  raises again; in any other thread the exception is lost.
\<close>

definition die :: "nat \<Rightarrow> progress \<Rightarrow> progress" where
  "die i p = (let p = set_pc i Died p in if i = 0 then p\<lparr>terminate := True\<rparr> else p)"

inductive run_step ::
  "string \<Rightarrow> (test_case \<Rightarrow> outcome_event \<Rightarrow> bool) \<Rightarrow> (event \<Rightarrow> bool) \<Rightarrow> progress \<Rightarrow> progress \<Rightarrow> bool"
  for system runs raises
where
  Loop: "i < length (threads p) \<Longrightarrow> threads p ! i = AtLoop \<Longrightarrow>
    run_step system runs raises p (set_pc i (if terminate p then Returned else AtGet) p)"
| Empty: "i < length (threads p) \<Longrightarrow> threads p ! i = AtGet \<Longrightarrow> queue p = [] \<Longrightarrow>
    run_step system runs raises p (set_pc i Returned p)"
| Get: "i < length (threads p) \<Longrightarrow> threads p ! i = AtGet \<Longrightarrow> queue p = c # cs \<Longrightarrow>
    run_step system runs raises p (set_pc i (AtBegin c) p\<lparr>queue := cs\<rparr>)"
| Begin: "i < length (threads p) \<Longrightarrow> threads p ! i = AtBegin c \<Longrightarrow> \<not> locked p \<Longrightarrow> \<not> raises (AboutToRun c) \<Longrightarrow>
    run_step system runs raises p (set_pc i (AtRun c) p\<lparr>p_log := p_log p @ [AboutToRun c]\<rparr>)"
| BeginRaises: "i < length (threads p) \<Longrightarrow> threads p ! i = AtBegin c \<Longrightarrow> \<not> locked p \<Longrightarrow> raises (AboutToRun c) \<Longrightarrow>
    run_step system runs raises p (die i p\<lparr>locked := True\<rparr>)"
| Run: "i < length (threads p) \<Longrightarrow> threads p ! i = AtRun c \<Longrightarrow> runs c (Finishes t) \<Longrightarrow>
    run_step system runs raises p (set_pc i (AtCheck t) p)"
| RunIOError: "i < length (threads p) \<Longrightarrow> threads p ! i = AtRun c \<Longrightarrow> runs c RaisesIOError \<Longrightarrow>
    run_step system runs raises p (if terminate p then set_pc i Returned p else die i p)"
| RunRaises: "i < length (threads p) \<Longrightarrow> threads p ! i = AtRun c \<Longrightarrow> runs c RaisesOther \<Longrightarrow>
    run_step system runs raises p (die i p)"
| Check: "i < length (threads p) \<Longrightarrow> threads p ! i = AtCheck t \<Longrightarrow>
    run_step system runs raises p (set_pc i (if terminate p then Returned else AtReport t) p)"
| Report: "i < length (threads p) \<Longrightarrow> threads p ! i = AtReport t \<Longrightarrow> \<not> locked p \<Longrightarrow> \<not> raises (HasRun t) \<Longrightarrow>
    run_step system runs raises p (set_pc i AtLoop (count_output system t p))"
| ReportRaises: "i < length (threads p) \<Longrightarrow> threads p ! i = AtReport t \<Longrightarrow> \<not> locked p \<Longrightarrow> raises (HasRun t) \<Longrightarrow>
    run_step system runs raises p (die i (count_output system t p)\<lparr>locked := True\<rparr>)"

text \<open>
  The verdict of \<open>Run\<close>, once every thread has been joined: \<open>None\<close> if the main thread died of an
  exception, which goes on to the caller.
\<close>

fun has_returned :: "pc \<Rightarrow> bool" where
  "has_returned Returned = True"
| "has_returned _ = False"

fun has_died :: "pc \<Rightarrow> bool" where
  "has_died Died = True"
| "has_died _ = False"

definition all_joined :: "progress \<Rightarrow> bool" where
  "all_joined p \<longleftrightarrow> list_all (\<lambda>c. has_returned c \<or> has_died c) (threads p)"

definition run_result :: "progress \<Rightarrow> bool option" where
  "run_result p = (if has_died (threads p ! 0) then None else Some (length (p_failed p) = 0))"

lemma has_returned_iff [simp]: "has_returned c \<longleftrightarrow> c = Returned"
  and has_died_iff [simp]: "has_died c \<longleftrightarrow> c = Died"
  by (cases c; simp)+

section \<open>No test case is lost\<close>

text \<open>The cases that are at work, those that are done, and what is still to be reported.\<close>

fun at_work :: "pc \<Rightarrow> test_case list" where
  "at_work (AtBegin c) = [c]"
| "at_work (AtRun c) = [c]"
| "at_work (AtCheck t) = [out_test t]"
| "at_work (AtReport t) = [out_test t]"
| "at_work _ = []"

fun reported :: "event list \<Rightarrow> test_output list" where
  "reported [] = []"
| "reported (HasRun t # es) = t # reported es"
| "reported (_ # es) = reported es"

lemma reported_append: "reported (xs @ ys) = reported xs @ reported ys"
  by (induction xs rule: reported.induct) auto

text \<open>A test run gives an output of that test, not yet asked for its verdict.\<close>

definition honest :: "(test_case \<Rightarrow> outcome_event \<Rightarrow> bool) \<Rightarrow> bool" where
  "honest runs \<longleftrightarrow> (\<forall>c t. runs c (Finishes t) \<longrightarrow> out_test t = c \<and> cache_ok t)"

definition never_raises :: "(test_case \<Rightarrow> outcome_event \<Rightarrow> bool) \<Rightarrow> (event \<Rightarrow> bool) \<Rightarrow> bool" where
  "never_raises runs raises \<longleftrightarrow> (\<forall>c. \<not> runs c RaisesIOError \<and> \<not> runs c RaisesOther) \<and> (\<forall>e. \<not> raises e)"

definition pc_ok :: "pc \<Rightarrow> bool" where
  "pc_ok c \<longleftrightarrow> (case c of AtCheck t \<Rightarrow> cache_ok t | AtReport t \<Rightarrow> cache_ok t | Died \<Rightarrow> False | _ \<Rightarrow> True)"

definition counts_ok :: "string \<Rightarrow> progress \<Rightarrow> bool" where
  "counts_ok system p \<longleftrightarrow>
     p_failed p = filter (unexpected_run system) (reported (p_log p))
     \<and> succeeded p = int (length (filter (\<lambda>t. \<not> unexpected_run system t) (reported (p_log p))))
     \<and> crashed p = int (length (filter (HasCrashed system) (p_failed p)))
     \<and> remaining p = total p - int (length (reported (p_log p)))"

definition run_inv :: "string \<Rightarrow> test_case list \<Rightarrow> progress \<Rightarrow> bool" where
  "run_inv system cases p \<longleftrightarrow>
     mset cases = mset (queue p) + mset (concat (map at_work (threads p))) + mset (map out_test (reported (p_log p)))
     \<and> counts_ok system p \<and> total p = int (length cases)
     \<and> \<not> terminate p \<and> \<not> locked p \<and> threads p \<noteq> []
     \<and> list_all pc_ok (threads p) \<and> (Returned \<in> set (threads p) \<longrightarrow> queue p = [])"

lemma run_inv_init: "run_inv system cases (ProgressIndicator cases tasks)"
  by (simp add: run_inv_def ProgressIndicator_def counts_ok_def pc_ok_def list_all_iff)

lemma mset_concat_update:
  "i < length xs \<Longrightarrow>
   mset (concat (map f (xs[i := x]))) + mset (f (xs ! i)) = mset (concat (map f xs)) + mset (f x)"
proof (induction xs arbitrary: i)
  case (Cons y xs)
  then show ?case by (cases i) (auto simp: union_assoc union_commute)
qed simp

lemma at_work_update:
  assumes "i < length ps" and "mset (at_work (ps ! i)) = A + mset (at_work c)"
  shows "mset (concat (map at_work ps)) = mset (concat (map at_work (ps[i := c]))) + A"
proof -
  have "mset (concat (map at_work (ps[i := c]))) + A + mset (at_work c)
      = mset (concat (map at_work ps)) + mset (at_work c)"
    using mset_concat_update [OF assms(1), of at_work c] assms(2) by (simp add: ac_simps)
  then show ?thesis by simp
qed

lemma count_output_ok:
  assumes "cache_ok t" and "counts_ok system p"
  shows "counts_ok system (count_output system t p)"
    and "map out_test (reported (p_log (count_output system t p))) = map out_test (reported (p_log p)) @ [out_test t]"
proof -
  let ?t = "snd (UnexpectedOutput system t)"
  note u = UnexpectedOutput_run [OF assms(1), of system]
  have s: "unexpected_run system ?t = unexpected_run system t" "HasCrashed system ?t = HasCrashed system t"
    "out_test ?t = out_test t"
    using unexpected_same [OF u(2)] same_runD [OF u(2)] by simp_all
  show "counts_ok system (count_output system t p)"
    using assms(2) u(1) s(1,2)
    by (cases "unexpected_run system t"; cases "HasCrashed system t")
      (simp_all add: counts_ok_def count_output_def case_prod_beta Let_def reported_append)
  show "map out_test (reported (p_log (count_output system t p))) = map out_test (reported (p_log p)) @ [out_test t]"
    using s(3) by (simp add: count_output_def case_prod_beta Let_def reported_append)
qed

lemma count_output_simps [simp]:
  "queue (count_output system t p) = queue p" "threads (count_output system t p) = threads p"
  "terminate (count_output system t p) = terminate p" "locked (count_output system t p) = locked p"
  "total (count_output system t p) = total p"
  by (simp_all add: count_output_def case_prod_beta Let_def)

lemma set_pc_simps [simp]:
  "queue (set_pc i c p) = queue p" "threads (set_pc i c p) = (threads p)[i := c]"
  "terminate (set_pc i c p) = terminate p" "locked (set_pc i c p) = locked p" "total (set_pc i c p) = total p"
  "p_log (set_pc i c p) = p_log p" "counts_ok system (set_pc i c p) = counts_ok system p"
  by (simp_all add: set_pc_def counts_ok_def)

lemma counts_ok_queue [simp]: "counts_ok system (p\<lparr>queue := q\<rparr>) = counts_ok system p"
  by (simp add: counts_ok_def)

lemma counts_ok_begin:
  "counts_ok system p \<Longrightarrow> p_log p = es \<Longrightarrow> counts_ok system (p\<lparr>p_log := es @ [AboutToRun c]\<rparr>)"
  by (simp add: counts_ok_def reported_append)

text \<open>One thread moves, and the rest of the invariant follows.\<close>

lemma run_inv_move:
  assumes inv: "run_inv system cases p" and i: "i < length (threads p)"
    and threads: "threads p' = (threads p)[i := c]" and c: "pc_ok c" "c = Returned \<longrightarrow> queue p' = []"
    and work: "mset (queue p') + mset (at_work c) + mset (map out_test (reported (p_log p')))
      = mset (queue p) + mset (at_work (threads p ! i)) + mset (map out_test (reported (p_log p)))"
    and rest: "counts_ok system p'" "total p' = total p" "\<not> terminate p'" "\<not> locked p'"
      "queue p = [] \<longrightarrow> queue p' = []"
  shows "run_inv system cases p'"
proof -
  have "mset (concat (map at_work (threads p'))) + mset (at_work (threads p ! i))
      = mset (concat (map at_work (threads p))) + mset (at_work c)"
    unfolding threads by (rule mset_concat_update [OF i])
  then have "mset (queue p') + mset (concat (map at_work (threads p'))) + mset (map out_test (reported (p_log p')))
      + mset (at_work (threads p ! i))
    = mset (queue p') + mset (at_work c) + mset (map out_test (reported (p_log p'))) + mset (concat (map at_work (threads p)))"
    by (simp add: ac_simps)
  also have "\<dots> = mset cases + mset (at_work (threads p ! i))"
    unfolding work using inv by (simp add: run_inv_def ac_simps)
  finally have "mset cases = mset (queue p') + mset (concat (map at_work (threads p'))) + mset (map out_test (reported (p_log p')))"
    by simp
  moreover have "list_all pc_ok (threads p')"
    using inv c(1) i by (auto simp: run_inv_def threads list_all_length nth_list_update)
  moreover have "Returned \<in> set (threads p') \<longrightarrow> queue p' = []"
    using inv c(2) rest(5) set_update_subset_insert [of "threads p" i c] by (auto simp: run_inv_def threads)
  ultimately show ?thesis
    using inv rest i by (auto simp: run_inv_def threads)
qed

lemma run_inv_step:
  assumes "run_step system runs raises p p'" and "run_inv system cases p"
    and ok: "honest runs" "never_raises runs raises"
  shows "run_inv system cases p'"
  using assms(1)
proof cases
  case (Report i t)
  have "pc_ok (threads p ! i)" using assms(2) Report by (auto simp: run_inv_def list_all_length)
  then have t: "cache_ok t" using Report by (simp add: pc_ok_def)
  have c: "counts_ok system p" using assms(2) by (simp add: run_inv_def)
  show ?thesis
    by (rule run_inv_move [OF assms(2) Report(2), of p' AtLoop])
      (use assms(2) Report count_output_ok [OF t c] in \<open>auto simp: pc_ok_def run_inv_def\<close>)
next
  case (Check i t)
  have "pc_ok (threads p ! i)" using assms(2) Check by (auto simp: run_inv_def list_all_length)
  then show ?thesis
    by (intro run_inv_move [OF assms(2) Check(2), of p' "AtReport t"])
      (use assms(2) Check in \<open>auto simp: pc_ok_def run_inv_def\<close>)
next
  case (Begin i c)
  then show ?thesis
    by (intro run_inv_move [OF assms(2), of i p' "AtRun c"])
      (use assms(2) in \<open>auto simp: pc_ok_def run_inv_def reported_append counts_ok_begin\<close>)
next
  case (Run i c t)
  then show ?thesis
    by (intro run_inv_move [OF assms(2), of i p' "AtCheck t"])
      (use assms(2) ok(1) in \<open>auto simp: pc_ok_def run_inv_def honest_def\<close>)
next
  case (Get i c cs)
  then show ?thesis
    by (intro run_inv_move [OF assms(2), of i p' "AtBegin c"])
      (use assms(2) in \<open>auto simp: pc_ok_def run_inv_def\<close>)
next
  case (Loop i)
  then show ?thesis
    by (intro run_inv_move [OF assms(2), of i p' AtGet])
      (use assms(2) in \<open>auto simp: pc_ok_def run_inv_def\<close>)
next
  case (Empty i)
  then show ?thesis
    by (intro run_inv_move [OF assms(2), of i p' Returned])
      (use assms(2) in \<open>auto simp: pc_ok_def run_inv_def\<close>)
qed (use ok(2) in \<open>auto simp: never_raises_def\<close>)

lemma run_inv_reachable:
  assumes "(run_step system runs raises)\<^sup>*\<^sup>* (ProgressIndicator cases tasks) p"
    and "honest runs" and "never_raises runs raises"
  shows "run_inv system cases p"
  using assms(1)
proof (induction rule: rtranclp_induct)
  case base
  show ?case by (rule run_inv_init)
next
  case (step p p')
  from run_inv_step [OF step(2,3) assms(2,3)] show ?case .
qed

lemma run_totals:
  assumes "(run_step system runs raises)\<^sup>*\<^sup>* (ProgressIndicator cases tasks) p" and "all_joined p"
    and "honest runs" and "never_raises runs raises"
  shows "mset (map out_test (reported (p_log p))) = mset cases
    \<and> p_failed p = filter (unexpected_run system) (reported (p_log p))
    \<and> crashed p = int (length (filter (HasCrashed system) (p_failed p)))
    \<and> succeeded p + int (length (p_failed p)) = int (length cases) \<and> remaining p = 0
    \<and> run_result p = Some (\<forall>t \<in> set (reported (p_log p)). \<not> unexpected_run system t)"
proof -
  from run_inv_reachable [OF assms(1,3,4)] have inv: "run_inv system cases p" .
  then have threads: "threads p \<noteq> []" "Died \<notin> set (threads p)"
    by (auto simp: run_inv_def list_all_iff pc_ok_def)
  then have ret: "set (threads p) = {Returned}" using assms(2) by (cases "threads p") (auto simp: all_joined_def list_all_iff)
  then have "concat (map at_work (threads p)) = []" by simp
  with inv ret have cases: "mset (map out_test (reported (p_log p))) = mset cases" by (simp add: run_inv_def)
  then have len: "length (reported (p_log p)) = length cases" by (metis length_map size_mset)
  moreover have "threads p ! 0 \<noteq> Died" using threads by (cases "threads p") auto
  moreover have "int (length (filter (\<lambda>t. \<not> unexpected_run system t) (reported (p_log p))))
      + int (length (filter (unexpected_run system) (reported (p_log p)))) = int (length (reported (p_log p)))"
    using sum_length_filter_compl [of "unexpected_run system" "reported (p_log p)"] by simp
  ultimately show ?thesis
    using inv cases by (auto simp: run_inv_def counts_ok_def run_result_def filter_empty_conv)
qed

text \<open>
  C34: whatever the number of threads and their interleaving, a run in which nothing raises reports
  each test case exactly once, and the totals are right: the failed outputs are the unexpected ones,
  the crashed are the crashed among them, nothing remains, and \<open>Run\<close> returns \<open>True\<close> exactly if
  every test behaved as expected.
\<close>

theorem run_reports_all:
  assumes "(run_step system runs raises)\<^sup>*\<^sup>* (ProgressIndicator cases tasks) p" and "all_joined p"
    and "honest runs" and "never_raises runs raises"
  shows "mset (map out_test (reported (p_log p))) = mset cases
    \<and> p_failed p = filter (unexpected_run system) (reported (p_log p))
    \<and> crashed p = int (length (filter (HasCrashed system) (p_failed p)))
    \<and> succeeded p + int (length (p_failed p)) = int (length cases) \<and> remaining p = 0
    \<and> run_result p = Some (\<forall>t \<in> set (reported (p_log p)). \<not> unexpected_run system t)"
  using assms by (rule run_totals)

section \<open>Every run ends\<close>

fun pc_rank :: "pc \<Rightarrow> nat" where
  "pc_rank (AtBegin _) = 6"
| "pc_rank (AtRun _) = 5"
| "pc_rank (AtCheck _) = 4"
| "pc_rank (AtReport _) = 3"
| "pc_rank AtLoop = 2"
| "pc_rank AtGet = 1"
| "pc_rank _ = 0"

definition run_rank :: "progress \<Rightarrow> nat" where
  "run_rank p = 6 * length (queue p) + sum_list (map pc_rank (threads p))"

lemma sum_rank_update:
  "i < length xs \<Longrightarrow> sum_list (map pc_rank (xs[i := c])) + pc_rank (xs ! i) = sum_list (map pc_rank xs) + pc_rank c"
  by (induction xs arbitrary: i) (auto split: nat.splits)

lemma die_simps [simp]:
  "queue (die i p) = queue p" "threads (die i p) = (threads p)[i := Died]" "locked (die i p) = locked p"
  by (simp_all add: die_def Let_def)

lemma rank_move:
  assumes "i < length (threads p)" and "threads p' = (threads p)[i := c]"
    and "6 * length (queue p') + pc_rank c < 6 * length (queue p) + pc_rank (threads p ! i)"
  shows "run_rank p' < run_rank p"
  using sum_rank_update [OF assms(1), of c] assms(2,3) by (simp add: run_rank_def)

lemma run_rank_step:
  assumes "run_step system runs raises p p'"
  shows "run_rank p' < run_rank p"
  using assms
proof cases
  case (RunIOError i c)
  then show ?thesis by (cases "terminate p") (auto intro: rank_move [of i p _ Returned] rank_move [of i p _ Died])
qed (hypsubst, rule rank_move, assumption, simp, simp)+

text \<open>Only a lock that is never released, or a thread that has ended, keeps a thread from moving.\<close>

lemma run_step_exists:
  assumes "\<not> all_joined p" and "\<not> locked p" and runs: "\<And>c. \<exists>e. runs c e"
  shows "\<exists>p'. run_step system runs raises p p'"
proof -
  from assms(1) obtain i where i: "i < length (threads p)" "threads p ! i \<noteq> Returned" "threads p ! i \<noteq> Died"
    by (auto simp: all_joined_def list_all_length)
  show ?thesis
  proof (cases "threads p ! i")
    case AtGet
    with i show ?thesis by (cases "queue p") (blast intro: run_step.Empty run_step.Get)+
  next
    case (AtBegin c)
    with i assms(2) show ?thesis
      by (cases "raises (AboutToRun c)") (blast intro: run_step.Begin run_step.BeginRaises)+
  next
    case (AtRun c)
    obtain e where "runs c e" using runs by blast
    with i AtRun show ?thesis
      by (cases e) (blast intro: run_step.Run run_step.RunIOError run_step.RunRaises)+
  next
    case (AtReport t)
    with i assms(2) show ?thesis
      by (cases "raises (HasRun t)") (blast intro: run_step.Report run_step.ReportRaises)+
  qed (use i in \<open>blast intro: run_step.Loop run_step.Check\<close>)+
qed

text \<open>
  C35: a run takes at most six steps for each test case and two for each thread, and if every test
  comes to an end in some way and nothing raises, it stops only when all threads have returned.
\<close>

theorem run_ends:
  assumes "(run_step system runs raises ^^ n) (ProgressIndicator cases tasks) p"
  shows "n \<le> 6 * length cases + 2 * max 1 tasks
    \<and> (honest runs \<longrightarrow> never_raises runs raises \<longrightarrow> (\<forall>c. \<exists>e. runs c e)
        \<longrightarrow> all_joined p \<or> (\<exists>p'. run_step system runs raises p p'))"
proof
  have "run_rank p + n \<le> run_rank (ProgressIndicator cases tasks)" using assms
  proof (induction n arbitrary: p)
    case (Suc n)
    then obtain q where "(run_step system runs raises ^^ n) (ProgressIndicator cases tasks) q" "run_step system runs raises q p"
      by auto
    with Suc.IH [of q] run_rank_step [of system runs raises q p] show ?case by simp
  qed simp
  then show "n \<le> 6 * length cases + 2 * max 1 tasks"
    by (simp add: run_rank_def ProgressIndicator_def sum_list_replicate)
  show "honest runs \<longrightarrow> never_raises runs raises \<longrightarrow> (\<forall>c. \<exists>e. runs c e)
        \<longrightarrow> all_joined p \<or> (\<exists>p'. run_step system runs raises p p')"
    using run_inv_reachable [OF relpowp_imp_rtranclp [OF assms]] run_step_exists
    by (metis run_inv_def)
qed

section \<open>Schedules\<close>

text \<open>
  The step of thread \<open>i\<close>, computed, where each test case has one way to end; a schedule is the
  sequence of the threads that move.
\<close>

definition step_thread ::
  "string \<Rightarrow> (test_case \<Rightarrow> outcome_event) \<Rightarrow> (event \<Rightarrow> bool) \<Rightarrow> nat \<Rightarrow> progress \<Rightarrow> progress option"
where
  "step_thread system run raises i p =
     (if length (threads p) \<le> i then None
      else case threads p ! i of
        AtLoop \<Rightarrow> Some (set_pc i (if terminate p then Returned else AtGet) p)
      | AtGet \<Rightarrow> Some (case queue p of [] \<Rightarrow> set_pc i Returned p | c # cs \<Rightarrow> (set_pc i (AtBegin c) p)\<lparr>queue := cs\<rparr>)
      | AtBegin c \<Rightarrow>
          if locked p then None
          else if raises (AboutToRun c) then Some ((die i p)\<lparr>locked := True\<rparr>)
          else Some ((set_pc i (AtRun c) p)\<lparr>p_log := p_log p @ [AboutToRun c]\<rparr>)
      | AtRun c \<Rightarrow>
          (case run c of
             Finishes t \<Rightarrow> Some (set_pc i (AtCheck t) p)
           | RaisesIOError \<Rightarrow> Some (if terminate p then set_pc i Returned p else die i p)
           | RaisesOther \<Rightarrow> Some (die i p))
      | AtCheck t \<Rightarrow> Some (set_pc i (if terminate p then Returned else AtReport t) p)
      | AtReport t \<Rightarrow>
          if locked p then None
          else if raises (HasRun t) then Some ((die i (count_output system t p))\<lparr>locked := True\<rparr>)
          else Some (set_pc i AtLoop (count_output system t p))
      | _ \<Rightarrow> None)"

fun schedule_run ::
  "string \<Rightarrow> (test_case \<Rightarrow> outcome_event) \<Rightarrow> (event \<Rightarrow> bool) \<Rightarrow> nat list \<Rightarrow> progress \<Rightarrow> progress option"
where
  "schedule_run system run raises [] p = Some p"
| "schedule_run system run raises (i # is) p =
     (case step_thread system run raises i p of
        None \<Rightarrow> None
      | Some p \<Rightarrow> schedule_run system run raises is p)"

lemma step_thread_step:
  assumes "step_thread system run raises i p = Some p'"
  shows "run_step system (\<lambda>c e. run c = e) raises p p'"
proof -
  have i: "i < length (threads p)" using assms by (auto simp: step_thread_def split: if_splits)
  note steps = run_step.intros [where i = i and p = p and system = system and runs = "\<lambda>c e. run c = e" and raises = raises, OF i]
  show ?thesis
    using assms steps i by (cases "threads p ! i") (auto simp: step_thread_def split: if_splits list.splits outcome_event.splits)
qed

lemma schedule_run_steps:
  "schedule_run system run raises is p = Some p' \<Longrightarrow> (run_step system (\<lambda>c e. run c = e) raises)\<^sup>*\<^sup>* p p'"
proof (induction "is" arbitrary: p)
  case (Cons i "is")
  then obtain q where "step_thread system run raises i p = Some q" "schedule_run system run raises is q = Some p'"
    by (auto split: option.splits)
  with Cons.IH step_thread_step show ?case by (blast intro: converse_rtranclp_into_rtranclp)
qed simp

lemma step_thread_Some:
  assumes "run_step system (\<lambda>c e. run c = e) raises p p'"
  shows "\<exists>i < length (threads p). step_thread system run raises i p \<noteq> None"
  using assms by cases (intro exI conjI, assumption, simp add: step_thread_def)+

lemma step_thread_None:
  "list_all (\<lambda>i. step_thread system run raises i p = None) [0..<length (threads p)] \<Longrightarrow>
   \<not> run_step system (\<lambda>c e. run c = e) raises p p'"
  by (auto simp: list_all_iff dest!: step_thread_Some)

definition ex_case :: "string \<Rightarrow> test_case" where
  "ex_case name = (base_case [''simple'', name] ''release'')\<lparr>case_label := name, case_outcomes := [''pass'']\<rparr>"

definition ex_pass :: "test_case \<Rightarrow> outcome_event" where
  "ex_pass c = Finishes \<lparr>out_test = c, out_command = [''node''], command_out = CommandOutput 0 False [] [],
     store_unexpected = True\<rparr>"

definition ex_run :: "test_case \<Rightarrow> outcome_event" where
  "ex_run c = (if case_label c = ''lost'' then RaisesOther else ex_pass c)"

lemma ex_pass_ok:
  "honest (\<lambda>c e. ex_pass c = e)" "never_raises (\<lambda>c e. ex_pass c = e) (\<lambda>_. False)" "\<exists>e. ex_pass c = e"
  by (auto simp: honest_def never_raises_def ex_pass_def cache_ok_def CommandOutput_def)

lemma schedule_ends:
  assumes "map_option f (schedule_run system run raises is p) = Some x"
  obtains p' where "(run_step system (\<lambda>c e. run c = e) raises)\<^sup>*\<^sup>* p p'" and "f p' = x"
  using assms schedule_run_steps by blast

theorem run_reports_witness:
  "\<exists>p. (run_step ''Linux'' (\<lambda>c e. ex_pass c = e) (\<lambda>_. False))\<^sup>*\<^sup>* (ProgressIndicator [ex_case ''a'', ex_case ''b''] 2) p
    \<and> mset (map out_test (reported (p_log p))) = mset [ex_case ''a'', ex_case ''b'']
    \<and> succeeded p + int (length (p_failed p)) = 2"
proof -
  have "map_option all_joined (schedule_run ''Linux'' ex_pass (\<lambda>_. False) [0, 1, 1, 0, 0, 1, 1, 1, 0, 1, 0, 0, 0, 0, 1, 1]
      (ProgressIndicator [ex_case ''a'', ex_case ''b''] 2)) = Some True" by code_simp
  then obtain p where p: "(run_step ''Linux'' (\<lambda>c e. ex_pass c = e) (\<lambda>_. False))\<^sup>*\<^sup>*
      (ProgressIndicator [ex_case ''a'', ex_case ''b''] 2) p" "all_joined p" by (rule schedule_ends) simp
  note r = run_reports_all [OF p ex_pass_ok(1,2)]
  from r have "succeeded p + int (length (p_failed p)) = 2" by (elim conjE) simp
  with p(1) r show ?thesis by blast
qed

theorem run_ends_witness:
  "\<exists>n p. (run_step ''Linux'' (\<lambda>c e. ex_pass c = e) (\<lambda>_. False) ^^ n) (ProgressIndicator [ex_case ''a''] 1) p
    \<and> all_joined p \<and> n \<le> 8 \<and> (all_joined p \<or> (\<exists>p'. run_step ''Linux'' (\<lambda>c e. ex_pass c = e) (\<lambda>_. False) p p'))"
proof -
  have "map_option all_joined (schedule_run ''Linux'' ex_pass (\<lambda>_. False) [0, 0, 0, 0, 0, 0, 0, 0]
      (ProgressIndicator [ex_case ''a''] 1)) = Some True" by code_simp
  then obtain p where p: "(run_step ''Linux'' (\<lambda>c e. ex_pass c = e) (\<lambda>_. False))\<^sup>*\<^sup>*
      (ProgressIndicator [ex_case ''a''] 1) p" "all_joined p" by (rule schedule_ends) simp
  from rtranclp_imp_relpowp [OF p(1)]
  obtain n where n: "(run_step ''Linux'' (\<lambda>c e. ex_pass c = e) (\<lambda>_. False) ^^ n) (ProgressIndicator [ex_case ''a''] 1) p" ..
  from run_ends [OF n, THEN conjunct1] have "n \<le> 8" by simp
  with n p(2) show ?thesis by (intro exI [of _ n] exI [of _ p]) simp
qed

text \<open>
  An exception in a worker thread, from a test that cannot be started for instance, is lost: the
  run ends with all threads joined and \<open>Run\<close> returns \<open>True\<close>, though a test case was never finished.
  And an exception of an indicator inside a critical section leaves the lock taken, after which the
  main thread waits for ever.
\<close>

theorem run_exceptions:
  "(\<exists>p. (run_step ''Linux'' (\<lambda>c e. ex_run c = e) (\<lambda>_. False))\<^sup>*\<^sup>* (ProgressIndicator [ex_case ''a'', ex_case ''lost''] 2) p
      \<and> all_joined p \<and> run_result p = Some True \<and> remaining p = 1)
   \<and> (\<exists>raises p. (run_step ''Linux'' (\<lambda>c e. ex_pass c = e) raises)\<^sup>*\<^sup>* (ProgressIndicator [ex_case ''a'', ex_case ''b''] 2) p
      \<and> \<not> has_returned (threads p ! 0) \<and> \<not> has_died (threads p ! 0)
      \<and> (\<forall>p'. \<not> run_step ''Linux'' (\<lambda>c e. ex_pass c = e) raises p p'))"
proof (intro conjI)
  have "map_option (\<lambda>p. (all_joined p, run_result p, remaining p))
      (schedule_run ''Linux'' ex_run (\<lambda>_. False) [0, 0, 1, 1, 0, 1, 1, 0, 0, 0, 0, 0]
        (ProgressIndicator [ex_case ''a'', ex_case ''lost''] 2)) = Some (True, Some True, 1)" by code_simp
  then show "\<exists>p. (run_step ''Linux'' (\<lambda>c e. ex_run c = e) (\<lambda>_. False))\<^sup>*\<^sup>* (ProgressIndicator [ex_case ''a'', ex_case ''lost''] 2) p
      \<and> all_joined p \<and> run_result p = Some True \<and> remaining p = 1"
    by (rule schedule_ends) blast
  let ?raises = "case_event (\<lambda>_. False) (\<lambda>_. True)"
  have "map_option (\<lambda>p. (has_returned (threads p ! 0), has_died (threads p ! 0),
        list_all (\<lambda>i. Option.is_none (step_thread ''Linux'' ex_pass ?raises i p)) [0..<length (threads p)]))
      (schedule_run ''Linux'' ex_pass ?raises [0, 0, 1, 1, 1, 1, 1, 1]
        (ProgressIndicator [ex_case ''a'', ex_case ''b''] 2)) = Some (False, False, True)" by code_simp
  then obtain p where p: "(run_step ''Linux'' (\<lambda>c e. ex_pass c = e) ?raises)\<^sup>*\<^sup>*
      (ProgressIndicator [ex_case ''a'', ex_case ''b''] 2) p"
    "(has_returned (threads p ! 0), has_died (threads p ! 0),
        list_all (\<lambda>i. Option.is_none (step_thread ''Linux'' ex_pass ?raises i p)) [0..<length (threads p)]) = (False, False, True)"
    by (rule schedule_ends)
  have "\<not> run_step ''Linux'' (\<lambda>c e. ex_pass c = e) ?raises p p'" for p'
    using p(2) by (intro step_thread_None) (simp add: Option.is_none_def)
  with p show "\<exists>raises p. (run_step ''Linux'' (\<lambda>c e. ex_pass c = e) raises)\<^sup>*\<^sup>* (ProgressIndicator [ex_case ''a'', ex_case ''b''] 2) p
      \<and> \<not> has_returned (threads p ! 0) \<and> \<not> has_died (threads p ! 0)
      \<and> (\<forall>p'. \<not> run_step ''Linux'' (\<lambda>c e. ex_pass c = e) raises p p')"
    by (intro exI [of _ ?raises] exI [of _ p]) simp
qed

end
