(* ===== verification/Test_Indicators.thy ===== *)
theory Test_Indicators
  imports Test_Progress Py_Path
begin

text \<open>
  \<open>tools/test.py\<close>: what the progress indicators print. Standard output is its text so far with the
  \<open>softspace\<close> flag of Python 2, by which \<open>print\<close> separates the items of several \<open>print x,\<close> statements.
\<close>

section \<open>Standard output\<close>

record stdout =
  written :: string
  softspace :: bool

definition py_write :: "string \<Rightarrow> stdout \<Rightarrow> stdout" where
  "py_write s out = \<lparr>written = written out @ s, softspace = False\<rparr>"

definition spaced :: "stdout \<Rightarrow> string" where
  "spaced out = (if softspace out then '' '' else [])"

definition py_print :: "string \<Rightarrow> stdout \<Rightarrow> stdout" where
  "py_print s out = \<lparr>written = written out @ spaced out @ s @ [CHR 0x0A], softspace = False\<rparr>"

text \<open>\<open>print s,\<close>: no separator follows white space other than a blank.\<close>

definition py_print_item :: "string \<Rightarrow> stdout \<Rightarrow> stdout" where
  "py_print_item s out =
     \<lparr>written = written out @ spaced out @ s,
      softspace = (s = [] \<or> \<not> is_space (last s) \<or> last s = CHR '' '')\<rparr>"

definition py_prints :: "string list \<Rightarrow> stdout \<Rightarrow> stdout" where
  "py_prints ss out = fold py_print ss out"

section \<open>Format strings\<close>

definition pad_left :: "char \<Rightarrow> nat \<Rightarrow> string \<Rightarrow> string" where
  "pad_left c n s = replicate (n - length s) c @ s"

text \<open>\<open>% 4d\<close> and \<open>%02i\<close>\<close>

definition fmt_4d :: "int \<Rightarrow> string" where
  "fmt_4d i = pad_left CHR '' '' 4 (if i < 0 then show_int i else CHR '' '' # show_int i)"

definition fmt_02i :: "int \<Rightarrow> string" where
  "fmt_02i i = (if i < 0 then CHR ''-'' # pad_left CHR ''0'' 1 (show_int (- i)) else pad_left CHR ''0'' 2 (show_int i))"

text \<open>\<open>s[:i]\<close>\<close>

definition slice_to :: "int \<Rightarrow> string \<Rightarrow> string" where
  "slice_to i s = (if 0 \<le> i then take (nat i) s else take (length s - nat (- i)) s)"

text \<open>\<open>s.splitlines()\<close> and the truncated quotient of a positive divisor.\<close>

fun splitlines :: "string \<Rightarrow> string list" where
  "splitlines [] = []"
| "splitlines (c # s) =
     (if c = CHR 0x0A \<or> c = CHR 0x0D
      then [] # splitlines (if c = CHR 0x0D \<and> s \<noteq> [] \<and> hd s = CHR 0x0A then tl s else s)
      else if s = [] then [[c]]
      else if hd s = CHR 0x0A \<or> hd s = CHR 0x0D
      then [c] # tl (splitlines s)
      else (case splitlines s of [] \<Rightarrow> [[c]] | l # ls \<Rightarrow> (c # l) # ls))"

section \<open>Commands and failures\<close>

definition EscapeCommand :: "string list \<Rightarrow> string" where
  "EscapeCommand command =
     join '' '' (map (\<lambda>part. if CHR '' '' \<in> set part then CHR 0x22 # part @ [CHR 0x22] else part) command)"

definition PrintFailureHeader :: "test_case \<Rightarrow> stdout \<Rightarrow> stdout" where
  "PrintFailureHeader test =
     py_prints [''=== '' @ case_label test @ '' '' @ (if is_negative test then ''[negative] '' else []) @ ''==='',
                ''Path: '' @ join ''/'' (case_path test)]"

section \<open>SimpleProgressIndicator\<close>

definition Simple_Starting :: "progress \<Rightarrow> stdout \<Rightarrow> stdout" where
  "Simple_Starting p = py_print (''Running '' @ show_int (total p) @ '' tests'')"

definition print_failed :: "string \<Rightarrow> test_output \<Rightarrow> stdout \<Rightarrow> stdout" where
  "print_failed system failed out =
     (let out = PrintFailureHeader (out_test failed) out;
          e = out_stderr (command_out failed);
          s = out_stdout (command_out failed);
          out = (if e \<noteq> [] then py_prints [''--- stderr ---'', strip e] out else out);
          out = (if s \<noteq> [] then py_prints [''--- stdout ---'', strip s] out else out);
          out = py_print (''Command: '' @ EscapeCommand (out_command failed)) out;
          out = (if HasCrashed system failed then py_print ''--- CRASHED ---'' out else out)
      in if HasTimedOut failed then py_print ''--- TIMEOUT ---'' out else out)"

definition Simple_Done :: "string \<Rightarrow> progress \<Rightarrow> stdout \<Rightarrow> stdout" where
  "Simple_Done system p out =
     (let out = fold (print_failed system) (p_failed p) (py_print [] out)
      in if length (p_failed p) = 0
         then py_prints [''==='', ''=== All tests succeeded'', ''===''] out
         else let out = py_prints [[], ''==='', ''=== '' @ show_int (int (length (p_failed p))) @ '' tests failed''] out;
                  out = (if crashed p > 0 then py_print (''=== '' @ show_int (crashed p) @ '' tests CRASHED'') out else out)
              in py_print ''==='' out)"

section \<open>Verbose, dots and tap\<close>

definition Verbose_AboutToRun :: "test_case \<Rightarrow> stdout \<Rightarrow> stdout" where
  "Verbose_AboutToRun c = py_print (''Starting '' @ case_label c @ ''...'')"

definition Verbose_HasRun :: "string \<Rightarrow> test_output \<Rightarrow> stdout \<Rightarrow> stdout" where
  "Verbose_HasRun system t =
     (let outcome = (if fst (UnexpectedOutput system t)
                     then if HasCrashed system t then ''CRASH'' else ''FAIL''
                     else ''pass'')
      in py_print (''Done running '' @ case_label (out_test t) @ '': '' @ outcome))"

definition dot :: "string \<Rightarrow> test_output \<Rightarrow> char" where
  "dot system t =
     (if fst (UnexpectedOutput system t)
      then if HasCrashed system t then CHR ''C'' else if HasTimedOut t then CHR ''T'' else CHR ''F''
      else CHR ''.'')"

definition Dots_HasRun :: "string \<Rightarrow> progress \<Rightarrow> test_output \<Rightarrow> stdout \<Rightarrow> stdout" where
  "Dots_HasRun system p t out =
     (let n = succeeded p + int (length (p_failed p));
          out = (if n > 1 \<and> n mod 50 = 1 then py_write [CHR 0x0A] out else out)
      in py_write [dot system t] out)"

record duration =
  days :: int
  seconds :: int
  microseconds :: int

definition duration_text :: "duration \<Rightarrow> string" where
  "duration_text d =
     (let total_seconds = (microseconds d + (seconds d + days d * 24 * 3600) * 10 ^ 6) div 10 ^ 6
      in show_int total_seconds @ ''.'' @ show_int (microseconds d div 1000))"

definition Tap_Starting :: "progress \<Rightarrow> stdout \<Rightarrow> stdout" where
  "Tap_Starting p = py_print (''1..'' @ show_int (total p))"

definition Tap_HasRun :: "string \<Rightarrow> test_output \<Rightarrow> duration \<Rightarrow> int \<Rightarrow> stdout \<Rightarrow> (int \<times> stdout) result" where
  "Tap_HasRun system t d n out =
     (let n = n + 1
      in if out_command t = [] then Inl IndexError
         else let command = basename (last (out_command t));
                  out = (if fst (UnexpectedOutput system t)
                         then py_prints ((''not ok '' @ show_int n @ '' - '' @ command)
                                # map (\<lambda>l. CHR ''#'' # l) (splitlines (out_stderr (command_out t)))
                                @ map (\<lambda>l. CHR ''#'' # l) (splitlines (out_stdout (command_out t)))) out
                         else py_print (''ok '' @ show_int n @ '' - '' @ command) out)
              in Inr (n, py_prints [''  ---'', ''  duration_ms: '' @ duration_text d, ''  ...''] out))"

section \<open>CompactProgressIndicator\<close>

text \<open>
  The templates are functions of the values they format, in the order minutes, seconds, percentage,
  passed, failed and name; \<open>ClearLine\<close> is the method of the subclass.
\<close>

record compact =
  status_line :: "int \<Rightarrow> int \<Rightarrow> int \<Rightarrow> int \<Rightarrow> int \<Rightarrow> string \<Rightarrow> string"
  stdout_text :: "string \<Rightarrow> string"
  stderr_text :: "string \<Rightarrow> string"
  ClearLine :: "nat \<Rightarrow> stdout \<Rightarrow> stdout"

definition Truncate :: "string \<Rightarrow> int \<Rightarrow> string" where
  "Truncate s n =
     (if n \<noteq> 0 \<and> int (length s) > n - 3 then slice_to (n - 3) s @ ''...'' else s)"

text \<open>\<open>elapsed\<close> is the time since the start in whole seconds.\<close>

definition PrintProgress ::
  "compact \<Rightarrow> int \<Rightarrow> progress \<Rightarrow> string \<Rightarrow> nat \<times> stdout \<Rightarrow> (nat \<times> stdout) result"
where
  "PrintProgress c elapsed p name = (\<lambda>(last_status_length, out).
     let out = ClearLine c last_status_length out
     in if total p = 0 then Inl ZeroDivisionError
        else let status = status_line c (elapsed div 60) (elapsed mod 60)
                            ((total p - remaining p) * 100 div total p) (succeeded p)
                            (int (length (p_failed p))) name;
                 status = Truncate status 78
             in Inr (length status, py_print_item status out))"

definition Compact_HasRun :: "string \<Rightarrow> compact \<Rightarrow> test_output \<Rightarrow> nat \<times> stdout \<Rightarrow> nat \<times> stdout" where
  "Compact_HasRun system c t = (\<lambda>(last_status_length, out).
     (last_status_length,
      if fst (UnexpectedOutput system t)
      then let out = PrintFailureHeader (out_test t) (ClearLine c last_status_length out);
               s = strip (out_stdout (command_out t));
               out = (if length s \<noteq> 0 then py_print (stdout_text c s) out else out);
               e = strip (out_stderr (command_out t));
               out = (if length e \<noteq> 0 then py_print (stderr_text c e) out else out);
               out = py_print (''Command: '' @ EscapeCommand (out_command t)) out;
               out = (if HasCrashed system t then py_print ''--- CRASHED ---'' out else out)
           in if HasTimedOut t then py_print ''--- TIMEOUT ---'' out else out
      else out))"

abbreviation "ESC \<equiv> CHR 0x1B"

definition ColorProgressIndicator :: compact where
  "ColorProgressIndicator =
     \<lparr>status_line = (\<lambda>mins secs percent passed failed name.
        ''['' @ fmt_02i mins @ '':'' @ fmt_02i secs @ ''|'' @ ESC # ''[34m%'' @ fmt_4d percent @ ESC # ''[0m|''
        @ ESC # ''[32m+'' @ fmt_4d passed @ ESC # ''[0m|'' @ ESC # ''[31m-'' @ fmt_4d failed @ ESC # ''[0m]: '' @ name),
      stdout_text = (\<lambda>s. ESC # ''[1m'' @ s @ ESC # ''[0m''),
      stderr_text = (\<lambda>s. ESC # ''[31m'' @ s @ ESC # ''[0m''),
      ClearLine = (\<lambda>_. py_print_item (ESC # ''[1K'' @ [CHR 0x0D]))\<rparr>"

definition MonochromeProgressIndicator :: compact where
  "MonochromeProgressIndicator =
     \<lparr>status_line = (\<lambda>mins secs percent passed failed name.
        ''['' @ fmt_02i mins @ '':'' @ fmt_02i secs @ ''|%'' @ fmt_4d percent @ ''|+'' @ fmt_4d passed
        @ ''|-'' @ fmt_4d failed @ '']: '' @ name),
      stdout_text = (\<lambda>s. s), stderr_text = (\<lambda>s. s),
      ClearLine = (\<lambda>n. py_print_item (CHR 0x0D # replicate n CHR '' '' @ [CHR 0x0D]))\<rparr>"

section \<open>The dots\<close>

text \<open>The specification: rows of fifty.\<close>

fun rows :: "nat \<Rightarrow> string \<Rightarrow> string" where
  "rows n [] = []"
| "rows n (c # s) = (if 0 < n \<and> n mod 50 = 0 then [CHR 0x0A, c] else [c]) @ rows (Suc n) s"

lemma rows_snoc:
  "rows n (s @ [c]) = rows n s @ (if 0 < n + length s \<and> (n + length s) mod 50 = 0 then [CHR 0x0A, c] else [c])"
  by (induction s arbitrary: n) auto

text \<open>The indicator over a sequence of reports, from the state \<open>p\<close> of the totals.\<close>

fun dots_run :: "string \<Rightarrow> progress \<Rightarrow> test_output list \<Rightarrow> stdout \<Rightarrow> stdout" where
  "dots_run system p [] out = out"
| "dots_run system p (t # ts) out =
     (let p = count_output system t p in dots_run system p ts (Dots_HasRun system p t out))"

lemma counts_total:
  "counts_ok system p \<Longrightarrow> succeeded p + int (length (p_failed p)) = int (length (reported (p_log p)))"
  using sum_length_filter_compl [of "unexpected_run system" "reported (p_log p)"] by (simp add: counts_ok_def)

lemma fifty: "(1 < int (Suc n) \<and> int (Suc n) mod 50 = 1) \<longleftrightarrow> (0 < n \<and> n mod 50 = 0)"
proof -
  have "int (Suc n) mod 50 = int (Suc n mod 50)" by (simp add: zmod_int)
  then show ?thesis by (auto simp: mod_Suc)
qed

lemma dots_run_rows:
  assumes "list_all cache_ok ts" and "counts_ok system p"
  shows "written (dots_run system p ts out)
    = written out @ rows (length (reported (p_log p))) (map (dot system) ts)"
  using assms
proof (induction ts arbitrary: p out)
  case (Cons t ts)
  let ?p = "count_output system t p" and ?n = "length (reported (p_log p))"
  have t: "cache_ok t" using Cons.prems by simp
  note c = count_output_ok [OF t Cons.prems(2)]
  have n: "length (reported (p_log ?p)) = Suc ?n" using arg_cong [OF c(2), of length] by simp
  have "written (Dots_HasRun system ?p t out)
      = written out @ (if 0 < ?n \<and> ?n mod 50 = 0 then [CHR 0x0A, dot system t] else [dot system t])"
    using counts_total [OF c(1)] n fifty [of ?n] by (simp add: Dots_HasRun_def py_write_def)
  with Cons.IH [of ?p "Dots_HasRun system ?p t out"] c(1) n Cons.prems(1) show ?case by (simp add: Let_def)
qed simp

section \<open>The status line on a terminal\<close>

text \<open>One line of a terminal: the column of the cursor and the characters to be seen.\<close>

definition tput :: "char \<Rightarrow> nat \<times> string \<Rightarrow> nat \<times> string" where
  "tput c = (\<lambda>(col, line).
     if c = CHR 0x0D then (0, line)
     else if c = CHR 0x0A then (0, [])
     else (Suc col, take col (line @ replicate (col - length line) CHR '' '') @ c # drop (Suc col) line))"

definition screen :: "string \<Rightarrow> nat \<times> string" where
  "screen s = fold tput s (0, [])"

text \<open>Nothing but blanks from the column \<open>n\<close> on.\<close>

definition blank_from :: "nat \<Rightarrow> string \<Rightarrow> bool" where
  "blank_from n line \<longleftrightarrow> list_all (\<lambda>c. c = CHR '' '') (drop n line)"

lemma blank_from_nth: "blank_from n line \<longleftrightarrow> (\<forall>i. n \<le> i \<longrightarrow> i < length line \<longrightarrow> line ! i = CHR '' '')"
proof
  assume b: "blank_from n line"
  show "\<forall>i. n \<le> i \<longrightarrow> i < length line \<longrightarrow> line ! i = CHR '' ''"
  proof (intro allI impI)
    fix i assume "n \<le> i" "i < length line"
    then have at: "drop n line ! (i - n) = line ! i" "i - n < length (drop n line)" by simp_all
    from b at(2) have "drop n line ! (i - n) = CHR '' ''" by (simp only: blank_from_def list_all_length)
    with at(1) show "line ! i = CHR '' ''" by simp
  qed
qed (auto simp: blank_from_def list_all_length)

definition printable :: "string \<Rightarrow> bool" where
  "printable s \<longleftrightarrow> CHR 0x0D \<notin> set s \<and> CHR 0x0A \<notin> set s"

lemma tput_text:
  "printable s \<Longrightarrow> col \<le> length line \<Longrightarrow>
   fold tput s (col, line) = (col + length s, take col line @ s @ drop (col + length s) line)"
proof (induction s arbitrary: col line)
  case (Cons c s)
  let ?line = "take col line @ c # drop (Suc col) line"
  have "c \<noteq> CHR 0x0D" "c \<noteq> CHR 0x0A" using Cons.prems(1) by (auto simp: printable_def)
  then have "fold tput (c # s) (col, line) = fold tput s (Suc col, ?line)"
    using Cons.prems(2) by (simp add: tput_def)
  also have "\<dots> = (Suc col + length s, take (Suc col) ?line @ s @ drop (Suc col + length s) ?line)"
    using Cons.prems by (intro Cons.IH) (auto simp: printable_def)
  finally show ?case using Cons.prems by (simp add: take_Suc_conv_app_nth ac_simps)
qed simp

lemma tput_CR: "tput (CHR 0x0D) (col, line) = (0, line)"
  by (simp add: tput_def)

lemma printable_blanks: "printable (replicate n CHR '' '')"
  by (simp add: printable_def)

text \<open>What \<open>ClearLine\<close> leaves: a blank line with the cursor at its start.\<close>

lemma blank_from_space:
  assumes "blank_from n line" and "col \<le> length line"
  shows "blank_from n (take col line @ '' '' @ drop (Suc col) line)"
  unfolding blank_from_nth
proof (intro allI impI)
  fix i assume i: "n \<le> i" "i < length (take col line @ '' '' @ drop (Suc col) line)"
  consider "i < col" | "i = col" | j where "i = Suc col + j"
    by (metis less_iff_Suc_add linorder_less_linear add_Suc)
  then show "(take col line @ '' '' @ drop (Suc col) line) ! i = CHR '' ''"
    using i assms by cases (auto simp: blank_from_nth nth_append)
qed

lemma blank_0: "blank_from 0 line \<Longrightarrow> line = replicate (length line) CHR '' ''"
  by (rule replicate_eqI) (simp_all add: blank_from_def list_all_iff)

lemma clear_blank:
  assumes "blank_from n line" and "col \<le> length line"
  shows "\<exists>k. fold tput ((if sep then '' '' else []) @ CHR 0x0D # replicate n CHR '' '' @ [CHR 0x0D]) (col, line)
    = (0, replicate k CHR '' '')"
proof -
  have start: "\<exists>col' line'. fold tput (if sep then '' '' else []) (col, line) = (col', line') \<and> blank_from n line'"
  proof (cases sep)
    case True
    then show ?thesis
      using tput_text [of "'' ''" col line] assms(2) blank_from_space [OF assms] by (simp add: printable_def)
  qed (use assms in simp)
  then obtain col' line' where
    start: "fold tput (if sep then '' '' else []) (col, line) = (col', line')" "blank_from n line'" by blast
  define b where "b = replicate n CHR '' ''"
  have b: "length b = n" "printable b" "list_all (\<lambda>c. c = CHR '' '') b"
    by (simp_all add: b_def printable_blanks list_all_length)
  have "blank_from 0 (b @ drop n line')"
    using start(2) b(3) unfolding blank_from_def drop_0 list_all_append by (rule conjI [rotated])
  from blank_0 [OF this] obtain k where k: "b @ drop n line' = replicate k CHR '' ''" by (rule that)
  have "fold tput b (0, line') = (n, b @ drop n line')" using tput_text [OF b(2), of 0 line'] b(1) by simp
  then have "fold tput (b @ [CHR 0x0D]) (0, line') = (0, replicate k CHR '' '')"
    unfolding k by (simp only: fold_append fold_simps comp_apply tput_CR)
  then have "fold tput ((if sep then '' '' else []) @ CHR 0x0D # b @ [CHR 0x0D]) (col, line) = (0, replicate k CHR '' '')"
    by (simp only: fold_append fold_simps comp_apply start(1) tput_CR)
  then show ?thesis unfolding b_def by (rule exI [of _ k])
qed

definition tidy :: "nat \<times> stdout \<Rightarrow> bool" where
  "tidy = (\<lambda>(n, out). let (col, line) = screen (written out) in blank_from n line \<and> col \<le> length line)"

lemma Truncate_short: "length (Truncate s 78) \<le> 78"
  by (simp add: Truncate_def slice_to_def)

lemma show_nat_printable: "printable (show_nat n)"
  using show_nat_digits [of n] by (auto simp: printable_def list_all_iff is_digit_code)

lemma printable_append [simp]: "printable (a @ b) \<longleftrightarrow> printable a \<and> printable b"
  by (auto simp: printable_def)

lemma printable_numbers: "printable (fmt_02i i)" "printable (fmt_4d i)"
  using show_nat_printable [of "nat i"] show_nat_printable [of "nat (- i)"]
  by (auto simp: printable_def fmt_02i_def fmt_4d_def pad_left_def show_int_def)

lemma printable_status: "printable name \<Longrightarrow> printable (status_line MonochromeProgressIndicator m s q a b name)"
  using printable_numbers by (auto simp: MonochromeProgressIndicator_def printable_def)

lemma printable_Truncate: "printable s \<Longrightarrow> printable (Truncate s n)"
  by (auto simp: Truncate_def slice_to_def printable_def dest: in_set_takeD)

text \<open>
  On a terminal the monochrome indicator shows its status line and nothing of the line before.
  From any state in which only blanks stand behind the last status, \<open>PrintProgress\<close> leaves the
  new status at the start of the line, at most 78 characters long and followed by blanks only, in a
  state of the same kind; the blank that Python 2 puts between two prints does no harm.
\<close>

theorem PrintProgress_shows:
  assumes "tidy (n, out)" and "printable name"
    and "PrintProgress MonochromeProgressIndicator elapsed p name (n, out) = Inr (n', out')"
  shows "\<exists>k. snd (screen (written out')) =
      Truncate (status_line MonochromeProgressIndicator (elapsed div 60) (elapsed mod 60)
        ((total p - remaining p) * 100 div total p) (succeeded p) (int (length (p_failed p))) name) 78
      @ replicate k CHR '' ''
    \<and> n' \<le> 78 \<and> tidy (n', out')"
proof -
  let ?s = "Truncate (status_line MonochromeProgressIndicator (elapsed div 60) (elapsed mod 60)
        ((total p - remaining p) * 100 div total p) (succeeded p) (int (length (p_failed p))) name) 78"
  obtain col line where line: "screen (written out) = (col, line)" by fastforce
  have out': "written out' = written out @ (if softspace out then '' '' else []) @ CHR 0x0D # replicate n CHR '' '' @ [CHR 0x0D] @ ?s"
    and n': "n' = length ?s"
    using assms(3)
    by (auto simp: PrintProgress_def py_print_item_def spaced_def MonochromeProgressIndicator_def Let_def is_space_def split: if_splits)
  obtain k where k: "fold tput ((if softspace out then '' '' else []) @ CHR 0x0D # replicate n CHR '' '' @ [CHR 0x0D]) (col, line)
    = (0, replicate k CHR '' '')" using clear_blank [of n line col "softspace out"] assms(1) line unfolding tidy_def by auto
  have "screen (written out') = fold tput ?s (0, replicate k CHR '' '')"
    using k line by (simp add: screen_def out')
  also have "\<dots> = (length ?s, ?s @ replicate (k - length ?s) CHR '' '')"
    using tput_text [of ?s 0 "replicate k CHR '' ''"] printable_Truncate [OF printable_status [OF assms(2)]] by simp
  finally have shown: "screen (written out') = (length ?s, ?s @ replicate (k - length ?s) CHR '' '')" .
  then have "tidy (n', out')" by (simp add: tidy_def n' blank_from_def list_all_iff)
  with shown n' Truncate_short show ?thesis by auto
qed

theorem PrintProgress_witness:
  "\<exists>n out. PrintProgress MonochromeProgressIndicator 61 (ProgressIndicator [ex_case ''a''] 1) ''Done''
        (0, \<lparr>written = [], softspace = False\<rparr>) = Inr (n, out)
    \<and> (\<exists>k. snd (screen (written out)) = ''[01:01|%   0|+   0|-   0]: Done'' @ replicate k CHR '' '')"
proof -
  let ?p = "ProgressIndicator [ex_case ''a''] 1"
  have "\<exists>n out. PrintProgress MonochromeProgressIndicator 61 ?p ''Done'' (0, \<lparr>written = [], softspace = False\<rparr>) = Inr (n, out)"
    by (simp add: PrintProgress_def ProgressIndicator_def Let_def)
  then obtain n out where r: "PrintProgress MonochromeProgressIndicator 61 ?p ''Done''
    (0, \<lparr>written = [], softspace = False\<rparr>) = Inr (n, out)" by blast
  have "tidy (0, \<lparr>written = [], softspace = False\<rparr>)" "printable ''Done''"
    by (simp_all add: tidy_def screen_def blank_from_def printable_def)
  from PrintProgress_shows [OF this r]
  obtain k where "snd (screen (written out)) =
      Truncate (status_line MonochromeProgressIndicator (61 div 60) (61 mod 60)
        ((total ?p - remaining ?p) * 100 div total ?p) (succeeded ?p) (int (length (p_failed ?p))) ''Done'') 78
      @ replicate k CHR '' ''" by blast
  moreover have "Truncate (status_line MonochromeProgressIndicator (61 div 60) (61 mod 60)
        ((total ?p - remaining ?p) * 100 div total ?p) (succeeded ?p) (int (length (p_failed ?p))) ''Done'') 78
      = ''[01:01|%   0|+   0|-   0]: Done''" by code_simp
  ultimately show ?thesis using r by auto
qed

end
