(* ===== verification/Test_Expr.thy ===== *)
theory Test_Expr
  imports Py_Prelude
begin

text \<open>
  \<open>tools/test.py\<close>: the expressions of test status files. The first part is the syntax
  (\<open>Tokenizer\<close>, \<open>Scanner\<close> and the recursive-descent parser of \<open>ParseCondition\<close>), the second the
  evaluation (\<open>Evaluate\<close> and \<open>GetOutcomes\<close>) over sets of outcomes.
\<close>

section \<open>Expressions and outcome sets\<close>

datatype expr =
    Constant bool
  | Variable string
  | Outcome string
  | Operation expr string expr

datatype outcome_set = ListSet "string list" | Everything | Nothing

fun Intersect :: "outcome_set \<Rightarrow> outcome_set \<Rightarrow> outcome_set" where
  "Intersect (ListSet elms) that =
     (case that of
        ListSet elms' \<Rightarrow> ListSet (filter (\<lambda>x. x \<in> set elms') elms)
      | Everything \<Rightarrow> ListSet elms
      | Nothing \<Rightarrow> Nothing)"
| "Intersect Everything that = that"
| "Intersect Nothing that = Nothing"

fun Union :: "outcome_set \<Rightarrow> outcome_set \<Rightarrow> outcome_set" where
  "Union (ListSet elms) that =
     (case that of
        ListSet elms' \<Rightarrow> ListSet (elms @ filter (\<lambda>x. x \<notin> set elms) elms')
      | Everything \<Rightarrow> Everything
      | Nothing \<Rightarrow> ListSet elms)"
| "Union Everything that = Everything"
| "Union Nothing that = that"

fun IsEmpty :: "outcome_set \<Rightarrow> bool" where
  "IsEmpty (ListSet elms) = (elms = [])"
| "IsEmpty Everything = False"
| "IsEmpty Nothing = True"

text \<open>The set of strings an outcome set stands for.\<close>

fun outcomes_of :: "outcome_set \<Rightarrow> string set" where
  "outcomes_of (ListSet elms) = set elms"
| "outcomes_of Everything = UNIV"
| "outcomes_of Nothing = {}"

lemma outcomes_of_simps [simp]:
  "outcomes_of (Intersect a b) = outcomes_of a \<inter> outcomes_of b"
  "outcomes_of (Union a b) = outcomes_of a \<union> outcomes_of b"
  "IsEmpty a \<longleftrightarrow> outcomes_of a = {}"
  by (cases a; cases b; auto)+

section \<open>Tokenizer\<close>

definition is_alpha_char :: "char \<Rightarrow> bool" where
  "is_alpha_char c \<longleftrightarrow> is_digit c \<or> c = CHR ''_''
     \<or> c \<ge> CHR ''a'' \<and> CHR ''z'' \<ge> c \<or> c \<ge> CHR ''A'' \<and> CHR ''Z'' \<ge> c"

definition IsAlpha :: "string \<Rightarrow> bool" where
  "IsAlpha s = list_all is_alpha_char s"

text \<open>The state of the tokenizer is the rest of the string.\<close>

function Tokenize :: "string \<Rightarrow> string list option" where
  "Tokenize s =
     (if s = [] then Some []
      else let s = dropWhile is_space s
           in if s = [] then None
              else if hd s \<in> {CHR ''('', CHR '')'', CHR ''$'', CHR '',''}
              then map_option ((#) [hd s]) (Tokenize (tl s))
              else if is_alpha_char (hd s)
              then map_option ((#) (takeWhile is_alpha_char s)) (Tokenize (dropWhile is_alpha_char s))
              else if take 2 s \<in> {''&&'', ''||'', ''==''}
              then map_option ((#) (take 2 s)) (Tokenize (drop 2 s))
              else None)"
  by pat_completeness auto
termination
proof (relation "measure length", goal_cases)
  case (2 s t)
  from \<open>t \<noteq> []\<close> obtain c cs where t: "t = c # cs" by (metis neq_Nil_conv)
  have "length t \<le> length s" using 2 by (simp add: length_dropWhile_le)
  with t show ?case by simp
next
  case (3 s t)
  from \<open>t \<noteq> []\<close> obtain c cs where t: "t = c # cs" by (metis neq_Nil_conv)
  have "length t \<le> length s" using 3 by (simp add: length_dropWhile_le)
  moreover have "is_alpha_char c" using 3 t by (metis list.sel(1))
  then have "length (dropWhile is_alpha_char t) \<le> length cs" by (simp add: t length_dropWhile_le)
  ultimately show ?case using t by simp
next
  case (4 s t)
  from \<open>t \<noteq> []\<close> obtain c cs where t: "t = c # cs" by (metis neq_Nil_conv)
  have "length t \<le> length s" using 4 by (simp add: length_dropWhile_le)
  with t show ?case by simp
qed simp

declare Tokenize.simps [simp del]

section \<open>Scanner and parser\<close>

text \<open>
  A scanner is the tokens not yet read; \<open>Current\<close> at the end raises. A parser returns an expression
  with the scanner it leaves, or \<open>None\<close>, on which every caller returns too. The first argument
  bounds the nesting of calls and loop iterations.
\<close>

type_synonym parsed = "(expr \<times> string list) option result"

fun Current :: "string list \<Rightarrow> string result" where
  "Current [] = Inl IndexError"
| "Current (t # ts) = Inr t"

definition BINARIES :: "string list" where "BINARIES = [''=='']"
definition LOGICALS :: "string list" where "LOGICALS = [''&&'', ''||'', '','']"

function (sequential) ParseAtomicExpression :: "nat \<Rightarrow> string list \<Rightarrow> parsed"
  and ParseOperatorExpression :: "nat \<Rightarrow> string list \<Rightarrow> parsed"
  and operator_loop :: "nat \<Rightarrow> expr \<Rightarrow> string list \<Rightarrow> parsed"
  and ParseConditionalExpression :: "nat \<Rightarrow> string list \<Rightarrow> parsed"
  and conditional_loop :: "nat \<Rightarrow> expr \<Rightarrow> string list \<Rightarrow> parsed"
  and ParseLogicalExpression :: "nat \<Rightarrow> string list \<Rightarrow> parsed"
  and logical_loop :: "nat \<Rightarrow> expr \<Rightarrow> string list \<Rightarrow> parsed"
where
  "ParseAtomicExpression 0 scan = Inl RecursionLimit"
| "ParseAtomicExpression (Suc n) scan =
     rbind (Current scan) (\<lambda>t.
     if t = ''true'' then Inr (Some (Constant True, tl scan))
     else if t = ''false'' then Inr (Some (Constant False, tl scan))
     else if IsAlpha t then Inr (Some (Outcome (lower t), tl scan))
     else if t = ''$''
     then rbind (Current (tl scan)) (\<lambda>name.
          if \<not> IsAlpha name then Inr None
          else Inr (Some (Variable (lower name), tl (tl scan))))
     else if t = ''(''
     then rbind (ParseLogicalExpression n (tl scan)) (\<lambda>result.
          case result of
            None \<Rightarrow> Inr None
          | Some (e, scan) \<Rightarrow>
              rbind (Current scan) (\<lambda>t. if t \<noteq> '')'' then Inr None else Inr (Some (e, tl scan))))
     else Inr None)"
| "ParseOperatorExpression 0 scan = Inl RecursionLimit"
| "ParseOperatorExpression (Suc n) scan =
     rbind (ParseAtomicExpression n scan) (\<lambda>left.
     case left of None \<Rightarrow> Inr None | Some (left, scan) \<Rightarrow> operator_loop n left scan)"
| "operator_loop 0 left scan = Inl RecursionLimit"
| "operator_loop (Suc n) left scan =
     (if scan = [] \<or> hd scan \<notin> set BINARIES then Inr (Some (left, scan))
      else rbind (ParseOperatorExpression n (tl scan)) (\<lambda>right.
           case right of
             None \<Rightarrow> Inr None
           | Some (right, scan') \<Rightarrow> operator_loop n (Operation left (hd scan) right) scan'))"
| "ParseConditionalExpression 0 scan = Inl RecursionLimit"
| "ParseConditionalExpression (Suc n) scan =
     rbind (ParseOperatorExpression n scan) (\<lambda>left.
     case left of None \<Rightarrow> Inr None | Some (left, scan) \<Rightarrow> conditional_loop n left scan)"
| "conditional_loop 0 left scan = Inl RecursionLimit"
| "conditional_loop (Suc n) left scan =
     (if scan = [] \<or> hd scan \<noteq> ''if'' then Inr (Some (left, scan))
      else rbind (ParseOperatorExpression n (tl scan)) (\<lambda>right.
           case right of
             None \<Rightarrow> Inr None
           | Some (right, scan') \<Rightarrow> conditional_loop n (Operation left ''if'' right) scan'))"
| "ParseLogicalExpression 0 scan = Inl RecursionLimit"
| "ParseLogicalExpression (Suc n) scan =
     rbind (ParseConditionalExpression n scan) (\<lambda>left.
     case left of None \<Rightarrow> Inr None | Some (left, scan) \<Rightarrow> logical_loop n left scan)"
| "logical_loop 0 left scan = Inl RecursionLimit"
| "logical_loop (Suc n) left scan =
     (if scan = [] \<or> hd scan \<notin> set LOGICALS then Inr (Some (left, scan))
      else rbind (ParseConditionalExpression n (tl scan)) (\<lambda>right.
           case right of
             None \<Rightarrow> Inr None
           | Some (right, scan') \<Rightarrow> logical_loop n (Operation left (hd scan) right) scan'))"
  by pat_completeness auto
termination
  by (relation "measure (case_sum (case_sum fst (case_sum fst fst))
      (case_sum (case_sum fst fst) (case_sum fst fst)))") simp_all

text \<open>A bound that is always enough (\<open>ParseCondition_total\<close>).\<close>

definition parse_depth :: "string list \<Rightarrow> nat" where
  "parse_depth tokens = 4 * length tokens + 4"

definition ParseCondition :: "string \<Rightarrow> expr option result" where
  "ParseCondition s =
     (case Tokenize s of
        None \<Rightarrow> Inr None
      | Some [] \<Rightarrow> Inr None
      | Some tokens \<Rightarrow>
          rbind (ParseLogicalExpression (parse_depth tokens) tokens) (\<lambda>result.
          case result of
            None \<Rightarrow> Inr None
          | Some (ast, scan) \<Rightarrow> if scan \<noteq> [] then Inr None else Inr (Some ast)))"

section \<open>The bound is enough\<close>

text \<open>\<open>parse_ok k scan r\<close>: \<open>r\<close> is not the recursion limit, and at least \<open>k\<close> tokens are read.\<close>

definition parse_ok :: "nat \<Rightarrow> string list \<Rightarrow> parsed \<Rightarrow> bool" where
  "parse_ok k scan r \<longleftrightarrow> r \<noteq> Inl RecursionLimit
     \<and> (\<forall>e scan'. r = Inr (Some (e, scan')) \<longrightarrow> length scan' + k \<le> length scan)"

lemma Current_Inl [simp]: "Current scan = Inl e \<longleftrightarrow> scan = [] \<and> e = IndexError"
  by (cases scan) auto

lemma Current_Inr [simp]: "Current scan = Inr t \<longleftrightarrow> scan \<noteq> [] \<and> hd scan = t"
  by (cases scan) auto

lemma parse_ok_bind:
  assumes "parse_ok k scan m"
    and "\<And>e scan'. m = Inr (Some (e, scan')) \<Longrightarrow> length scan' + k \<le> length scan \<Longrightarrow>
           parse_ok j scan' (f e scan')"
  shows "parse_ok (k + j) scan (rbind m (\<lambda>r. case r of None \<Rightarrow> Inr None | Some (e, scan') \<Rightarrow> f e scan'))"
proof (cases m)
  case (Inl e)
  with assms(1) show ?thesis by (simp add: parse_ok_def)
next
  case (Inr r)
  show ?thesis
  proof (cases r)
    case None
    with Inr show ?thesis by (simp add: parse_ok_def)
  next
    case (Some es)
    obtain e scan' where es: "es = (e, scan')" by (cases es)
    with Inr Some assms(1) have "length scan' + k \<le> length scan" by (simp add: parse_ok_def)
    moreover from assms(2) [OF _ this] Inr Some es have "parse_ok j scan' (f e scan')" by simp
    ultimately show ?thesis using Inr Some es by (auto simp: parse_ok_def)
  qed
qed

lemma parse_ok_mono: "parse_ok k scan r \<Longrightarrow> j \<le> k \<Longrightarrow> parse_ok j scan r"
  by (auto simp: parse_ok_def)

lemma parse_ok_tl: "parse_ok k (tl scan) r \<Longrightarrow> scan \<noteq> [] \<Longrightarrow> parse_ok (Suc k) scan r"
  by (cases scan) (auto simp: parse_ok_def)

lemma parse_total:
  "4 * length scan + 1 \<le> n \<Longrightarrow> parse_ok 1 scan (ParseAtomicExpression n scan)"
  "4 * length scan + 2 \<le> n \<Longrightarrow> parse_ok 1 scan (ParseOperatorExpression n scan)"
  "4 * length scan + 1 \<le> n \<Longrightarrow> parse_ok 0 scan (operator_loop n e scan)"
  "4 * length scan + 3 \<le> n \<Longrightarrow> parse_ok 1 scan (ParseConditionalExpression n scan)"
  "4 * length scan + 1 \<le> n \<Longrightarrow> parse_ok 0 scan (conditional_loop n e scan)"
  "4 * length scan + 4 \<le> n \<Longrightarrow> parse_ok 1 scan (ParseLogicalExpression n scan)"
  "4 * length scan + 1 \<le> n \<Longrightarrow> parse_ok 0 scan (logical_loop n e scan)"
proof (induction n scan and n scan and n e scan and n scan and n e scan and n scan and n e scan
    rule: ParseAtomicExpression_ParseOperatorExpression_operator_loop_ParseConditionalExpression_conditional_loop_ParseLogicalExpression_logical_loop.induct)
  case (2 n scan)
  show ?case
  proof (cases "scan \<noteq> [] \<and> hd scan = ''(''")
    case True
    with 2 have "parse_ok 1 (tl scan) (ParseLogicalExpression n (tl scan))"
      by (cases scan) (auto simp: IsAlpha_def is_alpha_char_def is_digit_def)
    then have "parse_ok (1 + 0) (tl scan) (rbind (ParseLogicalExpression n (tl scan)) (\<lambda>r. case r of None \<Rightarrow> Inr None
        | Some (e, scan) \<Rightarrow> rbind (Current scan) (\<lambda>t. if t \<noteq> '')'' then Inr None else Inr (Some (e, tl scan)))))"
      by (rule parse_ok_bind) (auto simp: parse_ok_def rbind_Inl_iff)
    with True have "parse_ok (Suc (1 + 0)) scan (rbind (ParseLogicalExpression n (tl scan)) (\<lambda>r. case r of None \<Rightarrow> Inr None
        | Some (e, scan) \<Rightarrow> rbind (Current scan) (\<lambda>t. if t \<noteq> '')'' then Inr None else Inr (Some (e, tl scan)))))"
      by (intro parse_ok_tl) auto
    moreover have "ParseAtomicExpression (Suc n) scan = rbind (ParseLogicalExpression n (tl scan)) (\<lambda>r. case r of None \<Rightarrow> Inr None
        | Some (e, scan) \<Rightarrow> rbind (Current scan) (\<lambda>t. if t \<noteq> '')'' then Inr None else Inr (Some (e, tl scan))))"
      using True by (cases scan) (auto simp: IsAlpha_def is_alpha_char_def is_digit_def)
    ultimately show ?thesis by (metis parse_ok_mono One_nat_def le_add1 plus_1_eq_Suc add_0_right)
  next
    case False
    then show ?thesis
      by (cases scan; cases "tl scan") (auto simp: parse_ok_def rbind_Inl_iff)
  qed
next
  case (4 n scan)
  then have "parse_ok 1 scan (ParseAtomicExpression n scan)" by simp
  then have "parse_ok (1 + 0) scan (rbind (ParseAtomicExpression n scan)
      (\<lambda>r. case r of None \<Rightarrow> Inr None | Some (left, scan) \<Rightarrow> operator_loop n left scan))"
    by (rule parse_ok_bind) (use 4 in auto)
  then show ?case by simp
next
  case (6 n left scan)
  show ?case
  proof (cases "scan = [] \<or> hd scan \<notin> set BINARIES")
    case True
    then show ?thesis by (auto simp: parse_ok_def)
  next
    case False
    with 6 have "parse_ok 1 (tl scan) (ParseOperatorExpression n (tl scan))" by (cases scan) auto
    then have "parse_ok (1 + 0) (tl scan) (rbind (ParseOperatorExpression n (tl scan))
        (\<lambda>r. case r of None \<Rightarrow> Inr None | Some (right, scan') \<Rightarrow> operator_loop n (Operation left (hd scan) right) scan'))"
      by (rule parse_ok_bind) (use False 6 in \<open>cases scan; auto\<close>)
    with parse_ok_tl [OF this] False show ?thesis by (auto intro: parse_ok_mono)
  qed
next
  case (8 n scan)
  then have "parse_ok 1 scan (ParseOperatorExpression n scan)" by simp
  then have "parse_ok (1 + 0) scan (rbind (ParseOperatorExpression n scan)
      (\<lambda>r. case r of None \<Rightarrow> Inr None | Some (left, scan) \<Rightarrow> conditional_loop n left scan))"
    by (rule parse_ok_bind) (use 8 in auto)
  then show ?case by simp
next
  case (10 n left scan)
  show ?case
  proof (cases "scan = [] \<or> hd scan \<noteq> ''if''")
    case True
    then show ?thesis by (auto simp: parse_ok_def)
  next
    case False
    with 10 have "parse_ok 1 (tl scan) (ParseOperatorExpression n (tl scan))" by (cases scan) auto
    then have "parse_ok (1 + 0) (tl scan) (rbind (ParseOperatorExpression n (tl scan))
        (\<lambda>r. case r of None \<Rightarrow> Inr None | Some (right, scan') \<Rightarrow> conditional_loop n (Operation left ''if'' right) scan'))"
      by (rule parse_ok_bind) (use False 10 in \<open>cases scan; auto\<close>)
    with parse_ok_tl [OF this] False show ?thesis by (auto intro: parse_ok_mono)
  qed
next
  case (12 n scan)
  then have "parse_ok 1 scan (ParseConditionalExpression n scan)" by simp
  then have "parse_ok (1 + 0) scan (rbind (ParseConditionalExpression n scan)
      (\<lambda>r. case r of None \<Rightarrow> Inr None | Some (left, scan) \<Rightarrow> logical_loop n left scan))"
    by (rule parse_ok_bind) (use 12 in auto)
  then show ?case by simp
next
  case (14 n left scan)
  show ?case
  proof (cases "scan = [] \<or> hd scan \<notin> set LOGICALS")
    case True
    then show ?thesis by (auto simp: parse_ok_def)
  next
    case False
    with 14 have "parse_ok 1 (tl scan) (ParseConditionalExpression n (tl scan))" by (cases scan) auto
    then have "parse_ok (1 + 0) (tl scan) (rbind (ParseConditionalExpression n (tl scan))
        (\<lambda>r. case r of None \<Rightarrow> Inr None | Some (right, scan') \<Rightarrow> logical_loop n (Operation left (hd scan) right) scan'))"
      by (rule parse_ok_bind) (use False 14 in \<open>cases scan; auto\<close>)
    with parse_ok_tl [OF this] False show ?thesis by (auto intro: parse_ok_mono)
  qed
qed simp_all

text \<open>
  Parsing ends for every text: the recursive descent never nests deeper than the bound
  \<open>parse_depth\<close>, which is linear in the number of tokens.
\<close>

theorem ParseCondition_total: "ParseCondition s \<noteq> Inl RecursionLimit"
proof (cases "Tokenize s")
  case (Some tokens)
  have "parse_ok 1 tokens (ParseLogicalExpression (parse_depth tokens) tokens)"
    by (rule parse_total) (simp add: parse_depth_def)
  with Some show ?thesis
    by (auto simp: ParseCondition_def parse_ok_def rbind_Inl_iff split: list.splits option.splits if_splits)
qed (simp add: ParseCondition_def)

section \<open>Printing and parsing\<close>

text \<open>Every operation in parentheses; names are in the lower case the parser produces.\<close>

definition operators :: "string list" where
  "operators = [''=='', ''if'', ''&&'', ''||'', '','']"

definition is_name :: "string \<Rightarrow> bool" where
  "is_name s \<longleftrightarrow> s \<noteq> [] \<and> IsAlpha s \<and> lower s = s"

fun printable :: "expr \<Rightarrow> bool" where
  "printable (Constant b) = True"
| "printable (Variable s) = is_name s"
| "printable (Outcome s) = (is_name s \<and> s \<notin> {''true'', ''false''})"
| "printable (Operation l op r) = (printable l \<and> op \<in> set operators \<and> printable r)"

fun render :: "expr \<Rightarrow> string" where
  "render (Constant b) = (if b then ''true'' else ''false'')"
| "render (Variable s) = ''$'' @ s"
| "render (Outcome s) = s"
| "render (Operation l op r) = ''('' @ render l @ '' '' @ op @ '' '' @ render r @ '')''"

fun tokens_of :: "expr \<Rightarrow> string list" where
  "tokens_of (Constant b) = [if b then ''true'' else ''false'']"
| "tokens_of (Variable s) = [''$'', s]"
| "tokens_of (Outcome s) = [s]"
| "tokens_of (Operation l op r) = [''(''] @ tokens_of l @ [op] @ tokens_of r @ ['')'']"

subsection \<open>Tokens of the printed text\<close>

definition ends_word :: "string \<Rightarrow> bool" where
  "ends_word s \<longleftrightarrow> s = [] \<or> \<not> is_alpha_char (hd s)"

lemma alpha_not_special:
  "is_alpha_char c \<Longrightarrow> \<not> is_space c \<and> c \<notin> {CHR ''('', CHR '')'', CHR ''$'', CHR '',''}"
  by (auto simp: is_alpha_char_def is_digit_def is_space_def less_eq_char_def)

lemma Tokenize_Nil: "Tokenize [] = Some []"
  by (simp add: Tokenize.simps)

lemma Tokenize_space: "s \<noteq> [] \<Longrightarrow> Tokenize (CHR '' '' # s) = Tokenize s"
  by (subst (1 2) Tokenize.simps) (simp add: is_space_def)

lemma Tokenize_punct:
  "c \<in> {CHR ''('', CHR '')'', CHR ''$'', CHR '',''} \<Longrightarrow> Tokenize (c # s) = map_option ((#) [c]) (Tokenize s)"
  by (subst Tokenize.simps) (auto simp: is_space_def)

lemma Tokenize_word:
  assumes "w \<noteq> []" and "IsAlpha w" and "ends_word s"
  shows "Tokenize (w @ s) = map_option ((#) w) (Tokenize s)"
proof -
  obtain c cs where w: "w = c # cs" using assms(1) by (cases w) auto
  with assms(2) have c: "is_alpha_char c" by (simp add: IsAlpha_def)
  have tw: "takeWhile is_alpha_char (w @ s) = w" "dropWhile is_alpha_char (w @ s) = s"
    using assms(2,3) by (cases s; auto simp: IsAlpha_def list_all_iff ends_word_def)+
  have ws: "w @ s = c # (cs @ s)" by (simp add: w)
  show ?thesis
    using alpha_not_special [OF c] c tw unfolding ws
    by (subst Tokenize.simps) (simp add: Let_def w)
qed

lemma Tokenize_op:
  "op \<in> {''&&'', ''||'', ''==''} \<Longrightarrow> Tokenize (op @ s) = map_option ((#) op) (Tokenize s)"
  by (subst Tokenize.simps) (auto simp: is_space_def is_alpha_char_def is_digit_def)

lemma Tokenize_operator:
  assumes "op \<in> set operators"
  shows "Tokenize (op @ CHR '' '' # s) = map_option ((#) op) (Tokenize (CHR '' '' # s))"
proof -
  consider "op \<in> {''&&'', ''||'', ''==''}" | "op = ''if''" | "op = '',''"
    using assms by (auto simp: operators_def)
  then show ?thesis
  proof cases
    case 1
    then show ?thesis by (rule Tokenize_op)
  next
    case 2
    then show ?thesis
      by (intro Tokenize_word) (simp_all add: IsAlpha_def is_alpha_char_def is_digit_def ends_word_def)
  next
    case 3
    then show ?thesis using Tokenize_punct [of "CHR '',''"] by simp
  qed
qed

lemma render_nonempty: "printable e \<Longrightarrow> render e \<noteq> []"
  by (cases e) (auto simp: is_name_def)

lemma Tokenize_render:
  "printable e \<Longrightarrow> ends_word s \<Longrightarrow> Tokenize (render e @ s) = map_option ((@) (tokens_of e)) (Tokenize s)"
proof (induction e arbitrary: s)
  case (Constant b)
  have "Tokenize (w @ s) = map_option ((#) w) (Tokenize s)" if "w \<in> {''true'', ''false''}" for w
    by (rule Tokenize_word) (use that Constant in \<open>auto simp: IsAlpha_def is_alpha_char_def is_digit_def\<close>)
  then show ?case by (simp add: option.map_comp comp_def)
next
  case (Variable x)
  have "Tokenize (x @ s) = map_option ((#) x) (Tokenize s)"
    by (rule Tokenize_word) (use Variable in \<open>simp_all add: is_name_def\<close>)
  then show ?case by (simp add: Tokenize_punct option.map_comp comp_def)
next
  case (Outcome x)
  have "Tokenize (x @ s) = map_option ((#) x) (Tokenize s)"
    by (rule Tokenize_word) (use Outcome in \<open>simp_all add: is_name_def\<close>)
  then show ?case by (simp add: option.map_comp comp_def)
next
  case (Operation l op r)
  have sp: "ends_word (CHR '' '' # t)" "ends_word (CHR '')'' # t)" for t
    by (simp_all add: ends_word_def is_alpha_char_def is_digit_def)
  have "op \<noteq> []" using Operation.prems(1) by (auto simp: operators_def)
  then show ?case
    using Operation sp render_nonempty [of r]
    by (simp add: Tokenize_punct Tokenize_space Tokenize_operator option.map_comp comp_def)
qed

subsection \<open>Parsing the tokens\<close>

lemma atomic_paren:
  "ParseAtomicExpression (Suc n) (''('' # scan) =
     rbind (ParseLogicalExpression n scan) (\<lambda>result.
       case result of
         None \<Rightarrow> Inr None
       | Some (e, scan) \<Rightarrow> rbind (Current scan) (\<lambda>t. if t \<noteq> '')'' then Inr None else Inr (Some (e, tl scan))))"
  by (simp add: IsAlpha_def is_alpha_char_def is_digit_def)

lemma atomic_leaf:
  "ParseAtomicExpression (Suc n) ((if b then ''true'' else ''false'') # scan) = Inr (Some (Constant b, scan))"
  "is_name s \<Longrightarrow> ParseAtomicExpression (Suc n) (''$'' # s # scan) = Inr (Some (Variable s, scan))"
  "is_name s \<Longrightarrow> s \<notin> {''true'', ''false''} \<Longrightarrow>
     ParseAtomicExpression (Suc n) (s # scan) = Inr (Some (Outcome s, scan))"
  by (simp_all add: is_name_def) (simp add: IsAlpha_def is_alpha_char_def is_digit_def)

declare ParseAtomicExpression.simps(2) [simp del]

lemma tokens_of_nonempty: "1 \<le> length (tokens_of e)"
  by (cases e) auto

lemma parse_tokens:
  "printable e \<Longrightarrow> 4 * length (tokens_of e) + 1 \<le> n \<Longrightarrow>
   ParseAtomicExpression n (tokens_of e @ rest) = Inr (Some (e, rest))"
proof (induction e arbitrary: n rest)
  case (Operation l op r)
  have len: "4 * length (tokens_of l) + 4 * length (tokens_of r) + 13 \<le> n" using Operation.prems(2) by simp
  define m where "m = n - 9"
  have n: "n = Suc (Suc (Suc (Suc (Suc (Suc (Suc (Suc (Suc m))))))))" using len by (simp add: m_def)
  have l: "ParseAtomicExpression k (tokens_of l @ s) = Inr (Some (l, s))"
    if "4 * length (tokens_of l) + 1 \<le> k" for k s
    using Operation that by auto
  have r: "ParseAtomicExpression k (tokens_of r @ s) = Inr (Some (r, s))"
    if "4 * length (tokens_of r) + 1 \<le> k" for k s
    using Operation that by auto
  have bounds: "4 * length (tokens_of l) \<le> m" "4 * length (tokens_of r) \<le> m"
    using len tokens_of_nonempty [of r] tokens_of_nonempty [of l] n by simp_all
  have "op \<in> set operators" using Operation.prems(1) by simp
  then consider "op = ''==''" | "op = ''if''" | "op \<in> {''&&'', ''||'', '',''}"
    by (auto simp: operators_def)
  then show ?case
  proof cases
    case 1
    then show ?thesis
      using bounds by (simp add: n atomic_paren l r BINARIES_def LOGICALS_def)
  next
    case 2
    then show ?thesis
      using bounds by (simp add: n atomic_paren l r BINARIES_def LOGICALS_def)
  next
    case 3
    then have "op \<notin> set BINARIES" "op \<noteq> ''if''" "op \<in> set LOGICALS"
      by (auto simp: BINARIES_def LOGICALS_def)
    then show ?thesis
      using bounds by (simp add: n atomic_paren l r) (simp add: BINARIES_def LOGICALS_def)
  qed
next
  case (Constant b)
  then obtain m where "n = Suc m" by (cases n) auto
  then show ?case using atomic_leaf(1) [of m b rest] by (cases b) simp_all
next
  case (Variable s)
  then obtain m where "n = Suc m" by (cases n) auto
  with Variable show ?case by (simp add: atomic_leaf)
next
  case (Outcome s)
  then obtain m where "n = Suc m" by (cases n) auto
  with Outcome show ?case by (simp add: atomic_leaf)
qed

lemma parse_render:
  assumes "printable e"
  shows "ParseCondition (render e) = Inr (Some e)"
proof -
  let ?ts = "tokens_of e"
  have toks: "Tokenize (render e) = Some ?ts"
    using Tokenize_render [OF assms, of "[]"] by (simp add: ends_word_def Tokenize_Nil)
  obtain m where m: "parse_depth ?ts = Suc (Suc (Suc m))" "4 * length ?ts + 1 \<le> m"
    by (simp add: parse_depth_def)
  have "ParseAtomicExpression m (?ts @ []) = Inr (Some (e, []))" by (rule parse_tokens [OF assms m(2)])
  moreover have "m \<noteq> 0" using m(2) by simp
  then obtain k where "m = Suc k" by (cases m) auto
  ultimately have "ParseLogicalExpression (parse_depth ?ts) ?ts = Inr (Some (e, []))"
    by (simp add: m(1))
  with toks show ?thesis
    using tokens_of_nonempty [of e] by (auto simp: ParseCondition_def split: list.splits)
qed

text \<open>
  C10: printing an expression with every operation in parentheses and parsing the text gives the
  expression back, through the tokenizer and the parser.
\<close>

theorem ParseCondition_render:
  assumes "printable e"
  shows "ParseCondition (render e) = Inr (Some e)"
  using assms by (rule parse_render)

theorem ParseCondition_render_witness:
  "ParseCondition ''((fail , (skip if ($mode == debug))) || pass)''
   = Inr (Some (Operation (Operation (Outcome ''fail'') '',''
       (Operation (Outcome ''skip'') ''if'' (Operation (Variable ''mode'') ''=='' (Outcome ''debug''))))
       ''||'' (Outcome ''pass'')))"
proof -
  let ?e = "Operation (Operation (Outcome ''fail'') '',''
       (Operation (Outcome ''skip'') ''if'' (Operation (Variable ''mode'') ''=='' (Outcome ''debug''))))
       ''||'' (Outcome ''pass'')"
  have "printable ?e" "render ?e = ''((fail , (skip if ($mode == debug))) || pass)''" by code_simp+
  from ParseCondition_render [OF this(1)] this(2) show ?thesis by simp
qed

end
