(* ===== verification/Test_Config.thy ===== *)
theory Test_Config
  imports Test_Expr
begin

text \<open>
  \<open>tools/test.py\<close>: evaluation of status-file expressions, rules and the classification of tests
  (\<open>Evaluate\<close>, \<open>GetOutcomes\<close>, \<open>Rule\<close>, \<open>Configuration.ClassifyTests\<close>).

  A path component of a rule is a \<open>Pattern\<close>, whose \<open>match\<close> is the regular-expression engine's: the
  parameter \<open>re_match\<close> takes the text of the expression and a name.
\<close>

type_synonym env = "(string \<times> string) list"
type_synonym defs = "(string \<times> expr) list"
type_synonym re_match = "string \<Rightarrow> string \<Rightarrow> bool"

section \<open>Evaluate and GetOutcomes\<close>

text \<open>
  A definition may refer to itself, so the calls may not end: the first argument is the recursion
  depth left. \<open>Constant\<close> has no \<open>GetOutcomes\<close>; \<open>Variable\<close> and \<open>Outcome\<close> have no \<open>Evaluate\<close>.
\<close>

function (sequential) GetOutcomes :: "nat \<Rightarrow> env \<Rightarrow> defs \<Rightarrow> expr \<Rightarrow> outcome_set result"
  and Evaluate :: "nat \<Rightarrow> env \<Rightarrow> defs \<Rightarrow> expr \<Rightarrow> bool result"
where
  "GetOutcomes 0 env defs e = Inl RecursionLimit"
| "GetOutcomes (Suc n) env defs e =
     (case e of
        Constant b \<Rightarrow> Inl (AttributeError ''GetOutcomes'')
      | Variable name \<Rightarrow> Inr (case map_of env name of Some v \<Rightarrow> ListSet [v] | None \<Rightarrow> Nothing)
      | Outcome name \<Rightarrow>
          (case map_of defs name of
             Some d \<Rightarrow> GetOutcomes n env defs d
           | None \<Rightarrow> Inr (ListSet [name]))
      | Operation left op right \<Rightarrow>
          if op = ''||'' \<or> op = '',''
          then rbind (GetOutcomes n env defs left) (\<lambda>a.
               rbind (GetOutcomes n env defs right) (\<lambda>b. Inr (Union a b)))
          else if op = ''if''
          then rbind (Evaluate n env defs right) (\<lambda>c.
               if c then GetOutcomes n env defs left else Inr Nothing)
          else if op = ''&&''
          then rbind (GetOutcomes n env defs left) (\<lambda>a.
               rbind (GetOutcomes n env defs right) (\<lambda>b. Inr (Intersect a b)))
          else Inl AssertionError)"
| "Evaluate 0 env defs e = Inl RecursionLimit"
| "Evaluate (Suc n) env defs e =
     (case e of
        Constant b \<Rightarrow> Inr b
      | Variable name \<Rightarrow> Inl (AttributeError ''Evaluate'')
      | Outcome name \<Rightarrow> Inl (AttributeError ''Evaluate'')
      | Operation left op right \<Rightarrow>
          if op = ''||'' \<or> op = '',''
          then rbind (Evaluate n env defs left) (\<lambda>a. if a then Inr True else Evaluate n env defs right)
          else if op = ''if'' then Inr False
          else if op = ''==''
          then rbind (GetOutcomes n env defs left) (\<lambda>a.
               rbind (GetOutcomes n env defs right) (\<lambda>b. Inr (\<not> IsEmpty (Intersect a b))))
          else if op = ''&&''
          then rbind (Evaluate n env defs left) (\<lambda>a. if a then Evaluate n env defs right else Inr False)
          else Inl AssertionError)"
  by pat_completeness auto
termination
  by (relation "measure (case_sum fst fst)") simp_all

declare GetOutcomes.simps(2) [simp del] Evaluate.simps(2) [simp del]

section \<open>What an expression means\<close>

text \<open>
  The meaning over sets of strings, with \<open>dm\<close> the meaning of a name; \<open>solves\<close> says that \<open>dm\<close>
  agrees with the definitions.
\<close>

fun meaning :: "env \<Rightarrow> (string \<Rightarrow> string set) \<Rightarrow> expr \<Rightarrow> string set"
  and holds :: "env \<Rightarrow> (string \<Rightarrow> string set) \<Rightarrow> expr \<Rightarrow> bool"
where
  "meaning env dm (Constant b) = {}"
| "meaning env dm (Variable x) = (case map_of env x of Some v \<Rightarrow> {v} | None \<Rightarrow> {})"
| "meaning env dm (Outcome x) = dm x"
| "meaning env dm (Operation l op r) =
     (if op = ''||'' \<or> op = '','' then meaning env dm l \<union> meaning env dm r
      else if op = ''if'' then (if holds env dm r then meaning env dm l else {})
      else meaning env dm l \<inter> meaning env dm r)"
| "holds env dm (Constant b) = b"
| "holds env dm (Variable x) = False"
| "holds env dm (Outcome x) = False"
| "holds env dm (Operation l op r) =
     (if op = ''||'' \<or> op = '','' then holds env dm l \<or> holds env dm r
      else if op = ''if'' then False
      else if op = ''=='' then meaning env dm l \<inter> meaning env dm r \<noteq> {}
      else holds env dm l \<and> holds env dm r)"

definition solves :: "env \<Rightarrow> defs \<Rightarrow> (string \<Rightarrow> string set) \<Rightarrow> bool" where
  "solves env defs dm \<longleftrightarrow>
     (\<forall>x. dm x = (case map_of defs x of Some d \<Rightarrow> meaning env dm d | None \<Rightarrow> {x}))"

lemma evaluation_meaning:
  assumes "solves env defs dm"
  shows "GetOutcomes n env defs e = Inr s \<Longrightarrow> outcomes_of s = meaning env dm e"
    and "Evaluate n env defs e = Inr b \<Longrightarrow> b \<longleftrightarrow> holds env dm e"
proof (induction n arbitrary: e s b)
  case (Suc n)
  {
    case 1
    show ?case
    proof (cases e)
      case (Outcome x)
      have "dm x = (case map_of defs x of Some d \<Rightarrow> meaning env dm d | None \<Rightarrow> {x})"
        using assms by (simp only: solves_def)
      with 1 Outcome Suc.IH(1) show ?thesis
        by (cases "map_of defs x") (auto simp: GetOutcomes.simps(2))
    next
      case (Operation l op r)
      with 1 Suc.IH show ?thesis by (auto simp: GetOutcomes.simps(2) split: if_splits)
    qed (use 1 in \<open>auto simp: GetOutcomes.simps(2) split: option.splits\<close>)
  next
    case 2
    show ?case
    proof (cases e)
      case (Operation l op r)
      with 2 Suc.IH show ?thesis by (auto simp: Evaluate.simps(2) split: if_splits)
    qed (use 2 in \<open>auto simp: Evaluate.simps(2)\<close>)
  }
qed simp_all

section \<open>Well-formed expressions evaluate\<close>

text \<open>Which expressions stand for outcomes, and which for conditions.\<close>

fun is_value :: "expr \<Rightarrow> bool" and is_condition :: "expr \<Rightarrow> bool" where
  "is_value (Constant b) = False"
| "is_value (Variable x) = True"
| "is_value (Outcome x) = True"
| "is_value (Operation l op r) =
     (if op = ''if'' then is_value l \<and> is_condition r
      else op \<in> {''||'', '','', ''&&''} \<and> is_value l \<and> is_value r)"
| "is_condition (Constant b) = True"
| "is_condition (Variable x) = False"
| "is_condition (Outcome x) = False"
| "is_condition (Operation l op r) =
     (if op = ''=='' then is_value l \<and> is_value r
      else op = ''if'' \<or> op \<in> {''||'', '','', ''&&''} \<and> is_condition l \<and> is_condition r)"

definition values_only :: "defs \<Rightarrow> bool" where
  "values_only defs \<longleftrightarrow> (\<forall>x d. map_of defs x = Some d \<longrightarrow> is_value d)"

lemma well_formed_evaluation:
  assumes "values_only defs"
  shows "is_value e \<Longrightarrow> GetOutcomes n env defs e = Inl err \<Longrightarrow> err = RecursionLimit"
    and "is_condition e \<Longrightarrow> Evaluate n env defs e = Inl err \<Longrightarrow> err = RecursionLimit"
proof (induction n arbitrary: e)
  case (Suc n)
  {
    case 1
    show ?case
    proof (cases e)
      case (Outcome x)
      with 1 Suc.IH(1) assms show ?thesis
        by (auto simp: GetOutcomes.simps(2) values_only_def split: option.splits)
    next
      case (Operation l op r)
      with 1 Suc.IH show ?thesis
        by (auto simp: GetOutcomes.simps(2) rbind_Inl_iff split: if_splits)
    qed (use 1 in \<open>auto simp: GetOutcomes.simps(2)\<close>)
  next
    case 2
    show ?case
    proof (cases e)
      case (Operation l op r)
      with 2 Suc.IH show ?thesis
        by (auto simp: Evaluate.simps(2) rbind_Inl_iff split: if_splits)
    qed (use 2 in \<open>auto simp: Evaluate.simps(2)\<close>)
  }
qed simp_all

text \<open>The names an expression reads, and a rank that falls along the definitions.\<close>

fun outcome_names :: "expr \<Rightarrow> string set" where
  "outcome_names (Outcome x) = {x}"
| "outcome_names (Operation l op r) = outcome_names l \<union> outcome_names r"
| "outcome_names e = {}"

definition ranked :: "(string \<Rightarrow> nat) \<Rightarrow> defs \<Rightarrow> bool" where
  "ranked rank defs \<longleftrightarrow>
     (\<forall>x d y d'. map_of defs x = Some d \<longrightarrow> y \<in> outcome_names d \<longrightarrow> map_of defs y = Some d' \<longrightarrow> rank y < rank x)"

definition evaluates :: "env \<Rightarrow> defs \<Rightarrow> expr \<Rightarrow> bool" where
  "evaluates env defs e \<longleftrightarrow>
     (\<exists>n. \<forall>m \<ge> n. GetOutcomes m env defs e \<noteq> Inl RecursionLimit \<and> Evaluate m env defs e \<noteq> Inl RecursionLimit)"

lemma evaluates_Suc:
  assumes "\<And>m. n \<le> m \<Longrightarrow> GetOutcomes (Suc m) env defs e \<noteq> Inl RecursionLimit
      \<and> Evaluate (Suc m) env defs e \<noteq> Inl RecursionLimit"
  shows "evaluates env defs e"
  unfolding evaluates_def using assms by (intro exI [of _ "Suc n"]) (metis Suc_le_D Suc_le_mono)

lemma evaluates_expr:
  assumes "\<And>x d. x \<in> outcome_names e \<Longrightarrow> map_of defs x = Some d \<Longrightarrow> evaluates env defs d"
  shows "evaluates env defs e"
  using assms
proof (induction e)
  case (Constant b)
  show ?case by (rule evaluates_Suc) (simp add: GetOutcomes.simps(2) Evaluate.simps(2))
next
  case (Variable x)
  show ?case by (rule evaluates_Suc) (simp add: GetOutcomes.simps(2) Evaluate.simps(2))
next
  case (Outcome x)
  show ?case
  proof (cases "map_of defs x")
    case None
    then show ?thesis by (intro evaluates_Suc) (simp add: GetOutcomes.simps(2) Evaluate.simps(2))
  next
    case (Some d)
    with Outcome have "evaluates env defs d" by simp
    then obtain n where "\<forall>m \<ge> n. GetOutcomes m env defs d \<noteq> Inl RecursionLimit"
      unfolding evaluates_def by blast
    with Some show ?thesis by (intro evaluates_Suc [of n]) (simp add: GetOutcomes.simps(2) Evaluate.simps(2))
  qed
next
  case (Operation l op r)
  then have "evaluates env defs l" "evaluates env defs r" by auto
  then obtain n1 n2 where n: "\<forall>m \<ge> n1. GetOutcomes m env defs l \<noteq> Inl RecursionLimit \<and> Evaluate m env defs l \<noteq> Inl RecursionLimit"
    "\<forall>m \<ge> n2. GetOutcomes m env defs r \<noteq> Inl RecursionLimit \<and> Evaluate m env defs r \<noteq> Inl RecursionLimit"
    unfolding evaluates_def by blast
  show ?case
    by (rule evaluates_Suc [of "max n1 n2"])
      (use n in \<open>auto simp: GetOutcomes.simps(2) Evaluate.simps(2) rbind_Inl_iff split: if_splits\<close>)
qed

lemma ranked_evaluates:
  assumes "ranked rank defs"
  shows "map_of defs x = Some d \<Longrightarrow> evaluates env defs d"
proof (induction "rank x" arbitrary: x d rule: less_induct)
  case less
  show ?case
  proof (rule evaluates_expr)
    fix y d' assume "y \<in> outcome_names d" "map_of defs y = Some d'"
    with less.prems assms have "rank y < rank x" unfolding ranked_def by blast
    then show "evaluates env defs d'" using less.hyps \<open>map_of defs y = Some d'\<close> by blast
  qed
qed

text \<open>
  With definitions that do not refer back to themselves, some recursion depth is enough, and so is
  every larger one.
\<close>

lemma value_evaluates:
  assumes "ranked rank defs" and "values_only defs" and "is_value e"
  shows "\<exists>n. \<forall>m \<ge> n. \<exists>s. GetOutcomes m env defs e = Inr s"
proof -
  have "evaluates env defs e" by (rule evaluates_expr) (rule ranked_evaluates [OF assms(1)])
  then obtain n where n: "\<forall>m \<ge> n. GetOutcomes m env defs e \<noteq> Inl RecursionLimit"
    by (auto simp: evaluates_def)
  have "\<exists>s. GetOutcomes m env defs e = Inr s" if "n \<le> m" for m
    using n that well_formed_evaluation(1) [OF assms(2,3)] by (cases "GetOutcomes m env defs e") auto
  then show ?thesis by blast
qed

lemma condition_evaluates:
  assumes "ranked rank defs" and "values_only defs" and "is_condition e"
  shows "\<exists>n. \<forall>m \<ge> n. \<exists>b. Evaluate m env defs e = Inr b"
proof -
  have "evaluates env defs e" by (rule evaluates_expr) (rule ranked_evaluates [OF assms(1)])
  then obtain n where n: "\<forall>m \<ge> n. Evaluate m env defs e \<noteq> Inl RecursionLimit"
    by (auto simp: evaluates_def)
  have "\<exists>b. Evaluate m env defs e = Inr b" if "n \<le> m" for m
    using n that well_formed_evaluation(2) [OF assms(2,3)] by (cases "Evaluate m env defs e") auto
  then show ?thesis by blast
qed

text \<open>
  C6: with definitions that do not refer back to themselves, a well-formed value evaluates, from some
  recursion depth on, to exactly the set of outcomes it means, and a well-formed condition to its
  truth value; neither raises.
\<close>

theorem evaluation_correct:
  assumes "ranked rank defs" and "values_only defs" and "solves env defs dm"
    and "is_value v" and "is_condition c"
  shows "\<exists>n. \<forall>m \<ge> n. (\<exists>s. GetOutcomes m env defs v = Inr s \<and> outcomes_of s = meaning env dm v)
    \<and> Evaluate m env defs c = Inr (holds env dm c)"
proof -
  obtain i j where i: "\<forall>m \<ge> i. \<exists>s. GetOutcomes m env defs v = Inr s"
    and j: "\<forall>m \<ge> j. \<exists>b. Evaluate m env defs c = Inr b"
    using value_evaluates [OF assms(1,2,4)] condition_evaluates [OF assms(1,2,5)] by blast
  have "(\<exists>s. GetOutcomes m env defs v = Inr s \<and> outcomes_of s = meaning env dm v)
    \<and> Evaluate m env defs c = Inr (holds env dm c)" if "max i j \<le> m" for m
  proof -
    from i j that obtain s b where "GetOutcomes m env defs v = Inr s" "Evaluate m env defs c = Inr b"
      by fastforce
    with evaluation_meaning [OF assms(3)] show ?thesis by blast
  qed
  then show ?thesis by blast
qed

definition ex_defs :: defs where
  "ex_defs = [(''flaky'', Operation (Outcome ''pass'') '','' (Outcome ''fail''))]"

theorem evaluation_witness:
  "\<exists>n. \<forall>m \<ge> n. (\<exists>s. GetOutcomes m [(''mode'', ''debug'')] ex_defs (Outcome ''flaky'') = Inr s
      \<and> outcomes_of s = {''pass'', ''fail''})
    \<and> Evaluate m [(''mode'', ''debug'')] ex_defs (Operation (Variable ''mode'') ''=='' (Outcome ''debug'')) = Inr True"
proof -
  let ?dm = "\<lambda>x. if x = ''flaky'' then {''pass'', ''fail''} else {x}"
  have defs: "ranked (\<lambda>x. 0) ex_defs" "values_only ex_defs"
    by (auto simp: ranked_def values_only_def ex_defs_def)
  have solves: "solves [(''mode'', ''debug'')] ex_defs ?dm" by (auto simp: solves_def ex_defs_def)
  have "is_value (Outcome ''flaky'')"
    "is_condition (Operation (Variable ''mode'') ''=='' (Outcome ''debug''))" by simp_all
  from evaluation_correct [OF defs solves this] show ?thesis by simp
qed

section \<open>Patterns and paths\<close>

text \<open>
  A pattern that is no regular expression raises an error in Python when it is first compiled; the
  parameter \<open>re_match\<close> has an answer for every text, so here the patterns are understood to be valid.
\<close>

text \<open>\<open>"^" + self.pattern.replace('*', '.*') + "$"\<close>\<close>

definition pattern_text :: "string \<Rightarrow> string" where
  "pattern_text pattern =
     ''^'' @ concat (map (\<lambda>c. if c = CHR ''*'' then ''.*'' else [c]) pattern) @ ''$''"

definition pattern_match :: "re_match \<Rightarrow> string \<Rightarrow> string \<Rightarrow> bool" where
  "pattern_match re pattern name = re (pattern_text pattern) name"

definition SplitPath :: "string \<Rightarrow> string list" where
  "SplitPath s = filter (\<lambda>c. c \<noteq> []) (map strip (split_on CHR ''/'' s))"

fun CarCdr :: "'a list \<Rightarrow> 'a option \<times> 'a list" where
  "CarCdr [] = (None, [])"
| "CarCdr (x # xs) = (Some x, xs)"

text \<open>\<open>Rule.Contains\<close> and \<open>TestConfiguration.Contains\<close> are the same loop.\<close>

definition path_contains :: "re_match \<Rightarrow> string list \<Rightarrow> string list \<Rightarrow> bool" where
  "path_contains re patterns path =
     (if length path < length patterns then False
      else list_all (\<lambda>i. pattern_match re (patterns ! i) (path ! i)) [0..<length patterns])"

lemma path_contains_iff:
  "path_contains re patterns path \<longleftrightarrow>
     (\<exists>front rest. path = front @ rest \<and> list_all2 (pattern_match re) patterns front)"
proof
  assume c: "path_contains re patterns path"
  then have "length patterns \<le> length path" by (simp add: path_contains_def split: if_splits)
  with c have "list_all2 (pattern_match re) patterns (take (length patterns) path)"
    by (auto simp: path_contains_def list_all2_conv_all_nth list_all_iff split: if_splits)
  then show "\<exists>front rest. path = front @ rest \<and> list_all2 (pattern_match re) patterns front"
    by (metis append_take_drop_id)
next
  assume "\<exists>front rest. path = front @ rest \<and> list_all2 (pattern_match re) patterns front"
  then obtain front rest where "path = front @ rest" "list_all2 (pattern_match re) patterns front" by blast
  then show "path_contains re patterns path"
    by (auto simp: path_contains_def list_all_iff list_all2_conv_all_nth nth_append)
qed

section \<open>Rules, sections and classification\<close>

record rule =
  raw_path :: string
  rule_path :: "string list"
  rule_value :: expr

text \<open>A section whose header does not parse has the condition \<open>None\<close>.\<close>

record test_section =
  sec_condition :: "expr option"
  sec_rules :: "rule list"

record configuration =
  conf_sections :: "test_section list"
  conf_defs :: defs

definition rule_outcomes :: "nat \<Rightarrow> env \<Rightarrow> defs \<Rightarrow> rule \<Rightarrow> string list result" where
  "rule_outcomes n env defs rule =
     rbind (GetOutcomes n env defs (rule_value rule)) (\<lambda>s.
     case s of ListSet elms \<Rightarrow> Inr elms | _ \<Rightarrow> Inl AssertionError)"

definition rule_contains :: "re_match \<Rightarrow> rule \<Rightarrow> string list \<Rightarrow> bool" where
  "rule_contains re rule path = path_contains re (rule_path rule) path"

definition section_enabled :: "nat \<Rightarrow> env \<Rightarrow> defs \<Rightarrow> test_section \<Rightarrow> bool result" where
  "section_enabled n env defs s =
     (case sec_condition s of
        None \<Rightarrow> Inl (AttributeError ''Evaluate'')
      | Some c \<Rightarrow> Evaluate n env defs c)"

text \<open>
  Rules are objects, so \<open>unused_rules\<close> is about positions in \<open>all_rules\<close>. Sets of outcomes are lists
  with no duplicate.
\<close>

definition classify_case ::
  "nat \<Rightarrow> re_match \<Rightarrow> env \<Rightarrow> defs \<Rightarrow> rule list \<Rightarrow> string list
   \<Rightarrow> (string list \<times> string list) list \<times> nat list \<times> string list
   \<Rightarrow> ((string list \<times> string list) list \<times> nat list \<times> string list) result" where
  "classify_case n re env defs all_rules path = (\<lambda>(result, unused_rules, all_outcomes).
     let matches = filter (\<lambda>i. rule_contains re (all_rules ! i) path) [0..<length all_rules]
     in rbind (rfold (\<lambda>i (outcomes, unused_rules).
                rbind (rule_outcomes n env defs (all_rules ! i)) (\<lambda>elms.
                Inr (fold List.insert elms outcomes, removeAll i unused_rules)))
                matches ([], unused_rules))
          (\<lambda>(outcomes, unused_rules).
           let outcomes = (if outcomes = [] then [''pass''] else outcomes)
           in Inr (result @ [(path, outcomes)], unused_rules, fold List.insert outcomes all_outcomes)))"

definition ClassifyTests ::
  "nat \<Rightarrow> re_match \<Rightarrow> configuration \<Rightarrow> string list list \<Rightarrow> env
   \<Rightarrow> ((string list \<times> string list) list \<times> rule list \<times> string list) result" where
  "ClassifyTests n re conf cases env =
     rbind (rfilter (section_enabled n env (conf_defs conf)) (conf_sections conf)) (\<lambda>enabled.
     let all_rules = concat (map sec_rules enabled)
     in rbind (rfold (classify_case n re env (conf_defs conf) all_rules) cases
                ([], [0..<length all_rules], []))
          (\<lambda>(result, unused_rules, all_outcomes).
           Inr (result, map (\<lambda>i. all_rules ! i) unused_rules, all_outcomes)))"

section \<open>What classification computes\<close>

lemma distinct_fold_insert: "distinct ys \<Longrightarrow> distinct (fold List.insert xs ys)"
  by (induction xs arbitrary: ys) auto

definition matching :: "re_match \<Rightarrow> rule list \<Rightarrow> string list \<Rightarrow> nat set" where
  "matching re rules path = {i. i < length rules \<and> rule_contains re (rules ! i) path}"

text \<open>The outcomes the matching rules expect, and \<open>pass\<close> where they expect none.\<close>

definition expected :: "re_match \<Rightarrow> env \<Rightarrow> (string \<Rightarrow> string set) \<Rightarrow> rule list \<Rightarrow> string list \<Rightarrow> string set" where
  "expected re env dm rules path =
     (let os = (\<Union>i \<in> matching re rules path. meaning env dm (rule_value (rules ! i)))
      in if os = {} then {''pass''} else os)"

lemma rule_outcomes_meaning:
  assumes "solves env defs dm" and "rule_outcomes n env defs rule = Inr elms"
  shows "set elms = meaning env dm (rule_value rule)"
proof -
  from assms(2) obtain s where s: "GetOutcomes n env defs (rule_value rule) = Inr s"
    "(case s of ListSet elms \<Rightarrow> Inr elms | _ \<Rightarrow> Inl AssertionError) = Inr elms"
    by (auto simp: rule_outcomes_def)
  then have "GetOutcomes n env defs (rule_value rule) = Inr (ListSet elms)" by (cases s) auto
  from evaluation_meaning(1) [OF assms(1) this] show ?thesis by simp
qed

lemma classify_matches:
  assumes "rfold (\<lambda>i (outcomes, unused).
      rbind (rule_outcomes n env defs (rules ! i)) (\<lambda>elms.
      Inr (fold List.insert elms outcomes, removeAll i unused))) ms (os, un) = Inr (os', un')"
    and "solves env defs dm"
  shows "set os' = set os \<union> (\<Union>i \<in> set ms. meaning env dm (rule_value (rules ! i)))
    \<and> set un' = set un - set ms"
  using assms(1)
proof (induction ms arbitrary: os un)
  case (Cons i ms)
  then obtain elms where e: "rule_outcomes n env defs (rules ! i) = Inr elms"
    "rfold (\<lambda>i (outcomes, unused).
      rbind (rule_outcomes n env defs (rules ! i)) (\<lambda>elms.
      Inr (fold List.insert elms outcomes, removeAll i unused))) ms
      (fold List.insert elms os, removeAll i un) = Inr (os', un')" by auto
  from Cons.IH [OF e(2)] rule_outcomes_meaning [OF assms(2) e(1)] show ?case
    by (auto simp: set_fold_insert)
qed simp

lemma classify_case_Inr:
  assumes "classify_case n re env defs rules path (res, un, all) = Inr (res', un', all')"
    and "solves env defs dm"
  shows "\<exists>os. res' = res @ [(path, os)] \<and> set os = expected re env dm rules path
    \<and> set un' = set un - matching re rules path \<and> set all' = set all \<union> set os"
proof -
  let ?ms = "filter (\<lambda>i. rule_contains re (rules ! i) path) [0..<length rules]"
  from assms(1) obtain os un1 where 1: "rfold (\<lambda>i (outcomes, unused).
      rbind (rule_outcomes n env defs (rules ! i)) (\<lambda>elms.
      Inr (fold List.insert elms outcomes, removeAll i unused))) ?ms ([], un) = Inr (os, un1)"
    "res' = res @ [(path, if os = [] then [''pass''] else os)]" "un' = un1"
    "all' = fold List.insert (if os = [] then [''pass''] else os) all"
    by (auto simp: classify_case_def Let_def)
  have ms: "set ?ms = matching re rules path" by (auto simp: matching_def)
  from classify_matches [OF 1(1) assms(2)] have
    "set os = (\<Union>i \<in> matching re rules path. meaning env dm (rule_value (rules ! i)))"
    "set un1 = set un - matching re rules path" unfolding ms by auto
  moreover from this(1) have "os = [] \<longleftrightarrow> (\<Union>i \<in> matching re rules path. meaning env dm (rule_value (rules ! i))) = {}"
    by (metis set_empty)
  ultimately show ?thesis
    using 1(2-4) by (cases "os = []") (simp_all add: expected_def Let_def set_fold_insert Un_commute)
qed

lemma classify_cases_Inr:
  assumes "solves env (conf_defs conf) dm"
  shows "rfold (classify_case n re env (conf_defs conf) rules) cs (res, un0, all0) = Inr (res', un', all') \<Longrightarrow>
    \<exists>more. res' = res @ more \<and> map fst more = cs \<and> (\<forall>(path, os) \<in> set more. set os = expected re env dm rules path)
      \<and> set un' = set un0 - (\<Union>path \<in> set cs. matching re rules path)
      \<and> set all' = set all0 \<union> (\<Union>path \<in> set cs. expected re env dm rules path)"
proof (induction cs arbitrary: res un0 all0)
  case (Cons c cs)
  then obtain res1 un1 all1 where 1: "classify_case n re env (conf_defs conf) rules c (res, un0, all0) = Inr (res1, un1, all1)"
    "rfold (classify_case n re env (conf_defs conf) rules) cs (res1, un1, all1) = Inr (res', un', all')" by auto
  from classify_case_Inr [OF 1(1) assms] obtain os where
    os: "res1 = res @ [(c, os)]" "set os = expected re env dm rules c"
      "set un1 = set un0 - matching re rules c" "set all1 = set all0 \<union> set os" by blast
  from Cons.IH [OF 1(2)] obtain more where ih: "res' = res1 @ more" "map fst more = cs"
    "\<forall>(path, os) \<in> set more. set os = expected re env dm rules path"
    "set un' = set un1 - (\<Union>path \<in> set cs. matching re rules path)"
    "set all' = set all1 \<union> (\<Union>path \<in> set cs. expected re env dm rules path)"
    by (elim exE conjE) (rule that)
  have "set un' = set un0 - (\<Union>path \<in> set (c # cs). matching re rules path)"
    unfolding ih(4) os(3) by (simp add: Diff_eq Int_assoc Compl_Un)
  moreover have "set all' = set all0 \<union> (\<Union>path \<in> set (c # cs). expected re env dm rules path)"
    unfolding ih(5) os(4) os(2) by (simp add: Un_assoc)
  ultimately show ?case
    by - (rule exI [of _ "(c, os) # more"], intro conjI, simp_all add: ih(1-3) os(1,2))
qed simp

lemma enabled_sections:
  assumes "rfilter (section_enabled n env (conf_defs conf)) sections = Inr enabled"
    and "solves env (conf_defs conf) dm"
  shows "enabled = filter (\<lambda>s. \<exists>c. sec_condition s = Some c \<and> holds env dm c) sections"
  unfolding rfilter_Inr [OF assms(1)]
proof (rule filter_cong)
  fix s assume "s \<in> set sections"
  with rfilter_all [OF assms(1)] obtain b where b: "section_enabled n env (conf_defs conf) s = Inr b" by blast
  then obtain c where c: "sec_condition s = Some c" "Evaluate n env (conf_defs conf) c = Inr b"
    by (auto simp: section_enabled_def split: option.splits)
  with evaluation_meaning(2) [OF assms(2) c(2)] b
  show "section_enabled n env (conf_defs conf) s = Inr True \<longleftrightarrow> (\<exists>c. sec_condition s = Some c \<and> holds env dm c)" by simp
qed simp

text \<open>
  C4: classification. The rules in force are those of the sections whose condition holds; every test
  case, in order, gets the outcomes that its matching rules mean, and \<open>pass\<close> where they mean none; the
  unused rules are those that match no case; and the last result collects all expected outcomes.
\<close>

theorem ClassifyTests_outcomes:
  assumes "ClassifyTests n re conf cases env = Inr (result, unused, all)"
    and "solves env (conf_defs conf) dm"
  shows "\<exists>rules. rules = concat (map sec_rules
        (filter (\<lambda>s. \<exists>c. sec_condition s = Some c \<and> holds env dm c) (conf_sections conf)))
    \<and> map fst result = cases
    \<and> (\<forall>(path, os) \<in> set result. set os = expected re env dm rules path)
    \<and> set unused = {rules ! i | i. i < length rules \<and> (\<forall>path \<in> set cases. \<not> rule_contains re (rules ! i) path)}
    \<and> set all = (\<Union>path \<in> set cases. expected re env dm rules path)"
proof -
  let ?defs = "conf_defs conf"
  from assms(1) obtain enabled un where e: "rfilter (section_enabled n env ?defs) (conf_sections conf) = Inr enabled"
    "rfold (classify_case n re env ?defs (concat (map sec_rules enabled))) cases
       ([], [0..<length (concat (map sec_rules enabled))], []) = Inr (result, un, all)"
    "unused = map (\<lambda>i. concat (map sec_rules enabled) ! i) un"
    by (auto simp: ClassifyTests_def Let_def)
  define rules where "rules = concat (map sec_rules enabled)"
  from enabled_sections [OF e(1) assms(2)]
  have rules: "rules = concat (map sec_rules
      (filter (\<lambda>s. \<exists>c. sec_condition s = Some c \<and> holds env dm c) (conf_sections conf)))"
    by (simp add: rules_def)
  from classify_cases_Inr [OF assms(2) e(2) [folded rules_def]] have done': "map fst result = cases"
    "\<forall>(path, os) \<in> set result. set os = expected re env dm rules path"
    "set un = {0..<length rules} - (\<Union>path \<in> set cases. matching re rules path)"
    "set all = (\<Union>path \<in> set cases. expected re env dm rules path)" by auto
  have un: "set un = {i. i < length rules \<and> (\<forall>path \<in> set cases. \<not> rule_contains re (rules ! i) path)}"
    unfolding done'(3) matching_def by auto
  have unused: "set unused = {rules ! i | i. i < length rules \<and> (\<forall>path \<in> set cases. \<not> rule_contains re (rules ! i) path)}"
    by (simp add: e(3) rules_def [symmetric] un image_Collect)
  show ?thesis by (rule exI [of _ rules]) (intro conjI rules done'(1,2,4) unused)
qed

section \<open>Examples\<close>

text \<open>A regular-expression engine for patterns with no star: literal text.\<close>

definition ex_re :: re_match where
  "ex_re text name \<longleftrightarrow> text = ''^'' @ name @ ''$''"

definition ex_conf :: configuration where
  "ex_conf = \<lparr>conf_sections = [\<lparr>sec_condition = Some (Constant True), sec_rules =
       [\<lparr>raw_path = ''a/b'', rule_path = [''a'', ''b''], rule_value = Outcome ''fail''\<rparr>,
        \<lparr>raw_path = ''c'', rule_path = [''c''], rule_value = Outcome ''skip''\<rparr>]\<rparr>],
     conf_defs = []\<rparr>"

theorem ClassifyTests_witness:
  "\<exists>rules. length rules = 2
    \<and> set [''fail''] = expected ex_re [] (\<lambda>x. {x}) rules [''a'', ''b'']
    \<and> set [''pass''] = expected ex_re [] (\<lambda>x. {x}) rules [''d'']"
proof -
  let ?c = "\<lparr>raw_path = ''c'', rule_path = [''c''], rule_value = Outcome ''skip''\<rparr>"
  have run: "ClassifyTests 3 ex_re ex_conf [[''a'', ''b''], [''d'']] []
    = Inr ([([''a'', ''b''], [''fail'']), ([''d''], [''pass''])], [?c], [''pass'', ''fail''])"
    by code_simp
  have "solves [] (conf_defs ex_conf) (\<lambda>x. {x})" by (simp add: solves_def ex_conf_def)
  from ClassifyTests_outcomes [OF run this] obtain rules where
    rules: "rules = concat (map sec_rules
        (filter (\<lambda>s. \<exists>c. sec_condition s = Some c \<and> holds [] (\<lambda>x. {x}) c) (conf_sections ex_conf)))"
      "\<forall>(path, os) \<in> set [([''a'', ''b''], [''fail'']), ([''d''], [''pass''])].
         set os = expected ex_re [] (\<lambda>x. {x}) rules path" by blast
  from rules(1) have "length rules = 2" by (simp add: ex_conf_def)
  with rules(2) show ?thesis by (intro exI [of _ rules] conjI) simp_all
qed

text \<open>
  A rule whose value is conditional raises an assertion error as soon as its condition is false:
  \<open>Nothing\<close> is no \<open>ListSet\<close>. So a line such as \<open>test: SKIP if $mode == debug\<close> stops the whole
  classification in any other mode.
\<close>

theorem rule_outcomes_conditional:
  assumes "Evaluate n env defs c = Inr False" and "rule_value rule = Operation v ''if'' c"
  shows "rule_outcomes (Suc n) env defs rule = Inl AssertionError"
  using assms by (simp add: rule_outcomes_def GetOutcomes.simps)

theorem rule_outcomes_conditional_witness:
  "rule_outcomes (Suc 5) [(''mode'', ''release'')] []
     \<lparr>raw_path = ''t'', rule_path = [''t''],
      rule_value = Operation (Outcome ''skip'') ''if'' (Operation (Variable ''mode'') ''=='' (Outcome ''debug''))\<rparr>
   = Inl AssertionError"
proof (rule rule_outcomes_conditional)
  show "Evaluate 5 [(''mode'', ''release'')] [] (Operation (Variable ''mode'') ''=='' (Outcome ''debug'')) = Inr False"
    by code_simp
qed simp

end
