(* ===== verification/Test_Status.thy ===== *)
theory Test_Status
  imports Test_Config Test_Output
begin

text \<open>
  \<open>tools/test.py\<close>: reading a status file (\<open>ReadConfigurationInto\<close>). The four regular expressions are
  small enough to be written out; each theorem about them is about the text of a line. Reading ends
  with \<open>True\<close>, or with \<open>False\<close> at the first line that makes no sense, and what has been read before
  that line stays in the sections and definitions.
\<close>

section \<open>The four patterns\<close>

text \<open>\<open>\[([^]]+)\]\<close>\<close>

definition header_match :: "string \<Rightarrow> string option" where
  "header_match line =
     (if line \<noteq> [] \<and> hd line = CHR ''[''
      then let g = takeWhile (\<lambda>c. c \<noteq> CHR '']'') (tl line)
           in if g \<noteq> [] \<and> length g < length (tl line) then Some g else None
      else None)"

text \<open>\<open>\s*([^: ]*)\s*:(.*)\<close>\<close>

definition rule_match :: "string \<Rightarrow> (string \<times> string) option" where
  "rule_match line =
     (let s = dropWhile is_space line;
          g = takeWhile (\<lambda>c. c \<noteq> CHR '':'' \<and> c \<noteq> CHR '' '') s;
          r = dropWhile is_space (drop (length g) s)
      in if r \<noteq> [] \<and> hd r = CHR '':'' then Some (g, takeWhile (\<lambda>c. c \<noteq> CHR 0x0A) (tl r)) else None)"

text \<open>\<open>$\<close> matches at the end and before a final line break.\<close>

definition at_end :: "string \<Rightarrow> bool" where
  "at_end s \<longleftrightarrow> s = [] \<or> s = [CHR 0x0A]"

text \<open>\<open>^def\s*(\w+)\s*=(.*)$\<close>\<close>

definition def_match :: "string \<Rightarrow> (string \<times> string) option" where
  "def_match line =
     (if prefix ''def'' line
      then let s = dropWhile is_space (drop 3 line);
               n = takeWhile is_alpha_char s;
               r = dropWhile is_space (drop (length n) s);
               v = takeWhile (\<lambda>c. c \<noteq> CHR 0x0A) (tl r)
           in if n \<noteq> [] \<and> r \<noteq> [] \<and> hd r = CHR ''='' \<and> at_end (drop (length v) (tl r)) then Some (n, v) else None
      else None)"

definition is_path_char :: "char \<Rightarrow> bool" where
  "is_path_char c \<longleftrightarrow> is_alpha_char c \<or> c \<in> {CHR ''.'', CHR ''-'', CHR ''/''}"

text \<open>\<open>^\s*prefix\s+([\w\_\.\-\/]+)$\<close>\<close>

definition prefix_match :: "string \<Rightarrow> string option" where
  "prefix_match line =
     (let s = dropWhile is_space line; r = drop 6 s; p = dropWhile is_space r; g = takeWhile is_path_char p
      in if prefix ''prefix'' s \<and> r \<noteq> [] \<and> is_space (hd r) \<and> g \<noteq> [] \<and> at_end (drop (length g) p)
         then Some g else None)"

section \<open>Reading\<close>

record reader =
  r_sections :: "test_section list"
  r_defs :: defs
  r_prefix :: "string list"

definition new_section :: "expr option \<Rightarrow> reader \<Rightarrow> reader" where
  "new_section condition r = r\<lparr>r_sections := r_sections r @ [\<lparr>sec_condition = condition, sec_rules = []\<rparr>]\<rparr>"

text \<open>The current section is the one added last.\<close>

definition AddRule :: "rule \<Rightarrow> reader \<Rightarrow> reader" where
  "AddRule rule r =
     (let s = last (r_sections r)
      in r\<lparr>r_sections := butlast (r_sections r) @ [s\<lparr>sec_rules := sec_rules s @ [rule]\<rparr>]\<rparr>)"

fun read_lines :: "string list \<Rightarrow> reader \<Rightarrow> (bool \<times> reader) result" where
  "read_lines [] r = Inr (True, r)"
| "read_lines (line # lines) r =
     (case header_match line of
        Some g \<Rightarrow> rbind (ParseCondition (strip g)) (\<lambda>condition. read_lines lines (new_section condition r))
      | None \<Rightarrow>
     (case rule_match line of
        Some (g, v) \<Rightarrow>
          rbind (ParseCondition (strip v)) (\<lambda>value.
          case value of
            None \<Rightarrow> Inr (False, r)
          | Some e \<Rightarrow> read_lines lines
              (AddRule \<lparr>raw_path = g, rule_path = r_prefix r @ SplitPath (strip g), rule_value = e\<rparr> r))
      | None \<Rightarrow>
     (case def_match line of
        Some (n, v) \<Rightarrow>
          rbind (ParseCondition (strip v)) (\<lambda>value.
          case value of
            None \<Rightarrow> Inr (False, r)
          | Some e \<Rightarrow> read_lines lines (r\<lparr>r_defs := AList.update (lower n) e (r_defs r)\<rparr>))
      | None \<Rightarrow>
     (case prefix_match line of
        Some p \<Rightarrow> read_lines lines (r\<lparr>r_prefix := SplitPath (strip p)\<rparr>)
      | None \<Rightarrow> Inr (False, r)))))"

definition ReadConfigurationInto ::
  "string list \<Rightarrow> test_section list \<Rightarrow> defs \<Rightarrow> (bool \<times> test_section list \<times> defs) result"
where
  "ReadConfigurationInto contents sections defs =
     rbind (read_lines (ReadLinesFrom contents)
              (new_section (Some (Constant True)) \<lparr>r_sections = sections, r_defs = defs, r_prefix = []\<rparr>))
       (\<lambda>(ok, r). Inr (ok, r_sections r, r_defs r))"

section \<open>Status files\<close>

text \<open>What a status file says, line by line, and the text of each line.\<close>

datatype status =
    Prefix "string list"
  | Header expr
  | RuleLine "string list" expr
  | DefLine string expr

fun status_text :: "status \<Rightarrow> string" where
  "status_text (Prefix p) = ''prefix '' @ join ''/'' p"
| "status_text (Header e) = CHR ''['' # render e @ '']''"
| "status_text (RuleLine p e) = join ''/'' p @ '': '' @ render e"
| "status_text (DefLine n e) = ''def '' @ n @ '' = '' @ render e"

text \<open>Components of paths: no separators, no white space, nothing that starts a comment or a header.\<close>

definition is_component :: "string \<Rightarrow> bool" where
  "is_component s \<longleftrightarrow> s \<noteq> [] \<and> list_all (\<lambda>c. \<not> is_space c \<and> c \<notin> {CHR '':'', CHR ''/'', CHR ''['', CHR ''#''}) s"

fun wf_status :: "status \<Rightarrow> bool" where
  "wf_status (Prefix p) = (p \<noteq> [] \<and> list_all (\<lambda>s. is_component s \<and> list_all is_path_char s) p)"
| "wf_status (Header e) = printable e"
| "wf_status (RuleLine p e) = (p \<noteq> [] \<and> list_all is_component p \<and> printable e)"
| "wf_status (DefLine n e) = (n \<noteq> [] \<and> IsAlpha n \<and> printable e)"

text \<open>What a line means.\<close>

fun status_step :: "status \<Rightarrow> reader \<Rightarrow> reader" where
  "status_step (Prefix p) r = r\<lparr>r_prefix := p\<rparr>"
| "status_step (Header e) r = new_section (Some e) r"
| "status_step (RuleLine p e) r =
     AddRule \<lparr>raw_path = join ''/'' p, rule_path = r_prefix r @ p, rule_value = e\<rparr> r"
| "status_step (DefLine n e) r = r\<lparr>r_defs := AList.update (lower n) e (r_defs r)\<rparr>"

subsection \<open>The text of expressions\<close>

lemma is_space_cases: "is_space c \<Longrightarrow> \<not> is_alpha_char c"
  using alpha_not_special by blast

definition render_char :: "char \<Rightarrow> bool" where
  "render_char c \<longleftrightarrow> is_alpha_char c \<or> c \<in> set ''$() =&|,''"

lemma render_words: "list_all render_char ''true''" "list_all render_char ''false''"
  "list_all (list_all render_char) operators" "render_char CHR ''$''" "render_char CHR ''(''"
  "render_char CHR '')''" "render_char CHR '' ''"
  by code_simp+

lemma render_chars: "printable e \<Longrightarrow> list_all render_char (render e)"
proof (induction e)
  case (Constant b)
  show ?case using render_words by simp
next
  case (Operation l op r)
  from Operation.prems have "op \<in> set operators" by simp
  then have "list_all render_char op" using render_words(3) unfolding list_all_iff [of _ operators] by (rule bspec [rotated])
  with Operation render_words show ?case by simp
qed (use render_words in \<open>auto simp: is_name_def IsAlpha_def list_all_iff render_char_def\<close>)

lemma render_ends:
  assumes "printable e"
  shows "render e \<noteq> []" and "\<not> is_space (hd (render e))" and "\<not> is_space (last (render e))"
proof -
  have w: "s \<noteq> [] \<and> \<not> is_space (hd s) \<and> \<not> is_space (last s)" if "is_name s" for s
  proof -
    from that have "is_alpha_char (hd s)" "is_alpha_char (last s)" "s \<noteq> []"
      by (simp_all add: is_name_def IsAlpha_def list_all_iff)
    with is_space_cases show ?thesis by blast
  qed
  show "render e \<noteq> []" "\<not> is_space (hd (render e))" "\<not> is_space (last (render e))"
    using assms w by (cases e; auto simp: is_space_def)+
qed

lemma dropWhile_start: "list_all P xs \<Longrightarrow> \<not> P y \<Longrightarrow> dropWhile P (xs @ y # ys) = y # ys"
  by (induction xs) auto

lemma takeWhile_stop: "list_all P xs \<Longrightarrow> \<not> P y \<Longrightarrow> takeWhile P (xs @ y # ys) = xs"
  by (induction xs) auto

lemma takeWhile_all: "list_all P xs \<Longrightarrow> takeWhile P xs = xs"
  by (induction xs) auto

lemma strip_between:
  assumes "list_all is_space a" and "list_all is_space b" and "s \<noteq> []" and "\<not> is_space (hd s)" and "\<not> is_space (last s)"
  shows "strip (a @ s @ b) = s"
proof -
  obtain c cs where s: "s = c # cs" using assms(3) by (cases s) auto
  obtain d ds where s': "rev s = d # ds" using assms(3) by (cases "rev s") auto
  then have d: "\<not> is_space d" using assms(5) by (metis hd_rev list.sel(1) rev_is_Nil_conv rev_rev_ident)
  have "dropWhile is_space (a @ s @ b) = s @ b"
    using assms(1,4) dropWhile_start [of is_space a c "cs @ b"] by (simp add: s)
  moreover have "dropWhile is_space (rev b @ rev s) = rev s"
    using assms(2) d dropWhile_start [of is_space "rev b" d ds] by (simp add: s' list_all_iff)
  ultimately show ?thesis by (simp add: strip_def)
qed

lemma strip_value: "printable e \<Longrightarrow> strip ('' '' @ render e) = render e" "printable e \<Longrightarrow> strip (render e) = render e"
  using strip_between [of "'' ''" "[]" "render e"] strip_between [of "[]" "[]" "render e"] render_ends [of e]
  by (simp_all add: is_space_def)

lemma not_render: "\<not> render_char CHR '']''" "\<not> render_char CHR 0x0A"
  by code_simp+

lemma render_not:
  assumes "printable e"
  shows "list_all (\<lambda>c. c \<noteq> CHR '']'') (render e)" "list_all (\<lambda>c. c \<noteq> CHR 0x0A) (render e)"
  using render_chars [OF assms] not_render unfolding list_all_iff by metis+

subsection \<open>Paths\<close>

lemma component_path:
  assumes "list_all is_component p" and "p \<noteq> []"
  shows "join ''/'' p \<noteq> []" and "list_all (\<lambda>c. \<not> is_space c \<and> c \<notin> {CHR '':'', CHR ''['', CHR ''#''}) (join ''/'' p)"
    and "SplitPath (join ''/'' p) = p"
proof -
  have p: "list_all (\<lambda>c. \<not> is_space c \<and> c \<notin> {CHR '':'', CHR ''['', CHR ''#''}) s" "s \<noteq> []" "CHR ''/'' \<notin> set s" "strip s = s"
    if "s \<in> set p" for s
    using assms(1) that by (auto simp: list_all_iff is_component_def intro!: strip_id)
  show "join ''/'' p \<noteq> []" using assms p(2) by (cases p) (auto simp: join_Cons)
  show "list_all (\<lambda>c. \<not> is_space c \<and> c \<notin> {CHR '':'', CHR ''['', CHR ''#''}) (join ''/'' p)"
    using p(1)
  proof (induction p)
    case (Cons s p)
    have "\<not> is_space CHR ''/''" by (simp add: is_space_def)
    with Cons show ?case by (simp add: join_Cons)
  qed simp
  have "map strip p = p" using p(4) by (simp add: map_idI)
  moreover have "filter (\<lambda>c. c \<noteq> []) p = p" using p(2) by (simp add: filter_id_conv)
  ultimately show "SplitPath (join ''/'' p) = p"
    using split_on_join [OF assms(2), of "CHR ''/''"] p(3) by (simp add: SplitPath_def)
qed

lemma strip_path: "list_all is_component p \<Longrightarrow> p \<noteq> [] \<Longrightarrow> strip (join ''/'' p) = join ''/'' p"
  using component_path(2) [of p] by (intro strip_id) (auto simp: list_all_iff)

subsection \<open>The patterns on these lines\<close>

lemma header_text: "printable e \<Longrightarrow> header_match (status_text (Header e)) = Some (render e)"
  using render_ends(1) [of e] takeWhile_stop [OF render_not(1), of e "CHR '']''" "[]"]
  by (simp add: header_match_def Let_def)

lemma rule_text:
  assumes "wf_status (RuleLine p e)"
  shows "header_match (status_text (RuleLine p e)) = None"
    and "rule_match (status_text (RuleLine p e)) = Some (join ''/'' p, '' '' @ render e)"
proof -
  let ?g = "join ''/'' p"
  have p: "list_all is_component p" "p \<noteq> []" and e: "printable e" using assms by simp_all
  note g = component_path(1,2) [OF p]
  then obtain c cs where c: "?g = c # cs" "\<not> is_space c" "c \<noteq> CHR ''[''" by (cases ?g) auto
  show "header_match (status_text (RuleLine p e)) = None" using c by (simp add: header_match_def)
  have "list_all (\<lambda>c. c \<noteq> CHR '':'' \<and> c \<noteq> CHR '' '') ?g"
    using g(2) by (auto simp: list_all_iff is_space_def)
  then have take: "takeWhile (\<lambda>c. c \<noteq> CHR '':'' \<and> c \<noteq> CHR '' '') (?g @ CHR '':'' # '' '' @ render e) = ?g"
    by (rule takeWhile_stop) simp
  have "dropWhile is_space (?g @ CHR '':'' # '' '' @ render e) = ?g @ CHR '':'' # '' '' @ render e"
    using c by simp
  with take show "rule_match (status_text (RuleLine p e)) = Some (?g, '' '' @ render e)"
    using takeWhile_all [OF render_not(2) [OF e]] by (simp add: rule_match_def Let_def is_space_def)
qed

lemma def_text:
  assumes "wf_status (DefLine n e)"
  shows "header_match (status_text (DefLine n e)) = None" and "rule_match (status_text (DefLine n e)) = None"
    and "def_match (status_text (DefLine n e)) = Some (n, '' '' @ render e)"
proof -
  obtain c cs where n: "n = c # cs" "is_alpha_char c" "list_all is_alpha_char n" and e: "printable e"
    using assms by (cases n) (auto simp: IsAlpha_def)
  have c: "\<not> is_space c" "c \<noteq> CHR '':''"
    using alpha_not_special [OF n(2)] n(2) by (auto simp: is_alpha_char_def is_digit_def)
  show "header_match (status_text (DefLine n e)) = None" by (simp add: header_match_def)
  show "rule_match (status_text (DefLine n e)) = None" using c by (simp add: rule_match_def Let_def n(1) is_space_def)
  have "takeWhile is_alpha_char (n @ CHR '' '' # ''= '' @ render e) = n"
    using n(3) by (rule takeWhile_stop) (simp add: is_alpha_char_def is_digit_def)
  then show "def_match (status_text (DefLine n e)) = Some (n, '' '' @ render e)"
    using c n(1) by (simp add: def_match_def Let_def is_space_def at_end_def takeWhile_all [OF render_not(2) [OF e]])
qed

lemma prefix_text:
  assumes "wf_status (Prefix p)"
  shows "header_match (status_text (Prefix p)) = None" and "rule_match (status_text (Prefix p)) = None"
    and "def_match (status_text (Prefix p)) = None" and "prefix_match (status_text (Prefix p)) = Some (join ''/'' p)"
proof -
  let ?g = "join ''/'' p"
  have p: "list_all is_component p" "p \<noteq> []" and chars: "list_all (list_all is_path_char) p"
    using assms by (auto simp: list_all_iff)
  note g = component_path(1,2) [OF p]
  then obtain c cs where c: "?g = c # cs" "\<not> is_space c" "c \<noteq> CHR '':''" by (cases ?g) auto
  have "list_all is_path_char ?g"
    using chars by (induction p) (auto simp: join_Cons is_path_char_def)
  from takeWhile_all [OF this] show "prefix_match (status_text (Prefix p)) = Some ?g"
    using c by (simp add: prefix_match_def Let_def at_end_def is_space_def)
  show "header_match (status_text (Prefix p)) = None" "def_match (status_text (Prefix p)) = None"
    by (simp_all add: header_match_def def_match_def)
  show "rule_match (status_text (Prefix p)) = None" using c by (simp add: rule_match_def Let_def is_space_def)
qed

section \<open>Writing and reading a status file\<close>

definition status_lines :: "status list \<Rightarrow> reader \<Rightarrow> reader" where
  "status_lines ls r = fold status_step ls r"

lemma read_line:
  assumes "wf_status l"
  shows "read_lines (status_text l # lines) r = read_lines lines (status_step l r)"
proof (cases l)
  case (Prefix p)
  then have "SplitPath (strip (join ''/'' p)) = p"
    using assms component_path(3) [of p] strip_path [of p] by (auto simp: list_all_iff)
  with prefix_text [of p] assms Prefix show ?thesis by simp
next
  case (Header e)
  with assms header_text [of e] strip_value(2) [of e] parse_render [of e] show ?thesis by simp
next
  case (RuleLine p e)
  then have "SplitPath (strip (join ''/'' p)) = p" using assms component_path(3) [of p] strip_path [of p] by simp
  with rule_text [of p e] assms RuleLine strip_value(1) [of e] parse_render [of e] show ?thesis by simp
next
  case (DefLine n e)
  with def_text [of n e] assms strip_value(1) [of e] parse_render [of e] show ?thesis by simp
qed

text \<open>
  C37: reading a status file gives back what it says. A file whose lines, without comments and empty
  lines, are the texts of prefixes, headers, rules and definitions is read to the end, and adds the
  sections with their rules in order, each rule under the prefix in force, and the definitions, the
  last of a name winning. Everything else of the sections and definitions handed in stays.
\<close>

theorem ReadConfigurationInto_text:
  assumes "ReadLinesFrom contents = map status_text ls" and "list_all wf_status ls"
  shows "ReadConfigurationInto contents sections defs =
    (let r = status_lines ls (new_section (Some (Constant True)) \<lparr>r_sections = sections, r_defs = defs, r_prefix = []\<rparr>)
     in Inr (True, r_sections r, r_defs r))"
proof -
  have "read_lines (map status_text ls) r = Inr (True, status_lines ls r)" for r
    using assms(2) by (induction ls arbitrary: r) (simp_all add: read_line status_lines_def del: read_lines.simps(2))
  with assms(1) show ?thesis by (simp add: ReadConfigurationInto_def Let_def)
qed

definition ex_status :: "status list" where
  "ex_status = [Prefix [''simple''], RuleLine [''test-a*''] (Operation (Outcome ''pass'') '','' (Outcome ''fail'')),
     Header (Operation (Variable ''system'') ''=='' (Outcome ''linux'')), DefLine ''Known'' (Outcome ''fail''),
     RuleLine [''test-b''] (Outcome ''known'')]"

definition ex_status_file :: "string list" where
  "ex_status_file = [''prefix simple'', [], ''# a comment'', ''  test-a*: (pass , fail)  # flaky'',
     ''[($system == linux)]'', ''def Known = fail'', ''test-b: known'']"

theorem ReadConfigurationInto_witness:
  "ReadConfigurationInto ex_status_file [] [] =
     Inr (True,
       [\<lparr>sec_condition = Some (Constant True),
          sec_rules = [\<lparr>raw_path = ''test-a*'', rule_path = [''simple'', ''test-a*''],
                         rule_value = Operation (Outcome ''pass'') '','' (Outcome ''fail'')\<rparr>]\<rparr>,
        \<lparr>sec_condition = Some (Operation (Variable ''system'') ''=='' (Outcome ''linux'')),
          sec_rules = [\<lparr>raw_path = ''test-b'', rule_path = [''simple'', ''test-b''], rule_value = Outcome ''known''\<rparr>]\<rparr>],
       [(''known'', Outcome ''fail'')])"
proof -
  have "ReadLinesFrom ex_status_file = map status_text ex_status" "list_all wf_status ex_status" by code_simp+
  from ReadConfigurationInto_text [OF this, of "[]" "[]"] show ?thesis
    by (simp add: status_lines_def ex_status_def new_section_def AddRule_def Let_def) code_simp
qed

end
