(* ===== verification/Test_Suite.thy ===== *)
theory Test_Suite
  imports Test_Status Test_Progress Py_Path "HOL-Library.List_Lexorder"
begin

text \<open>
  \<open>tools/test.py\<close>: the suites (\<open>LiteralTestSuite\<close>, \<open>TestRepository\<close>), the options and what \<open>Main\<close> makes
  of them, with the configuration of the suite in \<open>test/simple\<close>.

  A repository's module \<open>testcfg\<close> is loaded at run time: the methods of its configuration are the
  fields of \<open>repository\<close>, and \<open>simple_repository\<close> has those of \<open>test/simple\<close>. The list of the files in a
  directory, \<open>urllib.unquote\<close> and the existence of files are parameters.
\<close>

section \<open>Suites\<close>

record repository =
  repo_name :: string
  repo_tests :: "string list \<Rightarrow> string list \<Rightarrow> string \<Rightarrow> test_case list"
  repo_requirements :: "string list"
  repo_status :: "test_section list \<Rightarrow> defs \<Rightarrow> (test_section list \<times> defs) result"

definition VARIANT_FLAGS :: "string list list" where
  "VARIANT_FLAGS = [[]]"

text \<open>The flags of the variant are not part of a case: there is one variant, and it has none.\<close>

definition AddTestsToList :: "repository \<Rightarrow> string list \<Rightarrow> string list \<Rightarrow> string \<Rightarrow> test_case list \<Rightarrow> test_case list" where
  "AddTestsToList repo current_path path mode result =
     fold (\<lambda>v result. result @ repo_tests repo current_path path mode) VARIANT_FLAGS result"

definition GetName :: "test_case \<Rightarrow> string" where
  "GetName c = last (case_path c)"

definition suite_selected :: "re_match \<Rightarrow> string list \<Rightarrow> repository \<Rightarrow> bool" where
  "suite_selected re path test =
     (case fst (CarCdr path) of None \<Rightarrow> True | Some name \<Rightarrow> pattern_match re name (repo_name test))"

definition GetBuildRequirements :: "re_match \<Rightarrow> repository list \<Rightarrow> string list \<Rightarrow> string list" where
  "GetBuildRequirements re tests path =
     fold (\<lambda>test result. if suite_selected re path test then result @ repo_requirements test else result) tests []"

definition ListTests :: "re_match \<Rightarrow> repository list \<Rightarrow> string list \<Rightarrow> string list \<Rightarrow> string \<Rightarrow> test_case list" where
  "ListTests re tests current_path path mode =
     sort_key GetName
       (fold (\<lambda>test result.
          if suite_selected re path test
          then AddTestsToList test (current_path @ [repo_name test]) path mode result else result) tests [])"

definition GetTestStatus :: "repository list \<Rightarrow> test_section list \<Rightarrow> defs \<Rightarrow> (test_section list \<times> defs) result" where
  "GetTestStatus tests sections defs = rfold (\<lambda>test (sections, defs). repo_status test sections defs) tests (sections, defs)"

section \<open>The suite test/simple\<close>

definition SelectTest :: "string \<Rightarrow> bool" where
  "SelectTest name \<longleftrightarrow> prefix ''test-'' name \<and> suffix ''.js'' name"

definition Ls :: "string list \<Rightarrow> string list" where
  "Ls files = map (\<lambda>f. take (length f - 3) f) (filter SelectTest files)"

text \<open>A case keeps its file; \<open>files\<close> is the content of the directory.\<close>

definition simple_tests ::
  "re_match \<Rightarrow> string list \<Rightarrow> string list \<Rightarrow> string list \<Rightarrow> string \<Rightarrow> test_case list"
where
  "simple_tests re files current_path path mode =
     (let all_tests = map (\<lambda>t. current_path @ [t]) (Ls files)
      in map (\<lambda>test. (base_case test mode)\<lparr>case_label := mode @ '' '' @ last test\<rparr>)
           (filter (path_contains re path) all_tests))"

definition test_file :: "string \<Rightarrow> string list \<Rightarrow> string" where
  "test_file dir test = path_join dir (foldl path_join [] (tl test) @ ''.js'')"

text \<open>The answer of \<open>ReadConfigurationInto\<close>, \<open>False\<close> for a file that makes no sense, is dropped.\<close>

definition simple_status ::
  "string list option \<Rightarrow> test_section list \<Rightarrow> defs \<Rightarrow> (test_section list \<times> defs) result"
where
  "simple_status status_file sections defs =
     (case status_file of
        None \<Rightarrow> Inr (sections, defs)
      | Some contents \<Rightarrow> rbind (ReadConfigurationInto contents sections defs) (\<lambda>(_, r). Inr r))"

definition simple_repository :: "re_match \<Rightarrow> string \<Rightarrow> string list \<Rightarrow> string list option \<Rightarrow> repository" where
  "simple_repository re name files status_file =
     \<lparr>repo_name = name, repo_tests = simple_tests re files, repo_requirements = [''sample'', ''sample=shell''],
      repo_status = simple_status status_file\<rparr>"

text \<open>\<open>//\s+Flags:(.*)\<close> and \<open>//\s+Files:(.*)\<close>, searched for in the source.\<close>

definition comment_at :: "string \<Rightarrow> string \<Rightarrow> string option" where
  "comment_at key s =
     (let w = takeWhile is_space (drop 2 s); t = drop (2 + length w) s
      in if prefix ''//'' s \<and> w \<noteq> [] \<and> prefix key t
         then Some (takeWhile (\<lambda>c. c \<noteq> CHR 0x0A) (drop (length key) t)) else None)"

fun comment_search :: "string \<Rightarrow> string \<Rightarrow> string option" where
  "comment_search key [] = None"
| "comment_search key (c # s) =
     (case comment_at key (c # s) of Some g \<Rightarrow> Some g | None \<Rightarrow> comment_search key s)"

text \<open>\<open>s.split()\<close>\<close>

fun split_ws :: "string \<Rightarrow> string list" where
  "split_ws [] = []"
| "split_ws (c # s) =
     (if is_space c then split_ws s
      else if s = [] \<or> is_space (hd s) then [c] # split_ws s
      else (case split_ws s of [] \<Rightarrow> [[c]] | w # ws \<Rightarrow> (c # w) # ws))"

definition words_of :: "string \<Rightarrow> string \<Rightarrow> string list" where
  "words_of key source = (case comment_search key source of None \<Rightarrow> [] | Some g \<Rightarrow> split_ws (strip g))"

definition GetCommand :: "string \<Rightarrow> string \<Rightarrow> string \<Rightarrow> string \<Rightarrow> string list" where
  "GetCommand vm dir file source =
     [vm] @ words_of ''Flags:'' source
     @ map (\<lambda>f. path_join (path_join (dirname dir) ''..'') f) (words_of ''Files:'' source) @ [file]"

section \<open>Options\<close>

record options =
  mode_option :: string
  modes :: "string list"
  arch :: string
  simulator :: string
  snapshot :: bool
  scons_flags :: "string list"
  special_command :: "string option"
  use_http1 :: bool
  valgrind :: bool

text \<open>
  \<open>None\<close> is the answer \<open>False\<close>. \<open>guess\<close> is what \<open>utils.GuessArchitecture\<close> found; where it is
  \<open>None\<close> the concatenation raises.
\<close>

definition ProcessOptions :: "string option \<Rightarrow> options \<Rightarrow> options option result" where
  "ProcessOptions guess opts =
     (let opts = opts\<lparr>modes := split_on CHR '','' (mode_option opts)\<rparr>;
          ok = (\<lambda>opts. Inr (Some (if snapshot opts then opts\<lparr>scons_flags := scons_flags opts @ [''snapshot=on'']\<rparr> else opts)))
      in if \<not> list_all (\<lambda>mode. mode \<in> {''debug'', ''release''}) (modes opts) then Inr None
         else if simulator opts \<noteq> ''none''
         then if simulator opts \<noteq> arch opts \<and> arch opts \<noteq> ''none'' then Inr None
              else let opts = opts\<lparr>arch := simulator opts\<rparr>
                   in ok (opts\<lparr>scons_flags := scons_flags opts @ [''simulator='' @ simulator opts]\<rparr>)
         else case (if arch opts = ''none'' then guess else Some (arch opts)) of
                None \<Rightarrow> Inl (TypeError ''cannot concatenate'')
              | Some a \<Rightarrow> ok (opts\<lparr>arch := a, scons_flags := scons_flags opts @ [''arch='' @ a]\<rparr>))"

definition GetSpecialCommandProcessor :: "(string \<Rightarrow> string) \<Rightarrow> string option \<Rightarrow> string list \<Rightarrow> string list" where
  "GetSpecialCommandProcessor unquote special args =
     (case special of
        None \<Rightarrow> args
      | Some v \<Rightarrow>
          if CHR ''@'' \<notin> set v then args
          else split_ws (unquote (takeWhile (\<lambda>c. c \<noteq> CHR ''@'') v)) @ args
               @ split_ws (unquote (tl (dropWhile (\<lambda>c. c \<noteq> CHR ''@'') v))))"

definition command_processor :: "(string \<Rightarrow> string) \<Rightarrow> string \<Rightarrow> options \<Rightarrow> string list \<Rightarrow> string list" where
  "command_processor unquote work_dir opts =
     (let special = (if valgrind opts
                     then Some (''python -u '' @ path_join (path_join work_dir ''tools'') ''run-valgrind.py'' @ '' @'')
                     else special_command opts);
          p = GetSpecialCommandProcessor unquote special
      in if use_http1 opts then (\<lambda>args. p (take 1 args @ [''--use-http1''] @ drop 1 args)) else p)"

section \<open>Main\<close>

definition BUILT_IN_TESTS :: "string list" where
  "BUILT_IN_TESTS = [''simple'', ''pummel'', ''message'', ''internet'', ''gc'']"

definition test_paths :: "string list \<Rightarrow> string list list" where
  "test_paths args = (if length args = 0 then map SplitPath BUILT_IN_TESTS else map SplitPath args)"

text \<open>
  \<open>os\<close> is what \<open>utils.GuessOS\<close> found; an unknown system leaves the model. \<open>vm_exists\<close> tells for
  each mode whether the executable is there.
\<close>

definition mode_env :: "string option \<Rightarrow> options \<Rightarrow> string \<Rightarrow> env result" where
  "mode_env os opts mode =
     (case os of
        None \<Rightarrow> Inl (NotModelled ''unknown system'')
      | Some os \<Rightarrow> Inr [(''mode'', mode), (''system'', os), (''arch'', arch opts), (''simulator'', simulator opts)])"

definition with_outcomes :: "test_case list \<Rightarrow> (string list \<times> string list) list \<Rightarrow> test_case list" where
  "with_outcomes cases result = map2 (\<lambda>c (_, outcomes). c\<lparr>case_outcomes := outcomes\<rparr>) cases result"

definition collect_mode ::
  "nat \<Rightarrow> re_match \<Rightarrow> configuration \<Rightarrow> repository list \<Rightarrow> string option \<Rightarrow> options \<Rightarrow> (string \<Rightarrow> bool)
   \<Rightarrow> string list \<Rightarrow> string \<Rightarrow> test_case list \<Rightarrow> test_case list result"
where
  "collect_mode n re conf tests os opts vm_exists path mode all_cases =
     (if \<not> vm_exists mode then Inr all_cases
      else rbind (mode_env os opts mode) (\<lambda>env.
           let test_list = ListTests re tests [] path mode
           in rbind (ClassifyTests n re conf (map case_path test_list) env) (\<lambda>(result, _, _).
              Inr (all_cases @ with_outcomes test_list result))))"

definition collect_cases ::
  "nat \<Rightarrow> re_match \<Rightarrow> configuration \<Rightarrow> repository list \<Rightarrow> string option \<Rightarrow> options \<Rightarrow> (string \<Rightarrow> bool)
   \<Rightarrow> string list list \<Rightarrow> test_case list result"
where
  "collect_cases n re conf tests os opts vm_exists paths =
     rfold (\<lambda>path. rfold (collect_mode n re conf tests os opts vm_exists path) (modes opts)) paths []"

definition DoSkip :: "test_case \<Rightarrow> bool" where
  "DoSkip c \<longleftrightarrow> ''skip'' \<in> set (case_outcomes c) \<or> ''slow'' \<in> set (case_outcomes c)"

definition cases_to_run :: "test_case list \<Rightarrow> test_case list" where
  "cases_to_run all_cases = filter (\<lambda>c. \<not> DoSkip c) all_cases"

text \<open>
  The exit code; \<open>run\<close> is the verdict of \<open>RunTestCases\<close>, which is asked only if there is something
  to run, and an exception goes on.
\<close>

definition exit_code_of :: "test_case list \<Rightarrow> bool option \<Rightarrow> int option" where
  "exit_code_of all_cases run =
     (if length (cases_to_run all_cases) = 0 then Some 0
      else case run of None \<Rightarrow> None | Some ok \<Rightarrow> Some (if ok then 0 else 1))"

section \<open>The report\<close>

definition IsFlaky :: "string list \<Rightarrow> bool" where
  "IsFlaky os \<longleftrightarrow> ''pass'' \<in> set os \<and> ''fail'' \<in> set os \<and> ''crash'' \<notin> set os \<and> ''okay'' \<notin> set os"

text \<open>The outcomes of a case are a set, so its length is the number of its members.\<close>

definition IsFailOk :: "string list \<Rightarrow> bool" where
  "IsFailOk os \<longleftrightarrow> length (remdups os) = 2 \<and> ''fail'' \<in> set os \<and> ''okay'' \<in> set os"

definition PrintReport :: "test_case list \<Rightarrow> (string \<times> nat) list" where
  "PrintReport cases =
     (let unskipped = filter (\<lambda>c. ''skip'' \<notin> set (case_outcomes c)) cases;
          count = (\<lambda>P. length (filter (\<lambda>c. P (case_outcomes c)) unskipped))
      in [(''total'', length cases), (''skipped'', length cases - length unskipped), (''nocrash'', count IsFlaky),
          (''pass'', count (\<lambda>os. remdups os = [''pass''])), (''fail_ok'', count IsFailOk),
          (''fail'', count (\<lambda>os. remdups os = [''fail'']))])"

section \<open>What the suites select\<close>

lemma ListTests_mset:
  "mset (ListTests re tests current_path path mode) =
    mset (concat (map (\<lambda>test. repo_tests test (current_path @ [repo_name test]) path mode)
      (filter (suite_selected re path) tests)))"
proof -
  have "fold (\<lambda>test result. if suite_selected re path test
          then AddTestsToList test (current_path @ [repo_name test]) path mode result else result) tests acc
      = acc @ concat (map (\<lambda>test. repo_tests test (current_path @ [repo_name test]) path mode)
          (filter (suite_selected re path) tests))" for acc
    by (induction tests arbitrary: acc) (auto simp: AddTestsToList_def VARIANT_FLAGS_def)
  then show ?thesis by (simp add: ListTests_def)
qed

lemma map_filter_concat: "map f (filter P xs) = concat (map (\<lambda>x. if P x then [f x] else []) xs)"
  by (induction xs) auto

lemma concat_map_filter: "concat (map f (filter P xs)) = concat (map (\<lambda>x. if P x then f x else []) xs)"
  by (induction xs) auto

text \<open>
  For a path, \<open>ListTests\<close> over suites of the kind of \<open>test/simple\<close> lists exactly the tests of every
  suite whose path the patterns of the path match, each once, sorted by name. So a path whose first
  pattern matches no suite, or that is longer than the path of a test, selects nothing.
\<close>

theorem ListTests_selects:
  assumes "tests = map (\<lambda>(name, files). simple_repository re name files None) suites"
  shows "sorted (map GetName (ListTests re tests [] path mode))
    \<and> mset (map case_path (ListTests re tests [] path mode)) =
      mset [[name, t]. (name, files) \<leftarrow> suites, t \<leftarrow> Ls files, path_contains re path [name, t]]"
proof -
  have sel: "suite_selected re path (simple_repository re name files None)"
    if "path_contains re path [name, t]" for name files t
    using that by (cases path) (auto simp: suite_selected_def simple_repository_def path_contains_iff list_all2_Cons1)
  have one: "map case_path (if suite_selected re path (simple_repository re name files None)
        then simple_tests re files [name] path mode else [])
      = [[name, t]. t \<leftarrow> Ls files, path_contains re path [name, t]]" for name files
  proof (cases "suite_selected re path (simple_repository re name files None)")
    case True
    then show ?thesis
      by (simp add: simple_tests_def base_case_def comp_def filter_map flip: map_filter_concat)
  next
    case False
    then have "\<not> path_contains re path [name, t]" for t using sel by blast
    with False show ?thesis by simp
  qed
  have "map case_path (concat (map (\<lambda>test. repo_tests test ([] @ [repo_name test]) path mode)
      (filter (suite_selected re path) tests)))
    = concat (map (\<lambda>(name, files). map case_path (if suite_selected re path (simple_repository re name files None)
        then simple_tests re files [name] path mode else [])) suites)"
    unfolding assms concat_map_filter map_concat map_map
    by (rule arg_cong [where f = concat], rule map_cong) (auto simp: simple_repository_def)
  also have "\<dots> = [[name, t]. (name, files) \<leftarrow> suites, t \<leftarrow> Ls files, path_contains re path [name, t]]"
    unfolding one ..
  finally have "mset (map case_path (ListTests re tests [] path mode)) =
      mset [[name, t]. (name, files) \<leftarrow> suites, t \<leftarrow> Ls files, path_contains re path [name, t]]"
    unfolding mset_map ListTests_mset by (metis mset_map)
  then show ?thesis by (simp add: ListTests_def)
qed

definition ex_match :: re_match where
  "ex_match pattern name \<longleftrightarrow> pattern = ''^'' @ name @ ''$'' \<or> pattern = ''^.*$''"

theorem ListTests_witness:
  "mset (map case_path (ListTests ex_match
      [simple_repository ex_match ''simple'' [''test-b.js'', ''README'', ''test-a.js''] None,
       simple_repository ex_match ''gc'' [''test-c.js''] None] [] [''simple'', ''*''] ''release''))
    = mset [[''simple'', ''test-b''], [''simple'', ''test-a'']]"
proof -
  let ?suites = "[(''simple'', [''test-b.js'', ''README'', ''test-a.js'']), (''gc'', [''test-c.js''])]"
  have "[[name, t]. (name, files) \<leftarrow> ?suites, t \<leftarrow> Ls files, path_contains ex_match [''simple'', ''*''] [name, t]]
    = [[''simple'', ''test-b''], [''simple'', ''test-a'']]" by code_simp
  from ListTests_selects [OF refl, of ex_match ?suites "[''simple'', ''*'']" "''release''", THEN conjunct2, unfolded this]
  show ?thesis by (simp only: list.map prod.case)
qed

section \<open>The exit code\<close>

lemma exit_code_zero:
  "exit_code_of all_cases run = Some 0 \<longleftrightarrow> cases_to_run all_cases = [] \<or> run = Some True"
  by (auto simp: exit_code_of_def split: option.splits)

text \<open>
  C36: the exit code is right. If the cases that are not skipped are run by any number of threads in
  any order and nothing raises, then every one of them is run once, and the exit code is 0 exactly
  if there were none or every verdict is among the outcomes that its status files expect.
\<close>

theorem Main_exit_code:
  assumes "(run_step system runs raises)\<^sup>*\<^sup>* (ProgressIndicator (cases_to_run all_cases) tasks) p" and "all_joined p"
    and "honest runs" and "never_raises runs raises"
  shows "mset (map out_test (reported (p_log p))) = mset (filter (\<lambda>c. \<not> DoSkip c) all_cases)
    \<and> exit_code_of all_cases (run_result p) \<in> {Some 0, Some 1}
    \<and> (exit_code_of all_cases (run_result p) = Some 0
        \<longleftrightarrow> (\<forall>t \<in> set (reported (p_log p)). verdict system (out_test t) (command_out t) \<in> set (case_outcomes (out_test t))))"
proof -
  note r = run_totals [OF assms]
  have "reported (p_log p) = []" if "cases_to_run all_cases = []"
    using r that by simp
  with r show ?thesis
    unfolding exit_code_zero by (auto simp: exit_code_of_def cases_to_run_def unexpected_run_def)
qed

theorem Main_exit_code_witness:
  "\<exists>p. (run_step ''Linux'' (\<lambda>c e. ex_pass c = e) (\<lambda>_. False))\<^sup>*\<^sup>*
      (ProgressIndicator (cases_to_run [ex_case ''a'', (ex_case ''b'')\<lparr>case_outcomes := [''skip'']\<rparr>]) 1) p
    \<and> mset (map out_test (reported (p_log p))) = mset [ex_case ''a'']"
proof -
  let ?cases = "[ex_case ''a'', (ex_case ''b'')\<lparr>case_outcomes := [''skip'']\<rparr>]"
  have "map_option all_joined (schedule_run ''Linux'' ex_pass (\<lambda>_. False) [0, 0, 0, 0, 0, 0, 0, 0]
      (ProgressIndicator (cases_to_run ?cases) 1)) = Some True" by code_simp
  then obtain p where p: "(run_step ''Linux'' (\<lambda>c e. ex_pass c = e) (\<lambda>_. False))\<^sup>*\<^sup>*
      (ProgressIndicator (cases_to_run ?cases) 1) p" "all_joined p" by (rule schedule_ends) simp
  from Main_exit_code [OF p ex_pass_ok(1,2), THEN conjunct1] p(1) show ?thesis
    by (intro exI [of _ p]) (simp add: DoSkip_def ex_case_def)
qed

end
