(* ===== verification/Spec2Isabelle.thy ===== *)
theory Spec2Isabelle
  imports Gyp_Shell Gyp_Sort Gyp_File_Deps Gyp_Settings Gyp_Closure Gyp_Config Gyp_Filter
    Gyp_Targets Gyp_Validate Gyp_Eval Gyp_Toolsets Gyp_Load Gyp_Parallel Gyp_Expand_Facts
    Gyp_Template Gyp_Variables Gyp_Main_Facts
    Easy_Xml Ninja_Syntax Test_Indicators Test_Suite
begin

text \<open>
  A verification library for the build tools of this repository (a source tree of node.js): the
  core of GYP, the generator of build files, under \<open>src/tools/gyp/pylib/gyp\<close>, and the test runner
  \<open>src/tools/test.py\<close>. Both are Python 2 programs.

  HOW THE PROGRAM WORKS. \<open>gyp\<close> loads \<open>.gyp\<close> files, which are Python literals, expands their variables
  and conditions, turns the targets they declare into one dictionary of qualified names, resolves the
  dependencies between targets, propagates settings along them, splits each target into
  configurations and validates the result (\<open>Load\<close> in \<open>input.py\<close>, with helpers in \<open>common.py\<close>). The
  test runner reads status files, decides which outcome each test case is expected to have, runs the
  cases and reports the differences.

  THE THEORIES, in the order in which they build on each other:
  \<^item> \<open>Py_Prelude\<close>, \<open>Py_Path\<close>, \<open>Py_Int\<close>: what the code takes from Python. An exception is the left part of
    a sum (\<open>result\<close>), a loop that may raise is \<open>rfold\<close>, a dictionary is an association list in iteration
    order, \<open>os.path\<close> is modelled for POSIX.
  \<^item> \<open>Graph_Walk\<close>: the locale \<open>shared_walk\<close>, the contract of the recursive walks that collect nodes in
    a shared list, with what such a walk returns and how much recursion depth is enough. It is
    interpreted on \<open>DeepDependencies\<close> and \<open>LinkDependencies\<close> in \<open>Gyp_Link\<close>.
  \<^item> \<open>Gyp_Common\<close>, \<open>Gyp_Shell\<close>, \<open>Gyp_Sort\<close>, \<open>Gyp_Closure\<close>: \<open>common.py\<close>. Relative paths lead back to the
    path they replace, qualified names parse, shell quoting is read back by a reference lexer, the
    topological sort is sound and fails on cycles only, the closure of a set of roots ends.
  \<^item> \<open>Gyp_Value\<close>, \<open>Gyp_Merge\<close>: the values of build files and \<open>MakePathRelative\<close>, \<open>MergeLists\<close>, \<open>MergeDicts\<close>
    of \<open>input.py\<close>.
  \<^item> \<open>Gyp_Eval\<close>, \<open>Gyp_Load\<close>, \<open>Gyp_Toolsets\<close>, \<open>Gyp_Parallel\<close>: reading build files: the evaluator of literals,
    the loading of a file with its includes, the expansion of toolsets, and the pool of workers that
    loads the files in parallel as a step relation over the scheduling state.
  \<^item> \<open>Gyp_Graph\<close>, \<open>Gyp_Deps\<close>, \<open>Gyp_File_Deps\<close>, \<open>Gyp_Link\<close>, \<open>Gyp_Settings\<close>: \<open>DependencyGraphNode\<close>, the graph
    of the targets and that of the build files, the traversals, and the passes \<open>DoDependentSettings\<close>
    and \<open>AdjustStaticLibraryDependencies\<close>. A node is identified by its \<open>ref\<close>; the node that
    \<open>set.pop()\<close> takes is the parameter \<open>pick\<close>, about which only \<open>pick xs \<in> set xs\<close> is assumed.
  \<^item> \<open>Gyp_Config\<close>, \<open>Gyp_Filter\<close>, \<open>Gyp_Targets\<close>, \<open>Gyp_Validate\<close>: configurations, list filters, the passes over
    the target dictionary, and validation.
  \<^item> \<open>Test_Expr\<close>, \<open>Test_Config\<close>: the expressions of status files with their tokenizer and parser, their
    evaluation, and the classification of test cases.
  \<^item> \<open>Test_Output\<close>, \<open>Test_Process\<close>, \<open>Test_Progress\<close>, \<open>Test_Indicators\<close>: running the tests. What a process
    left behind and how it is judged; waiting for it under a time limit, with the clock and the
    answers of the operating system as parameters; the threads that work through the queue, as a
    step relation whose invariant accounts for every test case; and what the indicators print.
  \<^item> \<open>Test_Status\<close>, \<open>Test_Suite\<close>: the reader of status files, which inverts the text of a file, the
    suites, the options and the part of \<open>Main\<close> that chooses the cases and makes the exit code.

  \<^item> \<open>Py_Repr\<close>, \<open>Py_Shlex\<close>: \<open>repr\<close> and \<open>shlex.split\<close>, which expansion uses for the keys of commands and
    for splitting text into lists.
  \<^item> \<open>Gyp_Vars\<close>, \<open>Gyp_Heap\<close>, \<open>Gyp_Expand\<close>: variable expansion. \<open>Gyp_Vars\<close> finds references in a text,
    \<open>Gyp_Heap\<close> is the store of lists and dictionaries that the code changes on the way, with the
    cache and the log of commands, and \<open>Gyp_Expand\<close> is \<open>ExpandVariables\<close> with its callers, down to
    the conditions and the dictionaries of variables.
  \<^item> \<open>Gyp_Expand_Fuel\<close>, \<open>Gyp_Expand_Logic\<close>, \<open>Gyp_Expand_Facts\<close>, \<open>Gyp_Template\<close>, \<open>Gyp_Variables\<close>: what
    expansion does: a larger bound gives the same result; the heap stays well formed (the locale
    \<open>kept\<close>, interpreted on the state and on the log); no command is run twice; a text of references
    expands as a template; which variables a dictionary adds.
  \<^item> \<open>Gyp_Target_File\<close>, \<open>Gyp_Target_Facts\<close>, \<open>Gyp_Plain\<close>: \<open>LoadTargetBuildFile\<close>. A file is read with its
    includes, its tree is copied into the heap, expanded there and read back, and what it depends on
    is loaded next; exactly what is reached is loaded. \<open>Gyp_Plain\<close> shows that storing and reading
    back loses nothing and that plain contents pass unchanged.
  \<^item> \<open>Gyp_Pipeline\<close>, \<open>Gyp_Load_Facts\<close>, \<open>Gyp_Load_Example\<close>: \<open>Load\<close>, the passes above in the order of the
    code, what the returned list, targets and data are, and a small project that is loaded step by
    step. The targets are put back into the data (\<open>put_targets\<close>), where in Python they are the same objects.
  \<^item> \<open>Gyp_Options\<close>, \<open>Gyp_Main\<close>, \<open>Gyp_Main_Facts\<close>: \<open>__init__.py\<close>. The options of the command line and the
    flags that regenerate them; \<open>gyp_main\<close>, which completes the options, finds the depth and, for
    every format, calls the generator module, \<open>Load\<close> and the generator again; a run of it.
  \<^item> \<open>Easy_Xml\<close>, \<open>Ninja_Syntax\<close>: the printers \<open>easy_xml.py\<close> and \<open>ninja_syntax.py\<close>, with readers for what
    they print: specifications, after XML 1.0 and the rules of ninja, that have no counterpart in the code.

  THE STATE OF LOADING. \<open>file_state\<close> has the module's globals (\<open>variables\<close>, \<open>data\<close>, \<open>aux_data\<close>, the
  list of loaded files) and the heap \<open>estate\<close>. \<open>load_env\<close> has what is given from outside: the file
  system, the processes (\<open>run_process\<close>), the modules (\<open>do_main\<close>), the two uses of \<open>eval\<close> (\<open>py_eval\<close> and
  \<open>eval_condition\<close>), the regular expressions, and the choices of \<open>set.pop()\<close> and of set iteration.
  Trees are values outside expansion. Two places that share one list after expansion cannot be
  values: such a run ends with \<open>NotModelled\<close>, and so does \<open>Load\<close> with parallel loading, which is
  \<open>Gyp_Parallel\<close>. In \<open>LoadTargetBuildFile\<close> the first bound is the nesting of files and the second
  that of includes and of the calls of expansion, where a step of a loop over a list is a call.
  PARAMETERS. \<open>os.path.realpath\<close> (a function on strings, assumed to return canonical paths where a
  theorem needs it), the regular-expression engine, and the choices the language leaves open. The
  iteration order of a dictionary is the order of its association list, and every theorem is about
  all of them.

  FUEL AND BOUNDS. Recursion that Python bounds by its stack takes the depth left as its first
  argument and returns \<open>RecursionLimit\<close> past it. \<open>DeepDependencies_correct\<close>, \<open>LinkDependencies_correct\<close> and
  \<open>TopologicallySorted_correct\<close> show that a depth above the number of nodes is enough; \<open>parse_depth\<close>
  is linear in the number of tokens and always enough (\<open>ParseCondition_total\<close>); \<open>evaluation_correct\<close>
  shows that some depth is enough for definitions that do not refer to themselves. A \<open>while\<close> loop that
  may not end is a \<open>partial_function\<close> whose value \<open>None\<close> is excluded by a theorem.

  NOT MODELLED. The generators (\<open>generator/*.py\<close>), which print build files for other tools, and the
  emulation of IDE settings; the vendored linters and the tools of V8; the scripts that probe or
  install on the machine; \<open>Writer.comment\<close>, which fills a text with
  \<open>textwrap\<close>; the parsing of command lines by \<open>optparse\<close>; debug output and warnings. Error messages leave
  out values that the code formats into them where they are not strings. An integer of more than 64
  bits in the text of a variable, a dictionary that changes while it is iterated, a cyclic value and
  a file that includes itself end with the error \<open>NotModelled\<close>, which no theorem takes for a result. Booleans are
  not integers (\<open>GOther\<close>), and the patterns given to the regular-expression engine are taken to be valid.
\<close>

end
